(* ===== verification/Prelude.thy ===== *)
theory Prelude
  imports Main "HOL-Library.Word"
begin

unbundle bit_operations_syntax

text \<open>
  Shared vocabulary of the development: the machine types of the library (a byte is \<open>uint8_t\<close>,
  \<open>u64\<close> is both \<open>uint64_t\<close> and the \<open>size_t\<close> of an LP64 platform), the error values that stand
  for the \<open>ndn_Error\<close> codes of the C layer and the exceptions of the C++ layer, sequencing of
  fallible operations, big-endian number encoding, and generic lemmas on lists and words that
  the component theories use through the collections declared here.
\<close>

named_theorems tlv_bytes "byte sequences that the TLV writers produce"
named_theorems tlv_defs "unfolding rules of the TLV reader and writer operations"

section \<open>Machine types and errors\<close>

type_synonym byte = "8 word"
type_synonym u32 = "32 word"
type_synonym u64 = "64 word"

text \<open>A \<open>Blob\<close> is a shared pointer to an immutable byte vector, possibly null.\<close>

type_synonym blob = "byte list option"

datatype ndn_Error =
    NDN_ERROR_read_past_the_end_of_the_input
  | NDN_ERROR_attempt_to_add_a_component_past_the_maximum_number_of_components
  | NDN_ERROR_cannot_store_more_header_bytes_than_the_size_of_headerBuffer
  | NDN_ERROR_findElementEnd_unrecognized_state
  | NDN_ERROR_DynamicUInt8Array_realloc_function_pointer_not_supplied
  | NDN_ERROR_Name_component_does_not_begin_with_the_expected_marker
  | NDN_ERROR_Invalid_length_for_nonNegativeInteger
  | NDN_ERROR_did_not_get_the_expected_TLV_type
  | NDN_ERROR_TLV_length_exceeds_buffer_length
  | NDN_ERROR_TLV_length_does_not_equal_total_length_of_nested_TLVs
  | NDN_ERROR_ElementReader_ElementListener_is_not_specified
  | NDN_ERROR_ElementReader_The_incoming_packet_exceeds_the_maximum_limit
  | NDN_ERROR_Incorrect_digest_size
  | NDN_ERROR_Unrecognized_critical_TLV_type_code
  | NDN_ERROR_Name_component_otherTypeCode_must_be_non_negative
  | NDN_ERROR_cannot_add_an_entry_past_the_maximum_number_of_entries_allowed_in_the_LpPacket
  | NDN_ERROR_cannot_add_an_entry_past_the_maximum_number_of_entries_allowed_in_the_exclude
  | NDN_ERROR_unrecognized_ndn_ContentType
  | NDN_ERROR_unrecognized_ndn_KeyLocatorType
  | NDN_ERROR_decodeKeyLocator_unrecognized_key_locator_type
  | NDN_ERROR_Calendar_time_value_out_of_range
  | NDN_ERROR_encodeSignatureInfo_unrecognized_SignatureType
  | NDN_ERROR_The_Generic_signature_encoding_is_not_a_valid_NDN_TLV_SignatureInfo
  | NDN_ERROR_Interest_has_a_selected_delegation_but_no_link_object
  | NDN_ERROR_An_Interest_may_not_have_a_selected_delegation_when_encoding_a_forwarding_hint
  | NDN_ERROR_An_Interest_may_not_have_a_link_object_when_encoding_a_forwarding_hint
  | NDN_ERROR_Unsupported_algorithm_type
  | NDN_ERROR_Error_in_generate_operation

text \<open>
  The errors of the C++ layer: an \<open>ndn_Error\<close> rethrown, a standard exception with its message,
  or a step whose behaviour C++ leaves undefined (dereferencing a null \<open>Blob\<close>, reading past the
  end of a buffer), or a step that never returns. The last two are values of the model, never
  totalised results.
\<close>

datatype error =
    Ndn ndn_Error
  | Runtime_error string
  | Invalid_argument string
  | Undefined_behaviour
  | Never_returns

text \<open>Sequencing of operations that may fail: the first error is the result.\<close>

definition bindE :: "'e + 'a \<Rightarrow> ('a \<Rightarrow> 'e + 'b) \<Rightarrow> 'e + 'b" where
  "bindE r f = (case r of Inl e \<Rightarrow> Inl e | Inr x \<Rightarrow> f x)"

lemma bindE_simps [simp]:
  "bindE (Inl e) f = Inl e"
  "bindE (Inr x) f = f x"
  by (simp_all add: bindE_def)

lemma bindE_eq_Inr:
  "bindE r f = Inr y \<longleftrightarrow> (\<exists>x. r = Inr x \<and> f x = Inr y)"
  by (cases r) simp_all

lemma bindE_assoc: "bindE (bindE r f) g = bindE r (\<lambda>x. bindE (f x) g)"
  by (cases r) simp_all

section \<open>Lists\<close>

text \<open>Writing a run of bytes into an array at an offset, as \<open>memcpy\<close> does.\<close>

definition write_at :: "'a list \<Rightarrow> nat \<Rightarrow> 'a list \<Rightarrow> 'a list" where
  "write_at arr off bs = take off arr @ bs @ drop (off + length bs) arr"

lemma length_write_at [simp]:
  "off + length bs \<le> length arr \<Longrightarrow> length (write_at arr off bs) = length arr"
  by (simp add: write_at_def)

lemma take_write_at [simp]:
  "off + length bs \<le> length arr \<Longrightarrow>
    take (off + length bs) (write_at arr off bs) = take off arr @ bs"
  by (simp add: write_at_def)

lemma take_drop_append [simp]:
  "take (length ys) (drop (length xs) (xs @ ys @ zs)) = ys"
  by simp

lemma foldl_snd_pair: "foldl (\<lambda>(a, b) x. (f a x, g b x)) (p, q) xs = (foldl f p xs, foldl g q xs)"
  by (induction xs arbitrary: p q) simp_all

section \<open>Association lists with sorted keys\<close>

text \<open>
  A \<open>std::map\<close>, and a vector kept sorted, are association lists with strictly increasing keys: the list
  is determined by the map it denotes.
\<close>

lemma map_of_list_update:
  "\<lbrakk>distinct (map fst xs); i < length xs; fst (xs ! i) = k\<rbrakk> \<Longrightarrow> map_of (xs[i := (k, v)]) = (map_of xs)(k \<mapsto> v)"
proof (induction xs arbitrary: i)
  case (Cons x xs)
  show ?case
  proof (cases i)
    case (Suc j)
    then have "fst x \<noteq> k" using Cons.prems by (metis distinct.simps(2) length_Cons length_map list.simps(9)
      nth_Cons_Suc nth_map nth_mem Suc_less_eq)
    with Suc Cons show ?thesis by (cases x) (auto simp: fun_upd_twist)
  qed (use Cons.prems in \<open>cases x; auto simp: fun_eq_iff\<close>)
qed simp

lemma map_of_insert_fresh: "k \<notin> fst ` set xs \<Longrightarrow> map_of (xs @ (k, v) # ys) = (map_of (xs @ ys))(k \<mapsto> v)"
  by (induction xs) (auto simp: fun_upd_twist)

lemma sorted_alist_unique:
  fixes xs ys :: "('a::linorder \<times> 'b) list"
  assumes "sorted_wrt (<) (map fst xs)" "sorted_wrt (<) (map fst ys)" "map_of xs = map_of ys"
  shows "xs = ys"
proof -
  have keys: "map fst xs = map fst ys"
    using assms by (intro strict_sorted_equal) (simp_all flip: dom_map_of_conv_image_fst)
  show ?thesis
  proof (rule nth_equalityI)
    show len: "length xs = length ys" using keys by (metis length_map)
    fix i assume i: "i < length xs"
    have "distinct (map fst xs)" "distinct (map fst ys)"
      using assms(1,2) by (simp_all add: strict_sorted_iff)
    then have "map_of xs (fst (xs ! i)) = Some (snd (xs ! i))" "map_of ys (fst (ys ! i)) = Some (snd (ys ! i))"
      using i len by simp_all
    moreover have "fst (xs ! i) = fst (ys ! i)" using keys i len by (metis nth_map)
    ultimately show "xs ! i = ys ! i" using assms(3) by (simp add: prod_eq_iff)
  qed
qed

text \<open>\<open>std::lower_bound\<close> with a comparison, and the insertion of an element before a position.\<close>

definition lower_bound :: "('a \<Rightarrow> 'a \<Rightarrow> bool) \<Rightarrow> 'a \<Rightarrow> 'a list \<Rightarrow> nat" where
  "lower_bound lt x xs = length (takeWhile (\<lambda>y. lt y x) xs)"

definition insert_at :: "nat \<Rightarrow> 'a \<Rightarrow> 'a list \<Rightarrow> 'a list" where
  "insert_at i x xs = take i xs @ x # drop i xs"

lemma insert_at_nonempty [simp]: "insert_at i x xs \<noteq> []"
  by (simp add: insert_at_def)

lemma set_insert_at [simp]: "set (insert_at i x xs) = insert x (set xs)"
proof -
  have "set xs = set (take i xs @ drop i xs)" by simp
  then show ?thesis by (simp only: insert_at_def set_append) auto
qed

lemma sorted_insert_lower_bound:
  fixes f :: "'a \<Rightarrow> 'b::linorder"
  assumes lt: "\<And>y. lt y x \<longleftrightarrow> f y < f x" and sorted: "sorted (map f xs)"
  shows "sorted (map f (insert_at (lower_bound lt x xs) x xs))"
proof -
  let ?P = "\<lambda>y. lt y x"
  have split: "insert_at (lower_bound lt x xs) x xs = takeWhile ?P xs @ x # dropWhile ?P xs"
    by (simp add: insert_at_def lower_bound_def takeWhile_eq_take [symmetric] dropWhile_eq_drop [symmetric])
  have parts: "sorted (map f (takeWhile ?P xs) @ map f (dropWhile ?P xs))"
    using sorted by (simp flip: map_append)
  have "\<forall>y \<in> set (takeWhile ?P xs). f y \<le> f x"
    by (auto simp: lt dest!: set_takeWhileD)
  moreover have "\<forall>y \<in> set (dropWhile ?P xs). f x \<le> f y"
  proof (cases "dropWhile ?P xs")
    case (Cons z zs)
    then have "f x \<le> f z" using hd_dropWhile [of ?P xs] by (simp add: lt)
    then show ?thesis using parts Cons by (auto simp: sorted_append)
  qed (simp only: list.set ball_empty)
  ultimately show ?thesis using parts by (auto simp: split sorted_append)
qed

lemma distinct_insert_at: "distinct (map f (insert_at i x xs)) \<longleftrightarrow> f x \<notin> f ` set xs \<and> distinct (map f xs)"
proof -
  have xs: "xs = take i xs @ drop i xs" by simp
  have "set xs = set (take i xs) \<union> set (drop i xs)" by (metis set_append xs)
  moreover have "distinct (map f xs) \<longleftrightarrow> distinct (map f (take i xs) @ map f (drop i xs))" by (simp flip: map_append)
  ultimately show ?thesis by (auto simp: insert_at_def)
qed

section \<open>Words\<close>

lemma unat_less_64 [simp]: "unat (x :: u64) < 18446744073709551616"
  using unsigned_less [of x] by simp

lemma unat_byte_less [simp]: "unat (b :: byte) < 256"
  by (rule order_less_le_trans [OF unsigned_less]) simp

lemma unat_ucast_byte [simp]: "unat (ucast (b :: byte) :: u64) = unat b"
proof -
  have "unat b < 2 ^ 64" by (rule order_less_trans [OF unat_byte_less]) simp
  then show ?thesis by (simp add: unsigned_ucast_eq take_bit_nat_eq_self)
qed

lemma unat_of_nat_u64 [simp]: "n < 2 ^ 64 \<Longrightarrow> unat (of_nat n :: u64) = n"
  by (simp add: unat_of_nat take_bit_nat_eq_self)

lemma ucast_ucast_byte: "(ucast (ucast (x :: u64) :: byte) :: u64) = take_bit 8 x"
  by (rule bit_word_eqI) (auto simp: bit_simps)

text \<open>
  \<open>be_bytes n x\<close> are the low \<open>n\<close> bytes of \<open>x\<close>, most significant first (\<open>htobe16/32/64\<close>,
  or the shifts of the portable branch); \<open>be_number\<close> is the loop
  \<open>result *= 256; result += value[i]\<close>, which wraps at 64 bits as \<open>uint64_t\<close> does.
\<close>

primrec be_bytes :: "nat \<Rightarrow> u64 \<Rightarrow> byte list" where
  "be_bytes 0 x = []"
| "be_bytes (Suc n) x = ucast (drop_bit (8 * n) x) # be_bytes n x"

definition be_number_from :: "u64 \<Rightarrow> byte list \<Rightarrow> u64" where
  "be_number_from acc bs = foldl (\<lambda>r b. r * 256 + ucast b) acc bs"

abbreviation be_number :: "byte list \<Rightarrow> u64" where
  "be_number \<equiv> be_number_from 0"

lemma length_be_bytes [simp]: "length (be_bytes n x) = n"
  by (induction n) simp_all

lemma take_bit_byte_step:
  "take_bit 8 (drop_bit (8 * n) x) * 2 ^ (8 * n) + take_bit (8 * n) x = take_bit (8 * Suc n) (x :: u64)"
proof -
  have "take_bit 8 (drop_bit (8 * n) x) = drop_bit (8 * n) (take_bit (8 * Suc n) x)"
    by (simp add: drop_bit_take_bit)
  moreover have "take_bit (8 * n) x = take_bit (8 * n) (take_bit (8 * Suc n) x)"
    by simp
  ultimately show ?thesis
    by (metis bits_ident push_bit_eq_mult)
qed

lemma be_number_from_be_bytes:
  "be_number_from acc (be_bytes n x) = acc * 2 ^ (8 * n) + take_bit (8 * n) x"
proof (induction n arbitrary: acc)
  case 0
  show ?case by (simp add: be_number_from_def)
next
  case (Suc n)
  have "be_number_from acc (be_bytes (Suc n) x) =
      be_number_from (acc * 256 + take_bit 8 (drop_bit (8 * n) x)) (be_bytes n x)"
    by (simp add: be_number_from_def ucast_ucast_byte)
  also have "\<dots> = (acc * 256 + take_bit 8 (drop_bit (8 * n) x)) * 2 ^ (8 * n) + take_bit (8 * n) x"
    by (rule Suc.IH)
  also have "\<dots> = acc * (256 * 2 ^ (8 * n)) +
      (take_bit 8 (drop_bit (8 * n) x) * 2 ^ (8 * n) + take_bit (8 * n) x)"
    by (simp add: algebra_simps)
  also have "\<dots> = acc * 2 ^ (8 * Suc n) + take_bit (8 * Suc n) x"
    by (simp only: take_bit_byte_step) (simp add: power_add)
  finally show ?case .
qed

lemma take_bit_u64_small: "x < 2 ^ n \<Longrightarrow> n < 64 \<Longrightarrow> take_bit n (x :: u64) = x"
  by (simp add: less_mask_eq take_bit_eq_mask)

lemma take_bit_64_u64 [simp]: "take_bit 64 (x :: u64) = x"
  by (simp add: take_bit_word_eq_self)

lemma be_number_be_bytes:
  "be_number (be_bytes 8 x) = x"
  "x < 256 \<Longrightarrow> be_number (be_bytes 1 x) = x"
  "x < 65536 \<Longrightarrow> be_number (be_bytes 2 x) = x"
  "x < 4294967296 \<Longrightarrow> be_number (be_bytes 4 x) = x"
  using be_number_from_be_bytes [of 0 8 x] be_number_from_be_bytes [of 0 1 x]
    be_number_from_be_bytes [of 0 2 x] be_number_from_be_bytes [of 0 4 x]
    take_bit_u64_small [of x 8] take_bit_u64_small [of x 16] take_bit_u64_small [of x 32]
  by simp_all

end
