(* ===== verification/Tlv.thy ===== *)
theory Tlv
  imports Prelude
begin

text \<open>
  The TLV encoder: \<open>src/c/encoding/tlv/tlv-encoder.{h,c}\<close> over the growable output array of
  \<open>src/c/util/dynamic-uint8-array.{h,c}\<close>.
  Writers share one contract, the locale \<open>tlv_writer\<close>: the dry pass (\<open>enableOutput = 0\<close>)
  advances the offset by exactly the number of bytes the real pass appends, and the real pass
  fails exactly when the bytes do not fit a buffer that cannot grow.
\<close>

section \<open>The encoder\<close>

text \<open>The offset is a \<open>size_t\<close> in the source; no array in memory is long enough for it to wrap.\<close>

record encoder =
  enc_array :: "byte list"
  enc_realloc :: bool
  enc_offset :: nat
  enc_enableOutput :: bool

type_synonym writer = "encoder \<Rightarrow> ndn_Error + encoder"

definition TlvEncoder :: "nat \<Rightarrow> encoder" where
  "TlvEncoder initialLength =
     \<lparr>enc_array = replicate initialLength 0, enc_realloc = True, enc_offset = 0,
      enc_enableOutput = True\<rparr>"

definition enc_finish :: "encoder \<Rightarrow> blob" where
  "enc_finish e = Some (take (enc_offset e) (enc_array e))"

text \<open>
  \<open>realloc\<close> is \<open>DynamicUInt8Vector::realloc\<close>: the vector is resized and the new bytes are zero.
\<close>

definition reallocArray :: "encoder \<Rightarrow> nat \<Rightarrow> ndn_Error + encoder" where
  "reallocArray e len =
     (if \<not> enc_realloc e then Inl NDN_ERROR_DynamicUInt8Array_realloc_function_pointer_not_supplied
      else
        let newLength = length (enc_array e) * 2;
            newLength = (if len > newLength then len else newLength)
        in Inr (e\<lparr>enc_array :=
              enc_array e @ replicate (newLength - length (enc_array e)) 0\<rparr>))"

definition ensureLength :: "encoder \<Rightarrow> nat \<Rightarrow> ndn_Error + encoder" where
  "ensureLength e len =
     (if length (enc_array e) \<ge> len then Inr e else reallocArray e len)"

definition writeArrayEnabled :: "byte list \<Rightarrow> writer" where
  "writeArrayEnabled bs e =
     bindE (ensureLength e (enc_offset e + length bs))
       (\<lambda>e. Inr (e\<lparr>enc_array := write_at (enc_array e) (enc_offset e) bs,
                   enc_offset := enc_offset e + length bs\<rparr>))"

definition sizeOfVarNumber :: "u64 \<Rightarrow> nat" where
  "sizeOfVarNumber varNumber =
     (if varNumber < 253 then 1
      else if varNumber \<le> 0xffff then 3
      else if varNumber \<le> 0xffffffff then 5
      else 9)"

definition writeVarNumberEnabled :: "u64 \<Rightarrow> writer" where
  "writeVarNumberEnabled varNumber e =
     (if varNumber < 253 then writeArrayEnabled [ucast varNumber] e
      else if varNumber \<le> 0xffff then writeArrayEnabled (253 # be_bytes 2 varNumber) e
      else if varNumber \<le> 0xffffffff then writeArrayEnabled (254 # be_bytes 4 varNumber) e
      else writeArrayEnabled (255 # be_bytes 8 varNumber) e)"

definition writeVarNumber :: "u64 \<Rightarrow> writer" where
  "writeVarNumber varNumber e =
     (if enc_enableOutput e then writeVarNumberEnabled varNumber e
      else Inr (e\<lparr>enc_offset := enc_offset e + sizeOfVarNumber varNumber\<rparr>))"

definition writeTypeAndLength :: "u32 \<Rightarrow> nat \<Rightarrow> writer" where
  "writeTypeAndLength type len e =
     (if enc_enableOutput e then
        bindE (writeVarNumberEnabled (ucast type) e) (writeVarNumberEnabled (of_nat len))
      else Inr (e\<lparr>enc_offset := enc_offset e +
             (sizeOfVarNumber (ucast type) + sizeOfVarNumber (of_nat len))\<rparr>))"

definition sizeOfNonNegativeInteger :: "u64 \<Rightarrow> nat" where
  "sizeOfNonNegativeInteger value =
     (if value \<le> 0xff then 1
      else if value \<le> 0xffff then 2
      else if value \<le> 0xffffffff then 4
      else 8)"

definition writeNonNegativeIntegerEnabled :: "u64 \<Rightarrow> writer" where
  "writeNonNegativeIntegerEnabled value e =
     (if value \<le> 0xff then writeArrayEnabled [ucast value] e
      else if value \<le> 0xffff then writeArrayEnabled (be_bytes 2 value) e
      else if value \<le> 0xffffffff then writeArrayEnabled (be_bytes 4 value) e
      else writeArrayEnabled (be_bytes 8 value) e)"

definition writeNonNegativeInteger :: "u64 \<Rightarrow> writer" where
  "writeNonNegativeInteger value e =
     (if enc_enableOutput e then writeNonNegativeIntegerEnabled value e
      else Inr (e\<lparr>enc_offset := enc_offset e + sizeOfNonNegativeInteger value\<rparr>))"

definition writeArray :: "byte list \<Rightarrow> writer" where
  "writeArray bs e =
     (if enc_enableOutput e then writeArrayEnabled bs e
      else Inr (e\<lparr>enc_offset := enc_offset e + length bs\<rparr>))"

definition sizeOfBlobTlv :: "u32 \<Rightarrow> byte list \<Rightarrow> nat" where
  "sizeOfBlobTlv type value =
     sizeOfVarNumber (ucast type) + sizeOfVarNumber (of_nat (length value)) + length value"

definition writeBlobTlvEnabled :: "u32 \<Rightarrow> byte list \<Rightarrow> writer" where
  "writeBlobTlvEnabled type value e =
     bindE (writeTypeAndLength type (length value) e) (writeArrayEnabled value)"

definition writeBlobTlv :: "u32 \<Rightarrow> byte list \<Rightarrow> writer" where
  "writeBlobTlv type value e =
     (if enc_enableOutput e then writeBlobTlvEnabled type value e
      else Inr (e\<lparr>enc_offset := enc_offset e + sizeOfBlobTlv type value\<rparr>))"

definition writeOptionalBlobTlv :: "u32 \<Rightarrow> blob \<Rightarrow> writer" where
  "writeOptionalBlobTlv type value e =
     (case value of
        None \<Rightarrow> Inr e
      | Some bs \<Rightarrow> if length bs > 0 then writeBlobTlv type bs e else Inr e)"

definition writeNonNegativeIntegerTlv :: "u32 \<Rightarrow> u64 \<Rightarrow> writer" where
  "writeNonNegativeIntegerTlv type value e =
     (let sizeOfInteger = sizeOfNonNegativeInteger value in
      if enc_enableOutput e then
        bindE (writeTypeAndLength type sizeOfInteger e) (writeNonNegativeIntegerEnabled value)
      else Inr (e\<lparr>enc_offset := enc_offset e +
             (sizeOfVarNumber (ucast type) + sizeOfVarNumber (of_nat sizeOfInteger) +
              sizeOfInteger)\<rparr>))"

definition writeOptionalNonNegativeIntegerTlv :: "u32 \<Rightarrow> int \<Rightarrow> writer" where
  "writeOptionalNonNegativeIntegerTlv type value e =
     (if value \<ge> 0 then writeNonNegativeIntegerTlv type (of_int value) e else Inr e)"

definition writeNestedTlv :: "u32 \<Rightarrow> writer \<Rightarrow> bool \<Rightarrow> writer" where
  "writeNestedTlv type writeValue omitZeroLength e =
     (let originalEnableOutput = enc_enableOutput e;
          saveOffset = enc_offset e in
      bindE (writeValue (e\<lparr>enc_enableOutput := False\<rparr>)) (\<lambda>e1.
        let valueLength = enc_offset e1 - saveOffset in
        if omitZeroLength \<and> valueLength = 0 then
          Inr (e1\<lparr>enc_enableOutput := originalEnableOutput\<rparr>)
        else if originalEnableOutput then
          bindE (writeTypeAndLength type valueLength
                  (e1\<lparr>enc_offset := saveOffset, enc_enableOutput := True\<rparr>))
            writeValue
        else writeTypeAndLength type valueLength e1))"

subsection \<open>The contract of a writer\<close>

definition enc_wf :: "encoder \<Rightarrow> bool" where
  "enc_wf e \<longleftrightarrow> enc_offset e \<le> length (enc_array e)"

definition encoded :: "encoder \<Rightarrow> byte list" where
  "encoded e = take (enc_offset e) (enc_array e)"

text \<open>The output has room for \<open>n\<close> more bytes, possibly after growing.\<close>

definition enc_fits :: "encoder \<Rightarrow> nat \<Rightarrow> bool" where
  "enc_fits e n \<longleftrightarrow> enc_realloc e \<or> enc_offset e + n \<le> length (enc_array e)"

text \<open>\<open>e'\<close> is \<open>e\<close> with \<open>bs\<close> appended to the encoding and nothing else visible changed.\<close>

definition appends :: "encoder \<Rightarrow> byte list \<Rightarrow> encoder \<Rightarrow> bool" where
  "appends e bs e' \<longleftrightarrow>
     (\<exists>arr. e' = e\<lparr>enc_array := arr, enc_offset := enc_offset e + length bs\<rparr> \<and>
        enc_offset e + length bs \<le> length arr \<and>
        take (enc_offset e + length bs) arr = encoded e @ bs \<and>
        (\<not> enc_realloc e \<longrightarrow> length arr = length (enc_array e)))"

locale tlv_writer =
  fixes "write" :: writer
    and bytes :: "byte list"
  assumes write_disabled:
      "\<not> enc_enableOutput e \<Longrightarrow> write e = Inr (e\<lparr>enc_offset := enc_offset e + length bytes\<rparr>)"
    and write_enabled:
      "enc_enableOutput e \<Longrightarrow> enc_wf e \<Longrightarrow> enc_fits e (length bytes) \<Longrightarrow>
        \<exists>e'. write e = Inr e' \<and> appends e bytes e'"
    and write_overflow:
      "enc_enableOutput e \<Longrightarrow> enc_wf e \<Longrightarrow> \<not> enc_fits e (length bytes) \<Longrightarrow>
        \<exists>err. write e = Inl err"
begin

text \<open>On a fresh growable encoder the write succeeds and \<open>finish\<close> returns exactly its bytes.\<close>

lemma write_fresh:
  "\<exists>e'. write (TlvEncoder n) = Inr e' \<and> enc_finish e' = Some bytes"
proof -
  obtain e' where "write (TlvEncoder n) = Inr e'" "appends (TlvEncoder n) bytes e'"
    using write_enabled [of "TlvEncoder n"]
    by (auto simp: TlvEncoder_def enc_wf_def enc_fits_def)
  then show ?thesis
    by (auto simp: appends_def enc_finish_def encoded_def TlvEncoder_def)
qed

end

lemma enc_enableOutput_same [simp]:
  "enc_enableOutput e \<Longrightarrow> e\<lparr>enc_enableOutput := True\<rparr> = e"
  "\<not> enc_enableOutput e \<Longrightarrow> e\<lparr>enc_enableOutput := False\<rparr> = e"
  by (cases e; simp)+

lemma appends_wf: "appends e bs e' \<Longrightarrow> enc_wf e'"
  by (auto simp: appends_def enc_wf_def)

lemma appends_enable: "appends e bs e' \<Longrightarrow> enc_enableOutput e' = enc_enableOutput e"
  by (auto simp: appends_def)

lemma appends_fits: "appends e xs e' \<Longrightarrow> enc_fits e' n \<longleftrightarrow> enc_fits e (length xs + n)"
  by (auto simp: appends_def enc_fits_def)

lemma appends_trans: "appends e xs e' \<Longrightarrow> appends e' ys e'' \<Longrightarrow> appends e (xs @ ys) e''"
  by (auto simp: appends_def encoded_def add.assoc)

lemma appends_encoded: "appends e bs e' \<Longrightarrow> encoded e' = encoded e @ bs"
  by (auto simp: appends_def encoded_def)

lemma ensureLength_fits:
  assumes "enc_fits e n" "enc_wf e"
  obtains zs where "ensureLength e (enc_offset e + n) = Inr (e\<lparr>enc_array := enc_array e @ zs\<rparr>)"
    "enc_offset e + n \<le> length (enc_array e @ zs)" "\<not> enc_realloc e \<longrightarrow> zs = []"
proof (cases "enc_offset e + n \<le> length (enc_array e)")
  case True
  then show ?thesis using that [of "[]"] by (simp add: ensureLength_def)
next
  case False
  then have "enc_realloc e" using assms by (simp add: enc_fits_def)
  with False show ?thesis
    by (intro that) (auto simp: ensureLength_def reallocArray_def Let_def)
qed

lemma writeArrayEnabled_appends:
  assumes "enc_wf e" "enc_fits e (length bs)"
  shows "\<exists>e'. writeArrayEnabled bs e = Inr e' \<and> appends e bs e'"
proof -
  obtain zs where z: "ensureLength e (enc_offset e + length bs) =
      Inr (e\<lparr>enc_array := enc_array e @ zs\<rparr>)"
    "enc_offset e + length bs \<le> length (enc_array e @ zs)" "\<not> enc_realloc e \<longrightarrow> zs = []"
    using ensureLength_fits [OF assms(2,1)] by blast
  show ?thesis
    unfolding writeArrayEnabled_def appends_def
    using z assms(1) by (auto simp: enc_wf_def encoded_def)
qed

lemma writeArrayEnabled_overflow:
  "\<not> enc_fits e (length bs) \<Longrightarrow> \<exists>err. writeArrayEnabled bs e = Inl err"
  by (auto simp: writeArrayEnabled_def ensureLength_def reallocArray_def enc_fits_def)

subsection \<open>The writers meet the contract\<close>

definition varNumberBytes :: "u64 \<Rightarrow> byte list" where
  "varNumberBytes v =
     (if v < 253 then [ucast v]
      else if v \<le> 0xffff then 253 # be_bytes 2 v
      else if v \<le> 0xffffffff then 254 # be_bytes 4 v
      else 255 # be_bytes 8 v)"

definition nonNegativeIntegerBytes :: "u64 \<Rightarrow> byte list" where
  "nonNegativeIntegerBytes v =
     (if v \<le> 0xff then [ucast v]
      else if v \<le> 0xffff then be_bytes 2 v
      else if v \<le> 0xffffffff then be_bytes 4 v
      else be_bytes 8 v)"

definition typeAndLengthBytes :: "u32 \<Rightarrow> nat \<Rightarrow> byte list" where
  "typeAndLengthBytes t n = varNumberBytes (ucast t) @ varNumberBytes (of_nat n)"

definition tlvBytes :: "u32 \<Rightarrow> byte list \<Rightarrow> byte list" where
  "tlvBytes t bs = typeAndLengthBytes t (length bs) @ bs"

lemma length_varNumberBytes [simp]: "length (varNumberBytes v) = sizeOfVarNumber v"
  by (simp add: varNumberBytes_def sizeOfVarNumber_def del: be_bytes.simps)

lemma length_nonNegativeIntegerBytes [simp]:
  "length (nonNegativeIntegerBytes v) = sizeOfNonNegativeInteger v"
  by (simp add: nonNegativeIntegerBytes_def sizeOfNonNegativeInteger_def del: be_bytes.simps)

lemma length_tlvBytes [simp]: "length (tlvBytes t bs) = sizeOfBlobTlv t bs"
  by (simp add: tlvBytes_def typeAndLengthBytes_def sizeOfBlobTlv_def)

lemma writeVarNumberEnabled_eq: "writeVarNumberEnabled v = writeArrayEnabled (varNumberBytes v)"
  by (rule ext) (simp add: writeVarNumberEnabled_def varNumberBytes_def)

lemma writeNonNegativeIntegerEnabled_eq:
  "writeNonNegativeIntegerEnabled v = writeArrayEnabled (nonNegativeIntegerBytes v)"
  by (rule ext) (simp add: writeNonNegativeIntegerEnabled_def nonNegativeIntegerBytes_def)

lemma tlv_writerI:
  assumes "\<And>e. \<not> enc_enableOutput e \<Longrightarrow> w e = Inr (e\<lparr>enc_offset := enc_offset e + length bs\<rparr>)"
    and "\<And>e. enc_enableOutput e \<Longrightarrow> w e = writeArrayEnabled bs e"
  shows "tlv_writer w bs"
  by unfold_locales (simp_all add: assms writeArrayEnabled_appends writeArrayEnabled_overflow)

interpretation arr: tlv_writer "writeArray bs" bs for bs
  by (rule tlv_writerI) (simp_all add: writeArray_def)

interpretation vn: tlv_writer "writeVarNumber v" "varNumberBytes v" for v
  by (rule tlv_writerI) (simp_all add: writeVarNumber_def writeVarNumberEnabled_eq)

interpretation nni: tlv_writer "writeNonNegativeInteger v" "nonNegativeIntegerBytes v" for v
  by (rule tlv_writerI)
    (simp_all add: writeNonNegativeInteger_def writeNonNegativeIntegerEnabled_eq)

lemma appends_Nil: "enc_wf e \<Longrightarrow> appends e [] e"
  unfolding appends_def encoded_def enc_wf_def by (rule exI [of _ "enc_array e"]) simp

lemma tlv_writer_Nil: "tlv_writer Inr []"
proof
  fix e :: encoder
  show "Inr e = Inr (e\<lparr>enc_offset := enc_offset e + length []\<rparr>)" by simp
next
  fix e :: encoder
  assume "enc_wf e"
  then have "appends e [] e" by (rule appends_Nil)
  then show "\<exists>e'. Inr e = Inr e' \<and> appends e [] e'" by blast
next
  fix e :: encoder
  assume "enc_wf e" "\<not> enc_fits e (length [])"
  then show "\<exists>err. Inr e = Inl err" by (simp add: enc_wf_def enc_fits_def)
qed

text \<open>Writers compose: one after the other appends both byte sequences.\<close>

lemma tlv_writer_seq:
  assumes "tlv_writer w1 xs" "tlv_writer w2 ys"
  shows "tlv_writer (\<lambda>e. bindE (w1 e) w2) (xs @ ys)"
proof
  fix e :: encoder
  assume "\<not> enc_enableOutput e"
  then show "bindE (w1 e) w2 = Inr (e\<lparr>enc_offset := enc_offset e + length (xs @ ys)\<rparr>)"
    using assms by (simp add: tlv_writer.write_disabled)
next
  fix e :: encoder
  assume e: "enc_enableOutput e" "enc_wf e" "enc_fits e (length (xs @ ys))"
  then have "enc_fits e (length xs)" by (auto simp: enc_fits_def)
  then obtain e1 where e1: "w1 e = Inr e1" "appends e xs e1"
    using tlv_writer.write_enabled [OF assms(1) e(1,2)] by blast
  with e have "enc_enableOutput e1" "enc_wf e1" "enc_fits e1 (length ys)"
    by (simp_all add: appends_wf [OF e1(2)] appends_fits [OF e1(2)] appends_enable [OF e1(2)])
  then obtain e2 where "w2 e1 = Inr e2" "appends e1 ys e2"
    using tlv_writer.write_enabled [OF assms(2)] by blast
  then show "\<exists>e'. bindE (w1 e) w2 = Inr e' \<and> appends e (xs @ ys) e'"
    using e1 by (auto intro: appends_trans)
next
  fix e :: encoder
  assume e: "enc_enableOutput e" "enc_wf e" "\<not> enc_fits e (length (xs @ ys))"
  show "\<exists>err. bindE (w1 e) w2 = Inl err"
  proof (cases "enc_fits e (length xs)")
    case True
    then obtain e1 where e1: "w1 e = Inr e1" "appends e xs e1"
      using tlv_writer.write_enabled [OF assms(1) e(1,2)] by blast
    with e have "enc_enableOutput e1" "enc_wf e1" "\<not> enc_fits e1 (length ys)"
      by (simp_all add: appends_wf [OF e1(2)] appends_fits [OF e1(2)] appends_enable [OF e1(2)])
    then show ?thesis using tlv_writer.write_overflow [OF assms(2)] e1 by fastforce
  next
    case False
    then show ?thesis using tlv_writer.write_overflow [OF assms(1) e(1,2)] by auto
  qed
qed

lemma tlv_writer_cong:
  assumes "tlv_writer w bs" "\<And>e. w' e = w e"
  shows "tlv_writer w' bs"
proof -
  have "w' = w" using assms(2) by blast
  with assms(1) show ?thesis by simp
qed

lemma writeArrayEnabled_enable:
  "writeArrayEnabled bs e = Inr e' \<Longrightarrow> enc_enableOutput e' = enc_enableOutput e"
  by (auto simp: writeArrayEnabled_def bindE_eq_Inr ensureLength_def reallocArray_def Let_def
      split: if_splits)

lemma bindE_writeArrayEnabled_cong:
  "(\<And>e'. enc_enableOutput e' = enc_enableOutput e \<Longrightarrow> f e' = g e') \<Longrightarrow>
    bindE (writeArrayEnabled bs e) f = bindE (writeArrayEnabled bs e) g"
  by (cases "writeArrayEnabled bs e") (auto dest: writeArrayEnabled_enable)

lemma writeTypeAndLength_eq:
  "writeTypeAndLength t n e = bindE (writeVarNumber (ucast t) e) (writeVarNumber (of_nat n))"
proof (cases "enc_enableOutput e")
  case True
  have "bindE (writeArrayEnabled (varNumberBytes (ucast t)) e) (writeArrayEnabled bs) =
      bindE (writeArrayEnabled (varNumberBytes (ucast t)) e) (writeVarNumber (of_nat n))"
    if "bs = varNumberBytes (of_nat n)" for bs
    using True that
    by (intro bindE_writeArrayEnabled_cong) (simp add: writeVarNumber_def writeVarNumberEnabled_eq)
  with True show ?thesis
    by (simp add: writeTypeAndLength_def writeVarNumber_def writeVarNumberEnabled_eq)
next
  case False
  then show ?thesis by (simp add: writeTypeAndLength_def vn.write_disabled add.assoc)
qed

interpretation tl: tlv_writer "writeTypeAndLength t n" "typeAndLengthBytes t n" for t n
  unfolding typeAndLengthBytes_def
  by (rule tlv_writer_cong [OF tlv_writer_seq [OF vn.tlv_writer_axioms vn.tlv_writer_axioms]])
    (rule writeTypeAndLength_eq)

lemma tl_enable:
  assumes "writeTypeAndLength t n e = Inr e'"
  shows "enc_enableOutput e' = enc_enableOutput e"
  using assms
  by (auto simp: writeTypeAndLength_def writeVarNumberEnabled_eq bindE_eq_Inr
      dest: writeArrayEnabled_enable split: if_splits)

lemma bindE_tl_cong:
  "(\<And>e'. enc_enableOutput e' = enc_enableOutput e \<Longrightarrow> f e' = g e') \<Longrightarrow>
    bindE (writeTypeAndLength t n e) f = bindE (writeTypeAndLength t n e) g"
  by (cases "writeTypeAndLength t n e") (auto dest: tl_enable)

lemma writeBlobTlv_eq:
  "writeBlobTlv t bs e = bindE (writeTypeAndLength t (length bs) e) (writeArray bs)"
proof (cases "enc_enableOutput e")
  case True
  then show ?thesis
    by (simp add: writeBlobTlv_def writeBlobTlvEnabled_def)
      (intro bindE_tl_cong, simp add: writeArray_def)
next
  case False
  then show ?thesis
    by (simp add: writeBlobTlv_def tl.write_disabled arr.write_disabled sizeOfBlobTlv_def
        typeAndLengthBytes_def add.assoc)
qed

interpretation bt: tlv_writer "writeBlobTlv t bs" "tlvBytes t bs" for t bs
  unfolding tlvBytes_def
  by (rule tlv_writer_cong [OF tlv_writer_seq [OF tl.tlv_writer_axioms arr.tlv_writer_axioms]])
    (rule writeBlobTlv_eq)

lemma writeNonNegativeIntegerTlv_eq:
  "writeNonNegativeIntegerTlv t v e =
    bindE (writeTypeAndLength t (sizeOfNonNegativeInteger v) e) (writeNonNegativeInteger v)"
proof (cases "enc_enableOutput e")
  case True
  then show ?thesis
    by (simp add: writeNonNegativeIntegerTlv_def Let_def)
      (intro bindE_tl_cong, simp add: writeNonNegativeInteger_def)
next
  case False
  then show ?thesis
    by (simp add: writeNonNegativeIntegerTlv_def tl.write_disabled nni.write_disabled Let_def
        typeAndLengthBytes_def add.assoc)
qed

interpretation nt: tlv_writer "writeNonNegativeIntegerTlv t v" "tlvBytes t (nonNegativeIntegerBytes v)"
  for t v
  unfolding tlvBytes_def length_nonNegativeIntegerBytes
  by (rule tlv_writer_cong [OF tlv_writer_seq [OF tl.tlv_writer_axioms nni.tlv_writer_axioms]])
    (rule writeNonNegativeIntegerTlv_eq)

subsection \<open>Nested TLVs: the two passes agree\<close>

text \<open>
  \<open>writeNestedTlv\<close> runs its callback twice, first to measure and then to write. For every
  callback that meets the contract the result is again a writer: type, length of the value and
  the value, or nothing when an empty value is to be omitted.
\<close>

lemma writeNestedTlv_enabled:
  assumes "tlv_writer w bs" "enc_enableOutput e" "\<not> (om \<and> bs = [])"
  shows "writeNestedTlv t w om e = bindE (writeTypeAndLength t (length bs) e) w"
proof -
  have "w (e\<lparr>enc_enableOutput := False\<rparr>) =
      Inr (e\<lparr>enc_enableOutput := False, enc_offset := enc_offset e + length bs\<rparr>)"
    using tlv_writer.write_disabled [OF assms(1), of "e\<lparr>enc_enableOutput := False\<rparr>"] by simp
  then show ?thesis using assms(2,3)
    by (auto simp: writeNestedTlv_def Let_def)
qed

lemma tlv_writer_nested:
  assumes w: "tlv_writer w bs"
  shows "tlv_writer (writeNestedTlv t w om) (if om \<and> bs = [] then [] else tlvBytes t bs)"
proof (cases "om \<and> bs = []")
  case True
  have "w (e\<lparr>enc_enableOutput := False\<rparr>) = Inr (e\<lparr>enc_enableOutput := False\<rparr>)" for e
    using tlv_writer.write_disabled [OF w, of "e\<lparr>enc_enableOutput := False\<rparr>"] True by simp
  then have "writeNestedTlv t w om e = Inr e" for e
    using True by (simp add: writeNestedTlv_def Let_def)
  then show ?thesis using tlv_writer_cong [OF tlv_writer_Nil] True by auto
next
  case False
  have "writeNestedTlv t w om e = bindE (writeTypeAndLength t (length bs) e) w" for e
  proof (cases "enc_enableOutput e")
    case True
    then show ?thesis by (rule writeNestedTlv_enabled [OF w _ False])
  next
    case False': False
    then have "w (e\<lparr>enc_enableOutput := False\<rparr>) =
        Inr (e\<lparr>enc_offset := enc_offset e + length bs\<rparr>)"
      using tlv_writer.write_disabled [OF w, of e] by simp
    with False False' show ?thesis
      by (auto simp: writeNestedTlv_def Let_def tl.write_disabled tlv_writer.write_disabled [OF w]
          algebra_simps)
  qed
  then show ?thesis
    using tlv_writer_cong [OF tlv_writer_seq [OF tl.tlv_writer_axioms w]] False
    by (auto simp: tlvBytes_def)
qed

text \<open>
  C25. The two passes of \<open>writeNestedTlv\<close> agree. For every callback that appends a fixed byte
  sequence \<open>bs\<close> when output is enabled and advances the offset by its length when it is not, the
  nested writer on a growable encoder appends exactly type, length and \<open>bs\<close> (or nothing, when
  \<open>bs\<close> is empty and may be omitted) to what was there.
\<close>

theorem writeNestedTlv_appends:
  assumes "tlv_writer w bs" and "enc_wf e" and "enc_enableOutput e" and "enc_realloc e"
  shows "\<exists>e'. writeNestedTlv t w omitZeroLength e = Inr e' \<and>
    encoded e' = encoded e @ (if omitZeroLength \<and> bs = [] then [] else tlvBytes t bs)"
proof -
  have w: "tlv_writer (writeNestedTlv t w omitZeroLength)
      (if omitZeroLength \<and> bs = [] then [] else tlvBytes t bs)"
    by (rule tlv_writer_nested [OF assms(1)])
  show ?thesis
    using tlv_writer.write_enabled [OF w assms(3,2)] assms(4) appends_encoded
    by (auto simp: enc_fits_def)
qed

theorem writeNestedTlv_appends_witness:
  "\<exists>e'. writeNestedTlv 7 (writeBlobTlv 8 [65]) False (TlvEncoder 1) = Inr e' \<and>
    encoded e' = encoded (TlvEncoder 1) @
      (if False \<and> tlvBytes 8 [65] = [] then [] else tlvBytes 7 (tlvBytes 8 [65]))"
  by (rule writeNestedTlv_appends [OF bt.tlv_writer_axioms])
    (simp_all add: TlvEncoder_def enc_wf_def)

end
