(* ===== verification/Tlv_Decoder.thy ===== *)
theory Tlv_Decoder
  imports Tlv
begin

text \<open>
  The TLV decoder, \<open>src/c/encoding/tlv/tlv-decoder.{h,c}\<close>. Offsets and lengths are \<open>size_t\<close>,
  kept at 64 bits: the bounds checks of the source add an offset to a length read from the input,
  and that sum wraps. A reader returns the value and the decoder with its new offset, or the
  \<open>ndn_Error\<close>. The locale \<open>tlv_codec\<close> pairs a writer of theory Tlv with the reader that gives its
  value back.
\<close>

section \<open>The decoder\<close>

record decoder =
  dec_input :: "byte list"
  dec_offset :: u64

type_synonym 'a reader = "decoder \<Rightarrow> ndn_Error + ('a \<times> decoder)"

text \<open>An \<open>ndn_Blob\<close> that points into the input: where it begins and how long it is.\<close>

record slice =
  slice_begin :: u64
  slice_length :: u64

definition dec_initialize :: "byte list \<Rightarrow> decoder" where
  "dec_initialize inp = \<lparr>dec_input = inp, dec_offset = 0\<rparr>"

definition inputLength :: "decoder \<Rightarrow> u64" where
  "inputLength d = of_nat (length (dec_input d))"

definition upcoming :: "decoder \<Rightarrow> byte list" where
  "upcoming d = drop (unat (dec_offset d)) (dec_input d)"

definition advance :: "decoder \<Rightarrow> nat \<Rightarrow> decoder" where
  "advance d n = d\<lparr>dec_offset := dec_offset d + of_nat n\<rparr>"

definition readExtendedVarNumber :: "byte \<Rightarrow> u64 reader" where
  "readExtendedVarNumber firstOctet d =
     (if firstOctet = 253 then
        if dec_offset d + 2 > inputLength d then Inl NDN_ERROR_read_past_the_end_of_the_input
        else Inr (be_number (take 2 (upcoming d)), d\<lparr>dec_offset := dec_offset d + 2\<rparr>)
      else if firstOctet = 254 then
        if dec_offset d + 4 > inputLength d then Inl NDN_ERROR_read_past_the_end_of_the_input
        else Inr (be_number (take 4 (upcoming d)), d\<lparr>dec_offset := dec_offset d + 4\<rparr>)
      else
        if dec_offset d + 8 > inputLength d then Inl NDN_ERROR_read_past_the_end_of_the_input
        else Inr (be_number (take 8 (upcoming d)), d\<lparr>dec_offset := dec_offset d + 8\<rparr>))"

definition readVarNumber :: "u64 reader" where
  "readVarNumber d =
     (if dec_offset d \<ge> inputLength d then Inl NDN_ERROR_read_past_the_end_of_the_input
      else
        let firstOctet = hd (upcoming d);
            d = d\<lparr>dec_offset := dec_offset d + 1\<rparr>
        in if firstOctet < 253 then Inr (ucast firstOctet, d)
           else readExtendedVarNumber firstOctet d)"

definition readTypeAndLength :: "u32 \<Rightarrow> u64 reader" where
  "readTypeAndLength expectedType d =
     bindE (readVarNumber d) (\<lambda>(type, d).
       if type \<noteq> ucast expectedType then Inl NDN_ERROR_did_not_get_the_expected_TLV_type
       else bindE (readVarNumber d) (\<lambda>(len, d).
         if dec_offset d + len > inputLength d then Inl NDN_ERROR_TLV_length_exceeds_buffer_length
         else Inr (len, d)))"

definition readNestedTlvsStart :: "u32 \<Rightarrow> u64 reader" where
  "readNestedTlvsStart expectedType d =
     bindE (readTypeAndLength expectedType d) (\<lambda>(len, d). Inr (dec_offset d + len, d))"

text \<open>
  The loop of \<open>skipRemainingNestedTlvs\<close> may never end (see \<open>skip_can_loop\<close>), so not returning
  is the value \<open>None\<close>.
\<close>

partial_function (option) skipRemainingNestedTlvs ::
    "decoder \<Rightarrow> u64 \<Rightarrow> bool \<Rightarrow> (ndn_Error + decoder) option" where
  "skipRemainingNestedTlvs d endOffset skipCritical =
     (if dec_offset d < endOffset then
        (case readVarNumber d of
           Inl err \<Rightarrow> Some (Inl err)
         | Inr (type, d1) \<Rightarrow>
             (case readVarNumber d1 of
                Inl err \<Rightarrow> Some (Inl err)
              | Inr (len, d2) \<Rightarrow>
                  (if (type \<le> 31 \<or> type AND 1 = 1) \<and> \<not> skipCritical
                   then Some (Inl NDN_ERROR_Unrecognized_critical_TLV_type_code)
                   else if dec_offset d2 + len > inputLength d2
                   then Some (Inl NDN_ERROR_TLV_length_exceeds_buffer_length)
                   else skipRemainingNestedTlvs
                          (d2\<lparr>dec_offset := dec_offset d2 + len\<rparr>) endOffset skipCritical)))
      else if dec_offset d \<noteq> endOffset
      then Some (Inl NDN_ERROR_TLV_length_does_not_equal_total_length_of_nested_TLVs)
      else Some (Inr d))"

declare skipRemainingNestedTlvs.simps [code]

definition finishNestedTlvs :: "decoder \<Rightarrow> u64 \<Rightarrow> (ndn_Error + decoder) option" where
  "finishNestedTlvs d endOffset =
     (if dec_offset d \<noteq> endOffset then skipRemainingNestedTlvs d endOffset False else Some (Inr d))"

definition finishNestedTlvsSkipCritical ::
    "decoder \<Rightarrow> u64 \<Rightarrow> (ndn_Error + decoder) option" where
  "finishNestedTlvsSkipCritical d endOffset =
     (if dec_offset d \<noteq> endOffset then skipRemainingNestedTlvs d endOffset True else Some (Inr d))"

definition peekType :: "u32 \<Rightarrow> u64 \<Rightarrow> decoder \<Rightarrow> ndn_Error + bool" where
  "peekType expectedType endOffset d =
     (if dec_offset d \<ge> endOffset then Inr False
      else bindE (readVarNumber d) (\<lambda>(type, _). Inr (type = ucast expectedType)))"

definition readExtendedNonNegativeInteger :: "u64 \<Rightarrow> u64 reader" where
  "readExtendedNonNegativeInteger len d =
     (if len = 2 then
        if dec_offset d + 2 > inputLength d then Inl NDN_ERROR_read_past_the_end_of_the_input
        else Inr (be_number (take 2 (upcoming d)), d\<lparr>dec_offset := dec_offset d + 2\<rparr>)
      else if len = 4 then
        if dec_offset d + 4 > inputLength d then Inl NDN_ERROR_read_past_the_end_of_the_input
        else Inr (be_number (take 4 (upcoming d)), d\<lparr>dec_offset := dec_offset d + 4\<rparr>)
      else if len = 8 then
        if dec_offset d + 8 > inputLength d then Inl NDN_ERROR_read_past_the_end_of_the_input
        else Inr (be_number (take 8 (upcoming d)), d\<lparr>dec_offset := dec_offset d + 8\<rparr>)
      else Inl NDN_ERROR_Invalid_length_for_nonNegativeInteger)"

definition readNonNegativeInteger :: "u64 \<Rightarrow> u64 reader" where
  "readNonNegativeInteger len d =
     (if len = 1 then
        if dec_offset d \<ge> inputLength d then Inl NDN_ERROR_read_past_the_end_of_the_input
        else Inr (ucast (hd (upcoming d)), d\<lparr>dec_offset := dec_offset d + 1\<rparr>)
      else readExtendedNonNegativeInteger len d)"

definition readNonNegativeIntegerTlv :: "u32 \<Rightarrow> u64 reader" where
  "readNonNegativeIntegerTlv expectedType d =
     bindE (readTypeAndLength expectedType d) (\<lambda>(len, d). readNonNegativeInteger len d)"

text \<open>The result is converted to a 32-bit \<open>int\<close>; -1 when the next TLV has another type.\<close>

definition readOptionalNonNegativeIntegerTlv :: "u32 \<Rightarrow> u64 \<Rightarrow> int reader" where
  "readOptionalNonNegativeIntegerTlv expectedType endOffset d =
     bindE (peekType expectedType endOffset d) (\<lambda>gotExpectedType.
       if \<not> gotExpectedType then Inr (-1, d)
       else bindE (readNonNegativeIntegerTlv expectedType d) (\<lambda>(v, d).
         Inr (sint (ucast v :: u32), d)))"

definition readBlobTlv :: "u32 \<Rightarrow> slice reader" where
  "readBlobTlv expectedType d =
     bindE (readTypeAndLength expectedType d) (\<lambda>(len, d).
       Inr (\<lparr>slice_begin = dec_offset d, slice_length = len\<rparr>,
            d\<lparr>dec_offset := dec_offset d + len\<rparr>))"

definition readOptionalBlobTlv :: "u32 \<Rightarrow> u64 \<Rightarrow> (slice option) reader" where
  "readOptionalBlobTlv expectedType endOffset d =
     bindE (peekType expectedType endOffset d) (\<lambda>gotExpectedType.
       if \<not> gotExpectedType then Inr (None, d)
       else bindE (readBlobTlv expectedType d) (\<lambda>(s, d). Inr (Some s, d)))"

definition readBooleanTlv :: "u32 \<Rightarrow> u64 \<Rightarrow> bool reader" where
  "readBooleanTlv expectedType endOffset d =
     bindE (peekType expectedType endOffset d) (\<lambda>gotExpectedType.
       if \<not> gotExpectedType then Inr (False, d)
       else bindE (readTypeAndLength expectedType d) (\<lambda>(len, d).
         Inr (True, d\<lparr>dec_offset := dec_offset d + len\<rparr>)))"

definition skipTlv :: "u32 \<Rightarrow> decoder \<Rightarrow> ndn_Error + decoder" where
  "skipTlv expectedType d =
     bindE (readTypeAndLength expectedType d) (\<lambda>(len, d).
       Inr (d\<lparr>dec_offset := dec_offset d + len\<rparr>))"

definition skipOptionalTlv :: "u32 \<Rightarrow> u64 \<Rightarrow> decoder \<Rightarrow> ndn_Error + decoder" where
  "skipOptionalTlv expectedType endOffset d =
     bindE (peekType expectedType endOffset d) (\<lambda>gotExpectedType.
       if gotExpectedType then skipTlv expectedType d else Inr d)"

definition dec_seek :: "decoder \<Rightarrow> u64 \<Rightarrow> decoder" where
  "dec_seek d off = d\<lparr>dec_offset := off\<rparr>"

definition getSlice :: "decoder \<Rightarrow> u64 \<Rightarrow> u64 \<Rightarrow> ndn_Error + slice" where
  "getSlice d beginOffset endOffset =
     (if beginOffset > inputLength d \<or> endOffset > inputLength d
      then Inl NDN_ERROR_read_past_the_end_of_the_input
      else Inr \<lparr>slice_begin = beginOffset,
                slice_length = (if beginOffset > endOffset then 0 else endOffset - beginOffset)\<rparr>)"

text \<open>The bytes a slice denotes; \<open>None\<close> when it reaches outside the input buffer.\<close>

definition slice_in_bounds :: "byte list \<Rightarrow> slice \<Rightarrow> bool" where
  "slice_in_bounds inp s \<longleftrightarrow> unat (slice_begin s) + unat (slice_length s) \<le> length inp"

definition slice_bytes :: "byte list \<Rightarrow> slice \<Rightarrow> blob" where
  "slice_bytes inp s =
     (if slice_in_bounds inp s
      then Some (take (unat (slice_length s)) (drop (unat (slice_begin s)) inp)) else None)"

section \<open>Reading back what was written\<close>

text \<open>No object is larger than \<open>PTRDIFF_MAX\<close>, and the offset stays inside the input.\<close>

definition dec_wf :: "decoder \<Rightarrow> bool" where
  "dec_wf d \<longleftrightarrow> length (dec_input d) < 2 ^ 63 \<and> unat (dec_offset d) \<le> length (dec_input d)"

locale tlv_codec = tlv_writer +
  fixes read :: "'a reader"
    and val :: 'a
  assumes read_back:
    "dec_wf d \<Longrightarrow> upcoming d = bytes @ rest \<Longrightarrow> read d = Inr (val, advance d (length bytes))"
begin

text \<open>What a fresh encoder writes, a decoder initialised with the result reads.\<close>

lemma write_read:
  assumes "length bytes < 2 ^ 63"
  shows "\<exists>e' d'. write (TlvEncoder n) = Inr e' \<and> enc_finish e' = Some (encoded e') \<and>
    read (dec_initialize (encoded e')) = Inr (val, d') \<and> upcoming d' = []"
proof -
  obtain e' where e': "write (TlvEncoder n) = Inr e'" "enc_finish e' = Some bytes"
    using write_fresh by blast
  then have "encoded e' = bytes" by (simp add: enc_finish_def encoded_def)
  moreover have "read (dec_initialize bytes) = Inr (val, advance (dec_initialize bytes) (length bytes))"
    using assms read_back [of "dec_initialize bytes" "[]"]
    by (simp add: dec_wf_def dec_initialize_def upcoming_def)
  ultimately show ?thesis using e' assms
    by (auto simp: upcoming_def advance_def dec_initialize_def)
qed

end

lemma upcoming_length:
  "dec_wf d \<Longrightarrow> length (upcoming d) = length (dec_input d) - unat (dec_offset d)"
  by (simp add: upcoming_def)

lemma unat_plus_fits:
  "unat (a :: u64) + n < 2 ^ 64 \<Longrightarrow> unat (a + of_nat n) = unat a + n"
  by (simp add: unat_word_ariths unat_of_nat take_bit_nat_eq_self)

lemma advance_facts:
  assumes "dec_wf d" "upcoming d = xs @ rest"
  shows "dec_wf (advance d (length xs))" "upcoming (advance d (length xs)) = rest"
    "unat (dec_offset (advance d (length xs))) = unat (dec_offset d) + length xs"
    "\<not> dec_offset d + of_nat (length xs) > inputLength d"
    "xs \<noteq> [] \<Longrightarrow> \<not> dec_offset d \<ge> inputLength d"
proof -
  have len: "unat (dec_offset d) + length xs \<le> length (dec_input d)"
    using assms upcoming_length [of d] by (auto simp: dec_wf_def)
  then have u: "unat (dec_offset d + of_nat (length xs)) = unat (dec_offset d) + length xs"
    using assms(1) by (intro unat_plus_fits) (simp add: dec_wf_def)
  show "unat (dec_offset (advance d (length xs))) = unat (dec_offset d) + length xs"
    using u by (simp add: advance_def)
  show "dec_wf (advance d (length xs))"
    using assms(1) len u by (simp add: dec_wf_def advance_def)
  show "upcoming (advance d (length xs)) = rest"
    using arg_cong [OF assms(2), of "drop (length xs)"] u
    by (simp add: upcoming_def advance_def add.commute)
  show "\<not> dec_offset d + of_nat (length xs) > inputLength d"
    using assms(1) len u by (simp add: inputLength_def word_less_nat_alt dec_wf_def not_less)
  show "xs \<noteq> [] \<Longrightarrow> \<not> dec_offset d \<ge> inputLength d"
    using assms(1) len by (cases xs) (simp_all add: inputLength_def word_le_nat_alt dec_wf_def)
qed

lemma advance_advance: "advance (advance d m) n = advance d (m + n)"
  by (simp add: advance_def)

lemma advance_simps:
  "d\<lparr>dec_offset := dec_offset d + 1\<rparr> = advance d 1"
  "d\<lparr>dec_offset := dec_offset d + 2\<rparr> = advance d 2"
  "d\<lparr>dec_offset := dec_offset d + 4\<rparr> = advance d 4"
  "d\<lparr>dec_offset := dec_offset d + 8\<rparr> = advance d 8"
  by (simp_all add: advance_def)

lemma be_bytes_upcoming:
  assumes "dec_wf d" "upcoming d = be_bytes n x @ rest"
  shows "take n (upcoming d) = be_bytes n x" "\<not> dec_offset d + of_nat n > inputLength d"
  using assms advance_facts(4) [OF assms] by simp_all

lemma readExtendedVarNumber_back:
  assumes "dec_wf d"
  shows "upcoming d = be_bytes 2 x @ rest \<Longrightarrow> x < 65536 \<Longrightarrow>
      readExtendedVarNumber 253 d = Inr (x, advance d 2)"
    and "upcoming d = be_bytes 4 x @ rest \<Longrightarrow> x < 4294967296 \<Longrightarrow>
      readExtendedVarNumber 254 d = Inr (x, advance d 4)"
    and "upcoming d = be_bytes 8 x @ rest \<Longrightarrow>
      readExtendedVarNumber 255 d = Inr (x, advance d 8)"
  using be_bytes_upcoming [OF assms, of 2 x rest] be_bytes_upcoming [OF assms, of 4 x rest]
    be_bytes_upcoming [OF assms, of 8 x rest]
  by (simp_all add: readExtendedVarNumber_def advance_simps be_number_be_bytes del: be_bytes.simps)

lemma readVarNumber_first:
  assumes "dec_wf d" "upcoming d = b # rest"
  shows "readVarNumber d =
    (if b < 253 then Inr (ucast b, advance d 1) else readExtendedVarNumber b (advance d 1))"
  using advance_facts(5) [OF assms(1), of "[b]" rest] assms(2)
  by (simp add: readVarNumber_def Let_def advance_simps)

lemma ucast_byte_small:
  assumes "x < (256 :: u64)"
  shows "ucast (ucast x :: byte) = x" and "unat (ucast x :: byte) = unat x"
proof -
  show "ucast (ucast x :: byte) = x"
    using assms take_bit_u64_small [of x 8] by (simp add: ucast_ucast_byte)
  have "unat x < 256" using assms by (simp add: word_less_nat_alt)
  then show "unat (ucast x :: byte) = unat x"
    by (simp add: unsigned_ucast_eq take_bit_nat_eq_self unsigned_take_bit_eq)
qed

lemma readVarNumber_back:
  assumes wf: "dec_wf d" and up: "upcoming d = varNumberBytes v @ rest"
  shows "readVarNumber d = Inr (v, advance d (sizeOfVarNumber v))"
proof -
  have step: "dec_wf (advance d 1)" "upcoming (advance d 1) = zs"
    if "upcoming d = b # zs" for b zs
    using advance_facts(1,2) [OF wf, of "[b]" zs] that by simp_all
  consider "v < 253" | "\<not> v < 253" "v \<le> 0xffff" | "\<not> v < 253" "\<not> v \<le> 0xffff" "v \<le> 0xffffffff"
    | "\<not> v < 253" "\<not> v \<le> 0xffff" "\<not> v \<le> 0xffffffff" by blast
  then show ?thesis
  proof cases
    case 1
    then have v: "v < 256" by (simp add: word_less_nat_alt)
    with 1 have "(ucast v :: byte) < 253"
      using ucast_byte_small(2) [OF v] by (simp add: word_less_nat_alt)
    with 1 up ucast_byte_small(1) [OF v] show ?thesis
      by (simp add: varNumberBytes_def readVarNumber_first [OF wf] sizeOfVarNumber_def)
  next
    case 2
    then have v: "v < 65536" by (simp add: word_less_nat_alt word_le_nat_alt)
    from 2 up have u: "upcoming d = 253 # be_bytes 2 v @ rest" by (simp add: varNumberBytes_def)
    show ?thesis
      using 2 v readExtendedVarNumber_back(1) [OF step(1) [OF u] step(2) [OF u]]
      by (simp add: readVarNumber_first [OF wf u] sizeOfVarNumber_def advance_advance numeral_3_eq_3)
  next
    case 3
    then have v: "v < 4294967296" by (simp add: word_less_nat_alt word_le_nat_alt)
    from 3 up have u: "upcoming d = 254 # be_bytes 4 v @ rest" by (simp add: varNumberBytes_def)
    show ?thesis
      using 3 v readExtendedVarNumber_back(2) [OF step(1) [OF u] step(2) [OF u]]
      by (simp add: readVarNumber_first [OF wf u] sizeOfVarNumber_def advance_advance)
  next
    case 4
    from 4 up have u: "upcoming d = 255 # be_bytes 8 v @ rest" by (simp add: varNumberBytes_def)
    show ?thesis
      using 4 readExtendedVarNumber_back(3) [OF step(1) [OF u] step(2) [OF u]]
      by (simp add: readVarNumber_first [OF wf u] sizeOfVarNumber_def advance_advance)
  qed
qed

interpretation vnc: tlv_codec "writeVarNumber v" "varNumberBytes v" readVarNumber v for v
  by unfold_locales (simp add: readVarNumber_back)

lemma readTypeAndLength_back:
  assumes wf: "dec_wf d" and up: "upcoming d = typeAndLengthBytes t n @ xs @ rest"
    and n: "length xs = n"
  shows "readTypeAndLength t d = Inr (of_nat n, advance d (length (typeAndLengthBytes t n)))"
proof -
  let ?a = "varNumberBytes (ucast t)" and ?b = "varNumberBytes (of_nat n :: u64)"
  have u1: "upcoming d = ?a @ ?b @ xs @ rest" using up by (simp add: typeAndLengthBytes_def)
  let ?d1 = "advance d (length ?a)"
  have d1: "dec_wf ?d1" "upcoming ?d1 = ?b @ xs @ rest"
    using advance_facts(1,2) [OF wf u1] by simp_all
  let ?d2 = "advance ?d1 (length ?b)"
  have d2: "dec_wf ?d2" "upcoming ?d2 = xs @ rest"
    using advance_facts(1,2) [OF d1] by simp_all
  have "\<not> dec_offset ?d2 + of_nat n > inputLength ?d2"
    using advance_facts(4) [OF d2] n by simp
  then show ?thesis
    using readVarNumber_back [OF wf u1] readVarNumber_back [OF d1]
    by (simp add: readTypeAndLength_def typeAndLengthBytes_def advance_advance)
qed

lemma readNonNegativeInteger_back:
  assumes wf: "dec_wf d" and up: "upcoming d = nonNegativeIntegerBytes v @ rest"
  shows "readNonNegativeInteger (of_nat (sizeOfNonNegativeInteger v)) d =
    Inr (v, advance d (sizeOfNonNegativeInteger v))"
proof -
  consider "v \<le> 0xff" | "\<not> v \<le> 0xff" "v \<le> 0xffff" | "\<not> v \<le> 0xff" "\<not> v \<le> 0xffff" "v \<le> 0xffffffff"
    | "\<not> v \<le> 0xff" "\<not> v \<le> 0xffff" "\<not> v \<le> 0xffffffff" by blast
  then show ?thesis
  proof cases
    case 1
    then have v: "v < 256" by (simp add: word_less_nat_alt word_le_nat_alt)
    have u: "upcoming d = [ucast v] @ rest" using 1 up by (simp add: nonNegativeIntegerBytes_def)
    show ?thesis
      using 1 u advance_facts(5) [OF wf u] ucast_byte_small(1) [OF v]
      by (simp add: readNonNegativeInteger_def sizeOfNonNegativeInteger_def advance_simps)
  next
    case 2
    then have v: "v < 65536" by (simp add: word_less_nat_alt word_le_nat_alt)
    show ?thesis
      using 2 v up be_bytes_upcoming [OF wf, of 2 v rest]
      by (simp add: nonNegativeIntegerBytes_def readNonNegativeInteger_def
          readExtendedNonNegativeInteger_def sizeOfNonNegativeInteger_def advance_simps
          be_number_be_bytes del: be_bytes.simps)
  next
    case 3
    then have v: "v < 4294967296" by (simp add: word_less_nat_alt word_le_nat_alt)
    show ?thesis
      using 3 v up be_bytes_upcoming [OF wf, of 4 v rest]
      by (simp add: nonNegativeIntegerBytes_def readNonNegativeInteger_def
          readExtendedNonNegativeInteger_def sizeOfNonNegativeInteger_def advance_simps
          be_number_be_bytes del: be_bytes.simps)
  next
    case 4
    then show ?thesis
      using up be_bytes_upcoming [OF wf, of 8 v rest]
      by (simp add: nonNegativeIntegerBytes_def readNonNegativeInteger_def
          readExtendedNonNegativeInteger_def sizeOfNonNegativeInteger_def advance_simps
          be_number_be_bytes del: be_bytes.simps)
  qed
qed

lemma tlv_upcoming:
  assumes "dec_wf d" "upcoming d = tlvBytes t bs @ rest"
  shows "readTypeAndLength t d = Inr (of_nat (length bs), advance d (length (typeAndLengthBytes t (length bs))))"
    "dec_wf (advance d (length (typeAndLengthBytes t (length bs))))"
    "upcoming (advance d (length (typeAndLengthBytes t (length bs)))) = bs @ rest"
  using assms readTypeAndLength_back [OF assms(1), of t "length bs" bs rest]
    advance_facts(1,2) [OF assms(1), of "typeAndLengthBytes t (length bs)" "bs @ rest"]
  by (simp_all add: tlvBytes_def)

interpretation ntc: tlv_codec "writeNonNegativeIntegerTlv t v" "tlvBytes t (nonNegativeIntegerBytes v)"
  "readNonNegativeIntegerTlv t" v for t v
proof
  fix d :: decoder and rest
  let ?bs = "nonNegativeIntegerBytes v"
  assume a: "dec_wf d" "upcoming d = tlvBytes t ?bs @ rest"
  note h = tlv_upcoming [OF a]
  have "readNonNegativeInteger (of_nat (length ?bs)) (advance d (length (typeAndLengthBytes t (length ?bs)))) =
      Inr (v, advance (advance d (length (typeAndLengthBytes t (length ?bs)))) (sizeOfNonNegativeInteger v))"
    using readNonNegativeInteger_back [OF h(2,3)] by simp
  then show "readNonNegativeIntegerTlv t d = Inr (v, advance d (length (tlvBytes t ?bs)))"
    using h(1)
    by (simp add: readNonNegativeIntegerTlv_def advance_advance typeAndLengthBytes_def
        sizeOfBlobTlv_def)
qed

text \<open>The blob reader returns the slice where the value lies; its bytes are the ones written.\<close>

lemma readBlobTlv_back:
  assumes wf: "dec_wf d" and up: "upcoming d = tlvBytes t bs @ rest"
  shows "\<exists>s. readBlobTlv t d = Inr (s, advance d (length (tlvBytes t bs))) \<and>
    slice_bytes (dec_input d) s = Some bs"
proof -
  let ?h = "length (typeAndLengthBytes t (length bs))"
  note h = tlv_upcoming [OF wf up]
  have len: "unat (dec_offset (advance d ?h)) + length bs \<le> length (dec_input d)"
    using h(2,3) upcoming_length [OF h(2)] by (simp add: dec_wf_def advance_def) linarith
  then have "length bs < 2 ^ 64" using wf by (simp add: dec_wf_def)
  then have "unat (of_nat (length bs) :: u64) = length bs" by simp
  moreover have "take (length bs) (drop (unat (dec_offset (advance d ?h))) (dec_input d)) = bs"
    using h(3) by (simp add: upcoming_def advance_def)
  ultimately show ?thesis
    using h(1) len
    by (auto simp: readBlobTlv_def slice_bytes_def slice_in_bounds_def advance_def
        typeAndLengthBytes_def sizeOfBlobTlv_def algebra_simps)
qed

text \<open>
  C24. TLV numbers survive the wire: every 64-bit VAR-NUMBER and every non-negative-integer TLV
  that the encoder writes into a fresh buffer is read back by the decoder as the same number,
  with nothing left over.
\<close>

theorem tlv_number_roundtrip:
  "(\<exists>e d. writeVarNumber v (TlvEncoder n) = Inr e \<and>
      readVarNumber (dec_initialize (encoded e)) = Inr (v, d) \<and> upcoming d = []) \<and>
   (\<exists>e d. writeNonNegativeIntegerTlv t v (TlvEncoder n) = Inr e \<and>
      readNonNegativeIntegerTlv t (dec_initialize (encoded e)) = Inr (v, d) \<and> upcoming d = [])"
proof -
  have s: "sizeOfVarNumber w \<le> 9" for w by (simp add: sizeOfVarNumber_def)
  have "sizeOfNonNegativeInteger v \<le> 8" by (simp add: sizeOfNonNegativeInteger_def)
  then have "length (tlvBytes t (nonNegativeIntegerBytes v)) \<le> 9 + 9 + 8"
    unfolding length_tlvBytes sizeOfBlobTlv_def length_nonNegativeIntegerBytes
    by (intro add_mono s)
  with s [of v] have "length (varNumberBytes v) < 2 ^ 63"
    "length (tlvBytes t (nonNegativeIntegerBytes v)) < 2 ^ 63"
    by (simp_all add: le_less_trans)
  then show ?thesis using vnc.write_read [of v n] ntc.write_read [of t v n] by blast
qed

section \<open>Safety and progress\<close>

lemma dec_wf_plus:
  assumes "dec_wf d" "n < 2 ^ 63"
  shows "unat (dec_offset d + of_nat n) = unat (dec_offset d) + n"
    "dec_offset d + of_nat n > inputLength d \<longleftrightarrow> unat (dec_offset d) + n > length (dec_input d)"
proof -
  show u: "unat (dec_offset d + of_nat n) = unat (dec_offset d) + n"
    using assms by (intro unat_plus_fits) (simp add: dec_wf_def)
  show "dec_offset d + of_nat n > inputLength d \<longleftrightarrow> unat (dec_offset d) + n > length (dec_input d)"
    using assms(1) u by (simp add: word_less_nat_alt inputLength_def dec_wf_def)
qed

text \<open>\<open>progress d d'\<close>: the reader moved forward over at least \<open>k\<close> bytes of the same input.\<close>

definition progress :: "nat \<Rightarrow> decoder \<Rightarrow> decoder \<Rightarrow> bool" where
  "progress k d d' \<longleftrightarrow> dec_wf d' \<and> dec_input d' = dec_input d \<and>
     unat (dec_offset d) + k \<le> unat (dec_offset d')"

lemma progress_trans: "progress j d d' \<Longrightarrow> progress k d' d'' \<Longrightarrow> progress (j + k) d d''"
  by (simp add: progress_def)

lemma progress_weaken: "progress k d d' \<Longrightarrow> j \<le> k \<Longrightarrow> progress j d d'"
  by (simp add: progress_def)

lemma progress_wf: "progress k d d' \<Longrightarrow> dec_wf d'"
  by (simp add: progress_def)

lemma progress_advance:
  assumes "dec_wf d" "n < 2 ^ 63" "\<not> dec_offset d + of_nat n > inputLength d"
  shows "progress n d (advance d n)"
  using assms dec_wf_plus [OF assms(1,2)] by (simp add: progress_def advance_def dec_wf_def)

lemma readExtendedVarNumber_progress:
  assumes "dec_wf d" "readExtendedVarNumber b d = Inr (v, d')"
  shows "progress 2 d d'"
proof -
  obtain n where n: "d' = advance d n" "\<not> dec_offset d + of_nat n > inputLength d" "2 \<le> n" "n < 2 ^ 63"
    using assms(2) that [of 2] that [of 4] that [of 8]
    by (auto simp: readExtendedVarNumber_def advance_simps split: if_splits)
  then have "progress n d d'" using progress_advance [OF assms(1)] by simp
  with n(3) show ?thesis by (simp add: progress_def)
qed

lemma readVarNumber_progress:
  assumes "dec_wf d" "readVarNumber d = Inr (v, d')"
  shows "progress 1 d d'"
proof -
  have "unat (dec_offset d) < length (dec_input d)"
    using assms by (simp add: readVarNumber_def word_le_nat_alt inputLength_def dec_wf_def
        split: if_splits)
  then have p: "progress 1 d (advance d 1)"
    using progress_advance [OF assms(1), of 1] dec_wf_plus(2) [OF assms(1), of 1] by simp
  show ?thesis
  proof (cases "hd (upcoming d) < 253")
    case True
    then show ?thesis
      using assms(2) p by (auto simp: readVarNumber_def Let_def advance_simps split: if_splits)
  next
    case False
    then have "readExtendedVarNumber (hd (upcoming d)) (advance d 1) = Inr (v, d')"
      using assms(2) by (auto simp: readVarNumber_def Let_def advance_simps split: if_splits)
    then have "progress 2 (advance d 1) d'"
      by (rule readExtendedVarNumber_progress [OF progress_wf [OF p]])
    then have "progress (1 + 2) d d'" by (rule progress_trans [OF p])
    then show ?thesis by (rule progress_weaken) simp
  qed
qed

lemma readTypeAndLength_progress:
  assumes "dec_wf d" "readTypeAndLength t d = Inr (len, d')"
  shows "progress 2 d d'" "\<not> dec_offset d' + len > inputLength d'"
proof -
  obtain ty d1 where d1: "readVarNumber d = Inr (ty, d1)" "readVarNumber d1 = Inr (len, d')"
    and c: "\<not> dec_offset d' + len > inputLength d'"
    using assms(2) by (auto simp: readTypeAndLength_def bindE_eq_Inr split: if_splits)
  have p: "progress 1 d d1" by (rule readVarNumber_progress [OF assms(1) d1(1)])
  have "progress (1 + 1) d d'"
    by (rule progress_trans [OF p readVarNumber_progress [OF progress_wf [OF p] d1(2)]])
  then show "progress 2 d d'" by (simp add: numeral_2_eq_2)
  show "\<not> dec_offset d' + len > inputLength d'" by (rule c)
qed

text \<open>
  C26. A blob that \<open>readBlobTlv\<close> returns lies inside the input buffer exactly when its offset and
  its decoded length do not wrap around the 64-bit \<open>size_t\<close>. The check
  \<open>offset + length > inputLength\<close> of the source is therefore sound only for the lengths that do
  not wrap.
\<close>

theorem readBlobTlv_in_bounds:
  assumes "dec_wf d" and "readBlobTlv t d = Inr (s, d')"
  shows "slice_in_bounds (dec_input d) s \<longleftrightarrow>
    unat (slice_begin s) + unat (slice_length s) < 2 ^ 64"
proof -
  obtain d1 where d1: "readTypeAndLength t d = Inr (slice_length s, d1)" "slice_begin s = dec_offset d1"
    using assms(2) by (auto simp: readBlobTlv_def bindE_eq_Inr)
  then have p: "progress 2 d d1" and c: "\<not> dec_offset d1 + slice_length s > inputLength d1"
    using readTypeAndLength_progress [OF assms(1)] by blast+
  have "unat (dec_offset d1) + unat (slice_length s) < 2 ^ 64 \<Longrightarrow>
      unat (dec_offset d1 + slice_length s) = unat (dec_offset d1) + unat (slice_length s)"
    using unat_plus_fits [of "dec_offset d1" "unat (slice_length s)"] by simp
  then show ?thesis
    using p c d1(2)
    by (auto simp: slice_in_bounds_def progress_def dec_wf_def word_less_nat_alt inputLength_def)
qed

theorem readBlobTlv_in_bounds_witness:
  "dec_wf (dec_initialize [21, 2, 7, 8]) \<and>
   readBlobTlv 21 (dec_initialize [21, 2, 7, 8]) =
     Inr (\<lparr>slice_begin = 2, slice_length = 2\<rparr>, \<lparr>dec_input = [21, 2, 7, 8], dec_offset = 4\<rparr>) \<and>
   slice_in_bounds [21, 2, 7, 8] \<lparr>slice_begin = 2, slice_length = 2\<rparr>"
proof -
  let ?d = "dec_initialize [21, 2, 7, 8]"
  have wf: "dec_wf ?d" by (simp add: dec_wf_def dec_initialize_def)
  have r: "readBlobTlv 21 ?d =
      Inr (\<lparr>slice_begin = 2, slice_length = 2\<rparr>, \<lparr>dec_input = [21, 2, 7, 8], dec_offset = 4\<rparr>)"
    by code_simp
  show ?thesis using wf r readBlobTlv_in_bounds [OF wf r] by (simp add: dec_initialize_def)
qed

text \<open>
  The bounds check of \<open>readTypeAndLength\<close> can be defeated: a 10-byte Content TLV whose 8-byte
  length field holds \<open>2^64 - 10\<close> is accepted, and the blob handed to the caller claims
  \<open>2^64 - 10\<close> bytes of a 10-byte buffer.
\<close>

lemma readBlobTlv_accepts_wrapping_length:
  "\<exists>s d'. readBlobTlv 21 (dec_initialize [21, 255, 255, 255, 255, 255, 255, 255, 255, 246]) =
      Inr (s, d') \<and> slice_length s = - 10 \<and> dec_offset d' = 0 \<and>
    \<not> slice_in_bounds [21, 255, 255, 255, 255, 255, 255, 255, 255, 246] s"
proof -
  have "readBlobTlv 21 (dec_initialize [21, 255, 255, 255, 255, 255, 255, 255, 255, 246]) =
      Inr (\<lparr>slice_begin = 10, slice_length = - 10\<rparr>,
        dec_initialize [21, 255, 255, 255, 255, 255, 255, 255, 255, 246])"
    by code_simp
  then show ?thesis
    by (simp add: dec_initialize_def slice_in_bounds_def)
qed

subsection \<open>Skipping unrecognised TLVs\<close>

text \<open>Every length that can be decoded from this input, anywhere, stays clear of the wrap.\<close>

definition lengths_sane :: "byte list \<Rightarrow> bool" where
  "lengths_sane inp \<longleftrightarrow>
     (\<forall>d v d'. dec_input d = inp \<longrightarrow> dec_wf d \<longrightarrow> readVarNumber d = Inr (v, d') \<longrightarrow> v < 2 ^ 63)"

lemma skip_returns:
  assumes "lengths_sane (dec_input d)" "dec_wf d"
  shows "\<exists>r. skipRemainingNestedTlvs d endOffset sc = Some r"
  using assms
proof (induction "length (dec_input d) - unat (dec_offset d)" arbitrary: d rule: less_induct)
  case less
  show ?case
  proof (cases "\<exists>ty d1 len d2. dec_offset d < endOffset \<and> readVarNumber d = Inr (ty, d1) \<and>
      readVarNumber d1 = Inr (len, d2) \<and> \<not> dec_offset d2 + len > inputLength d2")
    case True
    then obtain ty d1 len d2 where r: "readVarNumber d = Inr (ty, d1)" "readVarNumber d1 = Inr (len, d2)"
      and c: "\<not> dec_offset d2 + len > inputLength d2" by blast
    have p1: "progress 1 d d1" by (rule readVarNumber_progress [OF less.prems(2) r(1)])
    have p2: "progress 1 d1 d2" by (rule readVarNumber_progress [OF progress_wf [OF p1] r(2)])
    have "dec_input d1 = dec_input d" using p1 by (simp add: progress_def)
    then have "len < 2 ^ 63"
      using less.prems(1) r(2) progress_wf [OF p1] unfolding lengths_sane_def by blast
    then have "unat len < 2 ^ 63" by (simp add: word_less_nat_alt)
    then have p3: "progress (unat len) d2 (d2\<lparr>dec_offset := dec_offset d2 + len\<rparr>)"
      using progress_advance [OF progress_wf [OF p2], of "unat len"] c by (simp add: advance_def)
    let ?d3 = "d2\<lparr>dec_offset := dec_offset d2 + len\<rparr>"
    have p: "progress (1 + 1 + unat len) d ?d3"
      by (rule progress_trans [OF progress_trans [OF p1 p2] p3])
    then have dec: "length (dec_input ?d3) - unat (dec_offset ?d3) < length (dec_input d) - unat (dec_offset d)"
      using less.prems(2) by (auto simp: progress_def dec_wf_def intro!: diff_less_mono2)
    have "\<exists>r. skipRemainingNestedTlvs ?d3 endOffset sc = Some r"
    proof (rule less.hyps [OF dec])
      show "lengths_sane (dec_input ?d3)" using p less.prems(1) by (simp add: progress_def)
      show "dec_wf ?d3" using p by (rule progress_wf)
    qed
    with r c show ?thesis by (subst skipRemainingNestedTlvs.simps) simp
  next
    case False
    then show ?thesis
      by (subst skipRemainingNestedTlvs.simps) (auto split: sum.splits)
  qed
qed

text \<open>An octet 255 announces the only field wide enough for a length of \<open>2^63\<close> or more.\<close>

lemma be_number_bound:
  assumes "length bs \<le> 4"
  shows "be_number bs < 2 ^ 63"
proof -
  have *: "unat (be_number_from acc bs) < 2 ^ (8 * (k + length bs))"
    if "unat acc < 2 ^ (8 * k)" "k + length bs \<le> 4" for acc k
    using that
  proof (induction bs arbitrary: acc k)
    case Nil
    then show ?case by (simp add: be_number_from_def)
  next
    case (Cons b bs)
    have k: "k \<le> 3" using Cons.prems(2) by simp
    have b: "unat b \<le> 255" using unat_byte_less [of b] by linarith
    have "(2::nat) ^ (8 * k) \<le> 2 ^ 24" using k by (intro power_increasing) simp_all
    with Cons.prems(1) have "unat acc < 2 ^ 24" by linarith
    then have "unat (acc * 256 + ucast b) = unat acc * 256 + unat b"
      using b by (simp add: unat_word_ariths)
    moreover have "unat acc * 256 + unat b < 2 ^ (8 * Suc k)"
      using Cons.prems(1) b by (simp add: power_add)
    ultimately have "unat (acc * 256 + ucast b) < 2 ^ (8 * Suc k)" by simp
    from Cons.IH [OF this] Cons.prems(2) show ?case by (simp add: be_number_from_def)
  qed
  have "unat (be_number bs) < 2 ^ (8 * length bs)" using * [of 0 0] assms by simp
  also have "\<dots> \<le> 2 ^ 32" using assms by (intro power_increasing) simp_all
  finally show ?thesis by (simp add: word_less_nat_alt)
qed

lemma lengths_sane_no_255: "255 \<notin> set inp \<Longrightarrow> lengths_sane inp"
  unfolding lengths_sane_def
proof (intro allI impI)
  fix d :: decoder and v d'
  assume no: "255 \<notin> set inp" and d: "dec_input d = inp" "dec_wf d" "readVarNumber d = Inr (v, d')"
  have lt: "unat (dec_offset d) < length inp"
    using d by (simp add: readVarNumber_def word_le_nat_alt inputLength_def dec_wf_def split: if_splits)
  then have mem: "hd (upcoming d) \<in> set inp"
    using d(1) by (simp add: upcoming_def hd_drop_conv_nth)
  show "v < 2 ^ 63"
  proof (cases "hd (upcoming d) < 253")
    case True
    then have "v = ucast (hd (upcoming d))"
      using d(3) by (auto simp: readVarNumber_def Let_def split: if_splits)
    then show ?thesis
      using order_less_trans [OF unat_byte_less, of "2 ^ 63"] by (simp add: word_less_nat_alt)
  next
    case False
    have "hd (upcoming d) \<noteq> 255" using mem no by metis
    moreover have "253 \<le> unat (hd (upcoming d))" "unat (hd (upcoming d)) < 256"
      using False unat_byte_less [of "hd (upcoming d)"] by (simp_all add: word_less_nat_alt)
    ultimately have "hd (upcoming d) = 253 \<or> hd (upcoming d) = 254"
      by (simp add: word_unat_eq_iff) (use unat_byte_less [of "hd (upcoming d)"] in linarith)
    then show ?thesis
      using False d(3)
      by (auto simp: readVarNumber_def readExtendedVarNumber_def Let_def be_number_bound [simplified]
          split: if_splits)
  qed
qed

text \<open>
  C27. Skipping unrecognised nested TLVs returns on every input that holds no octet 255, so that
  no nested length field is eight bytes wide: the loop of \<open>skipRemainingNestedTlvs\<close> ends with a
  decoder or an error.
\<close>

theorem skipRemainingNestedTlvs_returns:
  assumes "dec_wf d" and "255 \<notin> set (dec_input d)"
  shows "\<exists>r. skipRemainingNestedTlvs d endOffset skipCritical = Some r"
  using skip_returns lengths_sane_no_255 assms by blast

theorem skipRemainingNestedTlvs_returns_witness:
  "dec_wf (dec_initialize [32, 2, 7, 7, 34, 0]) \<and> 255 \<notin> set (dec_input (dec_initialize [32, 2, 7, 7, 34, 0])) \<and>
    (\<exists>r. skipRemainingNestedTlvs (dec_initialize [32, 2, 7, 7, 34, 0]) 6 False = Some r)"
proof -
  have h: "dec_wf (dec_initialize [32, 2, 7, 7, 34, 0])"
    "255 \<notin> set (dec_input (dec_initialize [32, 2, 7, 7, 34, 0]))"
    by (simp_all add: dec_wf_def dec_initialize_def)
  show ?thesis using h skipRemainingNestedTlvs_returns [OF h] by blast
qed

text \<open>
  C40. Without that restriction the loop can run forever: a ten-byte input with one unrecognised,
  non-critical TLV of length \<open>2^64 - 10\<close> moves the offset back to where it was, and
  \<open>skipRemainingNestedTlvs\<close> never returns.
\<close>

theorem skip_can_loop:
  "skipRemainingNestedTlvs (dec_initialize [32, 255, 255, 255, 255, 255, 255, 255, 255, 246]) 10 sc = None"
proof -
  let ?d = "dec_initialize [32, 255, 255, 255, 255, 255, 255, 255, 255, 246]"
  let ?d1 = "?d\<lparr>dec_offset := 1\<rparr>" and ?d2 = "?d\<lparr>dec_offset := 10\<rparr>"
  have r1: "readVarNumber ?d = Inr (32, ?d1)" by code_simp
  have r2: "readVarNumber ?d1 = Inr (- 10, ?d2)" by code_simp
  have c: "dec_offset ?d = 0" "\<not> inputLength ?d2 < 10 + (- 10)" "?d2\<lparr>dec_offset := 0\<rparr> = ?d"
    "\<not> (32 :: u64) \<le> 31" "(32 :: u64) AND 1 \<noteq> 1"
    by (simp_all add: dec_initialize_def)
  have "d \<noteq> ?d \<or> endOffset \<noteq> 10" if "skipRemainingNestedTlvs d endOffset sc = Some r" for d endOffset sc r
  proof (rule skipRemainingNestedTlvs.raw_induct
      [where P = "\<lambda>d endOffset sc r. d \<noteq> ?d \<or> endOffset \<noteq> 10", OF _ that])
    fix f d endOffset sc r
    assume IH: "\<And>d endOffset sc r. f d endOffset sc = Some r \<Longrightarrow> d \<noteq> ?d \<or> endOffset \<noteq> 10"
      and eq: "(if dec_offset d < endOffset then
          (case readVarNumber d of Inl err \<Rightarrow> Some (Inl err)
           | Inr (type, d1) \<Rightarrow> (case readVarNumber d1 of Inl err \<Rightarrow> Some (Inl err)
             | Inr (len, d2) \<Rightarrow>
               (if (type \<le> 31 \<or> type AND 1 = 1) \<and> \<not> sc
                then Some (Inl NDN_ERROR_Unrecognized_critical_TLV_type_code)
                else if dec_offset d2 + len > inputLength d2
                then Some (Inl NDN_ERROR_TLV_length_exceeds_buffer_length)
                else f (d2\<lparr>dec_offset := dec_offset d2 + len\<rparr>) endOffset sc)))
        else if dec_offset d \<noteq> endOffset
        then Some (Inl NDN_ERROR_TLV_length_does_not_equal_total_length_of_nested_TLVs)
        else Some (Inr d)) = Some r"
    show "d \<noteq> ?d \<or> endOffset \<noteq> 10"
    proof (rule ccontr)
      assume "\<not> (d \<noteq> ?d \<or> endOffset \<noteq> 10)"
      then have "d = ?d" "endOffset = 10" by simp_all
      with eq r1 r2 c have "f ?d 10 sc = Some r" by simp
      then show False using IH by blast
    qed
  qed
  then show ?thesis by (metis option.exhaust)
qed

end
