(* ===== verification/Names.thy ===== *)
theory Names
  imports Tlv_Decoder "HOL-Library.List_Lexorder" "HOL-Library.Product_Lexorder"
begin

text \<open>
  Names and name components: \<open>src/name.cpp\<close> with the inline methods of
  \<open>include/ndn-ind/name.hpp\<close>, the component arithmetic of \<open>src/c/name_c.c\<close> and the string helpers
  of \<open>src/common.cpp\<close>. A \<open>std::string\<close> and a URI are byte lists; the output stream of \<open>toUri\<close>
  carries its number base as an explicit flag, since \<open>toHex\<close> changes it and does not restore it.
\<close>

section \<open>Components\<close>

datatype ndn_NameComponentType =
  IMPLICIT_SHA256_DIGEST | PARAMETERS_SHA256_DIGEST | GENERIC | OTHER_CODE

fun enumValue :: "ndn_NameComponentType \<Rightarrow> int" where
  "enumValue IMPLICIT_SHA256_DIGEST = 1"
| "enumValue PARAMETERS_SHA256_DIGEST = 2"
| "enumValue GENERIC = 8"
| "enumValue OTHER_CODE = 0x7fff"

record component =
  c_type :: ndn_NameComponentType
  c_otherTypeCode :: int
  c_value :: blob

type_synonym name = "component list"

definition blob_size :: "blob \<Rightarrow> nat" where
  "blob_size b = (case b of None \<Rightarrow> 0 | Some bs \<Rightarrow> length bs)"

definition blob_bytes :: "blob \<Rightarrow> byte list" where
  "blob_bytes b = (case b of None \<Rightarrow> [] | Some bs \<Rightarrow> bs)"

lemma blob_simps [simp]:
  "blob_size None = 0" "blob_size (Some bs) = length bs"
  "blob_bytes None = []" "blob_bytes (Some bs) = bs"
  by (simp_all add: blob_size_def blob_bytes_def)

lemma length_blob_bytes [simp]: "length (blob_bytes b) = blob_size b"
  by (cases b) simp_all

text \<open>\<open>Component()\<close>: its blob is constructed from a null pointer, so it is null.\<close>

definition Component0 :: component where
  "Component0 = \<lparr>c_type = GENERIC, c_otherTypeCode = -1, c_value = None\<rparr>"

text \<open>\<open>setType\<close> as the constructors call it.\<close>

definition setType :: "ndn_NameComponentType \<Rightarrow> int \<Rightarrow> error + (ndn_NameComponentType \<times> int)" where
  "setType type otherTypeCode =
     (if type = OTHER_CODE then
        if otherTypeCode = -1 then Inl (Invalid_argument ''To use an other code, call Name::Component(value, ndn_NameComponentType_OTHER_CODE, otherTypeCode)'')
        else if otherTypeCode < -1 then Inl (Invalid_argument ''Name::Component other type code must be non-negative'')
        else Inr (type, otherTypeCode)
      else Inr (type, -1))"

definition Component :: "blob \<Rightarrow> ndn_NameComponentType \<Rightarrow> int \<Rightarrow> error + component" where
  "Component value type otherTypeCode =
     bindE (setType type otherTypeCode) (\<lambda>(t, c).
       Inr \<lparr>c_type = t, c_otherTypeCode = c, c_value = value\<rparr>)"

definition genericComponent :: "byte list \<Rightarrow> component" where
  "genericComponent bs = \<lparr>c_type = GENERIC, c_otherTypeCode = -1, c_value = Some bs\<rparr>"

definition typeCode :: "component \<Rightarrow> int" where
  "typeCode c = (if c_type c = OTHER_CODE then c_otherTypeCode c else enumValue (c_type c))"

definition fromImplicitSha256Digest :: "blob \<Rightarrow> error + component" where
  "fromImplicitSha256Digest digest =
     (if blob_size digest \<noteq> 32 then Inl (Runtime_error ''Name::Component::fromImplicitSha256Digest: The digest length must be 32 bytes'')
      else Inr \<lparr>c_type = IMPLICIT_SHA256_DIGEST, c_otherTypeCode = -1, c_value = digest\<rparr>)"

definition fromParametersSha256Digest :: "blob \<Rightarrow> error + component" where
  "fromParametersSha256Digest digest =
     (if blob_size digest \<noteq> 32 then Inl (Runtime_error ''Name::Component::fromParametersSha256Digest: The digest length must be 32 bytes'')
      else Inr \<lparr>c_type = PARAMETERS_SHA256_DIGEST, c_otherTypeCode = -1, c_value = digest\<rparr>)"

definition isSegment :: "component \<Rightarrow> bool" where
  "isSegment c \<longleftrightarrow> blob_size (c_value c) \<ge> 1 \<and> hd (blob_bytes (c_value c)) = 0x00 \<and> c_type c = GENERIC"

definition isSegmentOffset :: "component \<Rightarrow> bool" where
  "isSegmentOffset c \<longleftrightarrow> blob_size (c_value c) \<ge> 1 \<and> hd (blob_bytes (c_value c)) = 0xFB \<and> c_type c = GENERIC"

definition isVersion :: "component \<Rightarrow> bool" where
  "isVersion c \<longleftrightarrow> blob_size (c_value c) \<ge> 1 \<and> hd (blob_bytes (c_value c)) = 0xFD \<and> c_type c = GENERIC"

definition isTimestamp :: "component \<Rightarrow> bool" where
  "isTimestamp c \<longleftrightarrow> blob_size (c_value c) \<ge> 1 \<and> hd (blob_bytes (c_value c)) = 0xFC \<and> c_type c = GENERIC"

definition isSequenceNumber :: "component \<Rightarrow> bool" where
  "isSequenceNumber c \<longleftrightarrow> blob_size (c_value c) \<ge> 1 \<and> hd (blob_bytes (c_value c)) = 0xFE \<and> c_type c = GENERIC"

definition component_equals :: "component \<Rightarrow> component \<Rightarrow> bool" where
  "component_equals c other =
     (if c_type c = OTHER_CODE then
        c_value c = c_value other \<and> c_type other = OTHER_CODE \<and>
        c_otherTypeCode c = c_otherTypeCode other
      else c_value c = c_value other \<and> c_type c = c_type other)"

text \<open>
  \<open>ndn_memcmp\<close> in its portable form: -1, 0 or 1.  Built with the C library's \<open>memcmp\<close> it may return numbers of other
  magnitudes and the same sign; its callers in the library use the sign only.
\<close>

fun ndn_memcmp :: "byte list \<Rightarrow> byte list \<Rightarrow> int" where
  "ndn_memcmp (a # as) (b # bs) =
     (if a > b then 1 else if a < b then -1 else ndn_memcmp as bs)"
| "ndn_memcmp _ _ = 0"

definition component_compare :: "component \<Rightarrow> component \<Rightarrow> int" where
  "component_compare c other =
     (let myTypeCode = typeCode c; otherTypeCode = typeCode other in
      if myTypeCode < otherTypeCode then -1
      else if myTypeCode > otherTypeCode then 1
      else if blob_size (c_value c) < blob_size (c_value other) then -1
      else if blob_size (c_value c) > blob_size (c_value other) then 1
      else ndn_memcmp (blob_bytes (c_value c)) (blob_bytes (c_value other)))"

text \<open>
  \<open>Component::get\<close> fills a Lite component that was constructed empty.  The test for the implicit digest has no
  \<open>else\<close>, so its result is overwritten; the error of \<open>setParametersSha256Digest\<close> for a value that is not 32 bytes
  long is ignored, and the Lite component stays empty and generic.
\<close>

definition component_get :: "component \<Rightarrow> component" where
  "component_get c =
     (if c_type c = PARAMETERS_SHA256_DIGEST then
        if blob_size (c_value c) = 32
        then \<lparr>c_type = PARAMETERS_SHA256_DIGEST, c_otherTypeCode = -1, c_value = c_value c\<rparr>
        else Component0
      else \<lparr>c_type = c_type c, c_otherTypeCode = (if c_type c = OTHER_CODE then c_otherTypeCode c else -1), c_value = c_value c\<rparr>)"

lemma component_get_value [simp]: "c_type c \<noteq> PARAMETERS_SHA256_DIGEST \<Longrightarrow> c_value (component_get c) = c_value c"
  by (simp add: component_get_def)

subsection \<open>Numbers in components\<close>

text \<open>Each of these reads the value of the Lite component that \<open>Component::get\<close> fills.\<close>

definition toNumber :: "component \<Rightarrow> u64" where
  "toNumber c = be_number (blob_bytes (c_value (component_get c)))"

definition toNumberWithMarker :: "byte \<Rightarrow> component \<Rightarrow> ndn_Error + u64" where
  "toNumberWithMarker marker c =
     (case blob_bytes (c_value (component_get c)) of
        [] \<Rightarrow> Inl NDN_ERROR_Name_component_does_not_begin_with_the_expected_marker
      | b # bs \<Rightarrow>
          if b \<noteq> marker then Inl NDN_ERROR_Name_component_does_not_begin_with_the_expected_marker
          else Inr (be_number bs))"

definition toNumberWithPrefix :: "byte list \<Rightarrow> component \<Rightarrow> ndn_Error + u64" where
  "toNumberWithPrefix prefix c =
     (let v = blob_bytes (c_value (component_get c)) in
      if length v < length prefix \<or> ndn_memcmp (take (length prefix) v) prefix \<noteq> 0
      then Inl NDN_ERROR_Name_component_does_not_begin_with_the_expected_marker
      else Inr (be_number (drop (length prefix) v)))"

definition hasPrefix :: "byte list \<Rightarrow> component \<Rightarrow> bool" where
  "hasPrefix prefix c \<longleftrightarrow>
     (let v = blob_bytes (c_value (component_get c)) in
      length v \<ge> length prefix \<and> ndn_memcmp (take (length prefix) v) prefix = 0)"

definition lift_ndn :: "ndn_Error + 'a \<Rightarrow> error + 'a" where
  "lift_ndn r = (case r of Inl e \<Rightarrow> Inl (Ndn e) | Inr x \<Rightarrow> Inr x)"

lemma lift_ndn_simps [simp]:
  "lift_ndn (Inl e) = Inl (Ndn e)" "lift_ndn (Inr x) = Inr x"
  by (simp_all add: lift_ndn_def)

definition fromNumber :: "u64 \<Rightarrow> ndn_NameComponentType \<Rightarrow> int \<Rightarrow> error + component" where
  "fromNumber number type otherTypeCode =
     (if type = OTHER_CODE \<and> otherTypeCode = -1
      then Inl (Invalid_argument ''To use an other code, call fromNumber(value, ndn_NameComponentType_OTHER_CODE, otherTypeCode)'')
      else if type = OTHER_CODE \<and> otherTypeCode < -1
      then Inl (Invalid_argument ''fromNumber: other type code must be non-negative'')
      else bindE (lift_ndn (writeNonNegativeInteger number (TlvEncoder 8)))
             (\<lambda>encoder. Component (enc_finish encoder) type otherTypeCode))"

definition fromNumberWithMarker :: "u64 \<Rightarrow> byte \<Rightarrow> error + component" where
  "fromNumberWithMarker number marker =
     bindE (lift_ndn (writeNonNegativeInteger (ucast marker) (TlvEncoder 9))) (\<lambda>encoder.
       bindE (lift_ndn (writeNonNegativeInteger number encoder)) (\<lambda>encoder.
         Component (enc_finish encoder) GENERIC (-1)))"

text \<open>The loop \<open>while (number != 0)\<close> pushes the low byte first; the result is reversed.\<close>

function le_bytes :: "u64 \<Rightarrow> byte list" where
  "le_bytes number = (if number \<noteq> 0 then ucast number # le_bytes (drop_bit 8 number) else [])"
  by pat_completeness auto
termination
proof (relation "measure unat")
  fix number :: u64
  assume "number \<noteq> 0"
  then have "unat number \<noteq> 0" by (simp add: unat_eq_0)
  then have "unat number div 256 < unat number" by simp
  then show "(drop_bit 8 number, number) \<in> measure unat"
    by (simp add: drop_bit_eq_div unat_div)
qed simp

declare le_bytes.simps [simp del]

definition fromNumberWithPrefix :: "u64 \<Rightarrow> byte list \<Rightarrow> component" where
  "fromNumberWithPrefix number prefix = genericComponent (prefix @ rev (le_bytes number))"

definition fromSegment :: "u64 \<Rightarrow> error + component" where
  "fromSegment segment = fromNumberWithMarker segment 0x00"

definition fromVersion :: "u64 \<Rightarrow> error + component" where
  "fromVersion version = fromNumberWithMarker version 0xFD"

definition fromSequenceNumber :: "u64 \<Rightarrow> error + component" where
  "fromSequenceNumber sequenceNumber = fromNumberWithMarker sequenceNumber 0xFE"

definition fromTimestamp :: "u64 \<Rightarrow> error + component" where
  "fromTimestamp timestamp = fromNumberWithMarker timestamp 0xFC"

definition fromSegmentOffset :: "u64 \<Rightarrow> error + component" where
  "fromSegmentOffset segmentOffset = fromNumberWithMarker segmentOffset 0xFB"

definition toSegment :: "component \<Rightarrow> error + u64" where
  "toSegment c = lift_ndn (toNumberWithMarker 0x00 c)"

definition toVersion :: "component \<Rightarrow> error + u64" where
  "toVersion c = lift_ndn (toNumberWithMarker 0xFD c)"

definition toSequenceNumber :: "component \<Rightarrow> error + u64" where
  "toSequenceNumber c = lift_ndn (toNumberWithMarker 0xFE c)"

subsection \<open>The successor of a component\<close>

text \<open>
  The loop runs from the last byte to the first with a carry: the result bytes and the carry out
  of the first byte.
\<close>

fun successor_loop :: "byte list \<Rightarrow> byte list \<times> bool" where
  "successor_loop [] = ([], True)"
| "successor_loop (b # bs) =
     (let (result, carry) = successor_loop bs in
      if carry then ((b + 1) # result, b + 1 = 0) else (b # result, False))"

definition component_getSuccessor :: "component \<Rightarrow> component" where
  "component_getSuccessor c =
     (let (result, carry) = successor_loop (blob_bytes (c_value c)) in
      c\<lparr>c_value := Some (if carry then result @ [0] else result)\<rparr>)"

section \<open>Strings and escaping\<close>

definition str :: "string \<Rightarrow> byte list" where
  "str s = map of_char s"

definition isTrimSpace :: "byte \<Rightarrow> bool" where
  "isTrimSpace b \<longleftrightarrow> b = 32 \<or> b = 9 \<or> b = 10 \<or> b = 13"

definition trimLeft :: "byte list \<Rightarrow> byte list" where
  "trimLeft s = dropWhile isTrimSpace s"

definition trimRight :: "byte list \<Rightarrow> byte list" where
  "trimRight s = rev (dropWhile isTrimSpace (rev s))"

definition ndn_trim :: "byte list \<Rightarrow> byte list" where
  "ndn_trim s = trimRight (trimLeft s)"

definition fromHexChar :: "byte \<Rightarrow> int" where
  "fromHexChar c =
     (if c \<ge> 48 \<and> c \<le> 57 then uint c - 48
      else if c \<ge> 65 \<and> c \<le> 70 then uint c - 65 + 10
      else if c \<ge> 97 \<and> c \<le> 102 then uint c - 97 + 10
      else -1)"

text \<open>\<open>fromHex\<close> on the characters between its two offsets.\<close>

fun fromHex :: "byte list \<Rightarrow> blob" where
  "fromHex [] = Some []"
| "fromHex (c # s) =
     (if c = 32 then fromHex s
      else case s of
        [] \<Rightarrow> Some []
      | c1 # s' \<Rightarrow>
          (let hi = fromHexChar c; lo = fromHexChar c1 in
           if hi < 0 \<or> lo < 0 then None
           else map_option (\<lambda>bs. of_int (16 * hi + lo) # bs) (fromHex s')))"

fun unescape :: "byte list \<Rightarrow> byte list" where
  "unescape [] = []"
| "unescape (c # s) =
     (case s of
        c1 # c2 # s' \<Rightarrow>
          if c = 37 then
            let hi = fromHexChar c1; lo = fromHexChar c2 in
            if hi < 0 \<or> lo < 0 then c # c1 # c2 # unescape s'
            else of_int (16 * hi + lo) # unescape s'
          else c # unescape s
      | _ \<Rightarrow> c # unescape s)"

definition fromEscapedString :: "byte list \<Rightarrow> blob" where
  "fromEscapedString escapedString =
     (let v = unescape (ndn_trim escapedString) in
      if list_all (\<lambda>b. b = 46) v then
        if length v \<le> 2 then None else Some (drop 3 v)
      else Some v)"

text \<open>\<open>ostream << number\<close>, most significant digit first; \<open>alpha\<close> is the code of the digit ten less 10.\<close>

definition print_digit :: "byte \<Rightarrow> nat \<Rightarrow> byte" where
  "print_digit alpha d = (if d < 10 then 48 + of_nat d else alpha + of_nat d)"

fun print_nat :: "nat \<Rightarrow> byte \<Rightarrow> nat \<Rightarrow> byte list" where
  "print_nat base alpha n =
     (if base < 2 \<or> n < base then [print_digit alpha n]
      else print_nat base alpha (n div base) @ [print_digit alpha (n mod base)])"

declare print_nat.simps [simp del]

text \<open>A signed \<open>int\<close> on a stream in decimal or, after \<open>flags(ios::hex)\<close>, in hexadecimal mode.\<close>

definition print_int :: "bool \<Rightarrow> int \<Rightarrow> byte list" where
  "print_int hex i =
     (if hex then print_nat 16 87 (nat (i mod 2 ^ 32))
      else if i < 0 then 45 # print_nat 10 87 (nat (- i))
      else print_nat 10 87 (nat i))"

definition isUnescaped :: "byte \<Rightarrow> bool" where
  "isUnescaped x \<longleftrightarrow> (x \<ge> 0x30 \<and> x \<le> 0x39) \<or> (x \<ge> 0x41 \<and> x \<le> 0x5a) \<or> (x \<ge> 0x61 \<and> x \<le> 0x7a) \<or>
     x = 0x2b \<or> x = 0x2d \<or> x = 0x2e \<or> x = 0x5f"

definition escape_byte :: "byte \<Rightarrow> byte list" where
  "escape_byte x =
     (if isUnescaped x then [x]
      else [37] @ (if x < 16 then [48] else []) @ print_nat 16 55 (unat x))"

definition toEscapedString :: "byte list \<Rightarrow> byte list" where
  "toEscapedString value =
     (if list_all (\<lambda>b. b = 0x2e) value then str ''...'' @ value
      else concat (map escape_byte value))"

definition toHex :: "byte list \<Rightarrow> byte list" where
  "toHex bs = concat (map (\<lambda>x. (if x < 16 then [48] else []) @ print_nat 16 87 (unat x)) bs)"

text \<open>
  \<open>Component::toEscapedString\<close> on a stream whose hex flag is \<open>hex\<close>: the characters it writes and
  the flag it leaves. \<open>toHex\<close> sets the flag (unless there is nothing to print) and nothing clears
  it; \<open>Name::toEscapedString\<close> saves and restores it. A null value is dereferenced.
\<close>

definition component_toEscapedString :: "bool \<Rightarrow> component \<Rightarrow> error + (byte list \<times> bool)" where
  "component_toEscapedString hex c =
     (if c_type c = IMPLICIT_SHA256_DIGEST then
        Inr (str ''sha256digest='' @ toHex (blob_bytes (c_value c)),
             hex \<or> blob_size (c_value c) \<noteq> 0)
      else if c_type c = PARAMETERS_SHA256_DIGEST then
        Inr (str ''params-sha256='' @ toHex (blob_bytes (c_value c)),
             hex \<or> blob_size (c_value c) \<noteq> 0)
      else case c_value c of
        None \<Rightarrow> Inl Undefined_behaviour
      | Some v \<Rightarrow>
          Inr ((if c_type c \<noteq> GENERIC
                then print_int hex (if c_type c = OTHER_CODE then c_otherTypeCode c
                                    else enumValue (c_type c)) @ [61]
                else []) @ toEscapedString v, hex))"

section \<open>Names\<close>

subsection \<open>URIs\<close>

fun toUri_components :: "bool \<Rightarrow> name \<Rightarrow> error + byte list" where
  "toUri_components hex [] = Inr []"
| "toUri_components hex (c # cs) =
     bindE (component_toEscapedString hex c) (\<lambda>(s, hex).
       bindE (toUri_components hex cs) (\<lambda>rest. Inr (47 # s @ rest)))"

definition toUri :: "bool \<Rightarrow> name \<Rightarrow> error + byte list" where
  "toUri includeScheme n =
     (if length n = 0 then Inr (if includeScheme then str ''ndn:/'' else str ''/'')
      else bindE (toUri_components False n)
             (\<lambda>s. Inr ((if includeScheme then str ''ndn:'' else []) @ s)))"

text \<open>\<open>atoi\<close>: leading white space, a sign, digits; undefined when the value is no \<open>int\<close>.\<close>

definition isDigit :: "byte \<Rightarrow> bool" where
  "isDigit b \<longleftrightarrow> b \<ge> 48 \<and> b \<le> 57"

definition decimal_value :: "byte list \<Rightarrow> int" where
  "decimal_value ds = foldl (\<lambda>v d. 10 * v + (uint d - 48)) 0 ds"

definition atoi :: "byte list \<Rightarrow> int option" where
  "atoi s =
     (let s = dropWhile (\<lambda>b. b = 32 \<or> (b \<ge> 9 \<and> b \<le> 13)) s;
          neg = (s \<noteq> [] \<and> hd s = 45);
          s = (if s \<noteq> [] \<and> (hd s = 45 \<or> hd s = 43) then tl s else s);
          v = decimal_value (takeWhile isDigit s);
          v = (if neg then - v else v)
      in if v < - (2 ^ 31) \<or> v \<ge> 2 ^ 31 then None else Some v)"

text \<open>
  One turn of the component loop of \<open>Name::set\<close>: \<open>rest\<close> is the URI from \<open>iComponentStart\<close> on
  and \<open>part\<close> its part before the next slash.
\<close>

definition parse_component :: "byte list \<Rightarrow> byte list \<Rightarrow> error + component" where
  "parse_component rest part =
     (let sha256digestPrefix = str ''sha256digest=''; paramsSha256Prefix = str ''params-sha256='' in
      if take (length sha256digestPrefix) rest = sha256digestPrefix then
        fromImplicitSha256Digest (fromHex (drop (length sha256digestPrefix) part))
      else if take (length paramsSha256Prefix) rest = paramsSha256Prefix then
        fromParametersSha256Digest (fromHex (drop (length paramsSha256Prefix) part))
      else if 61 \<in> set part then
        let typeString = takeWhile (\<lambda>b. b \<noteq> 61) part;
            v = fromEscapedString (drop (length typeString + 1) part)
        in case (if typeString = str ''0'' then Some 0 else atoi typeString) of
             None \<Rightarrow> Inl Undefined_behaviour
           | Some otherTypeCode \<Rightarrow>
               if otherTypeCode = 0 \<and> typeString \<noteq> str ''0''
               then Inl (Runtime_error ''Cannot parse decimal Name Component type'')
               else if otherTypeCode = 8 then Component v GENERIC otherTypeCode
               else if otherTypeCode = 1 then Component v IMPLICIT_SHA256_DIGEST otherTypeCode
               else if otherTypeCode = 2 then Component v PARAMETERS_SHA256_DIGEST otherTypeCode
               else Component v OTHER_CODE otherTypeCode
      else Component (fromEscapedString part) GENERIC (-1))"

function parse_components :: "byte list \<Rightarrow> error + name" where
  "parse_components [] = Inr []"
| "parse_components (b # bs) =
     (let uri = b # bs; part = takeWhile (\<lambda>b. b \<noteq> 47) uri in
      bindE (parse_component uri part) (\<lambda>c.
        bindE (parse_components (drop (length part + 1) uri)) (\<lambda>cs.
          Inr (if c_value c \<noteq> None then c # cs else cs))))"
  by pat_completeness auto
termination
  by (relation "measure length") auto

definition find_char :: "byte \<Rightarrow> byte list \<Rightarrow> nat option" where
  "find_char c s = (if c \<in> set s then Some (length (takeWhile (\<lambda>b. b \<noteq> c) s)) else None)"

definition strip_scheme :: "byte list \<Rightarrow> byte list" where
  "strip_scheme uri =
     (case find_char 58 uri of
        None \<Rightarrow> uri
      | Some iColon \<Rightarrow>
          (case find_char 47 uri of
             None \<Rightarrow> ndn_trim (drop (iColon + 1) uri)
           | Some iFirstSlash \<Rightarrow>
               if iColon < iFirstSlash then ndn_trim (drop (iColon + 1) uri) else uri))"

text \<open>\<open>None\<close>: there was only an authority, and the name stays empty.\<close>

definition strip_leading_slash :: "byte list \<Rightarrow> byte list option" where
  "strip_leading_slash uri =
     (case uri of
        [] \<Rightarrow> Some uri
      | b # uri1 \<Rightarrow>
          if b = 47 then
            (case uri1 of
               [] \<Rightarrow> Some (ndn_trim uri1)
             | b1 # uri2 \<Rightarrow>
                 if b1 = 47 then
                   (case find_char 47 uri2 of
                      None \<Rightarrow> None
                    | Some iAfterAuthority \<Rightarrow> Some (ndn_trim (drop (iAfterAuthority + 1) uri2)))
                 else Some (ndn_trim uri1))
          else Some uri)"

definition Name_set :: "byte list \<Rightarrow> error + name" where
  "Name_set uri_cstr =
     (let uri = ndn_trim (takeWhile (\<lambda>b. b \<noteq> 0) uri_cstr) in
      if uri = [] then Inr []
      else case strip_leading_slash (strip_scheme uri) of
             None \<Rightarrow> Inr []
           | Some uri \<Rightarrow> parse_components uri)"

subsection \<open>Access and comparison\<close>

definition name_get :: "name \<Rightarrow> int \<Rightarrow> error + component" where
  "name_get n i =
     (if i \<ge> 0 then
        if i \<ge> int (length n) then Inl (Runtime_error ''Name.get: Index is out of bounds'')
        else Inr (n ! nat i)
      else if i < - int (length n) then Inl (Runtime_error ''Name.get: Index is out of bounds'')
      else Inr (n ! (length n - nat (- i))))"

definition getSubName :: "name \<Rightarrow> int \<Rightarrow> u64 \<Rightarrow> name" where
  "getSubName n iStartComponent nComponents =
     (let iStart = (if iStartComponent < 0 then int (length n) - (- iStartComponent)
                    else iStartComponent);
          iEnd = min (of_int iStart + nComponents) (of_nat (length n))
      in map (\<lambda>i. n ! i) [unat (of_int iStart :: u64) ..< unat iEnd])"

definition getPrefix :: "name \<Rightarrow> int \<Rightarrow> name" where
  "getPrefix n nComponents =
     (if nComponents < 0 then getSubName n 0 (of_nat (length n) + of_int nComponents)
      else getSubName n 0 (of_int nComponents))"

text \<open>
  \<open>equals\<close> and \<open>match\<close> compare the component values only, not their types. The source
  dereferences both values, so these two definitions describe it for names without null values
  (\<open>name_nonnull\<close>), which is what parsing and decoding produce; a null value is read as empty.
\<close>

definition name_nonnull :: "name \<Rightarrow> bool" where
  "name_nonnull n \<longleftrightarrow> list_all (\<lambda>c. c_value c \<noteq> None) n"

fun values_equal :: "name \<Rightarrow> name \<Rightarrow> bool" where
  "values_equal (a # as) (b # bs) =
     (values_equal as bs \<and> blob_bytes (c_value a) = blob_bytes (c_value b))"
| "values_equal _ _ = True"

definition name_equals :: "name \<Rightarrow> name \<Rightarrow> bool" where
  "name_equals n other = (if length n \<noteq> length other then False else values_equal n other)"

definition name_match :: "name \<Rightarrow> name \<Rightarrow> bool" where
  "name_match n other = (if length n > length other then False else values_equal n other)"

text \<open>The comparison of sub-ranges, with the \<open>size_t\<close> arithmetic of the source.\<close>

fun compare_loop :: "name \<Rightarrow> u64 \<Rightarrow> name \<Rightarrow> u64 \<Rightarrow> nat \<Rightarrow> error + int" where
  "compare_loop n i other j 0 = Inr 0"
| "compare_loop n i other j (Suc count) =
     (if unat i \<ge> length n \<or> unat j \<ge> length other then Inl Undefined_behaviour
      else
        let comparison = component_compare (n ! unat i) (other ! unat j) in
        if comparison = 0 then compare_loop n (i + 1) other (j + 1) count else Inr comparison)"

definition name_compareRange :: "name \<Rightarrow> int \<Rightarrow> u64 \<Rightarrow> name \<Rightarrow> int \<Rightarrow> u64 \<Rightarrow> error + int" where
  "name_compareRange n iStartComponent nComponents other iOtherStartComponent nOtherComponents =
     (let iStart = (if iStartComponent < 0 then int (length n) - (- iStartComponent)
                    else iStartComponent);
          iOtherStart = (if iStart < 0 then int (length other) - (- iOtherStartComponent)
                         else iOtherStartComponent);
          nComponents = min nComponents (of_nat (length n) - of_int iStart);
          nOtherComponents = min nOtherComponents (of_nat (length other) - of_int iOtherStart);
          count = min nComponents nOtherComponents
      in bindE (compare_loop n (of_int iStart) other (of_int iOtherStart) (unat count)) (\<lambda>r.
           if r \<noteq> 0 then Inr r
           else if nComponents < nOtherComponents then Inr (- 1)
           else if nComponents > nOtherComponents then Inr 1
           else Inr 0))"

definition name_compare :: "name \<Rightarrow> name \<Rightarrow> error + int" where
  "name_compare n other =
     name_compareRange n 0 (of_nat (length n)) other 0 (of_nat (length other))"

definition name_getSuccessor :: "name \<Rightarrow> error + name" where
  "name_getSuccessor n =
     (if length n = 0 then Name_set (str ''/sha256digest=0000000000000000000000000000000000000000000000000000000000000000'')
      else bindE (name_get n (- 1)) (\<lambda>c.
             Inr (getPrefix n (- 1) @ [component_getSuccessor c])))"

fun findParametersSha256Digest_loop :: "int \<Rightarrow> int \<Rightarrow> name \<Rightarrow> int" where
  "findParametersSha256Digest_loop i result [] = result"
| "findParametersSha256Digest_loop i result (c # cs) =
     (if c_type c = PARAMETERS_SHA256_DIGEST then
        if result \<noteq> -1 then -2 else findParametersSha256Digest_loop (i + 1) i cs
      else findParametersSha256Digest_loop (i + 1) result cs)"

definition findParametersSha256Digest :: "name \<Rightarrow> int" where
  "findParametersSha256Digest n = findParametersSha256Digest_loop 0 (-1) n"

end
