(* ===== verification/Name_Uri.thy ===== *)
theory Name_Uri
  imports Names
begin

text \<open>
  Printing a name as a URI and parsing it back (\<open>Name::toUri\<close>, \<open>Name::set\<close>), and the numbers that
  components carry (\<open>fromNumberWithMarker\<close>, \<open>toNumberWithMarker\<close> and their variants).
\<close>

section \<open>Numbers in components\<close>

lemma be_number_nonNegativeIntegerBytes: "be_number (nonNegativeIntegerBytes v) = v"
proof -
  have "v < 256" if "v \<le> 0xff" using that by (simp add: word_le_nat_alt word_less_nat_alt)
  moreover have "v < 65536" if "v \<le> 0xffff" using that by (simp add: word_le_nat_alt word_less_nat_alt)
  moreover have "v < 4294967296" if "v \<le> 0xffffffff"
    using that by (simp add: word_le_nat_alt word_less_nat_alt)
  ultimately show ?thesis
    using be_number_be_bytes [of v]
    by (auto simp: nonNegativeIntegerBytes_def simp del: be_bytes.simps)
      (simp add: numeral_eq_Suc be_number_from_def ucast_byte_small)
qed

lemma marker_bytes: "nonNegativeIntegerBytes (ucast (m :: byte)) = [m]"
proof -
  have "(ucast m :: u64) \<le> 0xff"
    by (simp add: word_le_nat_alt) (use unat_byte_less [of m] in linarith)
  moreover have "(ucast (ucast m :: u64) :: byte) = m"
    by (rule bit_word_eqI) (auto simp: bit_simps)
  ultimately show ?thesis by (simp add: nonNegativeIntegerBytes_def)
qed

lemma fromNumber_eq:
  assumes "t = OTHER_CODE \<longrightarrow> 0 \<le> c"
  shows "fromNumber v t c = Component (Some (nonNegativeIntegerBytes v)) t c"
proof -
  obtain e where "writeNonNegativeInteger v (TlvEncoder 8) = Inr e"
    "enc_finish e = Some (nonNegativeIntegerBytes v)"
    using nni.write_fresh by blast
  with assms show ?thesis by (auto simp: fromNumber_def)
qed

lemma fromNumberWithMarker_eq:
  "fromNumberWithMarker v m = Inr (genericComponent (m # nonNegativeIntegerBytes v))"
proof -
  have "tlv_writer (\<lambda>e. bindE (writeNonNegativeInteger (ucast m) e) (writeNonNegativeInteger v))
      ([m] @ nonNegativeIntegerBytes v)"
    using tlv_writer_seq [OF nni.tlv_writer_axioms nni.tlv_writer_axioms, of "ucast m" v]
    by (simp only: marker_bytes)
  from tlv_writer.write_fresh [OF this, of 9] obtain e1 e where
    "writeNonNegativeInteger (ucast m) (TlvEncoder 9) = Inr e1"
    "writeNonNegativeInteger v e1 = Inr e" "enc_finish e = Some ([m] @ nonNegativeIntegerBytes v)"
    by (auto simp: bindE_eq_Inr)
  then show ?thesis
    by (simp add: fromNumberWithMarker_def Component_def setType_def genericComponent_def)
qed

lemma be_number_le_bytes: "be_number (rev (le_bytes v)) = v"
proof (induction v rule: le_bytes.induct)
  case (1 v)
  show ?case
  proof (cases "v = 0")
    case True
    then show ?thesis by (simp add: le_bytes.simps be_number_from_def)
  next
    case False
    then have "be_number (rev (le_bytes v)) = drop_bit 8 v * 256 + take_bit 8 v"
      using 1 by (simp add: le_bytes.simps [of v] be_number_from_def ucast_ucast_byte)
    also have "\<dots> = v"
      using bits_ident [of 8 v] by (simp add: push_bit_eq_mult)
    finally show ?thesis .
  qed
qed

lemma memcmp_refl [simp]: "ndn_memcmp xs xs = 0"
  by (induction xs) simp_all

text \<open>
  C36. The three ways to put a 64-bit number into a component are inverted by their readers: plain
  numbers, numbers behind a marker byte (segments, versions, timestamps, sequence numbers) and
  numbers behind a byte prefix; and a reader with another marker reports the error.
\<close>

theorem component_number_roundtrip:
  "(\<exists>c. fromNumber v GENERIC (- 1) = Inr c \<and> toNumber c = v) \<and>
   (\<exists>c. fromNumberWithMarker v m = Inr c \<and> toNumberWithMarker m c = Inr v \<and>
     (\<forall>m'. m' = m \<or> toNumberWithMarker m' c =
        Inl NDN_ERROR_Name_component_does_not_begin_with_the_expected_marker)) \<and>
   toNumberWithPrefix p (fromNumberWithPrefix v p) = Inr v"
  by (auto simp: fromNumber_eq fromNumberWithMarker_eq Component_def setType_def toNumber_def
      be_number_nonNegativeIntegerBytes toNumberWithMarker_def genericComponent_def
      toNumberWithPrefix_def fromNumberWithPrefix_def be_number_le_bytes)

section \<open>Characters\<close>

text \<open>The characters that the printer emits inside a component.\<close>

definition safe :: "byte \<Rightarrow> bool" where
  "safe b \<longleftrightarrow> isUnescaped b \<or> b = 37 \<or> b = 61"

lemma safe_not_special: "safe b \<Longrightarrow> b \<noteq> 47 \<and> b \<noteq> 0 \<and> b \<noteq> 58 \<and> \<not> isTrimSpace b"
  by (auto simp: safe_def isUnescaped_def isTrimSpace_def)

lemma isUnescaped_ne [simp]:
  "isUnescaped b \<Longrightarrow> b \<noteq> 37" "isUnescaped b \<Longrightarrow> b \<noteq> 61" "isUnescaped b \<Longrightarrow> b \<noteq> 32"
  by (auto simp: isUnescaped_def)

lemma digit_cases: "d < 16 \<Longrightarrow>
    d = 0 \<or> d = 1 \<or> d = 2 \<or> d = 3 \<or> d = 4 \<or> d = 5 \<or> d = 6 \<or> d = 7 \<or> d = 8 \<or> d = 9 \<or>
    d = 10 \<or> d = 11 \<or> d = 12 \<or> d = 13 \<or> d = 14 \<or> d = (15 :: nat)"
  by arith

lemma fromHexChar_print_digit:
  assumes "d < 16" "alpha = 55 \<or> alpha = 87"
  shows "fromHexChar (print_digit alpha d) = int d" "isUnescaped (print_digit alpha d)"
proof -
  show "fromHexChar (print_digit alpha d) = int d"
    using digit_cases [OF assms(1)] assms(2)
    by (elim disjE) (simp_all add: fromHexChar_def print_digit_def)
  show "isUnescaped (print_digit alpha d)"
    using digit_cases [OF assms(1)] assms(2)
    by (elim disjE) (simp_all add: isUnescaped_def print_digit_def)
qed

lemma hex2:
  "(if x < 16 then [48] else []) @ print_nat 16 alpha (unat x) =
    [print_digit alpha (unat x div 16), print_digit alpha (unat (x :: byte) mod 16)]"
proof (cases "x < 16")
  case True
  then have "unat x < 16" by (simp add: word_less_nat_alt)
  with True show ?thesis by (simp add: print_nat.simps print_digit_def)
next
  case False
  then have "\<not> unat x < 16" "unat x div 16 < 16"
    using unat_byte_less [of x] by (simp_all add: word_less_nat_alt div_less_iff_less_mult)
  with False show ?thesis by (simp add: print_nat.simps)
qed

lemma hex_value:
  assumes "alpha = 55 \<or> alpha = 87"
  shows "of_int (16 * fromHexChar (print_digit alpha (unat x div 16)) +
      fromHexChar (print_digit alpha (unat x mod 16))) = (x :: byte)"
proof -
  have "unat x div 16 < 16" using unat_byte_less [of x] by (simp add: div_less_iff_less_mult)
  then have "fromHexChar (print_digit alpha (unat x div 16)) = int (unat x div 16)"
    "fromHexChar (print_digit alpha (unat x mod 16)) = int (unat x mod 16)"
    using assms by (simp_all add: fromHexChar_print_digit)
  moreover have "16 * int (unat x div 16) + int (unat x mod 16) = int (unat x)"
    using div_mult_mod_eq [of "unat x" 16] by linarith
  ultimately show ?thesis by (simp del: of_int_add of_int_mult)
qed

section \<open>Escaping\<close>

lemma hex_digits_nonneg:
  assumes "alpha = 55 \<or> alpha = 87"
  shows "0 \<le> fromHexChar (print_digit alpha (unat x div 16))"
    "0 \<le> fromHexChar (print_digit alpha (unat (x :: byte) mod 16))"
    "isUnescaped (print_digit alpha (unat x div 16))" "isUnescaped (print_digit alpha (unat x mod 16))"
proof -
  have "unat x div 16 < 16" using unat_byte_less [of x] by (simp add: div_less_iff_less_mult)
  then show "0 \<le> fromHexChar (print_digit alpha (unat x div 16))"
    "0 \<le> fromHexChar (print_digit alpha (unat (x :: byte) mod 16))"
    "isUnescaped (print_digit alpha (unat x div 16))" "isUnescaped (print_digit alpha (unat x mod 16))"
    using assms by (simp_all add: fromHexChar_print_digit)
qed

lemma unescape_plain: "c \<noteq> 37 \<Longrightarrow> unescape (c # s) = c # unescape s"
  by (simp split: list.split)

lemma unescape_escape_byte: "unescape (escape_byte x @ s) = x # unescape s"
proof (cases "isUnescaped x")
  case True
  then show ?thesis by (simp add: escape_byte_def unescape_plain del: unescape.simps)
next
  case False
  then have e: "escape_byte x = [37, print_digit 55 (unat x div 16), print_digit 55 (unat x mod 16)]"
    using hex2 [of x 55] by (simp add: escape_byte_def)
  show ?thesis
    using hex_value [of 55 x] hex_digits_nonneg [of 55 x]
    by (simp add: e Let_def not_less del: of_int_add of_int_mult)
qed

lemma unescape_escape: "unescape (concat (map escape_byte v)) = v"
  by (induction v) (simp_all add: unescape_escape_byte del: unescape.simps(2))

lemma unescape_dots: "list_all (\<lambda>b. b = 46) v \<Longrightarrow> unescape v = v"
  by (induction v) (simp_all add: unescape_plain del: unescape.simps(2))

lemma escape_byte_safe: "b \<in> set (escape_byte x) \<Longrightarrow> isUnescaped b \<or> b = 37"
  using hex2 [of x 55] hex_digits_nonneg [of 55 x]
  by (auto simp: escape_byte_def split: if_splits)

lemma toEscapedString_chars: "b \<in> set (toEscapedString v) \<Longrightarrow> isUnescaped b \<or> b = 37"
proof -
  assume b: "b \<in> set (toEscapedString v)"
  have dot: "isUnescaped 46" by (simp add: isUnescaped_def)
  show ?thesis
  proof (cases "list_all (\<lambda>b. b = 46) v")
    case True
    with b have "b \<in> set (str ''...'') \<or> b \<in> set v" by (auto simp: toEscapedString_def)
    then have "b = 46" using True by (auto simp: str_def list_all_iff)
    with dot show ?thesis by simp
  next
    case False
    with b show ?thesis using escape_byte_safe by (auto simp: toEscapedString_def)
  qed
qed

lemma trim_id: "(\<And>b. b \<in> set s \<Longrightarrow> \<not> isTrimSpace b) \<Longrightarrow> ndn_trim s = s"
proof -
  assume a: "\<And>b. b \<in> set s \<Longrightarrow> \<not> isTrimSpace b"
  have d: "dropWhile isTrimSpace xs = xs" if "\<And>b. b \<in> set xs \<Longrightarrow> \<not> isTrimSpace b" for xs
    using that by (cases xs) auto
  have "dropWhile isTrimSpace s = s" "dropWhile isTrimSpace (rev s) = rev s"
    using a by (auto intro: d)
  then show ?thesis by (simp add: ndn_trim_def trimLeft_def trimRight_def)
qed

lemma toEscapedString_safe: "b \<in> set (toEscapedString v) \<Longrightarrow> safe b"
  using toEscapedString_chars by (auto simp: safe_def)

lemma fromEscapedString_toEscapedString: "fromEscapedString (toEscapedString v) = Some v"
proof -
  have t: "ndn_trim (toEscapedString v) = toEscapedString v"
    by (rule trim_id) (use toEscapedString_safe safe_not_special in blast)
  show ?thesis
  proof (cases "list_all (\<lambda>b. b = 46) v")
    case True
    then have e: "toEscapedString v = [46, 46, 46] @ v" by (simp add: toEscapedString_def str_def)
    then have d: "list_all (\<lambda>b. b = 46) (toEscapedString v)" using True by simp
    have "unescape (ndn_trim (toEscapedString v)) = [46, 46, 46] @ v"
      using t unescape_dots [OF d] e by simp
    then show ?thesis using True by (simp add: fromEscapedString_def Let_def)
  next
    case False
    then show ?thesis
      using t by (simp add: fromEscapedString_def toEscapedString_def unescape_escape Let_def)
  qed
qed

lemma toHex_Cons: "toHex (x # bs) =
    print_digit 87 (unat x div 16) # print_digit 87 (unat x mod 16) # toHex bs"
  using hex2 [of x 87] by (simp add: toHex_def)

lemma fromHex_toHex: "fromHex (toHex bs) = Some bs"
proof (induction bs)
  case Nil
  then show ?case by (simp add: toHex_def)
next
  case (Cons x bs)
  show ?case
    using hex_value [of 87 x] hex_digits_nonneg [of 87 x] Cons.IH
    by (simp add: toHex_Cons Let_def not_less del: of_int_add of_int_mult)
qed

lemma toHex_safe: "b \<in> set (toHex bs) \<Longrightarrow> safe b"
proof (induction bs)
  case (Cons x bs)
  then show ?case using hex_digits_nonneg [of 87 x] by (auto simp: toHex_Cons safe_def)
qed (simp add: toHex_def)

section \<open>Decimal type codes\<close>

lemma decimal_value_append: "decimal_value (ds @ [d]) = 10 * decimal_value ds + (uint d - 48)"
  by (simp add: decimal_value_def)

lemma print_digit_decimal:
  assumes "d < 10"
  shows "uint (print_digit a d) - 48 = int d" "isDigit (print_digit a d)"
    "print_digit a d = 48 \<longleftrightarrow> d = 0"
proof -
  have "d < 16" using assms by simp
  from digit_cases [OF this] show "uint (print_digit a d) - 48 = int d" "isDigit (print_digit a d)"
    "print_digit a d = 48 \<longleftrightarrow> d = 0"
    using assms by (elim disjE; simp add: print_digit_def isDigit_def)+
qed

lemma print_nat_decimal:
  "decimal_value (print_nat 10 a n) = int n \<and> list_all isDigit (print_nat 10 a n) \<and>
    print_nat 10 a n \<noteq> [] \<and> (print_nat 10 a n = [48] \<longleftrightarrow> n = 0)"
proof (induction n rule: less_induct)
  case (less n)
  show ?case
  proof (cases "n < 10")
    case True
    then show ?thesis
      by (simp add: print_nat.simps [of 10 a n] print_digit_decimal decimal_value_def)
  next
    case False
    have "decimal_value (print_nat 10 a (n div 10)) = int (n div 10)"
      "list_all isDigit (print_nat 10 a (n div 10))" "print_nat 10 a (n div 10) \<noteq> []"
      using less.IH [of "n div 10"] False by simp_all
    then show ?thesis
      using False print_digit_decimal [of "n mod 10" a]
      by (simp add: print_nat.simps [of 10 a n] decimal_value_append)
        (use div_mult_mod_eq [of n 10] in linarith)
  qed
qed

lemma isDigit_facts: "isDigit b \<Longrightarrow> isUnescaped b \<and> b \<noteq> 61 \<and> b \<noteq> 45 \<and> b \<noteq> 43 \<and> b \<noteq> 115 \<and> b \<noteq> 112 \<and>
    \<not> (b = 32 \<or> (b \<ge> 9 \<and> b \<le> 13))"
  by (auto simp: isDigit_def isUnescaped_def word_le_nat_alt)

lemma atoi_print_nat:
  assumes "n < 2 ^ 31"
  shows "atoi (print_nat 10 a n) = Some (int n)"
proof -
  obtain d ds where p: "print_nat 10 a n = d # ds" using print_nat_decimal [of a n] by (cases "print_nat 10 a n") auto
  then have d: "isDigit d" "list_all isDigit ds" "decimal_value (d # ds) = int n"
    using print_nat_decimal [of a n] by auto
  have "dropWhile (\<lambda>b. b = 32 \<or> (b \<ge> 9 \<and> b \<le> 13)) (d # ds) = d # ds"
    using isDigit_facts [OF d(1)] by auto
  moreover have "takeWhile isDigit (d # ds) = d # ds"
    using d(1,2) by (simp add: list_all_iff takeWhile_eq_all_conv)
  moreover have "d \<noteq> 45" "d \<noteq> 43" using isDigit_facts [OF d(1)] by simp_all
  ultimately show ?thesis
    using d(3) assms unfolding atoi_def p Let_def by simp
qed

section \<open>Parsing what was printed\<close>

definition is_digest :: "component \<Rightarrow> bool" where
  "is_digest c \<longleftrightarrow> c_type c = IMPLICIT_SHA256_DIGEST \<or> c_type c = PARAMETERS_SHA256_DIGEST"

text \<open>The components that the constructors of the library build from a non-null value.\<close>

definition component_ok :: "component \<Rightarrow> bool" where
  "component_ok c \<longleftrightarrow> c_value c \<noteq> None \<and>
     (if c_type c = OTHER_CODE
      then 0 \<le> c_otherTypeCode c \<and> c_otherTypeCode c < 2 ^ 31 \<and> c_otherTypeCode c \<notin> {1, 2, 8}
      else c_otherTypeCode c = - 1) \<and>
     (is_digest c \<longrightarrow> blob_size (c_value c) = 32)"

text \<open>
  The names whose URI the parser understands: after a digest component the stream prints numbers
  in hexadecimal, so a later typed component must have a one-digit type code.
\<close>

fun uri_ok :: "bool \<Rightarrow> name \<Rightarrow> bool" where
  "uri_ok hex [] = True"
| "uri_ok hex (c # cs) =
     (component_ok c \<and> (c_type c = OTHER_CODE \<and> hex \<longrightarrow> c_otherTypeCode c < 10) \<and>
      uri_ok (hex \<or> is_digest c) cs)"

lemma print_int_ok:
  assumes "0 \<le> i" "hex \<longrightarrow> i < 10" "i < 2 ^ 31"
  shows "print_int hex i = print_nat 10 87 (nat i)"
proof (cases hex)
  case True
  with assms have "i mod 2 ^ 32 = i" "nat i < 10" by simp_all
  with True show ?thesis by (simp add: print_int_def print_nat.simps)
next
  case False
  with assms show ?thesis by (simp add: print_int_def)
qed

text \<open>A prefix without slashes that matches across the end of the part lies inside the part.\<close>

lemma prefix_inside:
  assumes "tail = [] \<or> hd tail = 47" "47 \<notin> set pre" "take (length pre) (part @ tail) = pre"
  shows "take (length pre) part = pre"
proof (cases "length pre \<le> length part")
  case True
  with assms(3) show ?thesis by simp
next
  case False
  then have eq: "part @ take (length pre - length part) tail = pre" using assms(3) by simp
  show ?thesis
  proof (cases tail)
    case Nil
    with eq show ?thesis by simp
  next
    case (Cons t ts)
    with assms(1) False have "47 \<in> set (take (length pre - length part) tail)"
      by (cases "length pre - length part") auto
    then have "47 \<in> set pre" using eq by (metis Un_iff set_append)
    with assms(2) show ?thesis by simp
  qed
qed

lemma set_str_prefixes:
  "47 \<notin> set (str ''sha256digest='')" "47 \<notin> set (str ''params-sha256='')"
  "61 \<in> set (str ''sha256digest='')" "61 \<in> set (str ''params-sha256='')"
  "hd (str ''sha256digest='') = 115" "hd (str ''params-sha256='') = 112"
  "list_all safe (str ''sha256digest='')" "list_all safe (str ''params-sha256='')"
  by (simp_all add: str_def safe_def isUnescaped_def)

lemma no_prefix:
  assumes "tail = [] \<or> hd tail = 47" "(61 :: byte) \<in> set pre" "47 \<notin> set pre" "61 \<notin> set part"
  shows "take (length pre) (part @ tail) \<noteq> pre"
  using prefix_inside [OF assms(1,3), of part] assms(2,4) in_set_takeD [of 61 "length pre" part]
  by metis

lemma Component_ok:
  "c_type c = t \<Longrightarrow> component_ok c \<Longrightarrow>
    Component (c_value c) t (if t = OTHER_CODE then c_otherTypeCode c else k) = Inr c"
  by (cases c; cases t) (auto simp: Component_def setType_def component_ok_def)

lemma toEscapedString_nonempty: "toEscapedString v \<noteq> []"
  using fromEscapedString_toEscapedString [of v]
  by (auto simp: fromEscapedString_def ndn_trim_def trimLeft_def trimRight_def)

lemma not_61_toEscapedString: "61 \<notin> set (toEscapedString v)"
  using toEscapedString_chars [of 61 v] by (auto simp: isUnescaped_def)

lemma parse_generic:
  assumes "component_ok c" "c_type c = GENERIC" "tail = [] \<or> hd tail = 47" "c_value c = Some v"
  shows "parse_component (toEscapedString v @ tail) (toEscapedString v) = Inr c"
proof -
  note n = no_prefix [OF assms(3) _ _ not_61_toEscapedString]
  show ?thesis
    using n [OF set_str_prefixes(3,1)] n [OF set_str_prefixes(4,2)] Component_ok [OF assms(2,1), of "- 1"]
    by (simp add: parse_component_def Let_def not_61_toEscapedString
        fromEscapedString_toEscapedString assms(4))
qed

lemma parse_digest:
  assumes "component_ok c" "is_digest c" "c_value c = Some v"
  shows "c_type c = IMPLICIT_SHA256_DIGEST \<Longrightarrow>
      parse_component ((str ''sha256digest='' @ toHex v) @ tail) (str ''sha256digest='' @ toHex v) = Inr c"
    and "c_type c = PARAMETERS_SHA256_DIGEST \<Longrightarrow>
      parse_component ((str ''params-sha256='' @ toHex v) @ tail) (str ''params-sha256='' @ toHex v) = Inr c"
proof -
  show "c_type c = PARAMETERS_SHA256_DIGEST \<Longrightarrow>
      parse_component ((str ''params-sha256='' @ toHex v) @ tail) (str ''params-sha256='' @ toHex v) = Inr c"
    using assms by (cases c) (simp add: parse_component_def Let_def fromHex_toHex
        fromParametersSha256Digest_def component_ok_def str_def)
  show "c_type c = IMPLICIT_SHA256_DIGEST \<Longrightarrow>
      parse_component ((str ''sha256digest='' @ toHex v) @ tail) (str ''sha256digest='' @ toHex v) = Inr c"
    using assms by (cases c) (simp add: parse_component_def Let_def fromHex_toHex
        fromImplicitSha256Digest_def component_ok_def)
qed

lemma parse_typed:
  assumes ok: "component_ok c" and ty: "c_type c = OTHER_CODE" and v: "c_value c = Some v"
    and n: "c_otherTypeCode c = int n"
  shows "parse_component ((print_nat 10 87 n @ [61] @ toEscapedString v) @ tail)
      (print_nat 10 87 n @ [61] @ toEscapedString v) = Inr c"
proof -
  let ?d = "print_nat 10 87 n"
  have n31: "n < 2 ^ 31" "n \<notin> {1, 2, 8}" using ok ty n by (auto simp: component_ok_def)
  obtain d ds where d: "?d = d # ds" "isDigit d" using print_nat_decimal [of 87 n] by (cases ?d) auto
  then have "d \<noteq> 115" "d \<noteq> 112" using isDigit_facts [OF d(2)] by simp_all
  then have np: "take 13 (?d @ x) \<noteq> str ''sha256digest=''" "take 14 (?d @ x) \<noteq> str ''params-sha256=''" for x
    using d(1) set_str_prefixes(5,6) by (auto simp: str_def)
  have len: "length (str ''sha256digest='') = 13" "length (str ''params-sha256='') = 14"
    by (simp_all add: str_def)
  have no61: "61 \<notin> set ?d"
    using print_nat_decimal [of 87 n] isDigit_facts by (fastforce simp: list_all_iff)
  then have tw: "takeWhile (\<lambda>b. b \<noteq> 61) (?d @ [61] @ toEscapedString v) = ?d"
    by (subst takeWhile_append2) auto
  have z: "?d = str ''0'' \<longleftrightarrow> n = 0" using print_nat_decimal [of 87 n] by (simp add: str_def)
  have code: "(if ?d = str ''0'' then Some 0 else atoi ?d) = Some (int n)"
    using z atoi_print_nat [OF n31(1)] by simp
  have C: "Component (Some v) OTHER_CODE (int n) = Inr c"
    using Component_ok [OF ty ok, of 0] v n by simp
  have "int n \<noteq> 8" "int n \<noteq> 1" "int n \<noteq> 2" "\<not> (int n = 0 \<and> ?d \<noteq> str ''0'')"
    using n31 z by auto
  then show ?thesis
    using np [of "[61] @ toEscapedString v @ tail"]
    by (simp add: parse_component_def Let_def len tw [simplified] code C
        fromEscapedString_toEscapedString)
qed

lemma parse_printed:
  assumes ok: "component_ok c" "c_type c = OTHER_CODE \<and> hex \<longrightarrow> c_otherTypeCode c < 10"
    and tail: "tail = [] \<or> hd tail = 47"
  obtains P where "component_toEscapedString hex c = Inr (P, hex \<or> is_digest c)"
    "parse_component (P @ tail) P = Inr c" "list_all safe P" "P \<noteq> []"
proof -
  obtain v where v: "c_value c = Some v" using ok by (auto simp: component_ok_def)
  show ?thesis
  proof (cases "c_type c")
    case GENERIC
    show ?thesis
    proof (rule that [of "toEscapedString v"])
      show "component_toEscapedString hex c = Inr (toEscapedString v, hex \<or> is_digest c)"
        using GENERIC v by (simp add: component_toEscapedString_def is_digest_def)
      show "parse_component (toEscapedString v @ tail) (toEscapedString v) = Inr c"
        by (rule parse_generic [OF ok(1) GENERIC tail v])
      show "list_all safe (toEscapedString v)" using toEscapedString_safe by (auto simp: list_all_iff)
    qed (rule toEscapedString_nonempty)
  next
    case IMPLICIT_SHA256_DIGEST
    then have dg: "is_digest c" by (simp add: is_digest_def)
    show ?thesis
    proof (rule that [of "str ''sha256digest='' @ toHex v"])
      show "component_toEscapedString hex c =
          Inr (str ''sha256digest='' @ toHex v, hex \<or> is_digest c)"
        using IMPLICIT_SHA256_DIGEST v dg ok(1)
        by (simp add: component_toEscapedString_def component_ok_def)
      show "parse_component ((str ''sha256digest='' @ toHex v) @ tail) (str ''sha256digest='' @ toHex v) = Inr c"
        by (rule parse_digest(1) [OF ok(1) dg v IMPLICIT_SHA256_DIGEST])
      show "list_all safe (str ''sha256digest='' @ toHex v)"
        using set_str_prefixes(7) toHex_safe by (auto simp: list_all_iff)
      show "str ''sha256digest='' @ toHex v \<noteq> []" by (simp add: str_def)
    qed
  next
    case PARAMETERS_SHA256_DIGEST
    then have dg: "is_digest c" by (simp add: is_digest_def)
    show ?thesis
    proof (rule that [of "str ''params-sha256='' @ toHex v"])
      show "component_toEscapedString hex c =
          Inr (str ''params-sha256='' @ toHex v, hex \<or> is_digest c)"
        using PARAMETERS_SHA256_DIGEST v dg ok(1)
        by (simp add: component_toEscapedString_def component_ok_def)
      show "parse_component ((str ''params-sha256='' @ toHex v) @ tail) (str ''params-sha256='' @ toHex v) = Inr c"
        by (rule parse_digest(2) [OF ok(1) dg v PARAMETERS_SHA256_DIGEST])
      show "list_all safe (str ''params-sha256='' @ toHex v)"
        using set_str_prefixes(8) toHex_safe by (auto simp: list_all_iff)
      show "str ''params-sha256='' @ toHex v \<noteq> []" by (simp add: str_def)
    qed
  next
    case OTHER_CODE
    then have c: "0 \<le> c_otherTypeCode c" "c_otherTypeCode c < 2 ^ 31"
      using ok(1) by (auto simp: component_ok_def)
    let ?d = "print_nat 10 87 (nat (c_otherTypeCode c))"
    show ?thesis
    proof (rule that [of "?d @ [61] @ toEscapedString v"])
      show "component_toEscapedString hex c = Inr (?d @ [61] @ toEscapedString v, hex \<or> is_digest c)"
        using OTHER_CODE v ok(2) print_int_ok [of "c_otherTypeCode c" hex] c
        by (simp add: component_toEscapedString_def is_digest_def)
      show "parse_component ((?d @ [61] @ toEscapedString v) @ tail) (?d @ [61] @ toEscapedString v) = Inr c"
        by (rule parse_typed [OF ok(1) OTHER_CODE v]) (use c in simp)
      show "list_all safe (?d @ [61] @ toEscapedString v)"
        using print_nat_decimal [of 87 "nat (c_otherTypeCode c)"] isDigit_facts toEscapedString_safe
        by (auto simp: list_all_iff safe_def)
    qed simp
  qed
qed

definition uri_char :: "byte \<Rightarrow> bool" where
  "uri_char b \<longleftrightarrow> safe b \<or> b = 47"

lemma uri_char_facts: "uri_char b \<Longrightarrow> b \<noteq> 0 \<and> b \<noteq> 58 \<and> \<not> isTrimSpace b"
  using safe_not_special by (auto simp: uri_char_def isTrimSpace_def)

lemma takeWhile_part:
  "list_all safe P \<Longrightarrow> tail = [] \<or> hd tail = 47 \<Longrightarrow> takeWhile (\<lambda>b. b \<noteq> 47) (P @ tail) = P"
  using safe_not_special by (cases tail) (auto simp: list_all_iff takeWhile_eq_all_conv)

lemma toUri_components_parse:
  assumes "uri_ok hex n"
  shows "\<exists>s. toUri_components hex n = Inr s \<and> list_all uri_char s \<and>
    (n = [] \<longrightarrow> s = []) \<and>
    (n \<noteq> [] \<longrightarrow> (\<exists>b r. s = 47 # b # r \<and> b \<noteq> 47)) \<and> parse_components (tl s) = Inr n"
  using assms
proof (induction n arbitrary: hex)
  case Nil
  then show ?case by simp
next
  case (Cons c cs)
  then obtain s where s: "toUri_components (hex \<or> is_digest c) cs = Inr s" "list_all uri_char s"
    "s = [] \<or> hd s = 47" "parse_components (tl s) = Inr cs" "cs = [] \<longrightarrow> s = []"
    by fastforce
  obtain P where P: "component_toEscapedString hex c = Inr (P, hex \<or> is_digest c)"
    "parse_component (P @ s) P = Inr c" "list_all safe P" "P \<noteq> []"
    using parse_printed [of c hex s] Cons.prems s(3) by auto
  obtain b r where br: "P = b # r" "b \<noteq> 47" using P(3,4) safe_not_special by (cases P) auto
  have "c_value c \<noteq> None" using Cons.prems by (simp add: component_ok_def)
  moreover have "drop (Suc (length P)) (P @ s) = tl s" by (cases s) simp_all
  ultimately have "parse_components (P @ s) = Inr (c # cs)"
    using P(2) takeWhile_part [OF P(3) s(3)] s(4) br(1) by (simp add: Let_def)
  with P s(1,2) br show ?case
    by (auto simp: uri_char_def list_all_iff)
qed

text \<open>
  C10. \<open>toUri\<close> followed by \<open>Name(uri)\<close> is the identity: every name of well-formed components (with or
  without the scheme) is printed without error and parsed back to the same components with the
  same types, provided no typed component with a type code of ten or more comes after a digest
  component.
\<close>

theorem name_uri_roundtrip:
  assumes "uri_ok False n"
  shows "\<exists>s. toUri includeScheme n = Inr s \<and> Name_set s = Inr n"
proof (cases "n = []")
  case True
  then show ?thesis
    by (cases includeScheme) (simp_all add: toUri_def Name_set_def str_def ndn_trim_def trimLeft_def trimRight_def
        isTrimSpace_def strip_scheme_def find_char_def strip_leading_slash_def)
next
  case False
  with toUri_components_parse [OF assms] obtain s b r where
    s: "toUri_components False n = Inr s" "list_all uri_char s" "s = 47 # b # r" "b \<noteq> 47"
    "parse_components (tl s) = Inr n" by auto
  have tr: "ndn_trim xs = xs" if "list_all uri_char xs" for xs
    using that uri_char_facts by (auto intro: trim_id simp: list_all_iff)
  have no: "58 \<notin> set s" "0 \<notin> set s" using s(2) uri_char_facts by (auto simp: list_all_iff)
  have tw: "takeWhile (\<lambda>b. b \<noteq> 0) s = s" using no(2) by (auto simp: takeWhile_eq_all_conv)
  have st: "strip_leading_slash s = Some (tl s)"
    using s(2-4) tr by (simp add: strip_leading_slash_def)
  show ?thesis
  proof (cases includeScheme)
    case False': False
    have "Name_set s = Inr n"
      using tw tr [OF s(2)] no(1) st s(3,5)
      by (simp add: Name_set_def strip_scheme_def find_char_def)
    then show ?thesis using False False' s(1) by (simp add: toUri_def)
  next
    case True
    let ?u = "str ''ndn:'' @ s"
    have u: "?u = [110, 100, 110, 58] @ s" by (simp add: str_def)
    have f1: "takeWhile (\<lambda>b. b \<noteq> 0) ?u = ?u" using tw u by simp
    have f2: "ndn_trim ?u = ?u"
      using s(2) uri_char_facts u by (intro trim_id) (auto simp: list_all_iff isTrimSpace_def)
    have f3: "strip_scheme ?u = s"
      using u s(3) tr [OF s(2)] by (simp add: strip_scheme_def find_char_def)
    have "Name_set ?u = Inr n"
      by (simp only: Name_set_def Let_def f1 f2 f3 st) (simp add: u s(5))
    then show ?thesis using False True s(1) by (simp add: toUri_def)
  qed
qed

theorem name_uri_roundtrip_witness:
  "\<exists>s. toUri True [genericComponent [46, 46], \<lparr>c_type = OTHER_CODE, c_otherTypeCode = 33, c_value = Some [0]\<rparr>,
      \<lparr>c_type = IMPLICIT_SHA256_DIGEST, c_otherTypeCode = -1, c_value = Some (replicate 32 7)\<rparr>] = Inr s \<and>
    Name_set s = Inr [genericComponent [46, 46], \<lparr>c_type = OTHER_CODE, c_otherTypeCode = 33, c_value = Some [0]\<rparr>,
      \<lparr>c_type = IMPLICIT_SHA256_DIGEST, c_otherTypeCode = -1, c_value = Some (replicate 32 7)\<rparr>]"
  by (rule name_uri_roundtrip)
    (simp add: component_ok_def is_digest_def genericComponent_def)

text \<open>
  That proviso is needed: \<open>toHex\<close> leaves the output stream in hexadecimal mode, so a segment
  component of type 33 after a parameters digest is printed as \<open>21=\<close>, and parsing the URI yields a
  component of type 21.
\<close>

lemma toUri_hex_leak:
  "\<exists>s. toUri False [\<lparr>c_type = PARAMETERS_SHA256_DIGEST, c_otherTypeCode = -1, c_value = Some (replicate 32 0)\<rparr>,
        \<lparr>c_type = OTHER_CODE, c_otherTypeCode = 33, c_value = Some [65]\<rparr>] = Inr s \<and>
    Name_set s = Inr [\<lparr>c_type = PARAMETERS_SHA256_DIGEST, c_otherTypeCode = -1, c_value = Some (replicate 32 0)\<rparr>,
        \<lparr>c_type = OTHER_CODE, c_otherTypeCode = 21, c_value = Some [65]\<rparr>]"
proof -
  let ?d = "\<lparr>c_type = PARAMETERS_SHA256_DIGEST, c_otherTypeCode = -1, c_value = Some (replicate 32 0)\<rparr>"
  let ?b = "\<lambda>code. \<lparr>c_type = OTHER_CODE, c_otherTypeCode = code, c_value = Some [65]\<rparr>"
  let ?s = "str ''/params-sha256=0000000000000000000000000000000000000000000000000000000000000000/21=A''"
  have "toUri False [?d, ?b 33] = Inr ?s" by code_simp
  moreover have "Name_set ?s = Inr [?d, ?b 21]" by code_simp
  ultimately show ?thesis by blast
qed

end
