(* ===== verification/Name_Order.thy ===== *)
theory Name_Order
  imports Names
begin

text \<open>
  The canonical order of names. \<open>component_compare\<close> and \<open>name_compare\<close> are shown to decide the
  lexicographic order on the keys (type code, length, bytes), so \<open>std::map\<close> and \<open>std::set\<close> keyed by
  \<open>Name\<close> see a total order; \<open>getSuccessor\<close> is shown to be the next component in that order.
\<close>

section \<open>Three-way comparison\<close>

definition cmp :: "'a::linorder \<Rightarrow> 'a \<Rightarrow> int" where
  "cmp x y = (if x < y then -1 else if y < x then 1 else 0)"

type_synonym ckey = "int \<times> nat \<times> byte list"

definition key :: "component \<Rightarrow> ckey" where
  "key c = (typeCode c, blob_size (c_value c), blob_bytes (c_value c))"

abbreviation nkey :: "name \<Rightarrow> ckey list" where
  "nkey n \<equiv> map key n"

lemma cmp_0 [simp]: "cmp x y = 0 \<longleftrightarrow> x = y"
  by (auto simp: cmp_def)

lemma cmp_neg [simp]: "cmp x y < 0 \<longleftrightarrow> x < y"
  by (auto simp: cmp_def)

lemma cmp_Cons: "cmp (x # xs) (y # ys) = (if cmp x y = 0 then cmp xs ys else cmp x y)"
  by (auto simp: cmp_def)

lemma cmp_same_head [simp]: "cmp (y # xs) (y # ys) = cmp xs ys"
  by (simp add: cmp_Cons)

lemma cmp_Nil: "cmp [] [] = 0" "cmp [] (y # ys) = -1" "cmp (x # xs) [] = 1"
  by (simp_all add: cmp_def)

lemma memcmp_cmp: "length as = length bs \<Longrightarrow> ndn_memcmp as bs = cmp as bs"
  by (induction as bs rule: ndn_memcmp.induct) (auto simp: cmp_Cons cmp_Nil, auto simp: cmp_def)

lemma component_compare_cmp: "component_compare c d = cmp (key c) (key d)"
  unfolding component_compare_def key_def Let_def
  using memcmp_cmp [of "blob_bytes (c_value c)" "blob_bytes (c_value d)"]
  by (auto simp: cmp_def less_prod_def)

section \<open>Comparing names\<close>

lemma drop_nth_Cons: "i < length xs \<Longrightarrow> drop i xs = xs ! i # drop (Suc i) xs"
  by (simp add: Cons_nth_drop_Suc)

lemma compare_loop_cmp:
  assumes "unat i + count \<le> length n" "unat j + count \<le> length other"
    and "length n < 2 ^ 63" "length other < 2 ^ 63"
  shows "compare_loop n i other j count =
    Inr (cmp (nkey (take count (drop (unat i) n))) (nkey (take count (drop (unat j) other))))"
  using assms
proof (induction n i other j count rule: compare_loop.induct)
  case (1 n i other j)
  then show ?case by (simp add: cmp_Nil)
next
  case (2 n i other j count)
  have u: "unat (i + 1) = Suc (unat i)" "unat (j + 1) = Suc (unat j)"
    using "2.prems" unat_plus_fits [of i 1] unat_plus_fits [of j 1] by simp_all
  have d: "drop (unat i) n = n ! unat i # drop (Suc (unat i)) n"
    "drop (unat j) other = other ! unat j # drop (Suc (unat j)) other"
    using "2.prems" by (simp_all add: drop_nth_Cons)
  show ?case
    using "2.prems" "2.IH" by (auto simp: u d component_compare_cmp cmp_Cons)
qed

lemma cmp_take_min:
  fixes xs :: "'a::linorder list"
  shows "cmp xs ys =
    (let c = min (length xs) (length ys); r = cmp (take c xs) (take c ys) in
     if r \<noteq> 0 then r
     else if length xs < length ys then -1 else if length ys < length xs then 1 else 0)"
proof (induction xs arbitrary: ys)
  case Nil
  then show ?case by (cases ys) (simp_all add: cmp_Nil)
next
  case (Cons x xs)
  show ?case
  proof (cases ys)
    case Nil
    then show ?thesis by (simp add: cmp_Nil)
  next
    case Y: (Cons y ys')
    show ?thesis
    proof (cases "x = y")
      case True
      with Cons.IH [of ys'] Y True show ?thesis by (simp add: Let_def)
    next
      case False
      with Y show ?thesis by (simp add: cmp_Cons Let_def)
    qed
  qed
qed

lemma name_compare_cmp:
  assumes "length n < 2 ^ 63" "length other < 2 ^ 63"
  shows "name_compare n other = Inr (cmp (nkey n) (nkey other))"
proof -
  let ?a = "of_nat (length n) :: u64" and ?b = "of_nat (length other) :: u64"
  have u: "unat ?a = length n" "unat ?b = length other" using assms by simp_all
  then have m: "unat (min ?a ?b) = min (length n) (length other)"
    by (simp add: min_def word_le_nat_alt)
  have lt: "?a < ?b \<longleftrightarrow> length n < length other" "?b < ?a \<longleftrightarrow> length other < length n"
    using u by (simp_all add: word_less_nat_alt)
  have "compare_loop n 0 other 0 (min (length n) (length other)) =
      Inr (cmp (take (min (length n) (length other)) (nkey n))
               (take (min (length n) (length other)) (nkey other)))"
    using compare_loop_cmp [of 0 "min (length n) (length other)" n 0 other] assms
    by (simp add: take_map)
  then show ?thesis
    using cmp_take_min [of "nkey n" "nkey other"]
    by (auto simp: name_compare_def name_compareRange_def m lt Let_def)
qed

text \<open>
  C11. \<open>Name::compare\<close> decides the NDN canonical order: for names of any realistic length it
  returns -1, 0 or 1 exactly as the lexicographic order on the component keys (type code, then
  length, then bytes) says, with a proper prefix before its extensions. It never reads outside
  either name.
\<close>

theorem name_compare_canonical:
  assumes "length n < 2 ^ 63" and "length other < 2 ^ 63"
  shows "name_compare n other =
    Inr (if nkey n < nkey other then -1 else if nkey other < nkey n then 1 else 0)"
  using name_compare_cmp [OF assms] by (simp add: cmp_def)

theorem name_compare_canonical_witness:
  "name_compare [genericComponent [99]] [genericComponent [98, 98]] = Inr (- 1)"
proof -
  have h: "length [genericComponent [99]] < 2 ^ 63" "length [genericComponent [98, 98]] < 2 ^ 63"
    by simp_all
  show ?thesis
    using name_compare_canonical [OF h]
    by (simp add: key_def genericComponent_def typeCode_def)
qed

section \<open>Successors\<close>

lemma byte_le_255: "(b :: byte) \<le> 255"
  by (simp add: word_le_nat_alt) (use unat_byte_less [of b] in linarith)

lemma byte_succ:
  assumes "(b :: byte) \<noteq> 255"
  shows "b < b + 1" and "b < d \<Longrightarrow> b + 1 \<le> d" and "b + 1 \<noteq> 0"
proof -
  have "unat b \<noteq> 255" using assms by (simp add: word_unat_eq_iff)
  then have "unat b < 255" using unat_byte_less [of b] by linarith
  then have u: "unat (b + 1) = unat b + 1" by (simp add: unat_word_ariths)
  then show "b < b + 1" "b < d \<Longrightarrow> b + 1 \<le> d"
    by (simp_all add: word_less_nat_alt word_le_nat_alt)
  show "b + 1 \<noteq> 0" using u by auto
qed

lemma replicate_0_le: "length ds = n \<Longrightarrow> replicate n (0 :: byte) \<le> ds"
proof (induction n arbitrary: ds)
  case (Suc n)
  then show ?case by (cases ds) (auto simp: word_gt_0)
qed simp

lemma replicate_255_max: "length ds = n \<Longrightarrow> \<not> replicate n (255 :: byte) < ds"
proof (induction n arbitrary: ds)
  case (Suc n)
  then show ?case using byte_le_255 by (cases ds) (auto simp: not_less)
qed simp

lemma successor_loop_spec:
  "case successor_loop bs of (r, carry) \<Rightarrow>
     length r = length bs \<and>
     (if carry then bs = replicate (length bs) 255 \<and> r = replicate (length bs) 0
      else bs < r \<and> (\<forall>ds. length ds = length bs \<longrightarrow> bs < ds \<longrightarrow> r \<le> ds))"
proof (induction bs)
  case Nil
  then show ?case by simp
next
  case (Cons b bs)
  obtain r carry where r: "successor_loop bs = (r, carry)" by fastforce
  with Cons.IH have len: "length r = length bs" by simp
  show ?case
  proof (cases carry)
    case False
    then have lt: "bs < r" and least: "\<And>ds. length ds = length bs \<Longrightarrow> bs < ds \<Longrightarrow> r \<le> ds"
      using Cons.IH r by auto
    have "b # r \<le> ds" if "length ds = Suc (length bs)" "b # bs < ds" for ds
      using that least by (cases ds) (auto simp: not_less)
    with False r len lt show ?thesis by auto
  next
    case True
    then have bs: "bs = replicate (length bs) 255" and r0: "r = replicate (length bs) 0"
      using Cons.IH r by auto
    show ?thesis
    proof (cases "b = 255")
      case b: True
      with bs r0 True r show ?thesis by simp
    next
      case b: False
      have "(b + 1) # r \<le> ds" if l: "length ds = Suc (length bs)" and lt: "b # bs < ds" for ds
      proof -
        obtain d ds' where ds: "ds = d # ds'" "length ds' = length bs" using l by (cases ds) auto
        have "\<not> bs < ds'" using replicate_255_max [OF ds(2)] bs by simp
        then have "b < d" using lt ds(1) by auto
        then have "b + 1 \<le> d" by (rule byte_succ(2) [OF b])
        moreover have "r \<le> ds'" using replicate_0_le [OF ds(2)] r0 by simp
        ultimately show ?thesis using ds(1) by auto
      qed
      with True r len byte_succ(1,3) [OF b] show ?thesis by auto
    qed
  qed
qed

lemma key_successor:
  "key c < key (component_getSuccessor c)"
  "key c < key d \<Longrightarrow> key (component_getSuccessor c) \<le> key d"
proof -
  let ?bs = "blob_bytes (c_value c)"
  obtain r carry where r: "successor_loop ?bs = (r, carry)" by fastforce
  have len: "length r = length ?bs" using successor_loop_spec [of ?bs] r by simp
  have k: "key (component_getSuccessor c) =
      (typeCode c, length (if carry then r @ [0] else r), if carry then r @ [0] else r)"
    by (simp add: key_def component_getSuccessor_def r typeCode_def)
  have k0: "key c = (typeCode c, length ?bs, ?bs)" by (simp add: key_def)
  show "key c < key (component_getSuccessor c)"
    using successor_loop_spec [of ?bs] r len unfolding k k0 by (auto simp: less_prod_def)
  assume lt: "key c < key d"
  let ?ds = "blob_bytes (c_value d)"
  show "key (component_getSuccessor c) \<le> key d"
  proof (cases "typeCode c = typeCode d")
    case False
    with lt show ?thesis unfolding k k0 key_def [of d] by (auto simp: less_prod_def less_eq_prod_def)
  next
    case ty: True
    show ?thesis
    proof (cases carry)
      case False
      then show ?thesis
        using successor_loop_spec [of ?bs] r len lt ty unfolding k k0 key_def [of d]
        by (auto simp: less_prod_def less_eq_prod_def)
    next
      case True
      then have bs: "?bs = replicate (length ?bs) 255" and r0: "r = replicate (length ?bs) 0"
        using successor_loop_spec [of ?bs] r by auto
      have le: "length ?bs \<le> length ?ds" using lt ty by (auto simp: key_def less_prod_def)
      have "\<not> ?bs < ?ds" if "length ?ds = length ?bs"
        using replicate_255_max [OF that] bs by argo
      then have ne: "length ?ds \<noteq> length ?bs" using lt ty by (auto simp: key_def less_prod_def)
      have min: "r @ [0] \<le> ?ds" if "length ?ds = Suc (length ?bs)"
        using replicate_0_le [OF that] r0 by (simp add: replicate_append_same)
      have l1: "length (r @ [0]) = Suc (length ?bs)" using len by simp
      have "Suc (length ?bs) < length ?ds \<or> length ?ds = Suc (length ?bs) \<and> r @ [0] \<le> ?ds"
        using le ne min by linarith
      then show ?thesis
        unfolding k key_def [of d] using True ty l1 by (auto simp: less_eq_prod_def)
    qed
  qed
qed

text \<open>
  C35. \<open>Component::getSuccessor\<close> is the immediate successor in the canonical order: it is greater
  than the component, and no component of any type lies strictly between the two.
\<close>

theorem component_successor_immediate:
  "component_compare c (component_getSuccessor c) = - 1 \<and>
   \<not> (component_compare c d = - 1 \<and> component_compare d (component_getSuccessor c) = - 1)"
  using key_successor(1) [of c] key_successor(2) [of c d]
  by (auto simp: component_compare_cmp cmp_def split: if_splits)

subsection \<open>The successor of a name\<close>

lemma between_last:
  fixes a b :: "'a::linorder"
  assumes "\<And>x. x \<in> set z \<Longrightarrow> a < x \<Longrightarrow> b \<le> x"
    and "p @ [a] < z" and "z < p @ [b]"
  shows "\<exists>r. r \<noteq> [] \<and> z = p @ a # r"
  using assms
proof (induction p arbitrary: z)
  case Nil
  then obtain x r where "z = x # r" by (cases z) auto
  with Nil show ?case by (cases r) (fastforce simp: not_less)+
next
  case (Cons y p)
  then obtain x r where z: "z = x # r" by (cases z) auto
  with Cons.prems have "x = y" "p @ [a] < r" "r < p @ [b]" by auto
  with Cons.IH [of r] Cons.prems(1) z show ?case by auto
qed

lemma append_last_less: "x < y \<Longrightarrow> p @ [x] < p @ [y :: 'a::linorder]"
  by (induction p) simp_all

lemma name_successor_eq:
  assumes "length (p @ [c]) < 2 ^ 63"
  shows "name_getSuccessor (p @ [c]) = Inr (p @ [component_getSuccessor c])"
proof -
  have "unat (of_nat (length p) :: u64) = length p" using assms by simp
  moreover have "min (of_nat (length p)) (1 + of_nat (length p)) = (of_nat (length p) :: u64)"
    using assms unat_plus_fits [of "of_nat (length p)" 1]
    by (simp add: min_def word_le_nat_alt add.commute)
  ultimately have "getPrefix (p @ [c]) (- 1) = p"
    by (auto simp: getPrefix_def getSubName_def Let_def nth_append intro: nth_equalityI)
  then show ?thesis by (simp add: name_getSuccessor_def name_get_def)
qed

text \<open>
  The successor of a non-empty name is greater than it, and the only names strictly between
  the two are the proper extensions of the name (so the doc comment's "no name lies between"
  holds only among names that are not extensions).
\<close>

lemma name_successor_gap:
  assumes "n \<noteq> []" and "length n < 2 ^ 63"
  shows "\<exists>s. name_getSuccessor n = Inr s \<and> nkey n < nkey s \<and>
    (\<forall>z. nkey n < nkey z \<and> nkey z < nkey s \<longrightarrow> (\<exists>r. r \<noteq> [] \<and> nkey z = nkey n @ r))"
proof -
  obtain p c where n: "n = p @ [c]" using assms(1) by (metis rev_exhaust)
  have ext: "\<exists>r. r \<noteq> [] \<and> nkey z = nkey n @ r"
    if "nkey n < nkey z" "nkey z < nkey p @ [key (component_getSuccessor c)]" for z
  proof -
    have "\<exists>r. r \<noteq> [] \<and> nkey z = nkey p @ key c # r"
      using that n key_successor(2) [of c]
      by (intro between_last [of _ _ "key (component_getSuccessor c)"]) auto
    then show ?thesis using n by simp
  qed
  show ?thesis
    using name_successor_eq [of p c] assms(2) n append_last_less [OF key_successor(1) [of c], of "nkey p"] ext by auto
qed

section \<open>Sub-names, prefixes and matching\<close>

lemma map_nth_range: "e \<le> length xs \<Longrightarrow> map (\<lambda>i. xs ! i) [b ..< e] = drop b (take e xs)"
  by (rule nth_equalityI) auto

lemma getSubName_eq:
  assumes "length n < 2 ^ 63" "i \<le> length n" "k < 2 ^ 63"
  shows "getSubName n (int i) (of_nat k) = take k (drop i n)"
proof -
  have u: "unat (of_nat i :: u64) = i" "unat (of_nat (length n) :: u64) = length n"
    using assms by simp_all
  have "unat (of_nat i + of_nat k :: u64) = i + k"
    using assms u(1) unat_plus_fits [of "of_nat i" k] by simp
  then have "unat (min (of_nat i + of_nat k) (of_nat (length n) :: u64)) = min (i + k) (length n)"
    using u(2) by (simp add: min_def word_le_nat_alt)
  then show ?thesis
    using u(1) by (simp add: getSubName_def Let_def map_nth_range take_drop add.commute)
      (simp add: min_def)
qed

text \<open>
  Sub-names are what the indices say: within a name, \<open>getSubName(i, k)\<close> is the \<open>k\<close> components
  from \<open>i\<close> on (fewer at the end), \<open>getPrefix(k)\<close> the first \<open>k\<close>, and \<open>getPrefix(-k)\<close> all but the
  last \<open>k\<close>.
\<close>

lemma getSubName_getPrefix:
  assumes "length n < 2 ^ 63" and "i \<le> length n" and "k < 2 ^ 63"
  shows "getSubName n (int i) (of_nat k) = take k (drop i n) \<and>
    getPrefix n (int k) = take k n \<and>
    (i = 0 \<or> getPrefix n (- int i) = take (length n - i) n)"
proof (intro conjI)
  show "getSubName n (int i) (of_nat k) = take k (drop i n)" by (rule getSubName_eq [OF assms])
  show "getPrefix n (int k) = take k n"
    using getSubName_eq [OF assms(1) _ assms(3), of 0] by (simp add: getPrefix_def)
  have "of_nat (length n) + of_int (- int i) = (of_nat (length n - i) :: u64)"
    using assms(2) by (simp add: of_nat_diff)
  moreover have "length n - i < 2 ^ 63" using assms(1) by linarith
  ultimately show "i = 0 \<or> getPrefix n (- int i) = take (length n - i) n"
    using getSubName_eq [OF assms(1), of 0 "length n - i"] by (simp add: getPrefix_def)
qed

lemma getSubName_getPrefix_witness:
  "getPrefix [genericComponent [1], genericComponent [2], genericComponent [3]] (- int 1) =
    [genericComponent [1], genericComponent [2]]"
proof -
  let ?n = "[genericComponent [1], genericComponent [2], genericComponent [3]]"
  have h: "length ?n < 2 ^ 63" "1 \<le> length ?n" "(0::nat) < 2 ^ 63" by simp_all
  show ?thesis using getSubName_getPrefix [OF h] by simp
qed

text \<open>The component values of a name; \<open>match\<close> is the prefix relation on them.\<close>

lemma values_equal_iff:
  "values_equal a b \<longleftrightarrow>
    (\<forall>i < min (length a) (length b). blob_bytes (c_value (a ! i)) = blob_bytes (c_value (b ! i)))"
proof (induction a b rule: values_equal.induct)
  case (1 a as b bs)
  then show ?case by (auto simp: less_Suc_eq_0_disj)
qed auto

lemma name_match_iff:
  "name_match n other \<longleftrightarrow>
    length n \<le> length other \<and>
    map (\<lambda>c. blob_bytes (c_value c)) n = take (length n) (map (\<lambda>c. blob_bytes (c_value c)) other)"
  by (auto simp: name_match_def values_equal_iff list_eq_iff_nth_eq)

lemma name_equals_iff:
  "name_equals n other \<longleftrightarrow>
    map (\<lambda>c. blob_bytes (c_value c)) n = map (\<lambda>c. blob_bytes (c_value c)) other"
  by (auto simp: name_equals_def values_equal_iff list_eq_iff_nth_eq dest: map_eq_imp_length_eq)

lemma name_match_refl [simp]: "name_match n n"
  by (simp add: name_match_iff)

lemma name_match_trans: "name_match a b \<Longrightarrow> name_match b c \<Longrightarrow> name_match a c"
  by (auto simp: name_match_iff)

lemma name_match_append [simp]: "name_match n (n @ m)"
  by (simp add: name_match_iff)

lemma name_match_Nil [simp]: "name_match [] n"
  by (simp add: name_match_iff)

lemma name_equals_match: "name_equals a b \<longleftrightarrow> name_match a b \<and> length a = length b"
  by (auto simp: name_equals_def name_match_def)

text \<open>
  \<open>equals\<close> does not see component types: a generic component and a component of type 9 with the
  same bytes make "equal" names, although \<open>Component::equals\<close> and \<open>Name::compare\<close> tell them apart.
\<close>

lemma name_equals_ignores_types:
  "name_equals [genericComponent [65]] [\<lparr>c_type = OTHER_CODE, c_otherTypeCode = 9, c_value = Some [65]\<rparr>] \<and>
   \<not> component_equals (genericComponent [65]) \<lparr>c_type = OTHER_CODE, c_otherTypeCode = 9, c_value = Some [65]\<rparr> \<and>
   name_compare [genericComponent [65]] [\<lparr>c_type = OTHER_CODE, c_otherTypeCode = 9, c_value = Some [65]\<rparr>] = Inr (- 1)"
  by (simp add: name_equals_iff genericComponent_def component_equals_def name_compare_cmp
      cmp_def key_def typeCode_def)

text \<open>
  The sub-range form of \<open>compare\<close> does not accept the negative index of the other name that
  its documentation promises: the guard tests the first index instead, the index stays negative,
  and the loop reads outside the other name.
\<close>

lemma compareRange_negative_other_index:
  assumes "n \<noteq> []" and "other \<noteq> []" and "length n < 2 ^ 63" and "length other < 2 ^ 63"
  shows "name_compareRange n 0 (of_nat (length n)) other (- 1) (of_nat (length other)) =
    Inl Undefined_behaviour"
proof -
  let ?a = "of_nat (length n) :: u64" and ?b = "of_nat (length other) :: u64"
  have b: "unat ?b = length other" "unat ?a = length n" using assms(3,4) by simp_all
  have b1: "unat (?b - (- 1)) = length other + 1"
    using unat_plus_fits [of ?b 1] b assms(4) by simp
  have "min ?b (?b - (- 1)) = ?b" using b b1 by (simp add: min_def word_le_nat_alt)
  moreover have "unat (min ?a ?b) = min (length n) (length other)"
    using b by (simp add: min_def word_le_nat_alt)
  moreover obtain k where "min (length n) (length other) = Suc k"
    using assms(1,2) by (cases n; cases other) auto
  moreover have "unat (- 1 :: u64) = 18446744073709551615"
    by (simp add: unsigned_minus_1_eq_mask mask_eq_exp_minus_1)
  ultimately show ?thesis using assms(4) by (simp add: name_compareRange_def Let_def)
qed

lemma compareRange_negative_other_index_witness:
  "name_compareRange [genericComponent [1]] 0 (of_nat (length [genericComponent [1]])) [genericComponent [2]] (- 1)
     (of_nat (length [genericComponent [2]])) = Inl Undefined_behaviour"
  by (rule compareRange_negative_other_index) simp_all

end
