(* ===== verification/Exclude_Filter.thy ===== *)
theory Exclude_Filter
  imports Name_Order
begin

text \<open>
  Excludes (src/exclude.cpp, include/ndn-ind/exclude.hpp): a list of components and ANY markers;
  a marker stands for every component between its neighbours.  matches is compared with the
  declarative reading of such a list.
\<close>

section \<open>The list\<close>

datatype excludeEntry = ANY | COMPONENT component

text \<open>The component of an ANY entry is the default component.\<close>

fun entry_getComponent :: "excludeEntry \<Rightarrow> component" where
  "entry_getComponent ANY = Component0"
| "entry_getComponent (COMPONENT c) = c"

type_synonym exclude = "excludeEntry list"

definition exclude_appendAny :: "exclude \<Rightarrow> exclude" where
  "exclude_appendAny es = es @ [ANY]"

definition exclude_appendComponent :: "component \<Rightarrow> exclude \<Rightarrow> exclude" where
  "exclude_appendComponent c es = es @ [COMPONENT c]"

definition component_greater :: "component \<Rightarrow> component \<Rightarrow> bool" where
  "component_greater c other \<longleftrightarrow> component_compare c other > 0"

definition component_less :: "component \<Rightarrow> component \<Rightarrow> bool" where
  "component_less c other \<longleftrightarrow> component_compare c other < 0"

lemma dropWhile_shorter: "dropWhile P xs = y # ys \<Longrightarrow> length ys < length xs"
  by (metis Suc_le_eq length_Cons length_dropWhile_le)

text \<open>
  The loop of matches from some position: prev is the entry before it (none at the start).  At an
  ANY the upper bound is the next component entry, and the loop goes on there.
\<close>

function exclude_loop :: "component \<Rightarrow> excludeEntry option \<Rightarrow> exclude \<Rightarrow> bool" where
  "exclude_loop c prev [] = False"
| "exclude_loop c prev (COMPONENT x # rest) =
    (if component_equals c x then True else exclude_loop c (Some (COMPONENT x)) rest)"
| "exclude_loop c prev (ANY # rest) =
    (case dropWhile (\<lambda>e. e = ANY) rest of
       upperBound # higher \<Rightarrow>
         (case prev of
            Some lowerBound \<Rightarrow>
              if component_greater c (entry_getComponent lowerBound) \<and>
                 component_less c (entry_getComponent upperBound)
              then True else exclude_loop c (Some ANY) (upperBound # higher)
          | None \<Rightarrow>
              if component_less c (entry_getComponent upperBound)
              then True else exclude_loop c (Some ANY) (upperBound # higher))
     | [] \<Rightarrow>
         (case prev of
            Some lowerBound \<Rightarrow>
              if component_greater c (entry_getComponent lowerBound)
              then True else exclude_loop c (Some ANY) rest
          | None \<Rightarrow> True))"
  by pat_completeness auto
termination
  by (relation "measure (\<lambda>(_, _, es). length es)") (auto dest: dropWhile_shorter)

definition exclude_matches :: "exclude \<Rightarrow> component \<Rightarrow> bool" where
  "exclude_matches es c = exclude_loop c None es"

fun exclude_toUri_loop :: "bool \<Rightarrow> exclude \<Rightarrow> error + byte list" where
  "exclude_toUri_loop hex [] = Inr []"
| "exclude_toUri_loop hex (ANY # es) = bindE (exclude_toUri_loop hex es) (\<lambda>rest. Inr (44 # 42 # rest))"
| "exclude_toUri_loop hex (COMPONENT c # es) =
    bindE (component_toEscapedString hex c) (\<lambda>(s, hex).
    bindE (exclude_toUri_loop hex es) (\<lambda>rest. Inr (44 # s @ rest)))"

definition exclude_toUri :: "exclude \<Rightarrow> error + byte list" where
  "exclude_toUri es = (if length es = 0 then Inr [] else bindE (exclude_toUri_loop False es) (\<lambda>s. Inr (tl s)))"

section \<open>What an exclude means\<close>

fun first_component :: "exclude \<Rightarrow> component option" where
  "first_component [] = None"
| "first_component (ANY # es) = first_component es"
| "first_component (COMPONENT c # es) = Some c"

definition last_component :: "exclude \<Rightarrow> component option" where
  "last_component es = first_component (rev es)"

definition is_above :: "component option \<Rightarrow> component \<Rightarrow> bool" where
  "is_above l c \<longleftrightarrow> (case l of None \<Rightarrow> True | Some x \<Rightarrow> key x < key c)"

definition is_below :: "component option \<Rightarrow> component \<Rightarrow> bool" where
  "is_below u c \<longleftrightarrow> (case u of None \<Rightarrow> True | Some x \<Rightarrow> key c < key x)"

text \<open>
  A component is excluded when it is listed, or when it lies strictly between the nearest
  components listed before and after some ANY.
\<close>

definition excluded_after :: "exclude \<Rightarrow> exclude \<Rightarrow> component \<Rightarrow> bool" where
  "excluded_after pre es c \<longleftrightarrow>
    (\<exists>x. COMPONENT x \<in> set es \<and> component_equals c x) \<or>
    (\<exists>as bs. es = as @ ANY # bs \<and> is_above (last_component (pre @ as)) c \<and> is_below (first_component bs) c)"

definition excluded :: "exclude \<Rightarrow> component \<Rightarrow> bool" where
  "excluded es c \<longleftrightarrow> excluded_after [] es c"

lemma component_greater_key: "component_greater c d \<longleftrightarrow> key d < key c"
  by (auto simp: component_greater_def component_compare_cmp cmp_def)

lemma component_less_key: "component_less c d \<longleftrightarrow> key c < key d"
  by (simp add: component_less_def component_compare_cmp)

lemma first_component_Nil_iff: "first_component es = None \<longleftrightarrow> dropWhile (\<lambda>e. e = ANY) es = []"
  by (induction es rule: first_component.induct) auto

lemma first_component_dropWhile:
  "dropWhile (\<lambda>e. e = ANY) es = u # us \<Longrightarrow> \<exists>x. u = COMPONENT x \<and> first_component es = Some x"
  by (induction es rule: first_component.induct) auto

lemma last_component_simps [simp]:
  "last_component [] = None" "last_component (es @ [ANY]) = last_component es"
  "last_component (es @ [COMPONENT c]) = Some c"
  by (simp_all add: last_component_def)

lemma last_component_ANYs:
  assumes "list_all (\<lambda>e. e = ANY) as"
  shows "last_component (pre @ as) = last_component pre"
  using assms by (induction as rule: rev_induct) (simp_all flip: append_assoc)

lemma split_Cons:
  "(\<exists>as bs. x # es = as @ y # bs \<and> Q as bs) \<longleftrightarrow>
     x = y \<and> Q [] es \<or> (\<exists>as bs. es = as @ y # bs \<and> Q (x # as) bs)"
proof -
  have "x # es = as @ y # bs \<longleftrightarrow> as = [] \<and> x = y \<and> es = bs \<or> (\<exists>as'. as = x # as' \<and> es = as' @ y # bs)"
    for as bs by (cases as) auto
  then show ?thesis
    by auto
qed

lemma excluded_after_Nil [simp]: "\<not> excluded_after pre [] c"
  by (simp add: excluded_after_def)

lemma excluded_after_COMPONENT:
  "excluded_after pre (COMPONENT x # es) c \<longleftrightarrow>
     component_equals c x \<or> excluded_after (pre @ [COMPONENT x]) es c"
  by (auto simp: excluded_after_def split_Cons)

lemma excluded_after_ANY:
  "excluded_after pre (ANY # es) c \<longleftrightarrow>
     is_above (last_component pre) c \<and> is_below (first_component es) c \<or> excluded_after (pre @ [ANY]) es c"
  by (auto simp: excluded_after_def split_Cons)

text \<open>A run of ANY adds nothing to its first one.\<close>

lemma excluded_after_ANYs:
  assumes "\<not> (is_above (last_component pre) c \<and> is_below (first_component es) c)"
  shows "excluded_after pre es c \<longleftrightarrow>
    excluded_after (pre @ takeWhile (\<lambda>e. e = ANY) es) (dropWhile (\<lambda>e. e = ANY) es) c"
  using assms
proof (induction es arbitrary: pre)
  case (Cons e es)
  show ?case
  proof (cases e)
    case ANY
    with Cons show ?thesis
      using Cons.IH [of "pre @ [ANY]"] by (auto simp: excluded_after_ANY)
  qed simp
qed simp

text \<open>
  The entries the loop may stand on: at an ANY, the entry before is a component (or there is
  none), because runs of ANY are skipped; only a run at the very end is not.
\<close>

definition loop_position :: "exclude \<Rightarrow> exclude \<Rightarrow> bool" where
  "loop_position pre es \<longleftrightarrow>
    (case es of ANY # _ \<Rightarrow> pre = [] \<or> (\<exists>x. last pre = COMPONENT x) | _ \<Rightarrow> True)"

lemma exclude_loop_spec:
  assumes "loop_position pre es" and "\<not> (\<exists>as. pre @ es = as @ [ANY, ANY])"
  shows "exclude_loop c (if pre = [] then None else Some (last pre)) es \<longleftrightarrow> excluded_after pre es c"
  using assms
proof (induction "length es" arbitrary: pre es rule: less_induct)
  case less
  show ?case
  proof (cases es)
    case Nil
    then show ?thesis
      by (simp add: excluded_after_def)
  next
    case C: (Cons e rest)
    show ?thesis
    proof (cases e)
      case (COMPONENT x)
      have "loop_position (pre @ [COMPONENT x]) rest"
        by (simp add: loop_position_def split: list.splits excludeEntry.splits)
      then show ?thesis
        using less.hyps [of rest "pre @ [COMPONENT x]"] less.prems C COMPONENT
        by (simp add: excluded_after_COMPONENT)
    next
      case ANY
      have pre: "pre = [] \<or> (\<exists>x. last pre = COMPONENT x)"
        using less.prems(1) C ANY by (simp add: loop_position_def)
      have lower: "last_component pre = (if pre = [] then None else Some (entry_getComponent (last pre)))"
        using pre by (cases pre rule: rev_cases) auto
      show ?thesis
      proof (cases "dropWhile (\<lambda>e. e = ANY) rest")
        case Nil
        then have "rest = []"
          using less.prems(2) C ANY
          by (cases rest rule: rev_cases) (auto simp: dropWhile_eq_Nil_conv split: if_splits,
              metis append.assoc append_Cons append_Nil append_butlast_last_id last_in_set last_ConsL last_ConsR)
        then show ?thesis
          using C ANY lower
          by (auto simp: excluded_after_ANY is_above_def is_below_def component_greater_key)
      next
        case (Cons u us)
        let ?pre = "pre @ ANY # takeWhile (\<lambda>e. e = ANY) rest"
        obtain x where x: "u = COMPONENT x" "first_component rest = Some x"
          using first_component_dropWhile [OF Cons] by blast
        have split: "?pre @ u # us = pre @ es"
          using Cons takeWhile_dropWhile_id [of "\<lambda>e. e = ANY" rest] C ANY by simp
        have "length (u # us) < length es"
          using dropWhile_shorter [OF Cons] C by simp
        then have IH: "exclude_loop c (Some (last ?pre)) (u # us) \<longleftrightarrow> excluded_after ?pre (u # us) c"
          using less.hyps [of "u # us" ?pre] less.prems(2) split x by (simp add: loop_position_def)
        have same: "exclude_loop c (Some p) (u # us) = exclude_loop c (Some q) (u # us)" for p q
          using x by simp
        have step: "excluded_after pre es c \<longleftrightarrow>
            is_above (last_component pre) c \<and> is_below (Some x) c \<or> excluded_after ?pre (u # us) c"
          using excluded_after_ANYs [of "pre @ [ANY]" c rest] C ANY x Cons by (auto simp: excluded_after_ANY)
        show ?thesis
          using IH step same [of "last ?pre" ANY] C ANY Cons lower x
          by (auto simp: is_above_def is_below_def component_greater_key component_less_key)
      qed
    qed
  qed
qed

text \<open>
  C29. Unless the list ends in two ANY entries, matches accepts exactly the components that the
  exclude means: those listed, and those strictly between the nearest components around an ANY
  (unbounded where there is none).
\<close>

theorem exclude_matches_spec:
  assumes "\<not> (\<exists>as. es = as @ [ANY, ANY])"
  shows "exclude_matches es c \<longleftrightarrow> excluded es c"
  using exclude_loop_spec [of "[]" es c] assms
  by (simp add: exclude_matches_def excluded_def loop_position_def split: list.splits excludeEntry.splits)

theorem exclude_matches_spec_witness:
  "excluded [COMPONENT (genericComponent [66]), ANY] (genericComponent [67]) \<and>
   \<not> excluded [COMPONENT (genericComponent [66]), ANY] (genericComponent [65])"
proof -
  have "\<not> (\<exists>as. [COMPONENT (genericComponent [66]), ANY] = as @ [ANY, ANY])"
    by (auto simp: Cons_eq_append_conv)
  then show ?thesis
    using exclude_matches_spec
    by (simp flip: exclude_matches_spec) code_simp
qed

text \<open>
  When the list does end in two ANY entries after a component, the second ANY is taken to start
  from the default component, so matches accepts every non-empty component, also those below
  the listed one that the exclude does not mean.
\<close>

lemma exclude_matches_double_any:
  assumes "c_type c = GENERIC" and "blob_size (c_value c) > 0"
  shows "exclude_matches [COMPONENT x, ANY, ANY] c \<and>
    (excluded [COMPONENT x, ANY, ANY] c \<longleftrightarrow> component_equals c x \<or> key x < key c)"
proof
  have "key Component0 < key c"
    using assms by (simp add: key_def Component0_def typeCode_def)
  then show "exclude_matches [COMPONENT x, ANY, ANY] c"
    by (simp add: exclude_matches_def component_greater_key)
  show "excluded [COMPONENT x, ANY, ANY] c \<longleftrightarrow> component_equals c x \<or> key x < key c"
    using last_component_simps(2) [of "[COMPONENT x]"] last_component_simps(3) [of "[]"]
    by (simp add: excluded_def excluded_after_COMPONENT excluded_after_ANY is_above_def is_below_def)
qed

lemma exclude_matches_double_any_witness:
  "exclude_matches [COMPONENT (genericComponent [66]), ANY, ANY] (genericComponent [65]) \<and>
   \<not> excluded [COMPONENT (genericComponent [66]), ANY, ANY] (genericComponent [65])"
  using exclude_matches_double_any [of "genericComponent [65]" "genericComponent [66]"]
  by (simp add: genericComponent_def key_def typeCode_def component_equals_def)

end
