(* ===== verification/Change_Counter.thy ===== *)
theory Change_Counter
  imports Prelude
begin

text \<open>
  Change counting (include/ndn-ind/util/change-counter.hpp).  Names, excludes, key locators,
  signatures and meta infos carry a 64-bit change count that every setter increments; an object
  that owns such a child keeps it in a ChangeCounter, which remembers the count it saw last.
  The packets use this to drop a cached wire encoding when one of their parts was changed
  through a reference.

  A child is modelled as its value with the count that its getChangeCount reports.  The locale
  change_tracked states what an owner has to provide (its own count, the changes of its children
  it has not noticed yet, a getChangeCount that notices them) and shows that a saved count tells
  whether the owner was changed, as long as fewer than 2^64 changes happened in between.
\<close>

section \<open>The counters\<close>

record 'a versioned =
  ver_value :: 'a
  ver_changeCount :: u64

text \<open>
  A call of a setter, each of which adds one.  Assigning a whole object to the child through the reference copies the
  other object's count, and may so leave the count as it was; such an assignment is not an edit of the model.
\<close>

definition edit :: "('a \<Rightarrow> 'a) \<Rightarrow> 'a versioned \<Rightarrow> 'a versioned" where
  "edit f t = t\<lparr>ver_value := f (ver_value t), ver_changeCount := ver_changeCount t + 1\<rparr>"

record 'a ChangeCounter =
  cc_target :: "'a versioned"
  cc_changeCount :: u64

definition cc_new :: "'a versioned \<Rightarrow> 'a ChangeCounter" where
  "cc_new target = \<lparr>cc_target = target, cc_changeCount = ver_changeCount target\<rparr>"

definition cc_get :: "'a ChangeCounter \<Rightarrow> 'a" where
  "cc_get c = ver_value (cc_target c)"

definition cc_set :: "'a versioned \<Rightarrow> 'a ChangeCounter \<Rightarrow> 'a ChangeCounter" where
  "cc_set target c = c\<lparr>cc_target := target, cc_changeCount := ver_changeCount target\<rparr>"

definition cc_edit :: "('a \<Rightarrow> 'a) \<Rightarrow> 'a ChangeCounter \<Rightarrow> 'a ChangeCounter" where
  "cc_edit f c = c\<lparr>cc_target := edit f (cc_target c)\<rparr>"

definition checkChanged :: "'a ChangeCounter \<Rightarrow> bool \<times> 'a ChangeCounter" where
  "checkChanged c =
    (let targetChangeCount = ver_changeCount (cc_target c) in
     if cc_changeCount c \<noteq> targetChangeCount
     then (True, c\<lparr>cc_changeCount := targetChangeCount\<rparr>)
     else (False, c))"

record 'a SharedPointerChangeCounter =
  sp_target :: "'a versioned option"
  sp_changeCount :: u64

definition sp_null :: "'a SharedPointerChangeCounter" where
  "sp_null = \<lparr>sp_target = None, sp_changeCount = 0\<rparr>"

definition sp_new :: "'a versioned option \<Rightarrow> 'a SharedPointerChangeCounter" where
  "sp_new target =
    \<lparr>sp_target = target,
     sp_changeCount = (case target of Some t \<Rightarrow> ver_changeCount t | None \<Rightarrow> 0)\<rparr>"

definition sp_get :: "'a SharedPointerChangeCounter \<Rightarrow> 'a option" where
  "sp_get c = map_option ver_value (sp_target c)"

definition sp_set :: "'a versioned option \<Rightarrow> 'a SharedPointerChangeCounter \<Rightarrow> 'a SharedPointerChangeCounter" where
  "sp_set target c =
    c\<lparr>sp_target := target,
      sp_changeCount := (case target of Some t \<Rightarrow> ver_changeCount t | None \<Rightarrow> 0)\<rparr>"

definition sp_edit :: "('a \<Rightarrow> 'a) \<Rightarrow> 'a SharedPointerChangeCounter \<Rightarrow> 'a SharedPointerChangeCounter" where
  "sp_edit f c = c\<lparr>sp_target := map_option (edit f) (sp_target c)\<rparr>"

definition sp_checkChanged :: "'a SharedPointerChangeCounter \<Rightarrow> bool \<times> 'a SharedPointerChangeCounter" where
  "sp_checkChanged c =
    (case sp_target c of
       None \<Rightarrow> (False, c)
     | Some t \<Rightarrow>
         if sp_changeCount c \<noteq> ver_changeCount t
         then (True, c\<lparr>sp_changeCount := ver_changeCount t\<rparr>)
         else (False, c))"

section \<open>Unnoticed changes of a child\<close>

definition cc_pending :: "'a ChangeCounter \<Rightarrow> nat" where
  "cc_pending c = unat (ver_changeCount (cc_target c) - cc_changeCount c)"

definition sp_pending :: "'a SharedPointerChangeCounter \<Rightarrow> nat" where
  "sp_pending c = (case sp_target c of None \<Rightarrow> 0 | Some t \<Rightarrow> unat (ver_changeCount t - sp_changeCount c))"

lemma unat_plus_1: "unat x + 1 < 2 ^ 64 \<Longrightarrow> unat (x + 1 :: u64) = unat x + 1"
  by (simp add: unat_word_ariths(1))

named_theorems counting \<open>how the operations on counters act on value and pending changes\<close>

lemma cc_get_counting [counting]:
  "cc_get (cc_new t) = ver_value t" "cc_get (cc_set t c) = ver_value t"
  "cc_get (cc_edit f c) = f (cc_get c)" "cc_get (snd (checkChanged c)) = cc_get c"
  by (simp_all add: cc_get_def cc_new_def cc_set_def cc_edit_def edit_def checkChanged_def Let_def)

lemma cc_pending_counting [counting]:
  "cc_pending (cc_new t) = 0" "cc_pending (cc_set t c) = 0"
  "cc_pending (snd (checkChanged c)) = 0" "fst (checkChanged c) \<longleftrightarrow> cc_pending c \<noteq> 0"
  by (auto simp: cc_pending_def cc_new_def cc_set_def checkChanged_def Let_def unat_eq_0)

lemma cc_pending_edit: "cc_pending c + 1 < 2 ^ 64 \<Longrightarrow> cc_pending (cc_edit f c) = cc_pending c + 1"
  using unat_plus_1 [of "ver_changeCount (cc_target c) - cc_changeCount c"]
  by (simp add: cc_pending_def cc_edit_def edit_def algebra_simps)

lemma sp_get_counting [counting]:
  "sp_get (sp_new t) = map_option ver_value t" "sp_get (sp_set t c) = map_option ver_value t"
  "sp_get (sp_edit f c) = map_option f (sp_get c)" "sp_get (snd (sp_checkChanged c)) = sp_get c"
  by (auto simp: sp_get_def sp_new_def sp_set_def sp_edit_def edit_def sp_checkChanged_def
      option.map_comp o_def split: option.splits)

lemma sp_pending_counting [counting]:
  "sp_pending (sp_new t) = 0" "sp_pending (sp_set t c) = 0" "sp_pending sp_null = 0"
  "sp_pending (snd (sp_checkChanged c)) = 0" "fst (sp_checkChanged c) \<longleftrightarrow> sp_pending c \<noteq> 0"
  by (auto simp: sp_pending_def sp_new_def sp_null_def sp_set_def sp_checkChanged_def unat_gt_0
      split: option.splits)

lemma sp_pending_edit:
  assumes "sp_target c \<noteq> None" and "sp_pending c + 1 < 2 ^ 64"
  shows "sp_pending (sp_edit f c) = sp_pending c + 1"
proof -
  obtain t where "sp_target c = Some t"
    using assms(1) by blast
  then show ?thesis
    using unat_plus_1 [of "ver_changeCount t - sp_changeCount c"] assms(2)
    by (simp add: sp_pending_def sp_edit_def edit_def algebra_simps)
qed

lemma sp_edit_null: "sp_target c = None \<Longrightarrow> sp_edit f c = c"
  by (simp add: sp_edit_def)

section \<open>The interface of an owner\<close>

locale change_tracked =
  fixes count :: "'s \<Rightarrow> u64"
    and pending :: "'s \<Rightarrow> nat"
    and contents :: "'s \<Rightarrow> 'f"
    and notice :: "'s \<Rightarrow> 's"
  assumes count_notice: "count (notice s) = (if pending s = 0 then count s else count s + 1)"
    and pending_notice: "pending (notice s) = 0"
    and contents_notice: "contents (notice s) = contents s"
begin

definition tracks :: "u64 \<Rightarrow> nat \<Rightarrow> 's \<Rightarrow> bool" where
  "tracks saved n s \<longleftrightarrow> (\<exists>k. count s = saved + of_nat k \<and> k + pending s \<le> n)"

lemma tracks_self: "pending s \<le> n \<Longrightarrow> tracks (count s) n s"
  unfolding tracks_def by (rule exI [of _ 0]) simp

lemma tracks_mono: "\<lbrakk>tracks saved n s; n \<le> m\<rbrakk> \<Longrightarrow> tracks saved m s"
  unfolding tracks_def by (meson order_trans)

lemma tracks_change:
  assumes "tracks saved n s" and "count s' = count s + 1" and "pending s' \<le> pending s"
  shows "tracks saved (Suc n) s'"
proof -
  obtain k where k: "count s = saved + of_nat k" "k + pending s \<le> n"
    using assms(1) by (auto simp: tracks_def)
  then show ?thesis
    unfolding tracks_def using assms(2,3) by (intro exI [of _ "Suc k"]) (simp add: algebra_simps)
qed

lemma tracks_edit:
  assumes "tracks saved n s" and "count s' = count s" and "pending s' \<le> pending s + 1"
  shows "tracks saved (Suc n) s'"
  using assms unfolding tracks_def by fastforce

lemma tracks_notice:
  assumes "tracks saved n s"
  shows "tracks saved n (notice s)"
proof -
  obtain k where k: "count s = saved + of_nat k" "k + pending s \<le> n"
    using assms by (auto simp: tracks_def)
  show ?thesis
  proof (cases "pending s = 0")
    case True
    with k show ?thesis
      unfolding tracks_def by (intro exI [of _ k]) (simp add: count_notice pending_notice)
  next
    case False
    with k show ?thesis
      unfolding tracks_def
      by (intro exI [of _ "Suc k"]) (simp add: count_notice pending_notice algebra_simps)
  qed
qed

text \<open>The saved count is the noticed one exactly when nothing was changed.\<close>

lemma count_eq_iff_unchanged:
  assumes "tracks saved n s" and "n < 2 ^ 64"
  shows "saved = count (notice s) \<longleftrightarrow> saved = count s \<and> pending s = 0"
proof -
  obtain k where k: "count s = saved + of_nat k" "k + pending s \<le> n"
    using assms(1) by (auto simp: tracks_def)
  have "(of_nat (k + 1) :: u64) \<noteq> 0" if "pending s \<noteq> 0"
    using k(2) assms(2) that by (simp only: of_nat_eq_0_iff word_of_nat_eq_0_iff)
      (auto simp: nat_dvd_not_less)
  then show ?thesis
    using k(1) by (auto simp: count_notice add.assoc add.commute)
qed

end

end
