(* ===== verification/Data_Packet.thy ===== *)
theory Data_Packet
  imports Names Change_Counter
begin

text \<open>
  Data packets (src/data.cpp, include/ndn-ind/data.hpp) with the objects they own: key locators
  (src/key-locator.cpp), validity periods (src/security/validity-period.cpp), the signature
  classes (the cpp files of src whose names end in signature) and meta infos.

  A WireFormat is an abstract class of the library that an application can replace, and the
  digest is computed by a cryptographic library; both are arguments of the model, collected in
  the record wire_env: the current default format, the encoder and the decoder of a format and
  the SHA-256 function.  The encoder sees the values that Data::get hands over.

  The packet caches its encoding in the default format and its full name.  The properties say
  when the cached encoding represents the packet, and when the cached full name does not.
\<close>

section \<open>Key locators, validity periods and signatures\<close>

datatype ndn_KeyLocatorType = KEY_LOCATOR_NONE | KEYNAME | KEY_LOCATOR_DIGEST

record keyLocator =
  kl_type :: ndn_KeyLocatorType
  kl_keyData :: blob
  kl_keyName :: name

definition KeyLocator0 :: keyLocator where
  "KeyLocator0 = \<lparr>kl_type = KEY_LOCATOR_NONE, kl_keyData = None, kl_keyName = []\<rparr>"

definition KeyLocator_set :: "keyLocator \<Rightarrow> keyLocator" where
  "KeyLocator_set lite =
    \<lparr>kl_type = kl_type lite, kl_keyData = kl_keyData lite,
     kl_keyName = (if kl_type lite = KEYNAME then kl_keyName lite else [])\<rparr>"

definition KeyLocator_equals :: "keyLocator \<Rightarrow> keyLocator \<Rightarrow> bool" where
  "KeyLocator_equals k other =
    (if kl_type k \<noteq> kl_type other then False
     else if kl_type k = KEYNAME then name_equals (kl_keyName k) (kl_keyName other)
     else if kl_type k = KEY_LOCATOR_DIGEST then kl_keyData k = kl_keyData other
     else True)"

text \<open>A validity period holds whole milliseconds since 1970, or no period.\<close>

record validityPeriod =
  vp_period :: "(int \<times> int) option"

definition ValidityPeriod0 :: validityPeriod where
  "ValidityPeriod0 = \<lparr>vp_period = None\<rparr>"

definition vp_setPeriod :: "int \<Rightarrow> int \<Rightarrow> validityPeriod" where
  "vp_setPeriod notBefore notAfter =
    \<lparr>vp_period = Some (- ((- notBefore) div 1000) * 1000, notAfter div 1000 * 1000)\<rparr>"

definition vp_isValid :: "validityPeriod \<Rightarrow> int \<Rightarrow> bool" where
  "vp_isValid v time =
    (case vp_period v of None \<Rightarrow> False
     | Some (notBefore, notAfter) \<Rightarrow> notBefore \<le> time \<and> time \<le> notAfter)"

definition vp_isValidNow :: "int \<Rightarrow> validityPeriod \<Rightarrow> bool" where
  "vp_isValidNow now v = vp_isValid v (- ((- now) div 1000) * 1000)"

datatype signature =
    Sha256WithRsaSignature keyLocator blob validityPeriod
  | Sha256WithEcdsaSignature keyLocator blob validityPeriod
  | HmacWithSha256Signature keyLocator blob
  | DigestSha256Signature blob validityPeriod
  | GenericSignature blob blob int validityPeriod

fun kl_canGetFromSignature :: "signature option \<Rightarrow> bool" where
  "kl_canGetFromSignature (Some (Sha256WithRsaSignature _ _ _)) = True"
| "kl_canGetFromSignature (Some (Sha256WithEcdsaSignature _ _ _)) = True"
| "kl_canGetFromSignature (Some (HmacWithSha256Signature _ _)) = True"
| "kl_canGetFromSignature _ = False"

fun kl_getFromSignature :: "signature option \<Rightarrow> error + keyLocator" where
  "kl_getFromSignature (Some (Sha256WithRsaSignature k _ _)) = Inr k"
| "kl_getFromSignature (Some (Sha256WithEcdsaSignature k _ _)) = Inr k"
| "kl_getFromSignature (Some (HmacWithSha256Signature k _)) = Inr k"
| "kl_getFromSignature _ =
    Inl (Runtime_error ''KeyLocator::getFromSignature: Signature type does not have a KeyLocator'')"

fun vp_canGetFromSignature :: "signature option \<Rightarrow> bool" where
  "vp_canGetFromSignature (Some (Sha256WithRsaSignature _ _ _)) = True"
| "vp_canGetFromSignature (Some (DigestSha256Signature _ _)) = True"
| "vp_canGetFromSignature (Some (GenericSignature _ _ _ _)) = True"
| "vp_canGetFromSignature (Some (Sha256WithEcdsaSignature _ _ _)) = True"
| "vp_canGetFromSignature _ = False"

fun vp_getFromSignature :: "signature option \<Rightarrow> error + validityPeriod" where
  "vp_getFromSignature (Some (Sha256WithRsaSignature _ _ v)) = Inr v"
| "vp_getFromSignature (Some (Sha256WithEcdsaSignature _ _ v)) = Inr v"
| "vp_getFromSignature (Some (DigestSha256Signature _ v)) = Inr v"
| "vp_getFromSignature (Some (GenericSignature _ _ _ v)) = Inr v"
| "vp_getFromSignature _ =
    Inl (Runtime_error ''ValidityPeriod::getFromSignature: Signature type does not have a ValidityPeriod'')"

section \<open>Meta info\<close>

datatype ndn_ContentType =
  CONTENT_BLOB | CONTENT_LINK | CONTENT_KEY | CONTENT_NACK | CONTENT_OTHER_CODE

text \<open>Times are in nanoseconds; a negative freshness period means none.\<close>

record metaInfo =
  mi_type :: ndn_ContentType
  mi_otherTypeCode :: int
  mi_freshnessPeriod :: int
  mi_finalBlockId :: component

definition MetaInfo0 :: metaInfo where
  "MetaInfo0 = \<lparr>mi_type = CONTENT_BLOB, mi_otherTypeCode = -1, mi_freshnessPeriod = -1,
     mi_finalBlockId = Component0\<rparr>"

definition mi_setOtherTypeCode :: "int \<Rightarrow> metaInfo versioned \<Rightarrow> error + metaInfo versioned" where
  "mi_setOtherTypeCode otherTypeCode m =
    (if otherTypeCode < 0 then Inl (Runtime_error ''MetaInfo other type code must be non-negative'')
     else Inr (edit (\<lambda>mi. mi\<lparr>mi_otherTypeCode := otherTypeCode\<rparr>) m))"

section \<open>The packet\<close>

record signedBlob =
  sb_bytes :: "byte list"
  sb_signedPortionBeginOffset :: nat
  sb_signedPortionEndOffset :: nat

record data_values =
  dv_signature :: "signature option"
  dv_name :: name
  dv_metaInfo :: metaInfo
  dv_content :: blob

record 'w data =
  d_signature :: "signature SharedPointerChangeCounter"
  d_name :: "name ChangeCounter"
  d_metaInfo :: "metaInfo ChangeCounter"
  d_content :: blob
  d_defaultWireEncoding :: "signedBlob option"
  d_defaultWireEncodingFormat :: "'w option"
  d_defaultFullName :: name
  d_getDefaultWireEncodingChangeCount :: u64
  d_changeCount :: u64

record 'w wire_env =
  env_default :: 'w
  env_encodeData :: "'w \<Rightarrow> data_values \<Rightarrow> error + signedBlob"
  env_decodeData :: "'w \<Rightarrow> byte list \<Rightarrow> error + (data_values \<times> nat \<times> nat)"
  env_sha256 :: "byte list \<Rightarrow> byte list"

definition Data :: "name versioned \<Rightarrow> 'w data" where
  "Data name =
    \<lparr>d_signature = sp_new (Some \<lparr>ver_value = Sha256WithRsaSignature KeyLocator0 None ValidityPeriod0,
        ver_changeCount = 0\<rparr>),
     d_name = cc_new name,
     d_metaInfo = cc_new \<lparr>ver_value = MetaInfo0, ver_changeCount = 0\<rparr>,
     d_content = None,
     d_defaultWireEncoding = None, d_defaultWireEncodingFormat = None,
     d_defaultFullName = [],
     d_getDefaultWireEncodingChangeCount = 0,
     d_changeCount = 0\<rparr>"

definition data_getName :: "'w data \<Rightarrow> name" where
  "data_getName d = cc_get (d_name d)"

definition data_get :: "'w data \<Rightarrow> data_values" where
  "data_get d = \<lparr>dv_signature = sp_get (d_signature d), dv_name = cc_get (d_name d),
     dv_metaInfo = cc_get (d_metaInfo d), dv_content = d_content d\<rparr>"

definition data_getChangeCount :: "'w data \<Rightarrow> 'w data" where
  "data_getChangeCount d =
    (let (changed1, s) = sp_checkChanged (d_signature d);
         (changed2, n) = checkChanged (d_name d);
         (changed3, m) = checkChanged (d_metaInfo d);
         d' = d\<lparr>d_signature := s, d_name := n, d_metaInfo := m\<rparr>
     in if changed1 \<or> changed2 \<or> changed3 then d'\<lparr>d_changeCount := d_changeCount d' + 1\<rparr> else d')"

definition data_getDefaultWireEncoding :: "'w data \<Rightarrow> signedBlob option \<times> 'w data" where
  "data_getDefaultWireEncoding d =
    (let d = data_getChangeCount d in
     if d_getDefaultWireEncodingChangeCount d \<noteq> d_changeCount d
     then (None, d\<lparr>d_defaultWireEncoding := None, d_defaultWireEncodingFormat := None,
                   d_getDefaultWireEncodingChangeCount := d_changeCount d\<rparr>)
     else (d_defaultWireEncoding d, d))"

definition data_setDefaultWireEncoding ::
    "signedBlob option \<Rightarrow> 'w option \<Rightarrow> 'w data \<Rightarrow> 'w data" where
  "data_setDefaultWireEncoding encoding format d =
    (let d = data_getChangeCount (d\<lparr>d_defaultWireEncoding := encoding, d_defaultWireEncodingFormat := format\<rparr>)
     in d\<lparr>d_getDefaultWireEncodingChangeCount := d_changeCount d\<rparr>)"

definition data_setSignature :: "signature versioned \<Rightarrow> 'w data \<Rightarrow> 'w data" where
  "data_setSignature s d =
    d\<lparr>d_signature := sp_set (Some s) (d_signature d), d_changeCount := d_changeCount d + 1\<rparr>"

definition data_setName :: "name versioned \<Rightarrow> 'w data \<Rightarrow> 'w data" where
  "data_setName n d = d\<lparr>d_name := cc_set n (d_name d), d_changeCount := d_changeCount d + 1\<rparr>"

definition data_setMetaInfo :: "metaInfo versioned \<Rightarrow> 'w data \<Rightarrow> 'w data" where
  "data_setMetaInfo m d =
    d\<lparr>d_metaInfo := cc_set m (d_metaInfo d), d_changeCount := d_changeCount d + 1\<rparr>"

definition data_setContent :: "blob \<Rightarrow> 'w data \<Rightarrow> 'w data" where
  "data_setContent c d = d\<lparr>d_content := c, d_changeCount := d_changeCount d + 1\<rparr>"

text \<open>
  The changes an application makes through the references that getSignature, getName and
  getMetaInfo return.
\<close>

definition data_editSignature :: "(signature \<Rightarrow> signature) \<Rightarrow> 'w data \<Rightarrow> 'w data" where
  "data_editSignature f d = d\<lparr>d_signature := sp_edit f (d_signature d)\<rparr>"

definition data_editName :: "(name \<Rightarrow> name) \<Rightarrow> 'w data \<Rightarrow> 'w data" where
  "data_editName f d = d\<lparr>d_name := cc_edit f (d_name d)\<rparr>"

definition data_editMetaInfo :: "(metaInfo \<Rightarrow> metaInfo) \<Rightarrow> 'w data \<Rightarrow> 'w data" where
  "data_editMetaInfo f d = d\<lparr>d_metaInfo := cc_edit f (d_metaInfo d)\<rparr>"

definition data_wireEncode :: "'w wire_env \<Rightarrow> 'w \<Rightarrow> 'w data \<Rightarrow> error + (signedBlob \<times> 'w data)" where
  "data_wireEncode env wireFormat d =
    (case data_getDefaultWireEncoding d of
       (Some encoding, d) \<Rightarrow>
         if d_defaultWireEncodingFormat d = Some wireFormat then Inr (encoding, d)
         else bindE (env_encodeData env wireFormat (data_get d)) (\<lambda>wireEncoding.
           Inr (wireEncoding,
                if wireFormat = env_default env
                then data_setDefaultWireEncoding (Some wireEncoding) (Some (env_default env)) d
                else d))
     | (None, d) \<Rightarrow>
         bindE (env_encodeData env wireFormat (data_get d)) (\<lambda>wireEncoding.
           Inr (wireEncoding,
                if wireFormat = env_default env
                then data_setDefaultWireEncoding (Some wireEncoding) (Some (env_default env)) d
                else d)))"

text \<open>Data::set as the decoder calls it, with the values it has parsed.\<close>

fun newSignature :: "signature \<Rightarrow> signature" where
  "newSignature (Sha256WithRsaSignature _ _ _) = Sha256WithRsaSignature KeyLocator0 None ValidityPeriod0"
| "newSignature (Sha256WithEcdsaSignature _ _ _) = Sha256WithEcdsaSignature KeyLocator0 None ValidityPeriod0"
| "newSignature (HmacWithSha256Signature _ _) = HmacWithSha256Signature KeyLocator0 None"
| "newSignature (DigestSha256Signature _ _) = DigestSha256Signature None ValidityPeriod0"
| "newSignature (GenericSignature _ _ _ _) = GenericSignature None None (-1) ValidityPeriod0"

definition data_set :: "data_values \<Rightarrow> 'w data \<Rightarrow> error + 'w data" where
  "data_set v d =
    (case dv_signature v of
       None \<Rightarrow> Inl (Runtime_error ''dataLite.getSignature().getType() has an unrecognized value'')
     | Some s \<Rightarrow>
         let d = d\<lparr>d_signature := sp_set (Some \<lparr>ver_value = newSignature s, ver_changeCount = 0\<rparr>) (d_signature d)\<rparr>;
             d = data_editSignature (\<lambda>_. s) d;
             d = data_editName (\<lambda>_. dv_name v) d;
             d = data_editMetaInfo (\<lambda>_. dv_metaInfo v) d
         in Inr (data_setContent (dv_content v) d))"

definition data_wireDecode :: "'w wire_env \<Rightarrow> 'w \<Rightarrow> byte list \<Rightarrow> 'w data \<Rightarrow> error + 'w data" where
  "data_wireDecode env wireFormat input d =
    bindE (env_decodeData env wireFormat input) (\<lambda>(values, begin_offset, end_offset).
    bindE (data_set values d) (\<lambda>d.
      Inr (if wireFormat = env_default env
           then data_setDefaultWireEncoding
                  (Some \<lparr>sb_bytes = input, sb_signedPortionBeginOffset = begin_offset,
                     sb_signedPortionEndOffset = end_offset\<rparr>) (Some (env_default env)) d
           else data_setDefaultWireEncoding None None d)))"

definition data_getFullName :: "'w wire_env \<Rightarrow> 'w \<Rightarrow> 'w data \<Rightarrow> error + (name \<times> 'w data)" where
  "data_getFullName env wireFormat d =
    (let (encoding, d) = data_getDefaultWireEncoding d in
     if encoding \<noteq> None \<and> length (d_defaultFullName d) > 0 \<and>
        d_defaultWireEncodingFormat d = Some wireFormat
     then Inr (d_defaultFullName d, d)
     else
       let n = data_getName d in
       bindE (data_wireEncode env wireFormat d) (\<lambda>(wireEncoding, d).
       bindE (fromImplicitSha256Digest (Some (env_sha256 env (sb_bytes wireEncoding)))) (\<lambda>digest.
         let fullName = n @ [digest] in
         Inr (fullName,
              if wireFormat = env_default env then d\<lparr>d_defaultFullName := fullName\<rparr> else d))))"

text \<open>The copy constructor also updates the packet it copies from (through getDefaultWireEncoding).\<close>

definition data_copy :: "'w data \<Rightarrow> 'w data" where
  "data_copy data =
    (let d = \<lparr>d_signature = sp_null, d_name = d_name data, d_metaInfo = d_metaInfo data,
           d_content = d_content data, d_defaultWireEncoding = None,
           d_defaultWireEncodingFormat = None, d_defaultFullName = d_defaultFullName data,
           d_getDefaultWireEncodingChangeCount = 0, d_changeCount = 0\<rparr>;
         d = (case sp_target (d_signature data) of
                None \<Rightarrow> d
              | Some s \<Rightarrow> d\<lparr>d_signature := sp_set (Some s) (d_signature d), d_changeCount := d_changeCount d + 1\<rparr>);
         (encoding, data) = data_getDefaultWireEncoding data
     in data_setDefaultWireEncoding encoding (d_defaultWireEncodingFormat data) d)"

definition data_assign :: "'w data \<Rightarrow> 'w data \<Rightarrow> 'w data" where
  "data_assign data d =
    (let d = d\<lparr>d_signature := sp_set (sp_target (d_signature data)) (d_signature d)\<rparr>;
         d = data_setName (cc_target (d_name data)) d;
         d = data_setMetaInfo (cc_target (d_metaInfo data)) d;
         d = data_setContent (d_content data) d
     in data_setDefaultWireEncoding (d_defaultWireEncoding data) (d_defaultWireEncodingFormat data) d)"

section \<open>The cached encoding represents the packet\<close>

definition data_pending :: "'w data \<Rightarrow> nat" where
  "data_pending d = sp_pending (d_signature d) + cc_pending (d_name d) + cc_pending (d_metaInfo d)"

lemma data_getChangeCount_count:
  "d_changeCount (data_getChangeCount d) =
     (if data_pending d = 0 then d_changeCount d else d_changeCount d + 1)"
  by (simp add: data_getChangeCount_def data_pending_def case_prod_unfold Let_def counting)

lemma data_getChangeCount_same:
  "d_defaultWireEncoding (data_getChangeCount d) = d_defaultWireEncoding d"
  "d_defaultWireEncodingFormat (data_getChangeCount d) = d_defaultWireEncodingFormat d"
  "d_defaultFullName (data_getChangeCount d) = d_defaultFullName d"
  "d_getDefaultWireEncodingChangeCount (data_getChangeCount d) = d_getDefaultWireEncodingChangeCount d"
  by (simp_all add: data_getChangeCount_def case_prod_unfold Let_def)

interpretation dt: change_tracked d_changeCount data_pending data_get data_getChangeCount
proof unfold_locales
  show "d_changeCount (data_getChangeCount d) =
      (if data_pending d = 0 then d_changeCount d else d_changeCount d + 1)" for d :: "'w data"
    by (rule data_getChangeCount_count)
  show "data_pending (data_getChangeCount d) = 0" for d :: "'w data"
    by (simp add: data_getChangeCount_def data_pending_def case_prod_unfold Let_def counting)
  show "data_get (data_getChangeCount d) = data_get d" for d :: "'w data"
    by (simp add: data_getChangeCount_def data_get_def case_prod_unfold Let_def counting)
qed

text \<open>
  An encoding represents values when it is what the encoder makes of them or what the decoder
  made them from.
\<close>

definition represents :: "'w wire_env \<Rightarrow> 'w \<Rightarrow> data_values \<Rightarrow> signedBlob \<Rightarrow> bool" where
  "represents env w v e \<longleftrightarrow>
    env_encodeData env w v = Inr e \<or>
    env_decodeData env w (sb_bytes e) = Inr (v, sb_signedPortionBeginOffset e, sb_signedPortionEndOffset e)"

definition cache_represents :: "'w wire_env \<Rightarrow> 'w data \<Rightarrow> bool" where
  "cache_represents env d \<longleftrightarrow>
    (case d_defaultWireEncoding d of None \<Rightarrow> True
     | Some e \<Rightarrow> (case d_defaultWireEncodingFormat d of None \<Rightarrow> False
                 | Some w \<Rightarrow> represents env w (data_get d) e))"

definition data_inv :: "'w wire_env \<Rightarrow> nat \<Rightarrow> 'w data \<Rightarrow> bool" where
  "data_inv env n d \<longleftrightarrow>
    dt.tracks (d_getDefaultWireEncodingChangeCount d) n d \<and>
    (d_getDefaultWireEncodingChangeCount d = d_changeCount d \<and> data_pending d = 0
      \<longrightarrow> cache_represents env d)"

lemma data_inv_mono: "\<lbrakk>data_inv env n d; n \<le> m\<rbrakk> \<Longrightarrow> data_inv env m d"
  by (auto simp: data_inv_def intro: dt.tracks_mono)

lemma data_inv_noticed:
  assumes "cache_represents env d" and "d_getDefaultWireEncodingChangeCount d = d_changeCount d"
    and "data_pending d = 0"
  shows "data_inv env 0 d"
  using assms dt.tracks_self [of d 0] by (simp add: data_inv_def)

lemma data_inv_change:
  assumes "data_inv env n d" and "n + 1 < 2 ^ 64"
    and "d_changeCount d' = d_changeCount d + 1" and "data_pending d' \<le> data_pending d"
    and "d_getDefaultWireEncodingChangeCount d' = d_getDefaultWireEncodingChangeCount d"
  shows "data_inv env (Suc n) d'"
proof -
  obtain k where k: "d_changeCount d = d_getDefaultWireEncodingChangeCount d + of_nat k"
      "k + data_pending d \<le> n"
    using assms(1) by (auto simp: data_inv_def dt.tracks_def)
  have "(of_nat (Suc k) :: u64) \<noteq> 0"
    using k(2) assms(2) by (simp only: word_of_nat_eq_0_iff) (auto simp: nat_dvd_not_less)
  then have "d_getDefaultWireEncodingChangeCount d' \<noteq> d_changeCount d'"
    using assms(3,5) k(1) by (simp add: add.assoc add.commute)
  moreover have "dt.tracks (d_getDefaultWireEncodingChangeCount d') (Suc n) d'"
    using assms dt.tracks_change by (fastforce simp: data_inv_def)
  ultimately show ?thesis
    by (simp add: data_inv_def)
qed

lemma data_inv_edit:
  assumes "data_inv env n d"
    and "d_changeCount d' = d_changeCount d" and "data_pending d' = data_pending d + 1"
    and "d_getDefaultWireEncodingChangeCount d' = d_getDefaultWireEncodingChangeCount d"
  shows "data_inv env (Suc n) d'"
  using assms dt.tracks_edit [of _ n d d'] by (simp add: data_inv_def)

lemma data_pending_le: "data_inv env n d \<Longrightarrow> data_pending d \<le> n"
  by (auto simp: data_inv_def dt.tracks_def)

text \<open>What getDefaultWireEncoding returns and leaves behind.\<close>

lemma data_getDefaultWireEncoding_ok:
  assumes "data_inv env n d" and "n < 2 ^ 64" and "data_getDefaultWireEncoding d = (e, d')"
  shows "data_inv env 0 d'" and "data_get d' = data_get d" and "e = d_defaultWireEncoding d'"
    and "d_defaultFullName d' = d_defaultFullName d"
    and "cache_represents env d'"
    and "d_getDefaultWireEncodingChangeCount d' = d_changeCount d'" and "data_pending d' = 0"
proof -
  let ?c = "data_getChangeCount d"
  have tr: "dt.tracks (d_getDefaultWireEncodingChangeCount d) n d"
    using assms(1) by (simp add: data_inv_def)
  have pend: "data_pending ?c = 0"
    by (rule dt.pending_notice)
  have same: "data_get ?c = data_get d"
    by (rule dt.contents_notice)
  have all: "data_get d' = data_get d \<and> e = d_defaultWireEncoding d' \<and>
      d_defaultFullName d' = d_defaultFullName d \<and> cache_represents env d' \<and>
      d_getDefaultWireEncodingChangeCount d' = d_changeCount d' \<and> data_pending d' = 0"
  proof (cases "d_getDefaultWireEncodingChangeCount ?c = d_changeCount ?c")
    case True
    then have "d_getDefaultWireEncodingChangeCount d = d_changeCount d \<and> data_pending d = 0"
      using dt.count_eq_iff_unchanged [OF tr assms(2)] by (simp add: data_getChangeCount_same)
    then have "cache_represents env d"
      using assms(1) by (simp add: data_inv_def)
    then have "cache_represents env ?c"
      by (simp add: cache_represents_def data_getChangeCount_same same split: option.splits)
    then show ?thesis
      using True assms(3) pend same
      by (auto simp: data_getDefaultWireEncoding_def Let_def data_getChangeCount_same)
  next
    case False
    then show ?thesis
      using assms(3) pend same
      by (auto simp: data_getDefaultWireEncoding_def Let_def data_getChangeCount_same
          cache_represents_def data_get_def data_pending_def)
  qed
  then show "data_get d' = data_get d" "e = d_defaultWireEncoding d'"
    "d_defaultFullName d' = d_defaultFullName d" "cache_represents env d'"
    "d_getDefaultWireEncodingChangeCount d' = d_changeCount d'" "data_pending d' = 0"
    by blast+
  show "data_inv env 0 d'"
    using all by (blast intro: data_inv_noticed)
qed

lemma data_setDefaultWireEncoding_ok:
  assumes "case e of None \<Rightarrow> True | Some b \<Rightarrow> (\<exists>w. f = Some w \<and> represents env w (data_get d) b)"
  shows "data_inv env 0 (data_setDefaultWireEncoding e f d)"
    and "data_get (data_setDefaultWireEncoding e f d) = data_get d"
proof -
  let ?d = "d\<lparr>d_defaultWireEncoding := e, d_defaultWireEncodingFormat := f\<rparr>"
  let ?n = "data_getChangeCount ?d"
  have "data_get ?n = data_get ?d"
    by (rule dt.contents_notice)
  then have get: "data_get ?n = data_get d"
    by (simp add: data_get_def)
  then show "data_get (data_setDefaultWireEncoding e f d) = data_get d"
    by (simp add: data_setDefaultWireEncoding_def Let_def data_get_def)
  have "data_pending ?n = 0"
    by (rule dt.pending_notice)
  then show "data_inv env 0 (data_setDefaultWireEncoding e f d)"
    using assms get
    by (intro data_inv_noticed)
      (auto simp: data_setDefaultWireEncoding_def Let_def cache_represents_def data_get_def
        data_getChangeCount_same data_pending_def split: option.splits)
qed

lemma data_wireEncode_ok:
  assumes "data_inv env n d" and "n < 2 ^ 64" and "data_wireEncode env w d = Inr (e, d')"
  shows "represents env w (data_get d) e" and "data_get d' = data_get d" and "data_inv env 0 d'"
proof -
  obtain c d1 where g: "data_getDefaultWireEncoding d = (c, d1)"
    by fastforce
  note ok = data_getDefaultWireEncoding_ok [OF assms(1,2) g]
  have all: "represents env w (data_get d) e \<and> data_get d' = data_get d \<and> data_inv env 0 d'"
  proof (cases "c \<noteq> None \<and> d_defaultWireEncodingFormat d1 = Some w")
    case True
    then show ?thesis
      using ok assms(3) g by (auto simp: data_wireEncode_def cache_represents_def split: option.splits)
  next
    case False
    then have enc: "env_encodeData env w (data_get d) = Inr e"
      and d': "d' = (if w = env_default env
        then data_setDefaultWireEncoding (Some e) (Some (env_default env)) d1 else d1)"
      using assms(3) ok(2) g
      by (auto simp: data_wireEncode_def bindE_eq_Inr split: option.splits if_splits)
    have "represents env w (data_get d1) e"
      using enc ok(2) by (simp add: represents_def)
    then show ?thesis
      using enc d' ok data_setDefaultWireEncoding_ok [where e = "Some e" and f = "Some w" and d = d1 and env = env]
      by (auto simp: represents_def)
  qed
  then show "represents env w (data_get d) e" "data_get d' = data_get d" "data_inv env 0 d'"
    by blast+
qed

section \<open>Sequences of operations\<close>

datatype 'w data_op =
    SetSignature "signature versioned" | SetName "name versioned" | SetMetaInfo "metaInfo versioned"
  | SetContent blob
  | EditSignature "signature \<Rightarrow> signature" | EditName "name \<Rightarrow> name" | EditMetaInfo "metaInfo \<Rightarrow> metaInfo"
  | GetDefaultWireEncoding | WireEncode 'w | WireDecode 'w "byte list" | GetFullName 'w | Copy

fun data_step :: "'w wire_env \<Rightarrow> 'w data_op \<Rightarrow> 'w data \<Rightarrow> error + 'w data" where
  "data_step env (SetSignature s) d = Inr (data_setSignature s d)"
| "data_step env (SetName n) d = Inr (data_setName n d)"
| "data_step env (SetMetaInfo m) d = Inr (data_setMetaInfo m d)"
| "data_step env (SetContent c) d = Inr (data_setContent c d)"
| "data_step env (EditSignature f) d = Inr (data_editSignature f d)"
| "data_step env (EditName f) d = Inr (data_editName f d)"
| "data_step env (EditMetaInfo f) d = Inr (data_editMetaInfo f d)"
| "data_step env GetDefaultWireEncoding d = Inr (snd (data_getDefaultWireEncoding d))"
| "data_step env (WireEncode w) d = bindE (data_wireEncode env w d) (\<lambda>(_, d'). Inr d')"
| "data_step env (WireDecode w input) d = data_wireDecode env w input d"
| "data_step env (GetFullName w) d = bindE (data_getFullName env w d) (\<lambda>(_, d'). Inr d')"
| "data_step env Copy d = Inr (data_copy d)"

fun data_run :: "'w wire_env \<Rightarrow> 'w data_op list \<Rightarrow> 'w data \<Rightarrow> error + 'w data" where
  "data_run env [] d = Inr d"
| "data_run env (op # ops) d = bindE (data_step env op d) (data_run env ops)"

lemma data_setters_inv:
  assumes "data_inv env n d" and "n + 1 < 2 ^ 64"
  shows "data_inv env (Suc n) (data_setSignature s d)"
    and "data_inv env (Suc n) (data_setName nm d)"
    and "data_inv env (Suc n) (data_setMetaInfo m d)"
    and "data_inv env (Suc n) (data_setContent c d)"
  by (rule data_inv_change [OF assms];
      simp add: data_setSignature_def data_setName_def data_setMetaInfo_def data_setContent_def
        data_pending_def counting)+

lemma data_edits_inv:
  assumes "data_inv env n d" and "n + 1 < 2 ^ 64"
  shows "data_inv env (Suc n) (data_editSignature f d)"
    and "data_inv env (Suc n) (data_editName g d)"
    and "data_inv env (Suc n) (data_editMetaInfo h d)"
proof -
  have small: "sp_pending (d_signature d) + 1 < 2 ^ 64" "cc_pending (d_name d) + 1 < 2 ^ 64"
      "cc_pending (d_metaInfo d) + 1 < 2 ^ 64"
    using data_pending_le [OF assms(1)] assms(2) by (simp_all add: data_pending_def)
  show "data_inv env (Suc n) (data_editName g d)"
    using small
    by (intro data_inv_edit [OF assms(1)])
      (simp_all add: data_editName_def data_pending_def cc_pending_edit)
  show "data_inv env (Suc n) (data_editMetaInfo h d)"
    using small
    by (intro data_inv_edit [OF assms(1)])
      (simp_all add: data_editMetaInfo_def data_pending_def cc_pending_edit)
  show "data_inv env (Suc n) (data_editSignature f d)"
  proof (cases "sp_target (d_signature d) = None")
    case True
    then show ?thesis
      using data_inv_mono [OF assms(1), of "Suc n"] by (simp add: data_editSignature_def sp_edit_null)
  next
    case False
    then show ?thesis
      using small
      by (intro data_inv_edit [OF assms(1)])
        (simp_all add: data_editSignature_def data_pending_def sp_pending_edit)
  qed
qed

lemma data_set_get: "data_set v d = Inr d' \<Longrightarrow> data_get d' = v"
  by (auto simp: data_set_def Let_def data_setContent_def data_editMetaInfo_def data_editName_def
      data_editSignature_def data_get_def counting split: option.splits)

lemma data_wireDecode_inv:
  assumes "data_wireDecode env w input d = Inr d'"
  shows "data_inv env 0 d'"
proof -
  obtain v b e d1 where v: "env_decodeData env w input = Inr (v, b, e)" "data_set v d = Inr d1"
    and d': "d' = (if w = env_default env
      then data_setDefaultWireEncoding (Some \<lparr>sb_bytes = input, sb_signedPortionBeginOffset = b,
             sb_signedPortionEndOffset = e\<rparr>) (Some (env_default env)) d1
      else data_setDefaultWireEncoding None None d1)"
    using assms by (auto simp: data_wireDecode_def bindE_eq_Inr)
  have "represents env w (data_get d1)
      \<lparr>sb_bytes = input, sb_signedPortionBeginOffset = b, sb_signedPortionEndOffset = e\<rparr>"
    using v data_set_get by (fastforce simp: represents_def)
  then show ?thesis
    using d' by (auto intro!: data_setDefaultWireEncoding_ok(1))
qed

lemma data_getFullName_inv:
  assumes "data_inv env n d" and "n < 2 ^ 64" and "data_getFullName env w d = Inr (nm, d')"
  shows "data_inv env 0 d'"
proof -
  obtain c d1 where g: "data_getDefaultWireEncoding d = (c, d1)"
    by fastforce
  note ok = data_getDefaultWireEncoding_ok [OF assms(1,2) g]
  have full: "data_inv env 0 (d2\<lparr>d_defaultFullName := f\<rparr>)" if "data_inv env 0 d2" for d2 f
    using that by (simp add: data_inv_def dt.tracks_def data_pending_def cache_represents_def data_get_def
        cong: option.case_cong)
  show ?thesis
    using assms(3) g ok(1) data_wireEncode_ok(3) [OF ok(1)] full
    by (auto simp: data_getFullName_def bindE_eq_Inr Let_def split: if_splits)
qed

lemma data_copy_inv:
  assumes "data_inv env n d" and "n < 2 ^ 64"
  shows "data_inv env 0 (data_copy d)" and "data_get (data_copy d) = data_get d"
proof -
  obtain c d1 where g: "data_getDefaultWireEncoding d = (c, d1)"
    by fastforce
  note ok = data_getDefaultWireEncoding_ok [OF assms g]
  obtain d2 where copy: "data_copy d = data_setDefaultWireEncoding c (d_defaultWireEncodingFormat d1) d2"
    and get: "data_get d2 = data_get d"
    using g by (cases "sp_target (d_signature d)")
      (auto simp: data_copy_def Let_def data_get_def sp_get_def sp_null_def sp_set_def)
  have "case c of None \<Rightarrow> True
      | Some b \<Rightarrow> \<exists>w. d_defaultWireEncodingFormat d1 = Some w \<and> represents env w (data_get d2) b"
    using ok(2,3,5) get by (auto simp: cache_represents_def split: option.splits)
  then show "data_inv env 0 (data_copy d)" "data_get (data_copy d) = data_get d"
    using copy get data_setDefaultWireEncoding_ok by metis+
qed

lemma data_step_inv:
  assumes "data_inv env n d" and "n + 1 < 2 ^ 64" and "data_step env op d = Inr d'"
  shows "data_inv env (Suc n) d'"
proof -
  have small: "n < 2 ^ 64"
    using assms(2) by simp
  show ?thesis
  proof (cases op)
    case GetDefaultWireEncoding
    then show ?thesis
      using assms(3) data_getDefaultWireEncoding_ok(1) [OF assms(1) small, where d' = d']
      by (metis data_inv_mono data_step.simps(8) le0 prod.collapse sum.inject(2))
  next
    case (WireEncode w)
    then show ?thesis
      using assms(3) data_wireEncode_ok(3) [OF assms(1) small] by (auto simp: bindE_eq_Inr intro: data_inv_mono)
  next
    case (WireDecode w input)
    then show ?thesis
      using assms(3) data_inv_mono [OF data_wireDecode_inv] by simp
  next
    case (GetFullName w)
    then show ?thesis
      using assms(3) data_getFullName_inv [OF assms(1) small]
      by (auto simp: bindE_eq_Inr intro: data_inv_mono)
  next
    case Copy
    then show ?thesis
      using assms(3) data_copy_inv(1) [OF assms(1) small] by (auto intro: data_inv_mono)
  qed (use assms(3) data_setters_inv [OF assms(1,2)] data_edits_inv [OF assms(1,2)] in auto)
qed

lemma data_run_inv:
  assumes "data_inv env n d" and "n + length ops < 2 ^ 64" and "data_run env ops d = Inr d'"
  shows "data_inv env (n + length ops) d'"
  using assms
proof (induction ops arbitrary: n d)
  case (Cons op ops)
  then obtain d1 where "data_step env op d = Inr d1" "data_run env ops d1 = Inr d'"
    by (auto simp: bindE_eq_Inr)
  then show ?case
    using Cons.IH [of "Suc n" d1] Cons.prems data_step_inv [of env n d op d1] by simp
qed simp

lemma data_new_inv: "data_inv env 0 (Data nm)"
  by (rule data_inv_noticed)
    (simp_all add: cache_represents_def Data_def data_pending_def counting)

text \<open>
  C4. Whatever sequence of fewer than 2^64 operations a packet went through (setters, changes through
  the references it hands out, encodings, decodings, copies), wireEncode returns bytes that
  represent its present values: they are the encoder's output for them, or the input they were
  decoded from; and encoding does not change the values.
\<close>

theorem data_wireEncode_coherent:
  assumes "data_run env ops (Data nm) = Inr d" and "length ops < 2 ^ 64"
    and "data_wireEncode env w d = Inr (e, d')"
  shows "represents env w (data_get d) e \<and> data_get d' = data_get d"
  using assms data_run_inv [OF data_new_inv, of ops env nm d] data_wireEncode_ok [of env "length ops" d w e d']
  by simp

section \<open>The cached full name and assignment\<close>

lemma data_getDefaultWireEncoding_after_set:
  assumes "data_getDefaultWireEncoding (data_setDefaultWireEncoding e f d) = (c, d')"
  shows "c = e" and "d_defaultWireEncodingFormat d' = f" and "d_defaultFullName d' = d_defaultFullName d"
    and "data_get d' = data_get d"
proof -
  let ?s = "data_setDefaultWireEncoding e f d"
  let ?n = "data_getChangeCount (d\<lparr>d_defaultWireEncoding := e, d_defaultWireEncodingFormat := f\<rparr>)"
  have "data_pending ?n = 0"
    by (rule dt.pending_notice)
  then have "data_pending ?s = 0"
    by (simp add: data_setDefaultWireEncoding_def Let_def data_pending_def)
  then have count: "d_changeCount (data_getChangeCount ?s) = d_getDefaultWireEncodingChangeCount (data_getChangeCount ?s)"
    by (simp add: data_getChangeCount_count data_getChangeCount_same)
      (simp add: data_setDefaultWireEncoding_def Let_def)
  have get: "data_get (data_getChangeCount ?s) = data_get d"
    using dt.contents_notice [of ?s] dt.contents_notice [of "d\<lparr>d_defaultWireEncoding := e, d_defaultWireEncodingFormat := f\<rparr>"]
    by (simp add: data_setDefaultWireEncoding_def Let_def data_get_def)
  show "c = e" "d_defaultWireEncodingFormat d' = f" "d_defaultFullName d' = d_defaultFullName d"
    "data_get d' = data_get d"
    using assms count get
    by (auto simp: data_getDefaultWireEncoding_def Let_def data_getChangeCount_same)
      (simp_all add: data_setDefaultWireEncoding_def Let_def data_getChangeCount_same)
qed

lemma data_setDefaultWireEncoding_same:
  "d_defaultWireEncoding (data_setDefaultWireEncoding e f d) = e"
  "d_defaultWireEncodingFormat (data_setDefaultWireEncoding e f d) = f"
  "d_defaultFullName (data_setDefaultWireEncoding e f d) = d_defaultFullName d"
  by (simp_all add: data_setDefaultWireEncoding_def Let_def data_getChangeCount_same)

lemma data_getDefaultWireEncoding_fullName:
  "data_getDefaultWireEncoding d = (c, d') \<Longrightarrow> d_defaultFullName d' = d_defaultFullName d"
  by (auto simp: data_getDefaultWireEncoding_def Let_def data_getChangeCount_same split: if_splits)

lemma data_getDefaultWireEncoding_cached:
  "data_getDefaultWireEncoding d = (c, d') \<Longrightarrow> c = d_defaultWireEncoding d'"
  by (auto simp: data_getDefaultWireEncoding_def Let_def data_getChangeCount_same split: if_splits)

lemma data_wireEncode_default:
  assumes "data_wireEncode env (env_default env) d = Inr (e, d')"
  shows "d_defaultWireEncoding d' = Some e" and "d_defaultWireEncodingFormat d' = Some (env_default env)"
    and "d_defaultFullName d' = d_defaultFullName d"
proof -
  obtain c d1 where g: "data_getDefaultWireEncoding d = (c, d1)"
    by fastforce
  show "d_defaultWireEncoding d' = Some e" "d_defaultWireEncodingFormat d' = Some (env_default env)"
    "d_defaultFullName d' = d_defaultFullName d"
    using assms data_getDefaultWireEncoding_fullName [OF g] data_getDefaultWireEncoding_cached [OF g] g
    by (auto simp: data_wireEncode_def bindE_eq_Inr data_setDefaultWireEncoding_same
        split: option.splits if_splits)
qed

lemma data_getFullName_caches:
  assumes "data_getFullName env (env_default env) d = Inr (full, d')"
  shows "d_defaultFullName d' = full" and "full \<noteq> []"
  using assms
  by (auto simp: data_getFullName_def bindE_eq_Inr Let_def split: if_splits prod.splits)

lemma data_getDefaultWireEncoding_clean:
  assumes "data_pending d = 0" and "d_getDefaultWireEncodingChangeCount d = d_changeCount d"
  shows "fst (data_getDefaultWireEncoding d) = d_defaultWireEncoding d"
    and "d_defaultWireEncodingFormat (snd (data_getDefaultWireEncoding d)) = d_defaultWireEncodingFormat d"
    and "d_defaultFullName (snd (data_getDefaultWireEncoding d)) = d_defaultFullName d"
  using assms
  by (simp_all add: data_getDefaultWireEncoding_def Let_def data_getChangeCount_same data_getChangeCount_count)

lemma data_wireEncode_clean:
  assumes "data_wireEncode env (env_default env) d = Inr (e, d')"
  shows "data_pending d' = 0" and "d_getDefaultWireEncodingChangeCount d' = d_changeCount d'"
proof -
  obtain c d1 where g: "data_getDefaultWireEncoding d = (c, d1)"
    by fastforce
  have notice: "data_pending (data_getChangeCount x) = 0" for x :: "'a data"
    by (rule dt.pending_notice)
  have "data_pending d1 = 0 \<and> d_getDefaultWireEncodingChangeCount d1 = d_changeCount d1"
    using g notice [of d]
    by (auto simp: data_getDefaultWireEncoding_def Let_def data_pending_def split: if_splits)
  moreover have "data_pending (data_setDefaultWireEncoding x y z) = 0 \<and>
      d_getDefaultWireEncodingChangeCount (data_setDefaultWireEncoding x y z) =
      d_changeCount (data_setDefaultWireEncoding x y z)" for x y and z :: "'a data"
    using notice [of "z\<lparr>d_defaultWireEncoding := x, d_defaultWireEncodingFormat := y\<rparr>"]
    by (simp add: data_setDefaultWireEncoding_def Let_def data_pending_def)
  ultimately show "data_pending d' = 0" "d_getDefaultWireEncodingChangeCount d' = d_changeCount d'"
    using assms g by (auto simp: data_wireEncode_def bindE_eq_Inr split: option.splits if_splits)
qed

text \<open>
  C38. A packet that has been asked for its full name in the default format keeps that answer: after its
  content is replaced and the packet is encoded again, getFullName still returns the full name of
  the old content.  (The comment in getFullName takes a non-null default encoding as a sign that
  the fields have not changed since; the encoding may have been made after the change.)
\<close>

theorem data_getFullName_stale:
  assumes "data_getFullName env (env_default env) d = Inr (full, d1)"
    and "data_wireEncode env (env_default env) (data_setContent content d1) = Inr (encoding, d2)"
  shows "\<exists>d3. data_getFullName env (env_default env) d2 = Inr (full, d3)"
proof -
  obtain c d3 where g: "data_getDefaultWireEncoding d2 = (c, d3)"
    by fastforce
  have "d_defaultFullName d2 = full"
    using data_wireEncode_default(3) [OF assms(2)] data_getFullName_caches(1) [OF assms(1)]
    by (simp add: data_setContent_def)
  then show ?thesis
    using data_getDefaultWireEncoding_clean [OF data_wireEncode_clean [OF assms(2)]] g
      data_wireEncode_default(1,2) [OF assms(2)] data_getFullName_caches(2) [OF assms(1)]
    by (auto simp: data_getFullName_def)
qed

text \<open>
  Assigning a packet whose content was changed after its last encoding hands the outdated
  encoding to the target as its current one, so the target's wireEncode does not encode the
  content the target has.
\<close>

lemma data_assign_stale:
  assumes "data_wireEncode env (env_default env) d = Inr (encoding, d1)"
  shows "\<exists>d3. data_wireEncode env (env_default env) (data_assign (data_setContent content d1) target)
           = Inr (encoding, d3) \<and> dv_content (data_get d3) = content"
proof -
  let ?src = "data_setContent content d1"
  obtain t where t: "data_assign ?src target = data_setDefaultWireEncoding (Some encoding) (Some (env_default env)) t"
    and content: "dv_content (data_get t) = content"
    using data_wireEncode_default(1,2) [OF assms]
    by (simp add: data_assign_def Let_def data_setContent_def data_get_def)
  obtain c d3 where g: "data_getDefaultWireEncoding (data_assign ?src target) = (c, d3)"
    by fastforce
  show ?thesis
    using data_getDefaultWireEncoding_after_set [OF g [unfolded t]] g content
    by (simp add: data_wireEncode_def)
qed

text \<open>A wire format whose encoding is the content, with a check sum as digest.\<close>

definition sample_env :: "unit wire_env" where
  "sample_env = \<lparr>env_default = (),
     env_encodeData = (\<lambda>_ v. Inr \<lparr>sb_bytes = blob_bytes (dv_content v), sb_signedPortionBeginOffset = 0,
       sb_signedPortionEndOffset = 0\<rparr>),
     env_decodeData = (\<lambda>_ bytes. Inr (\<lparr>dv_signature = Some (DigestSha256Signature None ValidityPeriod0),
       dv_name = [], dv_metaInfo = MetaInfo0, dv_content = Some bytes\<rparr>, 0, 0)),
     env_sha256 = (\<lambda>bytes. replicate 32 (sum_list bytes))\<rparr>"

lemma sample_default: "env_default sample_env = ()"
  by simp

definition sample_data :: "unit data" where
  "sample_data = data_setContent (Some [1]) (Data \<lparr>ver_value = [genericComponent [65]], ver_changeCount = 0\<rparr>)"

definition sample_ops :: "unit data_op list" where
  "sample_ops = [SetContent (Some [1]), WireEncode (), EditName (\<lambda>n. n @ n), SetContent (Some [2])]"

theorem data_wireEncode_coherent_witness:
  "\<exists>d e d'. data_run sample_env sample_ops (Data \<lparr>ver_value = [], ver_changeCount = 0\<rparr>) = Inr d \<and>
     data_wireEncode sample_env () d = Inr (e, d') \<and> sb_bytes e = [2] \<and>
     represents sample_env () (data_get d) e \<and> data_get d' = data_get d"
proof -
  let ?run = "data_run sample_env sample_ops (Data \<lparr>ver_value = [], ver_changeCount = 0\<rparr>)"
  let ?enc = "data_wireEncode sample_env () (projr ?run)"
  have "\<not> isl ?run" by code_simp
  then have d: "?run = Inr (projr ?run)" by simp
  have "\<not> isl ?enc" by code_simp
  then have e: "?enc = Inr (fst (projr ?enc), snd (projr ?enc))" by simp
  have "sb_bytes (fst (projr ?enc)) = [2]" by code_simp
  moreover have "length sample_ops < 2 ^ 64" by (simp add: sample_ops_def)
  ultimately show ?thesis
    using d e data_wireEncode_coherent [OF d _ e] by blast
qed

theorem data_getFullName_stale_witness:
  "\<exists>full d1 encoding d2 d3.
     data_getFullName sample_env () sample_data = Inr (full, d1) \<and>
     data_wireEncode sample_env () (data_setContent (Some [2]) d1) = Inr (encoding, d2) \<and>
     data_getFullName sample_env () d2 = Inr (full, d3) \<and>
     map c_value full = [Some [65], Some (replicate 32 1)] \<and>
     env_sha256 sample_env (sb_bytes encoding) = replicate 32 2"
proof -
  let ?full = "data_getFullName sample_env () sample_data"
  let ?enc = "data_wireEncode sample_env () (data_setContent (Some [2]) (snd (projr ?full)))"
  have "\<not> isl ?full" by code_simp
  then have f: "?full = Inr (fst (projr ?full), snd (projr ?full))" by simp
  have "\<not> isl ?enc" by code_simp
  then have e: "?enc = Inr (fst (projr ?enc), snd (projr ?enc))" by simp
  have v: "map c_value (fst (projr ?full)) = [Some [65], Some (replicate 32 1)]"
    "env_sha256 sample_env (sb_bytes (fst (projr ?enc))) = replicate 32 2"
    by code_simp+
  obtain d3 where g: "data_getFullName sample_env () (snd (projr ?enc)) = Inr (fst (projr ?full), d3)"
    using data_getFullName_stale [where env = sample_env, unfolded sample_default, OF f e] by blast
  show ?thesis
    by (intro exI conjI, rule f, rule e, rule g, rule v, rule v)
qed

lemma data_assign_stale_witness:
  "\<exists>encoding d1 d3. data_wireEncode sample_env () sample_data = Inr (encoding, d1) \<and>
     sb_bytes encoding = [1] \<and>
     data_wireEncode sample_env () (data_assign (data_setContent (Some [2]) d1) sample_data) = Inr (encoding, d3) \<and>
     dv_content (data_get d3) = Some [2]"
proof -
  let ?enc = "data_wireEncode sample_env () sample_data"
  have "\<not> isl ?enc" by code_simp
  then have e: "?enc = Inr (fst (projr ?enc), snd (projr ?enc))" by simp
  have "sb_bytes (fst (projr ?enc)) = [1]" by code_simp
  then show ?thesis
    using data_assign_stale [where env = sample_env, unfolded sample_default, OF e] e by blast
qed

section \<open>Values under counting and copying\<close>

lemma data_getChangeCount_values: "data_get (data_getChangeCount d) = data_get d"
  by (simp add: data_get_def data_getChangeCount_def case_prod_unfold Let_def counting)

lemma data_get_cached [simp]:
  "data_get (d\<lparr>d_defaultWireEncoding := e\<rparr>) = data_get d"
  "data_get (d\<lparr>d_defaultWireEncodingFormat := f\<rparr>) = data_get d"
  "data_get (d\<lparr>d_getDefaultWireEncodingChangeCount := n\<rparr>) = data_get d"
  by (simp_all add: data_get_def)

lemma data_setDefaultWireEncoding_values: "data_get (data_setDefaultWireEncoding e f d) = data_get d"
  by (simp add: data_setDefaultWireEncoding_def Let_def data_getChangeCount_values)

lemma data_copy_values: "data_get (data_copy d) = data_get d"
  unfolding data_copy_def Let_def case_prod_unfold data_setDefaultWireEncoding_values
  by (auto simp: data_get_def sp_get_def sp_set_def sp_null_def split: option.splits)

end
