(* ===== verification/Interest_Packet.thy ===== *)
theory Interest_Packet
  imports "HOL-Library.Multiset" Exclude_Filter Data_Packet
begin

text \<open>
  Interests (src/interest.cpp, include/ndn-ind/interest.hpp) and the delegation sets used as
  forwarding hints (src/delegation-set.cpp).

  An interest counts the changes of its parts as a data packet does; besides the cached encoding it
  has a nonce that is dropped by any change.  Times are nanoseconds.  The encoder of a wire format
  and the decoder are arguments, as in Data_Packet; the bits of an interest that only reach the
  wire through its deprecated link object are kept as they are.  The NDNLP packet an interest
  arrived in (setLpPacket) is not part of the model.
\<close>

section \<open>Delegation sets\<close>

type_synonym delegation = "int \<times> name"
type_synonym delegationSet = "delegation list"

definition delegation_compare :: "delegation \<Rightarrow> delegation \<Rightarrow> error + int" where
  "delegation_compare d other =
    (if fst d < fst other then Inr (-1)
     else if fst d > fst other then Inr 1
     else name_compare (snd d) (snd other))"

definition delegations_remove :: "name \<Rightarrow> delegationSet \<Rightarrow> delegationSet \<times> bool" where
  "delegations_remove n ds =
    (let kept = filter (\<lambda>d. \<not> name_equals (snd d) n) ds in (kept, length kept \<noteq> length ds))"

fun delegation_insert :: "delegation \<Rightarrow> delegationSet \<Rightarrow> error + delegationSet" where
  "delegation_insert new [] = Inr [new]"
| "delegation_insert new (d # ds) =
    bindE (delegation_compare d new) (\<lambda>c.
      if c \<ge> 0 then Inr (new # d # ds)
      else bindE (delegation_insert new ds) (\<lambda>ds'. Inr (d # ds')))"

definition delegations_add :: "int \<Rightarrow> name \<Rightarrow> delegationSet \<Rightarrow> error + delegationSet" where
  "delegations_add preference n ds = delegation_insert (preference, n) (fst (delegations_remove n ds))"

definition delegations_get :: "delegationSet \<Rightarrow> nat \<Rightarrow> error + delegation" where
  "delegations_get ds i =
    (if i \<ge> length ds then Inl (Runtime_error ''DelegationSet::get: Index is out of bounds'') else Inr (ds ! i))"

fun delegations_find_from :: "int \<Rightarrow> name \<Rightarrow> delegationSet \<Rightarrow> int" where
  "delegations_find_from i n [] = -1"
| "delegations_find_from i n (d # ds) =
    (if name_equals (snd d) n then i else delegations_find_from (i + 1) n ds)"

definition delegations_find :: "name \<Rightarrow> delegationSet \<Rightarrow> int" where
  "delegations_find n ds = delegations_find_from 0 n ds"

definition dkey :: "delegation \<Rightarrow> int \<times> ckey list" where
  "dkey d = (fst d, nkey (snd d))"

definition delegations_wf :: "delegationSet \<Rightarrow> bool" where
  "delegations_wf ds \<longleftrightarrow> sorted (map dkey ds) \<and>
     distinct (map (\<lambda>d. map (\<lambda>c. blob_bytes (c_value c)) (snd d)) ds) \<and>
     list_all (\<lambda>d. length (snd d) < 2 ^ 63) ds"

lemma delegation_compare_cmp:
  assumes "length (snd d) < 2 ^ 63" and "length (snd e) < 2 ^ 63"
  shows "delegation_compare d e = Inr (cmp (dkey d) (dkey e))"
  using name_compare_cmp [OF assms] by (auto simp: delegation_compare_def dkey_def cmp_def)

lemma delegation_insert_spec:
  assumes "sorted (map dkey ds)" and "list_all (\<lambda>d. length (snd d) < 2 ^ 63) (new # ds)"
  shows "\<exists>ds'. delegation_insert new ds = Inr ds' \<and> sorted (map dkey ds') \<and> mset ds' = add_mset new (mset ds)"
  using assms
proof (induction ds)
  case (Cons d ds)
  have c: "delegation_compare d new = Inr (cmp (dkey d) (dkey new))"
    using Cons.prems(2) by (intro delegation_compare_cmp) simp_all
  show ?case
  proof (cases "dkey d < dkey new")
    case True
    then obtain ds' where ds': "delegation_insert new ds = Inr ds'" "sorted (map dkey ds')"
        "mset ds' = add_mset new (mset ds)"
      using Cons by auto
    have "set ds' = insert new (set ds)"
      using ds'(3) by (metis set_mset_add_mset_insert set_mset_mset)
    moreover have "\<not> 0 \<le> cmp (dkey d) (dkey new)"
      using True by (simp add: not_le)
    ultimately show ?thesis
      using True c ds' Cons.prems(1) by auto
  next
    case False
    then show ?thesis
      using c Cons.prems(1) by (auto simp: not_less cmp_def)
  qed
qed simp

lemma delegations_find_from_spec:
  assumes "distinct (map (\<lambda>d. map (\<lambda>c. blob_bytes (c_value c)) (snd d)) ds)"
    and "i < length ds" and "name_equals (snd (ds ! i)) n"
  shows "delegations_find_from k n ds = k + int i"
  using assms
proof (induction ds arbitrary: i k)
  case (Cons d ds)
  show ?case
  proof (cases i)
    case (Suc j)
    then have "\<not> name_equals (snd d) n"
      using Cons.prems by (force simp: name_equals_iff in_set_conv_nth)
    then show ?thesis
      using Cons.IH [of j "k + 1"] Cons.prems Suc by simp
  qed (use Cons.prems in simp)
qed simp

text \<open>
  C30. Adding a delegation keeps the set sorted by preference and name and free of duplicate names; it
  replaces the delegations of that name, keeps all others, and find returns the index at which get
  returns the new one.
\<close>

theorem delegations_add_correct:
  assumes "delegations_wf ds" and "length n < 2 ^ 63"
  shows "\<exists>ds'. delegations_add preference n ds = Inr ds' \<and> delegations_wf ds' \<and>
     mset ds' = add_mset (preference, n) (filter_mset (\<lambda>d. \<not> name_equals (snd d) n) (mset ds)) \<and>
     0 \<le> delegations_find n ds' \<and> delegations_get ds' (nat (delegations_find n ds')) = Inr (preference, n)"
proof -
  let ?kept = "filter (\<lambda>d. \<not> name_equals (snd d) n) ds"
  let ?bytes = "\<lambda>d :: delegation. map (\<lambda>c. blob_bytes (c_value c)) (snd d)"
  have kept: "sorted (map dkey ?kept)" "list_all (\<lambda>d. length (snd d) < 2 ^ 63) ((preference, n) # ?kept)"
    using assms by (auto simp: delegations_wf_def list_all_iff sorted_filter)
  obtain ds' where ds': "delegation_insert (preference, n) ?kept = Inr ds'" "sorted (map dkey ds')"
      "mset ds' = add_mset (preference, n) (mset ?kept)"
    using delegation_insert_spec [OF kept] by blast
  have set': "set ds' = insert (preference, n) (set ?kept)"
    using ds'(3) by (metis set_mset_add_mset_insert set_mset_mset)
  have "distinct (map ?bytes ?kept)"
    using assms(1) by (simp add: delegations_wf_def distinct_map_filter)
  moreover have "?bytes (preference, n) \<notin> ?bytes ` set ?kept"
    by (auto simp: name_equals_iff)
  ultimately have "distinct (map ?bytes ((preference, n) # ?kept))"
    by simp
  moreover have "mset (map ?bytes ds') = mset (map ?bytes ((preference, n) # ?kept))"
    using ds'(3) by simp
  ultimately have dist: "distinct (map ?bytes ds')"
    using mset_eq_imp_distinct_iff by blast
  have wf: "delegations_wf ds'"
    using ds'(2) dist kept(2) set' by (auto simp: delegations_wf_def list_all_iff)
  obtain i where i: "i < length ds'" "ds' ! i = (preference, n)"
    using set' by (metis in_set_conv_nth insertI1)
  then have "delegations_find n ds' = int i"
    using delegations_find_from_spec [OF dist i(1)] by (simp add: delegations_find_def name_equals_iff)
  then show ?thesis
    using ds' wf i by (simp add: delegations_add_def delegations_remove_def Let_def delegations_get_def)
qed

theorem delegations_add_correct_witness:
  "\<exists>ds'. delegations_add 1 [genericComponent [65]] [(2, []), (3, [genericComponent [65]])] = Inr ds' \<and>
     delegations_wf ds' \<and> delegations_get ds' (nat (delegations_find [genericComponent [65]] ds')) = Inr (1, [genericComponent [65]])"
proof -
  have "delegations_wf [(2, []), (3, [genericComponent [65]])]"
    by (simp add: delegations_wf_def dkey_def)
  moreover have "length [genericComponent [65]] < 2 ^ 63"
    by simp
  ultimately show ?thesis
    using delegations_add_correct by blast
qed

section \<open>The interest\<close>

record 'w interest =
  i_name :: "name ChangeCounter"
  i_minSuffixComponents :: int
  i_maxSuffixComponents :: int
  i_didSetCanBePrefix :: bool
  i_keyLocator :: "keyLocator ChangeCounter"
  i_exclude :: "exclude ChangeCounter"
  i_childSelector :: int
  i_mustBeFresh :: bool
  i_interestLifetime :: int
  i_nonce :: blob
  i_getNonceChangeCount :: u64
  i_forwardingHint :: "delegationSet ChangeCounter"
  i_applicationParameters :: blob
  i_linkWireEncoding :: blob
  i_linkWireEncodingFormat :: "'w option"
  i_link :: "data_values SharedPointerChangeCounter"
  i_selectedDelegationIndex :: int
  i_defaultWireEncoding :: "signedBlob option"
  i_defaultWireEncodingFormat :: "'w option"
  i_getDefaultWireEncodingChangeCount :: u64
  i_changeCount :: u64

text \<open>
  A new interest; the two flags are the class's statics: the default of CanBePrefix and whether
  the application has set it.
\<close>

definition Interest :: "bool \<Rightarrow> bool \<Rightarrow> name versioned \<Rightarrow> 'w interest" where
  "Interest defaultCanBePrefix didSetDefaultCanBePrefix name =
    \<lparr>i_name = cc_new name,
     i_minSuffixComponents = -1,
     i_maxSuffixComponents = (if defaultCanBePrefix then -1 else 1),
     i_didSetCanBePrefix = didSetDefaultCanBePrefix,
     i_keyLocator = cc_new \<lparr>ver_value = KeyLocator0, ver_changeCount = 0\<rparr>,
     i_exclude = cc_new \<lparr>ver_value = [], ver_changeCount = 0\<rparr>,
     i_childSelector = -1,
     i_mustBeFresh = False,
     i_interestLifetime = -1000000,
     i_nonce = None,
     i_getNonceChangeCount = 0,
     i_forwardingHint = cc_new \<lparr>ver_value = [], ver_changeCount = 0\<rparr>,
     i_applicationParameters = None,
     i_linkWireEncoding = None,
     i_linkWireEncodingFormat = None,
     i_link = sp_null,
     i_selectedDelegationIndex = -1,
     i_defaultWireEncoding = None,
     i_defaultWireEncodingFormat = None,
     i_getDefaultWireEncodingChangeCount = 0,
     i_changeCount = 0\<rparr>"

definition int_getName :: "'w interest \<Rightarrow> name" where
  "int_getName i = cc_get (i_name i)"

definition int_getCanBePrefix :: "'w interest \<Rightarrow> bool" where
  "int_getCanBePrefix i \<longleftrightarrow> i_maxSuffixComponents i \<noteq> 1"

definition int_hasApplicationParameters :: "'w interest \<Rightarrow> bool" where
  "int_hasApplicationParameters i \<longleftrightarrow> blob_size (i_applicationParameters i) > 0"

definition int_changed :: "'w interest \<Rightarrow> 'w interest" where
  "int_changed i = i\<lparr>i_changeCount := i_changeCount i + 1\<rparr>"

definition int_setName :: "name versioned \<Rightarrow> 'w interest \<Rightarrow> 'w interest" where
  "int_setName n i = int_changed (i\<lparr>i_name := cc_set n (i_name i)\<rparr>)"

definition int_setMinSuffixComponents :: "int \<Rightarrow> 'w interest \<Rightarrow> 'w interest" where
  "int_setMinSuffixComponents v i = int_changed (i\<lparr>i_minSuffixComponents := v\<rparr>)"

definition int_setMaxSuffixComponents :: "int \<Rightarrow> 'w interest \<Rightarrow> 'w interest" where
  "int_setMaxSuffixComponents v i = int_changed (i\<lparr>i_maxSuffixComponents := v\<rparr>)"

definition int_setCanBePrefix :: "bool \<Rightarrow> 'w interest \<Rightarrow> 'w interest" where
  "int_setCanBePrefix canBePrefix i =
    int_changed (i\<lparr>i_maxSuffixComponents := (if canBePrefix then -1 else 1), i_didSetCanBePrefix := True\<rparr>)"

definition int_setChildSelector :: "int \<Rightarrow> 'w interest \<Rightarrow> 'w interest" where
  "int_setChildSelector v i = int_changed (i\<lparr>i_childSelector := v\<rparr>)"

definition int_setMustBeFresh :: "bool \<Rightarrow> 'w interest \<Rightarrow> 'w interest" where
  "int_setMustBeFresh v i = int_changed (i\<lparr>i_mustBeFresh := v\<rparr>)"

definition int_setInterestLifetime :: "int \<Rightarrow> 'w interest \<Rightarrow> 'w interest" where
  "int_setInterestLifetime v i = int_changed (i\<lparr>i_interestLifetime := v\<rparr>)"

definition int_setKeyLocator :: "keyLocator versioned \<Rightarrow> 'w interest \<Rightarrow> 'w interest" where
  "int_setKeyLocator k i = int_changed (i\<lparr>i_keyLocator := cc_new k\<rparr>)"

definition int_setExclude :: "exclude versioned \<Rightarrow> 'w interest \<Rightarrow> 'w interest" where
  "int_setExclude e i = int_changed (i\<lparr>i_exclude := cc_new e\<rparr>)"

definition int_setForwardingHint :: "delegationSet versioned \<Rightarrow> 'w interest \<Rightarrow> 'w interest" where
  "int_setForwardingHint h i = int_changed (i\<lparr>i_forwardingHint := cc_new h\<rparr>)"

definition int_setApplicationParameters :: "blob \<Rightarrow> 'w interest \<Rightarrow> 'w interest" where
  "int_setApplicationParameters v i = int_changed (i\<lparr>i_applicationParameters := v\<rparr>)"

definition int_setLinkWireEncoding :: "blob \<Rightarrow> 'w option \<Rightarrow> 'w interest \<Rightarrow> 'w interest" where
  "int_setLinkWireEncoding encoding wireFormat i =
    int_changed (i\<lparr>i_linkWireEncoding := encoding, i_linkWireEncodingFormat := wireFormat,
      i_link := sp_set None (i_link i)\<rparr>)"

definition int_unsetLink :: "'w interest \<Rightarrow> 'w interest" where
  "int_unsetLink i = int_setLinkWireEncoding None None i"

definition int_setSelectedDelegationIndex :: "int \<Rightarrow> 'w interest \<Rightarrow> 'w interest" where
  "int_setSelectedDelegationIndex v i = int_changed (i\<lparr>i_selectedDelegationIndex := v\<rparr>)"

definition int_getChangeCount :: "'w interest \<Rightarrow> 'w interest" where
  "int_getChangeCount i =
    (let (changed1, n) = checkChanged (i_name i);
         (changed2, k) = checkChanged (i_keyLocator i);
         (changed3, e) = checkChanged (i_exclude i);
         (changed4, h) = checkChanged (i_forwardingHint i);
         (changed5, l) = sp_checkChanged (i_link i);
         i = i\<lparr>i_name := n, i_keyLocator := k, i_exclude := e, i_forwardingHint := h, i_link := l\<rparr>
     in if changed1 \<or> changed2 \<or> changed3 \<or> changed4 \<or> changed5 then int_changed i else i)"

definition int_setNonce :: "blob \<Rightarrow> 'w interest \<Rightarrow> 'w interest" where
  "int_setNonce nonce i =
    (let i = int_getChangeCount (int_changed (i\<lparr>i_nonce := nonce\<rparr>))
     in i\<lparr>i_getNonceChangeCount := i_changeCount i\<rparr>)"

definition int_getNonce :: "'w interest \<Rightarrow> blob \<times> 'w interest" where
  "int_getNonce i =
    (let i = int_getChangeCount i in
     if i_getNonceChangeCount i \<noteq> i_changeCount i
     then (None, i\<lparr>i_nonce := None, i_getNonceChangeCount := i_changeCount i\<rparr>)
     else (i_nonce i, i))"

definition int_getDefaultWireEncoding :: "'w interest \<Rightarrow> signedBlob option \<times> 'w interest" where
  "int_getDefaultWireEncoding i =
    (let i = int_getChangeCount i in
     if i_getDefaultWireEncodingChangeCount i \<noteq> i_changeCount i
     then (None, i\<lparr>i_defaultWireEncoding := None, i_defaultWireEncodingFormat := None,
                   i_getDefaultWireEncodingChangeCount := i_changeCount i\<rparr>)
     else (i_defaultWireEncoding i, i))"

definition int_setDefaultWireEncoding ::
    "signedBlob option \<Rightarrow> 'w option \<Rightarrow> 'w interest \<Rightarrow> 'w interest" where
  "int_setDefaultWireEncoding encoding format i =
    (let i = int_getChangeCount (i\<lparr>i_defaultWireEncoding := encoding, i_defaultWireEncodingFormat := format\<rparr>)
     in i\<lparr>i_getDefaultWireEncodingChangeCount := i_changeCount i\<rparr>)"

text \<open>The changes an application makes through getName, getKeyLocator, getExclude and getForwardingHint.\<close>

definition int_editName :: "(name \<Rightarrow> name) \<Rightarrow> 'w interest \<Rightarrow> 'w interest" where
  "int_editName f i = i\<lparr>i_name := cc_edit f (i_name i)\<rparr>"

definition int_editKeyLocator :: "(keyLocator \<Rightarrow> keyLocator) \<Rightarrow> 'w interest \<Rightarrow> 'w interest" where
  "int_editKeyLocator f i = i\<lparr>i_keyLocator := cc_edit f (i_keyLocator i)\<rparr>"

definition int_editExclude :: "(exclude \<Rightarrow> exclude) \<Rightarrow> 'w interest \<Rightarrow> 'w interest" where
  "int_editExclude f i = i\<lparr>i_exclude := cc_edit f (i_exclude i)\<rparr>"

definition int_editForwardingHint :: "(delegationSet \<Rightarrow> delegationSet) \<Rightarrow> 'w interest \<Rightarrow> 'w interest" where
  "int_editForwardingHint f i = i\<lparr>i_forwardingHint := cc_edit f (i_forwardingHint i)\<rparr>"

section \<open>Encoding, copying and printing\<close>

definition int_wireEncode ::
    "'w \<Rightarrow> ('w \<Rightarrow> 'w interest \<Rightarrow> error + signedBlob) \<Rightarrow> 'w \<Rightarrow> 'w interest \<Rightarrow> error + (signedBlob \<times> 'w interest)" where
  "int_wireEncode dflt encodeInterest wireFormat i =
    (let (encoding, i) = int_getDefaultWireEncoding i in
     case (if i_defaultWireEncodingFormat i = Some wireFormat then encoding else None) of
       Some e \<Rightarrow> Inr (e, i)
     | None \<Rightarrow>
         bindE (encodeInterest wireFormat i) (\<lambda>wireEncoding.
           Inr (wireEncoding,
                if wireFormat = dflt
                then int_setDefaultWireEncoding (Some wireEncoding) (Some dflt) i else i)))"

text \<open>The decoder's result is the interest it filled in, with the signed portion.\<close>

definition int_wireDecode ::
    "'w \<Rightarrow> ('w \<Rightarrow> byte list \<Rightarrow> 'w interest \<Rightarrow> error + ('w interest \<times> nat \<times> nat)) \<Rightarrow>
     'w \<Rightarrow> byte list \<Rightarrow> 'w interest \<Rightarrow> error + 'w interest" where
  "int_wireDecode dflt decodeInterest wireFormat input i =
    bindE (decodeInterest wireFormat input i) (\<lambda>(i, begin_offset, end_offset).
      Inr (if wireFormat = dflt
           then int_setDefaultWireEncoding
                  (Some \<lparr>sb_bytes = input, sb_signedPortionBeginOffset = begin_offset,
                     sb_signedPortionEndOffset = end_offset\<rparr>) (Some dflt) i
           else int_setDefaultWireEncoding None None i))"

definition int_copy :: "'w interest \<Rightarrow> 'w interest" where
  "int_copy interest =
    (let i = interest\<lparr>i_getNonceChangeCount := 0, i_link := sp_null, i_defaultWireEncoding := None,
           i_defaultWireEncodingFormat := None, i_getDefaultWireEncodingChangeCount := 0,
           i_changeCount := 0\<rparr>;
         i = (case sp_target (i_link interest) of
                None \<Rightarrow> i | Some l \<Rightarrow> i\<lparr>i_link := sp_set (Some l) (i_link i)\<rparr>);
         (encoding, interest) = int_getDefaultWireEncoding interest
     in int_setDefaultWireEncoding encoding (i_defaultWireEncodingFormat interest) i)"

definition int_assign :: "'w interest \<Rightarrow> 'w interest \<Rightarrow> 'w interest" where
  "int_assign interest i =
    (let i = int_setName (cc_target (i_name interest)) i;
         i = int_setMinSuffixComponents (i_minSuffixComponents interest) i;
         i = int_setMaxSuffixComponents (i_maxSuffixComponents interest) i;
         i = i\<lparr>i_didSetCanBePrefix := i_didSetCanBePrefix interest\<rparr>;
         i = int_setKeyLocator (cc_target (i_keyLocator interest)) i;
         i = int_setExclude (cc_target (i_exclude interest)) i;
         i = int_setChildSelector (i_childSelector interest) i;
         i = i\<lparr>i_mustBeFresh := i_mustBeFresh interest\<rparr>;
         i = int_setInterestLifetime (i_interestLifetime interest) i;
         i = int_setNonce (i_nonce interest) i;
         i = i\<lparr>i_linkWireEncoding := i_linkWireEncoding interest,
               i_linkWireEncodingFormat := i_linkWireEncodingFormat interest\<rparr>;
         i = (case sp_target (i_link interest) of
                None \<Rightarrow> i | Some l \<Rightarrow> i\<lparr>i_link := sp_set (Some l) (i_link i)\<rparr>);
         i = int_setSelectedDelegationIndex (i_selectedDelegationIndex interest) i;
         (encoding, interest) = int_getDefaultWireEncoding interest
     in int_setDefaultWireEncoding encoding (i_defaultWireEncodingFormat interest) i)"

definition selector :: "string \<Rightarrow> byte list \<Rightarrow> byte list" where
  "selector key_string printed = str key_string @ printed"

definition int_toUri :: "'w interest \<Rightarrow> error + (byte list \<times> 'w interest)" where
  "int_toUri i =
    (let s1 = (if i_minSuffixComponents i \<ge> 0
               then selector ''&ndn.MinSuffixComponents='' (print_int False (i_minSuffixComponents i)) else []);
         s2 = (if i_maxSuffixComponents i \<ge> 0
               then selector ''&ndn.MaxSuffixComponents='' (print_int False (i_maxSuffixComponents i)) else []);
         s3 = (if i_childSelector i \<ge> 0
               then selector ''&ndn.ChildSelector='' (print_int False (i_childSelector i)) else []);
         s4 = selector ''&ndn.MustBeFresh='' (print_int False (if i_mustBeFresh i then 1 else 0));
         s5 = (if i_interestLifetime i \<ge> 0
               then selector ''&ndn.InterestLifetime='' (print_int False ((i_interestLifetime i + 500000) div 1000000)) else []);
         (nonce, i) = int_getNonce i;
         s6 = (if blob_size nonce > 0 then selector ''&ndn.Nonce='' (toEscapedString (blob_bytes nonce)) else [])
     in bindE (if length (cc_get (i_exclude i)) > 0
               then bindE (exclude_toUri (cc_get (i_exclude i))) (\<lambda>e. Inr (selector ''&ndn.Exclude='' e))
               else Inr []) (\<lambda>s7.
        bindE (toUri False (int_getName i)) (\<lambda>uri.
          let selectors = s1 @ s2 @ s3 @ s4 @ s5 @ s6 @ s7 in
          Inr (uri @ (if length selectors > 1 then 63 # tl selectors else []), i))))"

section \<open>Matching\<close>

definition matchesName :: "'w interest \<Rightarrow> name \<Rightarrow> error + bool" where
  "matchesName i name =
    (if \<not> name_match (int_getName i) name then Inr False
     else if i_minSuffixComponents i \<ge> 0 \<and>
             \<not> (length name + 1 - length (int_getName i) \<ge> nat (i_minSuffixComponents i)) then Inr False
     else if i_maxSuffixComponents i \<ge> 0 \<and>
             \<not> (length name + 1 - length (int_getName i) \<le> nat (i_maxSuffixComponents i)) then Inr False
     else if length (cc_get (i_exclude i)) > 0 \<and> length name > length (int_getName i) then
       bindE (name_get name (int (length (int_getName i)))) (\<lambda>c.
         Inr (\<not> exclude_matches (cc_get (i_exclude i)) c))
     else Inr True)"

definition matches_keyLocator :: "keyLocator \<Rightarrow> signature option \<Rightarrow> error + bool" where
  "matches_keyLocator publisherPublicKeyLocator signature =
    (if kl_type publisherPublicKeyLocator \<noteq> KEY_LOCATOR_NONE then
       if \<not> kl_canGetFromSignature signature then Inr False
       else bindE (kl_getFromSignature signature) (\<lambda>k. Inr (KeyLocator_equals publisherPublicKeyLocator k))
     else Inr True)"

definition matchesData :: "'w wire_env \<Rightarrow> 'w \<Rightarrow> 'w interest \<Rightarrow> 'w data \<Rightarrow> error + (bool \<times> 'w data)" where
  "matchesData env wireFormat i data =
    (let interestNameLength = length (int_getName i);
         dataName = data_getName data;
         fullNameLength = length dataName + 1;
         minSuffixComponents = (if i_minSuffixComponents i \<ge> 0 then nat (i_minSuffixComponents i) else 0);
         exclude = cc_get (i_exclude i)
     in
     if \<not> (interestNameLength + minSuffixComponents \<le> fullNameLength) then Inr (False, data)
     else if i_maxSuffixComponents i \<ge> 0 \<and>
             \<not> (interestNameLength + nat (i_maxSuffixComponents i) \<ge> fullNameLength) then Inr (False, data)
     else
       bindE (if interestNameLength = fullNameLength then
                bindE (name_get (int_getName i) (-1)) (\<lambda>last_component.
                  if c_type last_component = IMPLICIT_SHA256_DIGEST then
                    bindE (data_getFullName env wireFormat data) (\<lambda>(fullName, data).
                      Inr (name_equals (int_getName i) fullName, data))
                  else Inr (False, data))
              else Inr (name_match (int_getName i) dataName, data)) (\<lambda>(prefix_ok, data).
       if \<not> prefix_ok then Inr (False, data)
       else
         bindE (if length exclude > 0 \<and> fullNameLength > interestNameLength then
                  if interestNameLength = fullNameLength - 1 then
                    bindE (data_getFullName env wireFormat data) (\<lambda>(fullName, data).
                    bindE (name_get fullName (int interestNameLength)) (\<lambda>c.
                      Inr (exclude_matches exclude c, data)))
                  else
                    bindE (name_get dataName (int interestNameLength)) (\<lambda>c.
                      Inr (exclude_matches exclude c, data))
                else Inr (False, data)) (\<lambda>(is_excluded, data).
         if is_excluded then Inr (False, data)
         else
           bindE (matches_keyLocator (cc_get (i_keyLocator i)) (sp_get (d_signature data))) (\<lambda>ok.
             Inr (ok, data)))))"

definition appendParametersDigestToName :: "(byte list \<Rightarrow> byte list) \<Rightarrow> 'w interest \<Rightarrow> error + 'w interest" where
  "appendParametersDigestToName sha256 i =
    (if \<not> int_hasApplicationParameters i then Inr i
     else bindE (fromParametersSha256Digest (Some (sha256 (blob_bytes (i_applicationParameters i))))) (\<lambda>c.
       Inr (int_editName (\<lambda>n. n @ [c]) i)))"

text \<open>
  The loop of refreshNonce draws random bytes until they differ from the current nonce; draws are
  the generator's successive answers, and running out of them stands for a loop that has not
  ended yet.
\<close>

fun draw_nonce :: "byte list list \<Rightarrow> byte list \<Rightarrow> byte list option" where
  "draw_nonce [] current = None"
| "draw_nonce (d # draws) current = (if d \<noteq> current then Some d else draw_nonce draws current)"

definition refreshNonce :: "byte list list \<Rightarrow> 'w interest \<Rightarrow> 'w interest option" where
  "refreshNonce draws i =
    (let (currentNonce, i) = int_getNonce i in
     if blob_size currentNonce = 0 then Some i
     else map_option (\<lambda>newNonce.
            let i = int_getChangeCount (int_changed (i\<lparr>i_nonce := Some newNonce\<rparr>))
            in i\<lparr>i_getNonceChangeCount := i_changeCount i\<rparr>) (draw_nonce draws (blob_bytes currentNonce)))"

section \<open>What an interest selects\<close>

text \<open>
  The reference reading of the selectors, on the full name of a packet (its name with the implicit
  digest): the interest name is a prefix of it, as many components follow as the interest allows,
  the next one is not excluded and the key locator is the requested one.  Only a digest component
  may stand for the digest.
\<close>

definition int_selects :: "'w interest \<Rightarrow> name \<Rightarrow> signature option \<Rightarrow> bool" where
  "int_selects i full sig \<longleftrightarrow>
    (let n = int_getName i; suffix = length full - length n; k = cc_get (i_keyLocator i) in
     name_match n full \<and>
     (length n = length full \<longrightarrow> c_type (last n) = IMPLICIT_SHA256_DIGEST) \<and>
     (i_minSuffixComponents i \<ge> 0 \<longrightarrow> nat (i_minSuffixComponents i) \<le> suffix) \<and>
     (i_maxSuffixComponents i \<ge> 0 \<longrightarrow> suffix \<le> nat (i_maxSuffixComponents i)) \<and>
     (length n < length full \<longrightarrow> cc_get (i_exclude i) \<noteq> [] \<longrightarrow>
        \<not> exclude_matches (cc_get (i_exclude i)) (full ! length n)) \<and>
     (kl_type k \<noteq> KEY_LOCATOR_NONE \<longrightarrow> kl_canGetFromSignature sig \<and>
        (\<forall>k'. kl_getFromSignature sig = Inr k' \<longrightarrow> KeyLocator_equals k k')))"

lemma data_get_getDefaultWireEncoding:
  "data_get (snd (data_getDefaultWireEncoding d)) = data_get d"
  using dt.contents_notice [of d]
  by (simp add: data_getDefaultWireEncoding_def Let_def data_get_def)

lemma data_get_setDefaultWireEncoding:
  "data_get (data_setDefaultWireEncoding e f d) = data_get d"
  using dt.contents_notice [of "d\<lparr>d_defaultWireEncoding := e, d_defaultWireEncodingFormat := f\<rparr>"]
  by (simp add: data_setDefaultWireEncoding_def Let_def data_get_def)

lemma data_get_wireEncode:
  "data_wireEncode env w d = Inr (e, d') \<Longrightarrow> data_get d' = data_get d"
  using data_get_getDefaultWireEncoding [of d]
  by (auto simp: data_wireEncode_def bindE_eq_Inr data_get_setDefaultWireEncoding
      split: prod.splits option.splits if_splits)

lemma data_get_getFullName:
  assumes "data_getFullName env w d = Inr (n, d')"
  shows "data_get d' = data_get d"
proof -
  have full: "data_get (x\<lparr>d_defaultFullName := f\<rparr>) = data_get x" for x :: "'a data" and f
    by (simp add: data_get_def)
  show ?thesis
    using assms data_get_getDefaultWireEncoding [of d]
    by (auto simp: data_getFullName_def bindE_eq_Inr Let_def full split: prod.splits if_splits
        dest: data_get_wireEncode)
qed

lemma kl_getFromSignature_total:
  "kl_canGetFromSignature sig \<Longrightarrow> \<exists>k. kl_getFromSignature sig = Inr k"
  by (cases sig rule: kl_canGetFromSignature.cases) auto

lemma matches_keyLocator_spec:
  "matches_keyLocator k sig = Inr (kl_type k \<noteq> KEY_LOCATOR_NONE \<longrightarrow> kl_canGetFromSignature sig \<and>
     (\<forall>k'. kl_getFromSignature sig = Inr k' \<longrightarrow> KeyLocator_equals k k'))"
  using kl_getFromSignature_total [of sig] by (auto simp: matches_keyLocator_def)

lemma name_match_snoc:
  "length n \<le> length m \<Longrightarrow> name_match n (m @ [c]) \<longleftrightarrow> name_match n m"
  by (simp add: name_match_iff)

lemma name_get_nat: "i < length n \<Longrightarrow> name_get n (int i) = Inr (n ! i)"
  by (simp add: name_get_def)

lemma name_get_last: "n \<noteq> [] \<Longrightarrow> name_get n (-1) = Inr (last n)"
  by (cases n rule: rev_cases) (simp_all add: name_get_def nth_append)

text \<open>
  C18. matchesData, which avoids computing the full name where it can and treats an interest name as
  long as the full name apart, answers what the reference reading of the selectors on the full
  name says, and leaves the packet's values alone.
\<close>

theorem matchesData_spec:
  assumes "data_getFullName env w d = Inr (data_getName d @ [digest], d1)"
  shows "\<exists>d'. matchesData env w i d =
      Inr (int_selects i (data_getName d @ [digest]) (sp_get (d_signature d)), d') \<and> data_get d' = data_get d"
proof -
  let ?n = "int_getName i" and ?m = "data_getName d"
  have get: "data_get d1 = data_get d"
    using data_get_getFullName [OF assms] .
  have sig: "sp_get (d_signature d1) = sp_get (d_signature d)"
    using get by (simp add: data_get_def)
  consider "length ?n > length ?m + 1" | "length ?n = length ?m + 1" | "length ?n = length ?m" | "length ?n < length ?m"
    by linarith
  then show ?thesis
  proof cases
    case 1
    then show ?thesis
      by (auto simp: matchesData_def int_selects_def Let_def name_match_iff)
  next
    case 2
    then have "?n \<noteq> []" by auto
    with 2 show ?thesis
      using assms get sig
      by (simp add: matchesData_def int_selects_def Let_def matches_keyLocator_spec name_get_last name_equals_match)
  next
    case 3
    then show ?thesis
      using assms get sig name_match_snoc [of ?n ?m digest] name_get_nat [of "length ?m" "?m @ [digest]"]
      by (simp add: matchesData_def int_selects_def Let_def matches_keyLocator_spec nth_append)
  next
    case 4
    then show ?thesis
      using name_match_snoc [of ?n ?m digest] name_get_nat [of "length ?n" ?m]
      by (simp add: matchesData_def int_selects_def Let_def matches_keyLocator_spec nth_append) auto
  qed
qed

theorem matchesData_spec_witness:
  "\<exists>i :: unit interest. \<exists>digest d'.
     matchesData sample_env () i sample_data =
       Inr (int_selects i (data_getName sample_data @ [digest]) (sp_get (d_signature sample_data)), d') \<and>
     int_selects i (data_getName sample_data @ [digest]) (sp_get (d_signature sample_data))"
proof -
  let ?i = "Interest True True \<lparr>ver_value = [genericComponent [65]], ver_changeCount = 0\<rparr> :: unit interest"
  let ?full = "data_getFullName sample_env () sample_data"
  let ?digest = "last (fst (projr ?full))"
  have "\<not> isl ?full" by code_simp
  then have "?full = Inr (fst (projr ?full), snd (projr ?full))" by simp
  moreover have "fst (projr ?full) = data_getName sample_data @ [?digest]" by code_simp
  ultimately have f: "?full = Inr (data_getName sample_data @ [?digest], snd (projr ?full))" by simp
  obtain d' where m: "matchesData sample_env () ?i sample_data =
      Inr (int_selects ?i (data_getName sample_data @ [?digest]) (sp_get (d_signature sample_data)), d')"
    using matchesData_spec [OF f] by blast
  have "fst (projr (matchesData sample_env () ?i sample_data))" by code_simp
  with m have s: "int_selects ?i (data_getName sample_data @ [?digest]) (sp_get (d_signature sample_data))" by simp
  show ?thesis
    by (intro exI conjI, rule m, rule s)
qed

text \<open>
  A packet that an interest selects also passes matchesName, unless the interest names its digest;
  with a name equal to the packet's name, matchesName does not look at the digest.
\<close>

lemma int_selects_matchesName:
  assumes "int_selects i (n @ [digest]) sig" and "length (int_getName i) \<le> length n"
  shows "matchesName i n = Inr True"
proof (cases "length (int_getName i) < length n")
  case True
  then show ?thesis
    using assms name_match_snoc [OF assms(2), of digest]
    by (auto simp: int_selects_def matchesName_def Let_def name_get_nat nth_append)
next
  case False
  then show ?thesis
    using assms name_match_snoc [OF assms(2), of digest]
    by (auto simp: int_selects_def matchesName_def Let_def)
qed

section \<open>The nonce\<close>

definition int_pending :: "'w interest \<Rightarrow> nat" where
  "int_pending i = cc_pending (i_name i) + cc_pending (i_keyLocator i) + cc_pending (i_exclude i) +
     cc_pending (i_forwardingHint i) + sp_pending (i_link i)"

interpretation it: change_tracked i_changeCount int_pending int_getName int_getChangeCount
proof unfold_locales
  show "i_changeCount (int_getChangeCount i) =
      (if int_pending i = 0 then i_changeCount i else i_changeCount i + 1)" for i :: "'w interest"
    by (simp add: int_getChangeCount_def int_pending_def int_changed_def case_prod_unfold Let_def counting)
  show "int_pending (int_getChangeCount i) = 0" for i :: "'w interest"
    by (simp add: int_getChangeCount_def int_pending_def int_changed_def case_prod_unfold Let_def counting)
  show "int_getName (int_getChangeCount i) = int_getName i" for i :: "'w interest"
    by (simp add: int_getChangeCount_def int_getName_def int_changed_def case_prod_unfold Let_def counting)
qed

lemma int_getChangeCount_same:
  "i_nonce (int_getChangeCount i) = i_nonce i"
  "i_getNonceChangeCount (int_getChangeCount i) = i_getNonceChangeCount i"
  "i_defaultWireEncoding (int_getChangeCount i) = i_defaultWireEncoding i"
  "i_defaultWireEncodingFormat (int_getChangeCount i) = i_defaultWireEncodingFormat i"
  "i_getDefaultWireEncodingChangeCount (int_getChangeCount i) = i_getDefaultWireEncodingChangeCount i"
  "i_applicationParameters (int_getChangeCount i) = i_applicationParameters i"
  by (simp_all add: int_getChangeCount_def int_changed_def case_prod_unfold Let_def)

datatype interest_op =
    IName "name versioned" | IMinSuffix int | IMaxSuffix int | ICanBePrefix bool | IChildSelector int
  | IMustBeFresh bool | ILifetime int | IKeyLocator "keyLocator versioned" | IExclude "exclude versioned"
  | IForwardingHint "delegationSet versioned" | IParameters blob | IUnsetLink | IDelegation int
  | IEditName "name \<Rightarrow> name" | IEditKeyLocator "keyLocator \<Rightarrow> keyLocator"
  | IEditExclude "exclude \<Rightarrow> exclude" | IEditForwardingHint "delegationSet \<Rightarrow> delegationSet"

fun interest_step :: "interest_op \<Rightarrow> 'w interest \<Rightarrow> 'w interest" where
  "interest_step (IName n) i = int_setName n i"
| "interest_step (IMinSuffix v) i = int_setMinSuffixComponents v i"
| "interest_step (IMaxSuffix v) i = int_setMaxSuffixComponents v i"
| "interest_step (ICanBePrefix v) i = int_setCanBePrefix v i"
| "interest_step (IChildSelector v) i = int_setChildSelector v i"
| "interest_step (IMustBeFresh v) i = int_setMustBeFresh v i"
| "interest_step (ILifetime v) i = int_setInterestLifetime v i"
| "interest_step (IKeyLocator k) i = int_setKeyLocator k i"
| "interest_step (IExclude e) i = int_setExclude e i"
| "interest_step (IForwardingHint h) i = int_setForwardingHint h i"
| "interest_step (IParameters p) i = int_setApplicationParameters p i"
| "interest_step IUnsetLink i = int_unsetLink i"
| "interest_step (IDelegation v) i = int_setSelectedDelegationIndex v i"
| "interest_step (IEditName f) i = int_editName f i"
| "interest_step (IEditKeyLocator f) i = int_editKeyLocator f i"
| "interest_step (IEditExclude f) i = int_editExclude f i"
| "interest_step (IEditForwardingHint f) i = int_editForwardingHint f i"

lemmas interest_step_defs = int_setName_def int_setMinSuffixComponents_def int_setMaxSuffixComponents_def
  int_setCanBePrefix_def int_setChildSelector_def int_setMustBeFresh_def int_setInterestLifetime_def
  int_setKeyLocator_def int_setExclude_def int_setForwardingHint_def int_setApplicationParameters_def
  int_unsetLink_def int_setLinkWireEncoding_def int_setSelectedDelegationIndex_def int_changed_def
  int_editName_def int_editKeyLocator_def int_editExclude_def int_editForwardingHint_def

text \<open>
  How a step moves the counters: k is the number of noticed changes since the count saved, and the
  step adds to k or to the pending changes, never taking the sum back to zero.
\<close>

definition moved :: "u64 \<Rightarrow> nat \<Rightarrow> 'w interest \<Rightarrow> bool" where
  "moved saved n i \<longleftrightarrow>
    (\<exists>k. i_changeCount i = saved + of_nat k \<and> k + int_pending i \<le> n \<and> (0 < n \<longrightarrow> 0 < k + int_pending i))"

lemma interest_step_moved:
  assumes "moved saved n i" and "n + 1 < 2 ^ 64"
  shows "moved saved (Suc n) (interest_step op i)"
proof -
  obtain k where k: "i_changeCount i = saved + of_nat k" "k + int_pending i \<le> n"
    using assms(1) by (auto simp: moved_def)
  let ?i = "interest_step op i"
  have small: "cc_pending (i_name i) + 1 < 2 ^ 64" "cc_pending (i_keyLocator i) + 1 < 2 ^ 64"
      "cc_pending (i_exclude i) + 1 < 2 ^ 64" "cc_pending (i_forwardingHint i) + 1 < 2 ^ 64"
    using k(2) assms(2) by (simp_all add: int_pending_def)
  have "(i_changeCount ?i = i_changeCount i + 1 \<and> int_pending ?i \<le> int_pending i) \<or>
        (i_changeCount ?i = i_changeCount i \<and> int_pending ?i = int_pending i + 1)"
    using small by (cases op) (simp_all add: interest_step_defs int_pending_def counting cc_pending_edit)
  then show ?thesis
  proof
    assume "i_changeCount ?i = i_changeCount i + 1 \<and> int_pending ?i \<le> int_pending i"
    then show ?thesis
      unfolding moved_def using k by (intro exI [of _ "Suc k"]) (simp add: algebra_simps)
  next
    assume "i_changeCount ?i = i_changeCount i \<and> int_pending ?i = int_pending i + 1"
    then show ?thesis
      unfolding moved_def using k by (intro exI [of _ k]) simp
  qed
qed

lemma interest_steps_moved:
  assumes "moved saved n i" and "n + length ops < 2 ^ 64"
  shows "moved saved (n + length ops) (fold interest_step ops i)"
  using assms
proof (induction ops arbitrary: n i)
  case (Cons op ops)
  then show ?case
    using interest_step_moved [of saved n i op] Cons.IH [of "Suc n" "interest_step op i"] by simp
qed simp

lemma interest_steps_nonce:
  "i_getNonceChangeCount (fold interest_step ops i) = i_getNonceChangeCount i"
proof (induction ops arbitrary: i)
  case (Cons op ops)
  have "i_getNonceChangeCount (interest_step op i) = i_getNonceChangeCount i"
    by (cases op) (simp_all add: interest_step_defs)
  with Cons show ?case by simp
qed simp

text \<open>
  A nonce lives until the next change: getNonce returns what setNonce stored as long as nothing
  else was set, and returns no nonce after any non-empty sequence of fewer than 2^64 changes,
  whether made by setters or through the references to the name, key locator, exclude and
  forwarding hint.
\<close>

lemma int_getNonce_invalidated:
  assumes "length ops < 2 ^ 64"
  shows "fst (int_getNonce (fold interest_step ops (int_setNonce nonce i))) = (if ops = [] then nonce else None)"
proof -
  let ?s = "int_setNonce nonce i"
  let ?f = "fold interest_step ops ?s"
  let ?c = "int_getChangeCount (int_changed (i\<lparr>i_nonce := nonce\<rparr>))"
  have pend: "int_pending ?s = 0"
    using it.pending_notice [of "int_changed (i\<lparr>i_nonce := nonce\<rparr>)"]
    by (simp add: int_setNonce_def Let_def int_pending_def)
  have saved: "i_getNonceChangeCount ?s = i_changeCount ?s" "i_nonce ?s = nonce"
    by (simp_all add: int_setNonce_def Let_def int_getChangeCount_same int_changed_def)
  show ?thesis
  proof (cases ops)
    case Nil
    then show ?thesis
      using pend saved by (simp add: int_getNonce_def Let_def int_getChangeCount_same it.count_notice)
  next
    case (Cons op ops')
    have "moved (i_changeCount ?s) 0 ?s"
      using pend by (simp add: moved_def)
    then have mv: "moved (i_changeCount ?s) (length ops) ?f"
      using interest_steps_moved [of _ 0 ?s ops] assms by simp
    then obtain k where k: "i_changeCount ?f = i_changeCount ?s + of_nat k" "k + int_pending ?f \<le> length ops"
        "0 < k + int_pending ?f"
      using Cons by (auto simp: moved_def)
    have "it.tracks (i_changeCount ?s) (length ops) ?f"
      using k(1,2) by (auto simp: it.tracks_def)
    moreover have "i_changeCount ?s \<noteq> i_changeCount ?f \<or> int_pending ?f \<noteq> 0"
    proof (rule ccontr)
      assume "\<not> ?thesis"
      then have "(of_nat k :: u64) = 0" "0 < k" "k \<le> length ops"
        using k by auto
      then show False
        using assms by (simp only: word_of_nat_eq_0_iff) (auto simp: nat_dvd_not_less)
    qed
    ultimately have "i_changeCount ?s \<noteq> i_changeCount (int_getChangeCount ?f)"
      using it.count_eq_iff_unchanged [of "i_changeCount ?s" "length ops" ?f] assms by auto
    then show ?thesis
      using Cons saved interest_steps_nonce [of ops ?s]
      by (simp add: int_getNonce_def Let_def int_getChangeCount_same)
  qed
qed

text \<open>
  The copy constructor copies the stored nonce without asking whether it is still valid, so a copy
  of a changed interest has the nonce that the original has given up.
\<close>

lemma int_copy_revives_nonce:
  fixes i :: "unit interest"
  defines "i \<equiv> int_setMustBeFresh True (int_setNonce (Some [1, 2, 3, 4])
    (Interest True True \<lparr>ver_value = [], ver_changeCount = 0\<rparr>))"
  shows "fst (int_getNonce i) = None \<and> fst (int_getNonce (int_copy i)) = Some [1, 2, 3, 4]"
  unfolding i_def by code_simp

text \<open>
  Assigning one interest to another leaves the target's application parameters in place but
  hands it the source's cached encoding: the target's wireEncode then returns the encoding made
  from the source's parameters.
\<close>

lemma int_assign_keeps_parameters:
  assumes "int_getDefaultWireEncoding src = (Some encoding, src')"
    and "i_defaultWireEncodingFormat src' = Some dflt"
  shows "i_applicationParameters (int_assign src tgt) = i_applicationParameters tgt \<and>
    (\<exists>i. int_wireEncode dflt encodeInterest dflt (int_assign src tgt) = Inr (encoding, i))"
proof -
  obtain i where i: "int_assign src tgt = int_setDefaultWireEncoding (Some encoding) (Some dflt) i"
    and p: "i_applicationParameters i = i_applicationParameters tgt"
    using assms
    by (cases "sp_target (i_link src)")
      (simp_all add: int_assign_def Let_def interest_step_defs int_setNonce_def int_getChangeCount_same)
  let ?s = "int_setDefaultWireEncoding (Some encoding) (Some dflt) i"
  have pend: "int_pending ?s = 0"
    using it.pending_notice [of "i\<lparr>i_defaultWireEncoding := Some encoding, i_defaultWireEncodingFormat := Some dflt\<rparr>"]
    by (simp add: int_setDefaultWireEncoding_def Let_def int_pending_def)
  have s: "i_getDefaultWireEncodingChangeCount ?s = i_changeCount ?s" "i_defaultWireEncoding ?s = Some encoding"
    "i_defaultWireEncodingFormat ?s = Some dflt" "i_applicationParameters ?s = i_applicationParameters i"
    by (simp_all add: int_setDefaultWireEncoding_def Let_def int_getChangeCount_same)
  show ?thesis
    using i p pend s
    by (simp add: int_wireEncode_def int_getDefaultWireEncoding_def Let_def int_getChangeCount_same it.count_notice)
qed

lemma int_assign_keeps_parameters_witness:
  "\<exists>src src' tgt :: unit interest. \<exists>encoding.
     int_getDefaultWireEncoding src = (Some encoding, src') \<and> i_defaultWireEncodingFormat src' = Some () \<and>
     i_applicationParameters src = Some [1] \<and> i_applicationParameters (int_assign src tgt) = Some [2] \<and>
     (\<exists>i. int_wireEncode () (\<lambda>_ _. Inl Undefined_behaviour) () (int_assign src tgt) = Inr (encoding, i))"
proof -
  let ?new = "Interest True True \<lparr>ver_value = [], ver_changeCount = 0\<rparr> :: unit interest"
  let ?e = "\<lparr>sb_bytes = [7], sb_signedPortionBeginOffset = 0, sb_signedPortionEndOffset = 0\<rparr>"
  let ?src = "int_setDefaultWireEncoding (Some ?e) (Some ()) (int_setApplicationParameters (Some [1]) ?new)"
  let ?tgt = "int_setApplicationParameters (Some [2]) ?new"
  have g: "int_getDefaultWireEncoding ?src = (Some ?e, snd (int_getDefaultWireEncoding ?src))"
    by code_simp
  have f: "i_defaultWireEncodingFormat (snd (int_getDefaultWireEncoding ?src)) = Some ()"
    by code_simp
  have p: "i_applicationParameters ?src = Some [1]" "i_applicationParameters ?tgt = Some [2]"
    by code_simp+
  show ?thesis
    using int_assign_keeps_parameters [OF g f, of ?tgt] g f p by metis
qed

section \<open>Names under counting and copying\<close>

lemma int_getChangeCount_name: "cc_get (i_name (int_getChangeCount i)) = cc_get (i_name i)"
  by (simp add: int_getChangeCount_def int_changed_def case_prod_unfold Let_def counting)

lemma int_copy_name: "int_getName (int_copy i) = int_getName i"
  by (simp add: int_copy_def int_setDefaultWireEncoding_def int_getName_def Let_def int_getChangeCount_name case_prod_unfold
      split: option.splits)

end
