(* ===== verification/Face_Tables.thy ===== *)
theory Face_Tables
  imports Interest_Packet
begin

text \<open>
  The tables behind a Face (src/impl): delayed calls, pending interests, interest filters and
  registered prefixes.

  Pending interest entries are shared objects: the table, the delayed call that times an entry out
  and the vectors handed to the callers all point to the same entry, and its isRemoved flag is
  changed through any of them.  They live in a heap, a list in which the address of an entry is its
  index; the table is a list of addresses.  Loops that go backwards through a table to erase entries
  are recursions over the reversed table.
\<close>

section \<open>Delayed calls\<close>

record 'c delayedEntry =
  de_callTime :: int
  de_callback :: 'c

type_synonym 'c delayedCallTable = "'c delayedEntry list"

text \<open>lower_bound finds the first entry that is not earlier than the new one.\<close>

definition callLater :: "int \<Rightarrow> int \<Rightarrow> 'c \<Rightarrow> 'c delayedCallTable \<Rightarrow> 'c delayedCallTable" where
  "callLater now delay callback table =
    (let entry = \<lparr>de_callTime = now + delay, de_callback = callback\<rparr>;
         earlier = (\<lambda>e. de_callTime e < de_callTime entry)
     in takeWhile earlier table @ entry # dropWhile earlier table)"

text \<open>
  The calls that are due, in the order in which the loop takes them, and what it leaves.  The loop runs each call before
  it takes the next; the node runs the calls returned here in the same order.  A call made by a running callback with a
  delay of zero or less is not part of the model: callbacks of the application are outputs and do not change the table.
\<close>

fun callTimedOut :: "int \<Rightarrow> 'c delayedCallTable \<Rightarrow> 'c list \<times> 'c delayedCallTable" where
  "callTimedOut now [] = ([], [])"
| "callTimedOut now (e # table) =
    (if de_callTime e \<le> now
     then (let (calls, table') = callTimedOut now table in (de_callback e # calls, table'))
     else ([], e # table))"

definition delayed_wf :: "'c delayedCallTable \<Rightarrow> bool" where
  "delayed_wf table \<longleftrightarrow> sorted (map de_callTime table)"

lemma sorted_takeWhile_dropWhile:
  "sorted (map f xs) \<Longrightarrow> x \<in> set (dropWhile (\<lambda>e. f e < k) xs) \<Longrightarrow> k \<le> f x"
  by (induction xs) (auto split: if_splits)

lemma callLater_set:
  "set (callLater now delay c table) = insert \<lparr>de_callTime = now + delay, de_callback = c\<rparr> (set table)"
proof -
  have "set (takeWhile P xs) \<union> set (dropWhile P xs) = set xs" for P and xs :: "'a delayedEntry list"
    by (metis set_append takeWhile_dropWhile_id)
  then show ?thesis
    by (auto simp: callLater_def Let_def)
qed

lemma callLater_wf:
  assumes "delayed_wf table"
  shows "delayed_wf (callLater now delay c table)"
proof -
  let ?P = "\<lambda>e. de_callTime e < now + delay"
  have "sorted (map de_callTime (takeWhile ?P table @ dropWhile ?P table))"
    using assms by (simp add: delayed_wf_def)
  then have t: "sorted (map de_callTime (takeWhile ?P table))" "sorted (map de_callTime (dropWhile ?P table))"
    by (simp_all only: map_append sorted_append)
  have "\<forall>x \<in> set (takeWhile ?P table). de_callTime x < now + delay"
    by (auto dest: set_takeWhileD)
  moreover have "\<forall>x \<in> set (dropWhile ?P table). now + delay \<le> de_callTime x"
    using assms sorted_takeWhile_dropWhile [of de_callTime table] by (auto simp: delayed_wf_def)
  ultimately show ?thesis
    using t unfolding delayed_wf_def callLater_def Let_def by (fastforce simp: sorted_append)
qed

lemma callTimedOut_wf:
  assumes "delayed_wf table" and "callTimedOut now table = (calls, table')"
  shows "delayed_wf table'"
  using assms
proof (induction table arbitrary: calls table')
  case (Cons e table)
  then show ?case
    by (cases "callTimedOut now table") (auto simp: delayed_wf_def split: if_splits)
qed (simp add: delayed_wf_def)

text \<open>On a sorted table the loop takes exactly the calls that are due and leaves the others.\<close>

lemma callTimedOut_spec:
  assumes "delayed_wf table"
  shows "callTimedOut now table =
    (map de_callback (filter (\<lambda>e. de_callTime e \<le> now) table), filter (\<lambda>e. \<not> de_callTime e \<le> now) table)"
  using assms
proof (induction table)
  case (Cons e table)
  show ?case
  proof (cases "de_callTime e \<le> now")
    case False
    then have "\<forall>x \<in> set table. \<not> de_callTime x \<le> now"
      using Cons.prems by (auto simp: delayed_wf_def)
    then show ?thesis
      using False by (simp add: filter_empty_conv [symmetric] filter_id_conv)
  qed (use Cons in \<open>simp add: delayed_wf_def\<close>)
qed simp

section \<open>Tables that remember early removals\<close>

text \<open>
  removePendingInterest and removeRegisteredPrefix may be called with an identifier before the entry
  is added, because the identifier is handed out first; the table then remembers the request and
  refuses the later add.
\<close>

locale removal_requests =
  fixes add :: "u64 \<Rightarrow> 'e \<Rightarrow> 't \<Rightarrow> 't"
    and remove :: "u64 \<Rightarrow> 't \<Rightarrow> 't"
    and ids :: "'t \<Rightarrow> u64 set"
    and requests :: "'t \<Rightarrow> u64 set"
    and wf :: "'t \<Rightarrow> bool"
  assumes ids_add: "wf t \<Longrightarrow> ids (add i e t) = (if i \<in> requests t then ids t else insert i (ids t))"
    and requests_add: "wf t \<Longrightarrow> requests (add i e t) = requests t - {i}"
    and ids_remove: "wf t \<Longrightarrow> ids (remove i t) = ids t - {i}"
    and requests_remove: "wf t \<Longrightarrow> requests (remove i t) = (if i \<in> ids t then requests t else insert i (requests t))"
    and wf_add: "wf t \<Longrightarrow> wf (add i e t)"
    and wf_remove: "wf t \<Longrightarrow> wf (remove i t)"
begin

text \<open>A removal has the same effect on both sides of the add it is meant for.\<close>

lemma remove_before_or_after_add:
  assumes "wf t" and "i \<notin> ids t" and "i \<notin> requests t"
  shows "ids (add i e (remove i t)) = ids t" and "requests (add i e (remove i t)) = requests t"
    and "ids (remove i (add i e t)) = ids t" and "requests (remove i (add i e t)) = requests t"
  using assms by (auto simp: ids_add requests_add ids_remove requests_remove wf_add wf_remove)

end

section \<open>Pending interests\<close>

record ('w, 'd) pitEntry =
  pe_pendingInterestId :: u64
  pe_interest :: "'w interest"
  pe_onData :: 'd
  pe_onTimeout :: "'d option"
  pe_onNetworkNack :: "nat option"
  pe_isRemoved :: bool

record ('w, 'd) pendingInterestTable =
  pit_heap :: "('w, 'd) pitEntry list"
  pit_table :: "nat list"
  pit_removeRequests :: "u64 list"

definition pit_empty :: "('w, 'd) pendingInterestTable" where
  "pit_empty = \<lparr>pit_heap = [], pit_table = [], pit_removeRequests = []\<rparr>"

definition setIsRemoved :: "nat \<Rightarrow> ('w, 'd) pitEntry list \<Rightarrow> ('w, 'd) pitEntry list" where
  "setIsRemoved a heap = heap[a := (heap ! a)\<lparr>pe_isRemoved := True\<rparr>]"

definition pit_add :: "('w, 'd) pitEntry \<Rightarrow> ('w, 'd) pendingInterestTable \<Rightarrow>
    nat option \<times> ('w, 'd) pendingInterestTable" where
  "pit_add entry t =
    (if pe_pendingInterestId entry \<in> set (pit_removeRequests t)
     then (None, t\<lparr>pit_removeRequests := remove1 (pe_pendingInterestId entry) (pit_removeRequests t)\<rparr>)
     else (Some (length (pit_heap t)),
           t\<lparr>pit_heap := pit_heap t @ [entry\<lparr>pe_isRemoved := False\<rparr>],
             pit_table := pit_table t @ [length (pit_heap t)]\<rparr>))"

text \<open>
  The loops of the two extract methods over the reversed table: test decides about an address and may
  update what it computes with; the result is the extracted addresses in the order of push_back, the
  kept ones, and the exception that ended the loop, if any.
\<close>

fun extract_loop :: "(nat \<Rightarrow> 's \<Rightarrow> error + (bool \<times> 's)) \<Rightarrow> nat list \<Rightarrow> 's \<Rightarrow>
    nat list \<times> nat list \<times> 's \<times> error option" where
  "extract_loop test [] s = ([], [], s, None)"
| "extract_loop test (a # as) s =
    (case test a s of
       Inl e \<Rightarrow> ([], a # as, s, Some e)
     | Inr (is_match, s) \<Rightarrow>
         let (entries, kept, s, e) = extract_loop test as s
         in if is_match then (a # entries, kept, s, e) else (entries, a # kept, s, e))"

definition extractEntriesForExpressedInterest ::
    "'w wire_env \<Rightarrow> 'w data \<Rightarrow> ('w, 'd) pendingInterestTable \<Rightarrow>
     nat list \<times> 'w data \<times> ('w, 'd) pendingInterestTable \<times> error option" where
  "extractEntriesForExpressedInterest env data t =
    (let (entries, kept, data, e) =
           extract_loop (\<lambda>a d. matchesData env (env_default env) (pe_interest (pit_heap t ! a)) d)
             (rev (pit_table t)) data
     in (entries, data, t\<lparr>pit_heap := fold setIsRemoved entries (pit_heap t), pit_table := rev kept\<rparr>, e))"

text \<open>
  A network nack matches the entries with a nack callback whose interest encodes to the same bytes;
  wireEncode updates the encoding cached in the entry's interest.
\<close>

definition nack_test ::
    "('w \<Rightarrow> 'w interest \<Rightarrow> error + signedBlob) \<Rightarrow> 'w \<Rightarrow> byte list \<Rightarrow> nat \<Rightarrow>
     ('w, 'd) pitEntry list \<Rightarrow> error + (bool \<times> ('w, 'd) pitEntry list)" where
  "nack_test encodeInterest dflt encoding a heap =
    (if pe_onNetworkNack (heap ! a) = None then Inr (False, heap)
     else bindE (int_wireEncode dflt encodeInterest dflt (pe_interest (heap ! a))) (\<lambda>(e, i).
       Inr (sb_bytes e = encoding, heap[a := (heap ! a)\<lparr>pe_interest := i\<rparr>])))"

definition extractEntriesForNackInterest ::
    "('w \<Rightarrow> 'w interest \<Rightarrow> error + signedBlob) \<Rightarrow> 'w \<Rightarrow> 'w interest \<Rightarrow> ('w, 'd) pendingInterestTable \<Rightarrow>
     nat list \<times> ('w, 'd) pendingInterestTable \<times> error option" where
  "extractEntriesForNackInterest encodeInterest dflt interest t =
    (case int_wireEncode dflt encodeInterest dflt interest of
       Inl e \<Rightarrow> ([], t, Some e)
     | Inr (encoding, _) \<Rightarrow>
         let (entries, kept, heap, e) =
               extract_loop (nack_test encodeInterest dflt (sb_bytes encoding)) (rev (pit_table t)) (pit_heap t)
         in (entries, t\<lparr>pit_heap := fold setIsRemoved entries heap, pit_table := rev kept\<rparr>, e))"

definition removePendingInterest :: "u64 \<Rightarrow> ('w, 'd) pendingInterestTable \<Rightarrow> ('w, 'd) pendingInterestTable" where
  "removePendingInterest pendingInterestId t =
    (let same = (\<lambda>a. pe_pendingInterestId (pit_heap t ! a) = pendingInterestId);
         found = filter same (pit_table t);
         t = t\<lparr>pit_heap := fold setIsRemoved (rev found) (pit_heap t),
               pit_table := filter (\<lambda>a. \<not> same a) (pit_table t)\<rparr>
     in if length found = 0 then
          if pendingInterestId \<notin> set (pit_removeRequests t)
          then t\<lparr>pit_removeRequests := pit_removeRequests t @ [pendingInterestId]\<rparr>
          else t
        else t)"

definition removeEntry :: "nat \<Rightarrow> ('w, 'd) pendingInterestTable \<Rightarrow> bool \<times> ('w, 'd) pendingInterestTable" where
  "removeEntry a t =
    (if pe_isRemoved (pit_heap t ! a) then (False, t)
     else if a \<in> set (pit_table t)
     then (True, t\<lparr>pit_heap := setIsRemoved a (pit_heap t), pit_table := remove1 a (pit_table t)\<rparr>)
     else (False, t))"

section \<open>Interest filters\<close>

record interestFilter =
  if_prefix :: name
  if_regexFilter :: "byte list"

definition makePattern :: "byte list \<Rightarrow> byte list" where
  "makePattern regexFilter =
    (if length regexFilter = 0 then str ''^$''
     else
       let pattern = (if hd regexFilter \<noteq> 94 then 94 # regexFilter else regexFilter)
       in if last pattern \<noteq> 36 then pattern @ [36] else pattern)"

text \<open>The regular expression matcher on names is an argument.\<close>

definition doesMatch :: "(byte list \<Rightarrow> name \<Rightarrow> error + bool) \<Rightarrow> interestFilter \<Rightarrow> name \<Rightarrow> error + bool" where
  "doesMatch regexMatch f name =
    (if length name < length (if_prefix f) then Inr False
     else if length (if_regexFilter f) \<noteq> 0 then
       if \<not> name_match (if_prefix f) name then Inr False
       else regexMatch (makePattern (if_regexFilter f)) (getSubName name (int (length (if_prefix f))) (-1))
     else Inr (name_match (if_prefix f) name))"

record filterEntry =
  fe_interestFilterId :: u64
  fe_filter :: interestFilter
  fe_prefix :: name
  fe_onInterest :: nat

type_synonym interestFilterTable = "filterEntry list"

definition setInterestFilter :: "u64 \<Rightarrow> interestFilter \<Rightarrow> nat \<Rightarrow> interestFilterTable \<Rightarrow> interestFilterTable" where
  "setInterestFilter i f onInterest t =
    t @ [\<lparr>fe_interestFilterId = i, fe_filter = f, fe_prefix = if_prefix f, fe_onInterest = onInterest\<rparr>]"

fun getMatchedFilters ::
    "(byte list \<Rightarrow> name \<Rightarrow> error + bool) \<Rightarrow> name \<Rightarrow> interestFilterTable \<Rightarrow> error + filterEntry list" where
  "getMatchedFilters regexMatch name [] = Inr []"
| "getMatchedFilters regexMatch name (e # t) =
    bindE (doesMatch regexMatch (fe_filter e) name) (\<lambda>is_match.
    bindE (getMatchedFilters regexMatch name t) (\<lambda>matched.
      Inr (if is_match then e # matched else matched)))"

definition unsetInterestFilter :: "u64 \<Rightarrow> interestFilterTable \<Rightarrow> interestFilterTable" where
  "unsetInterestFilter i t = filter (\<lambda>e. fe_interestFilterId e \<noteq> i) t"

section \<open>Registered prefixes\<close>

record prefixEntry =
  re_registeredPrefixId :: u64
  re_prefix :: name
  re_relatedInterestFilterId :: u64

record registeredPrefixTable =
  rpt_table :: "prefixEntry list"
  rpt_removeRequests :: "u64 list"

definition rpt_add :: "prefixEntry \<Rightarrow> registeredPrefixTable \<Rightarrow> bool \<times> registeredPrefixTable" where
  "rpt_add entry t =
    (if re_registeredPrefixId entry \<in> set (rpt_removeRequests t)
     then (False, t\<lparr>rpt_removeRequests := remove1 (re_registeredPrefixId entry) (rpt_removeRequests t)\<rparr>)
     else (True, t\<lparr>rpt_table := rpt_table t @ [entry]\<rparr>))"

definition unset_related :: "prefixEntry \<Rightarrow> interestFilterTable \<Rightarrow> interestFilterTable" where
  "unset_related e filters =
    (if re_relatedInterestFilterId e > 0 then unsetInterestFilter (re_relatedInterestFilterId e) filters else filters)"

definition removeRegisteredPrefix ::
    "u64 \<Rightarrow> registeredPrefixTable \<times> interestFilterTable \<Rightarrow> registeredPrefixTable \<times> interestFilterTable" where
  "removeRegisteredPrefix i tf =
    (let (t, filters) = tf;
         found = filter (\<lambda>e. re_registeredPrefixId e = i) (rpt_table t);
         filters = fold unset_related (rev found) filters;
         t = t\<lparr>rpt_table := filter (\<lambda>e. re_registeredPrefixId e \<noteq> i) (rpt_table t)\<rparr>
     in (if length found = 0 \<and> i \<notin> set (rpt_removeRequests t)
         then t\<lparr>rpt_removeRequests := rpt_removeRequests t @ [i]\<rparr> else t, filters))"

section \<open>Invariant of the pending interest table\<close>

text \<open>
  The table holds each address once; an allocated entry is marked as removed exactly when it is not in
  the table; no entry in the table has a removal request waiting.
\<close>

definition pit_wf :: "('w, 'd) pendingInterestTable \<Rightarrow> bool" where
  "pit_wf t \<longleftrightarrow> distinct (pit_table t) \<and> set (pit_table t) \<subseteq> {..<length (pit_heap t)} \<and>
     (\<forall>a < length (pit_heap t). pe_isRemoved (pit_heap t ! a) \<longleftrightarrow> a \<notin> set (pit_table t)) \<and>
     distinct (pit_removeRequests t) \<and>
     (\<forall>a \<in> set (pit_table t). pe_pendingInterestId (pit_heap t ! a) \<notin> set (pit_removeRequests t))"

lemma length_setIsRemoved [simp]: "length (fold setIsRemoved as heap) = length heap"
  by (induction as arbitrary: heap) (simp_all add: setIsRemoved_def)

lemma nth_setIsRemoved:
  assumes "a < length heap"
  shows "fold setIsRemoved as heap ! a = (if a \<in> set as then (heap ! a)\<lparr>pe_isRemoved := True\<rparr> else heap ! a)"
  using assms
proof (induction as arbitrary: heap)
  case (Cons b as)
  then show ?case
    by (cases "a = b") (simp_all add: setIsRemoved_def)
qed simp

lemma mset_partition:
  assumes "mset es + mset ks = mset xs" and "distinct xs"
  shows "distinct es" and "distinct ks" and "set es \<inter> set ks = {}" and "set es \<union> set ks = set xs"
proof -
  have m: "mset (es @ ks) = mset xs"
    using assms(1) by simp
  have "distinct (es @ ks)"
    using mset_eq_imp_distinct_iff [OF m] assms(2) by simp
  moreover have "set (es @ ks) = set xs"
    using mset_eq_setD [OF m] .
  ultimately show "distinct es" "distinct ks" "set es \<inter> set ks = {}" "set es \<union> set ks = set xs"
    by auto
qed

text \<open>Removing a set of entries of the table and marking them, with nothing else of the heap changed.\<close>

lemma pit_wf_take_out:
  assumes "pit_wf t" and "length heap = length (pit_heap t)"
    and "\<And>a. a < length heap \<Longrightarrow> pe_isRemoved (heap ! a) = pe_isRemoved (pit_heap t ! a) \<and>
           pe_pendingInterestId (heap ! a) = pe_pendingInterestId (pit_heap t ! a)"
    and "mset entries + mset kept = mset (pit_table t)"
  shows "pit_wf (t\<lparr>pit_heap := fold setIsRemoved entries heap, pit_table := kept\<rparr>)"
proof -
  have "distinct (pit_table t)"
    using assms(1) by (simp add: pit_wf_def)
  note set = mset_partition(4,3,2) [OF assms(4) this]
  have sub: "set (pit_table t) \<subseteq> {..<length heap}"
    using assms(1,2) by (simp add: pit_wf_def)
  have sub_kept: "set kept \<subseteq> {..<length heap}"
    using sub set(1) by blast
  have heap: "pe_isRemoved (fold setIsRemoved entries heap ! a) \<longleftrightarrow> a \<in> set entries \<or> a \<notin> set (pit_table t)"
    "pe_pendingInterestId (fold setIsRemoved entries heap ! a) = pe_pendingInterestId (pit_heap t ! a)"
    if "a < length heap" for a
    using that assms(1,2,3) by (auto simp: nth_setIsRemoved pit_wf_def)
  have "pe_pendingInterestId (fold setIsRemoved entries heap ! a) \<notin> set (pit_removeRequests t)"
    if "a \<in> set kept" for a
  proof -
    have "a < length heap" and "a \<in> set (pit_table t)"
      using that sub_kept set(1) by auto
    then show ?thesis
      using heap(2) [of a] assms(1) by (simp add: pit_wf_def)
  qed
  then show ?thesis
    using set heap(1) sub_kept assms(1,2) by (auto simp: pit_wf_def)
qed

lemma extract_loop_mset:
  "extract_loop test as s = (entries, kept, s', e) \<Longrightarrow> mset entries + mset kept = mset as"
proof (induction as arbitrary: s entries kept)
  case (Cons a as)
  then show ?case
    by (auto split: sum.splits prod.splits if_splits)
qed simp

lemma pit_add_wf:
  assumes "pit_wf t"
  shows "pit_wf (snd (pit_add entry t))"
  using assms by (auto simp: pit_add_def pit_wf_def nth_append less_Suc_eq)

lemma extractEntriesForExpressedInterest_wf:
  assumes "pit_wf t" and "extractEntriesForExpressedInterest env data t = (entries, data', t', e)"
  shows "pit_wf t'" and "set entries \<subseteq> set (pit_table t)" and "distinct entries"
    and "set (pit_table t') = set (pit_table t) - set entries" and "length (pit_heap t') = length (pit_heap t)"
proof -
  obtain kept where l: "extract_loop (\<lambda>a d. matchesData env (env_default env) (pe_interest (pit_heap t ! a)) d)
        (rev (pit_table t)) data = (entries, kept, data', e)"
    and t': "t' = t\<lparr>pit_heap := fold setIsRemoved entries (pit_heap t), pit_table := rev kept\<rparr>"
    using assms(2) by (auto simp: extractEntriesForExpressedInterest_def split: prod.splits)
  have m: "mset entries + mset (rev kept) = mset (pit_table t)"
    using extract_loop_mset [OF l] by simp
  show "pit_wf t'"
    using pit_wf_take_out [OF assms(1) refl _ m] t' by simp
  have "distinct (pit_table t)"
    using assms(1) by (simp add: pit_wf_def)
  note set = mset_partition [OF m this]
  show "set entries \<subseteq> set (pit_table t)" "distinct entries"
    "set (pit_table t') = set (pit_table t) - set entries" "length (pit_heap t') = length (pit_heap t)"
    using t' set by auto
qed

lemma nack_test_heap:
  assumes "nack_test enc dflt encoding a heap = Inr (b, heap')"
  shows "length heap' = length heap"
    and "pe_isRemoved (heap' ! x) = pe_isRemoved (heap ! x)"
    and "pe_pendingInterestId (heap' ! x) = pe_pendingInterestId (heap ! x)"
  using assms
  by (cases "x = a"; cases "a < length heap";
      auto simp: nack_test_def bindE_eq_Inr list_update_beyond split: if_splits)+

lemma extract_nack_heap:
  assumes "extract_loop (nack_test enc dflt encoding) as heap = (entries, kept, heap', e)"
  shows "length heap' = length heap \<and> pe_isRemoved (heap' ! x) = pe_isRemoved (heap ! x) \<and>
    pe_pendingInterestId (heap' ! x) = pe_pendingInterestId (heap ! x)"
  using assms
proof (induction as arbitrary: heap entries kept)
  case (Cons a as)
  show ?case
  proof (cases "nack_test enc dflt encoding a heap")
    case (Inr bh)
    obtain b h where bh: "bh = (b, h)"
      by fastforce
    then obtain entries' kept' where "extract_loop (nack_test enc dflt encoding) as h = (entries', kept', heap', e)"
      using Cons.prems Inr by (auto split: prod.splits if_splits)
    then show ?thesis
      using Cons.IH nack_test_heap [OF Inr [unfolded bh]] by simp
  qed (use Cons.prems in simp)
qed simp

lemma extractEntriesForNackInterest_wf:
  assumes "pit_wf t" and "extractEntriesForNackInterest enc dflt interest t = (entries, t', e)"
  shows "pit_wf t'" and "set entries \<subseteq> set (pit_table t)" and "distinct entries"
    and "set (pit_table t') = set (pit_table t) - set entries" and "length (pit_heap t') = length (pit_heap t)"
proof -
  have all: "pit_wf t' \<and> set entries \<subseteq> set (pit_table t) \<and> distinct entries \<and>
      set (pit_table t') = set (pit_table t) - set entries \<and> length (pit_heap t') = length (pit_heap t)"
  proof (cases "int_wireEncode dflt enc dflt interest")
    case (Inl x)
    then show ?thesis
      using assms by (auto simp: extractEntriesForNackInterest_def)
  next
    case (Inr ei)
    then obtain encoding kept heap where
      l: "extract_loop (nack_test enc dflt encoding) (rev (pit_table t)) (pit_heap t) = (entries, kept, heap, e)"
      and t': "t' = t\<lparr>pit_heap := fold setIsRemoved entries heap, pit_table := rev kept\<rparr>"
      using assms(2) by (auto simp: extractEntriesForNackInterest_def split: prod.splits)
    have m: "mset entries + mset (rev kept) = mset (pit_table t)"
      using extract_loop_mset [OF l] by simp
    have "pit_wf t'"
      using pit_wf_take_out [OF assms(1) _ _ m, of heap] extract_nack_heap [OF l] t' by simp
    moreover have "distinct (pit_table t)"
      using assms(1) by (simp add: pit_wf_def)
    note set = mset_partition [OF m this]
    ultimately show ?thesis
      using t' set extract_nack_heap [OF l] by auto
  qed
  then show "pit_wf t'" "set entries \<subseteq> set (pit_table t)" "distinct entries"
    "set (pit_table t') = set (pit_table t) - set entries" "length (pit_heap t') = length (pit_heap t)"
    by blast+
qed

lemma removePendingInterest_wf:
  assumes "pit_wf t"
  shows "pit_wf (removePendingInterest i t)"
    and "set (pit_table (removePendingInterest i t)) =
      {a \<in> set (pit_table t). pe_pendingInterestId (pit_heap t ! a) \<noteq> i}"
    and "length (pit_heap (removePendingInterest i t)) = length (pit_heap t)"
proof -
  let ?same = "\<lambda>a. pe_pendingInterestId (pit_heap t ! a) = i"
  let ?found = "filter ?same (pit_table t)"
  let ?t = "t\<lparr>pit_heap := fold setIsRemoved (rev ?found) (pit_heap t), pit_table := filter (\<lambda>a. \<not> ?same a) (pit_table t)\<rparr>"
  have m: "mset (rev ?found) + mset (filter (\<lambda>a. \<not> ?same a) (pit_table t)) = mset (pit_table t)"
    by simp
  have wf: "pit_wf ?t"
    using pit_wf_take_out [OF assms refl _ m] by simp
  show "set (pit_table (removePendingInterest i t)) =
      {a \<in> set (pit_table t). pe_pendingInterestId (pit_heap t ! a) \<noteq> i}"
    "length (pit_heap (removePendingInterest i t)) = length (pit_heap t)"
    by (auto simp: removePendingInterest_def Let_def)
  show "pit_wf (removePendingInterest i t)"
  proof (cases "?found = [] \<and> i \<notin> set (pit_removeRequests t)")
    case True
    then have none: "\<forall>a \<in> set (pit_table t). \<not> ?same a"
      by (simp add: filter_empty_conv)
    then have "filter (\<lambda>a. \<not> ?same a) (pit_table t) = pit_table t"
      by (simp add: filter_id_conv)
    then show ?thesis
      using True assms none by (auto simp: removePendingInterest_def Let_def pit_wf_def)
  next
    case False
    then show ?thesis
      using wf by (auto simp: removePendingInterest_def Let_def)
  qed
qed

lemma removeEntry_wf:
  assumes "pit_wf t" and "a < length (pit_heap t)"
  shows "pit_wf (snd (removeEntry a t))" and "fst (removeEntry a t) \<longleftrightarrow> a \<in> set (pit_table t)"
    and "set (pit_table (snd (removeEntry a t))) = set (pit_table t) - {a}"
    and "length (pit_heap (snd (removeEntry a t))) = length (pit_heap t)"
proof -
  have d: "distinct (pit_table t)" and r: "pe_isRemoved (pit_heap t ! a) \<longleftrightarrow> a \<notin> set (pit_table t)"
    using assms by (auto simp: pit_wf_def)
  show "pit_wf (snd (removeEntry a t))"
  proof (cases "a \<in> set (pit_table t)")
    case True
    then have "mset [a] + mset (remove1 a (pit_table t)) = mset (pit_table t)"
      by simp
    from pit_wf_take_out [OF assms(1) refl _ this] show ?thesis
      using True r by (simp add: removeEntry_def)
  qed (use assms(1) r in \<open>simp add: removeEntry_def\<close>)
  show "fst (removeEntry a t) \<longleftrightarrow> a \<in> set (pit_table t)"
    "set (pit_table (snd (removeEntry a t))) = set (pit_table t) - {a}"
    "length (pit_heap (snd (removeEntry a t))) = length (pit_heap t)"
    using d r by (auto simp: removeEntry_def setIsRemoved_def set_remove1_eq)
qed

section \<open>Early removals\<close>

definition pit_ids :: "('w, 'd) pendingInterestTable \<Rightarrow> u64 set" where
  "pit_ids t = (\<lambda>a. pe_pendingInterestId (pit_heap t ! a)) ` set (pit_table t)"

definition pit_add_entry :: "u64 \<Rightarrow> ('w, 'd) pitEntry \<Rightarrow> ('w, 'd) pendingInterestTable \<Rightarrow> ('w, 'd) pendingInterestTable" where
  "pit_add_entry i entry t = snd (pit_add (entry\<lparr>pe_pendingInterestId := i\<rparr>) t)"

lemma pit_ids_filter:
  assumes "pit_wf t"
  shows "pit_ids (removePendingInterest i t) = pit_ids t - {i}"
proof -
  have "pe_pendingInterestId (pit_heap (removePendingInterest i t) ! a) = pe_pendingInterestId (pit_heap t ! a)"
    if "a \<in> set (pit_table t)" for a
    using that assms by (auto simp: removePendingInterest_def Let_def nth_setIsRemoved pit_wf_def)
  then show ?thesis
    using removePendingInterest_wf(2) [OF assms, of i] by (auto simp: pit_ids_def image_iff)
qed

lemma pit_ids_append:
  assumes "set as \<subseteq> {..<length heap}"
  shows "(\<lambda>a. pe_pendingInterestId ((heap @ [x]) ! a)) ` set as = (\<lambda>a. pe_pendingInterestId (heap ! a)) ` set as"
  using assms by (intro image_cong refl) (auto simp: nth_append)

interpretation pr: removal_requests pit_add_entry removePendingInterest pit_ids
  "\<lambda>t. set (pit_removeRequests t)" pit_wf
proof unfold_locales
  fix t :: "('w, 'd) pendingInterestTable" and i e
  assume wf: "pit_wf t"
  then have sub: "set (pit_table t) \<subseteq> {..<length (pit_heap t)}" and d: "distinct (pit_removeRequests t)"
    by (simp_all add: pit_wf_def)
  show "pit_ids (pit_add_entry i e t) = (if i \<in> set (pit_removeRequests t) then pit_ids t else insert i (pit_ids t))"
    using pit_ids_append [OF sub] by (simp add: pit_ids_def pit_add_entry_def pit_add_def)
  show "set (pit_removeRequests (pit_add_entry i e t)) = set (pit_removeRequests t) - {i}"
    using d by (auto simp: pit_add_entry_def pit_add_def)
  show "pit_ids (removePendingInterest i t) = pit_ids t - {i}"
    using pit_ids_filter [OF wf] .
  show "set (pit_removeRequests (removePendingInterest i t)) =
      (if i \<in> pit_ids t then set (pit_removeRequests t) else insert i (set (pit_removeRequests t)))"
    by (auto simp: removePendingInterest_def Let_def pit_ids_def filter_empty_conv)
  show "pit_wf (pit_add_entry i e t)"
    using pit_add_wf [OF wf] by (simp add: pit_add_entry_def)
  show "pit_wf (removePendingInterest i t)"
    using removePendingInterest_wf(1) [OF wf] .
qed

definition rpt_wf :: "registeredPrefixTable \<times> interestFilterTable \<Rightarrow> bool" where
  "rpt_wf tf \<longleftrightarrow> distinct (rpt_removeRequests (fst tf)) \<and>
     re_registeredPrefixId ` set (rpt_table (fst tf)) \<inter> set (rpt_removeRequests (fst tf)) = {}"

definition rpt_add_entry :: "u64 \<Rightarrow> prefixEntry \<Rightarrow> registeredPrefixTable \<times> interestFilterTable \<Rightarrow>
    registeredPrefixTable \<times> interestFilterTable" where
  "rpt_add_entry i entry tf = (snd (rpt_add (entry\<lparr>re_registeredPrefixId := i\<rparr>) (fst tf)), snd tf)"

interpretation rr: removal_requests rpt_add_entry removeRegisteredPrefix
  "\<lambda>tf. re_registeredPrefixId ` set (rpt_table (fst tf))" "\<lambda>tf. set (rpt_removeRequests (fst tf))" rpt_wf
proof unfold_locales
  fix tf i e
  assume wf: "rpt_wf tf"
  show "re_registeredPrefixId ` set (rpt_table (fst (rpt_add_entry i e tf))) =
      (if i \<in> set (rpt_removeRequests (fst tf)) then re_registeredPrefixId ` set (rpt_table (fst tf))
       else insert i (re_registeredPrefixId ` set (rpt_table (fst tf))))"
    by (auto simp: rpt_add_entry_def rpt_add_def)
  show "set (rpt_removeRequests (fst (rpt_add_entry i e tf))) = set (rpt_removeRequests (fst tf)) - {i}"
    using wf by (auto simp: rpt_add_entry_def rpt_add_def rpt_wf_def)
  show "re_registeredPrefixId ` set (rpt_table (fst (removeRegisteredPrefix i tf))) =
      re_registeredPrefixId ` set (rpt_table (fst tf)) - {i}"
    by (auto simp: removeRegisteredPrefix_def Let_def case_prod_unfold)
  show "set (rpt_removeRequests (fst (removeRegisteredPrefix i tf))) =
      (if i \<in> re_registeredPrefixId ` set (rpt_table (fst tf)) then set (rpt_removeRequests (fst tf))
       else insert i (set (rpt_removeRequests (fst tf))))"
    by (auto simp: removeRegisteredPrefix_def Let_def case_prod_unfold filter_empty_conv)
  show "rpt_wf (rpt_add_entry i e tf)"
    using wf by (auto simp: rpt_wf_def rpt_add_entry_def rpt_add_def)
  show "rpt_wf (removeRegisteredPrefix i tf)"
    using wf by (auto simp: rpt_wf_def removeRegisteredPrefix_def Let_def case_prod_unfold filter_empty_conv image_iff)
qed

end
