(* ===== verification/Lp_Packet.thy ===== *)
theory Lp_Packet
  imports Tlv_Decoder Names
begin

text \<open>
  NDNLPv2 packets (src/c/encoding/tlv/tlv-lp-packet.c) and the encoding of network nacks
  (encodeLpNack of src/node.cpp), on top of the TLV encoder and decoder.
\<close>

section \<open>Header fields\<close>

datatype nackReason = NACK_NONE | NACK_CONGESTION | NACK_DUPLICATE | NACK_NO_ROUTE | NACK_OTHER_CODE int

datatype lpHeaderField = IncomingFaceId u64 | NetworkNack nackReason | CongestionMark u64

record lpPacket =
  lp_headerFields :: "lpHeaderField list"
  lp_fragment :: "slice option"

fun nackCode :: "nackReason \<Rightarrow> int" where
  "nackCode NACK_NONE = 0"
| "nackCode NACK_CONGESTION = 50"
| "nackCode NACK_DUPLICATE = 100"
| "nackCode NACK_NO_ROUTE = 150"
| "nackCode (NACK_OTHER_CODE code) = code"

definition decodeNackReason :: "int \<Rightarrow> nackReason" where
  "decodeNackReason code =
    (if code < 0 \<or> code = 0 then NACK_NONE
     else if code = 50 then NACK_CONGESTION
     else if code = 100 then NACK_DUPLICATE
     else if code = 150 then NACK_NO_ROUTE
     else NACK_OTHER_CODE code)"

definition lp_addHeaderField :: "lpHeaderField \<Rightarrow> lpPacket \<Rightarrow> lpPacket" where
  "lp_addHeaderField field lp = lp\<lparr>lp_headerFields := lp_headerFields lp @ [field]\<rparr>"

definition lp_full :: "nat \<Rightarrow> lpPacket \<Rightarrow> bool" where
  "lp_full maxHeaderFields lp \<longleftrightarrow> length (lp_headerFields lp) \<ge> maxHeaderFields"

section \<open>Decoding\<close>

text \<open>
  One turn of the decoding loop up to the call of finishNestedTlvs: the packet, the decoder, the end
  of the field and whether the loop stops (a fragment is the last field).
\<close>

definition lp_field :: "nat \<Rightarrow> lpPacket \<Rightarrow> decoder \<Rightarrow> ndn_Error + (lpPacket \<times> decoder \<times> u64 \<times> bool)" where
  "lp_field maxHeaderFields lp d =
    bindE (readVarNumber d) (\<lambda>(fieldTypeVarNumber, d).
    let fieldType = sint (ucast fieldTypeVarNumber :: u32) in
    bindE (readVarNumber d) (\<lambda>(fieldLength, d).
    let fieldEndOffset = dec_offset d + fieldLength in
    if fieldEndOffset > inputLength d then Inl NDN_ERROR_TLV_length_exceeds_buffer_length
    else if fieldType = 80 then
      bindE (getSlice d (dec_offset d) fieldEndOffset) (\<lambda>s.
        Inr (lp\<lparr>lp_fragment := Some s\<rparr>, dec_seek d fieldEndOffset, fieldEndOffset, True))
    else if fieldType = 800 then
      if lp_full maxHeaderFields lp
      then Inl NDN_ERROR_cannot_add_an_entry_past_the_maximum_number_of_entries_allowed_in_the_LpPacket
      else bindE (readOptionalNonNegativeIntegerTlv 801 fieldEndOffset d) (\<lambda>(code, d).
        Inr (lp_addHeaderField (NetworkNack (decodeNackReason code)) lp, d, fieldEndOffset, False))
    else if fieldType = 817 then
      if lp_full maxHeaderFields lp
      then Inl NDN_ERROR_cannot_add_an_entry_past_the_maximum_number_of_entries_allowed_in_the_LpPacket
      else bindE (readNonNegativeInteger fieldLength d) (\<lambda>(faceId, d).
        Inr (lp_addHeaderField (IncomingFaceId faceId) lp, d, fieldEndOffset, False))
    else if fieldType = 832 then
      if lp_full maxHeaderFields lp
      then Inl NDN_ERROR_cannot_add_an_entry_past_the_maximum_number_of_entries_allowed_in_the_LpPacket
      else bindE (readNonNegativeInteger fieldLength d) (\<lambda>(mark, d).
        Inr (lp_addHeaderField (CongestionMark mark) lp, d, fieldEndOffset, False))
    else if fieldType \<ge> 800 \<and> fieldType \<le> 959 \<and> fieldType mod 4 = 0
    then Inr (lp, dec_seek d fieldEndOffset, fieldEndOffset, False)
    else Inl NDN_ERROR_did_not_get_the_expected_TLV_type))"

partial_function (option) lp_loop ::
    "nat \<Rightarrow> lpPacket \<Rightarrow> decoder \<Rightarrow> u64 \<Rightarrow> (ndn_Error + (lpPacket \<times> decoder)) option" where
  "lp_loop maxHeaderFields lp d endOffset =
    (if dec_offset d < endOffset then
       (case lp_field maxHeaderFields lp d of
          Inl e \<Rightarrow> Some (Inl e)
        | Inr (lp, d, fieldEndOffset, stop) \<Rightarrow>
            if stop then Some (Inr (lp, d))
            else Option.bind (finishNestedTlvs d fieldEndOffset) (\<lambda>r.
              case r of Inl e \<Rightarrow> Some (Inl e) | Inr d \<Rightarrow> lp_loop maxHeaderFields lp d endOffset))
     else Some (Inr (lp, d)))"

declare lp_loop.simps [code]

definition decodeTlvLpPacket :: "nat \<Rightarrow> decoder \<Rightarrow> (ndn_Error + (lpPacket \<times> decoder)) option" where
  "decodeTlvLpPacket maxHeaderFields d =
    (case readNestedTlvsStart 100 d of
       Inl e \<Rightarrow> Some (Inl e)
     | Inr (endOffset, d) \<Rightarrow>
         Option.bind (lp_loop maxHeaderFields \<lparr>lp_headerFields = [], lp_fragment = None\<rparr> d endOffset) (\<lambda>r.
           case r of Inl e \<Rightarrow> Some (Inl e)
           | Inr (lp, d) \<Rightarrow>
               Option.bind (finishNestedTlvs d endOffset) (\<lambda>r.
                 case r of Inl e \<Rightarrow> Some (Inl e) | Inr d \<Rightarrow> Some (Inr (lp, d)))))"

fun getFirstNack :: "lpHeaderField list \<Rightarrow> nackReason option" where
  "getFirstNack [] = None"
| "getFirstNack (NetworkNack r # hs) = Some r"
| "getFirstNack (_ # hs) = getFirstNack hs"

fun getIncomingFaceId :: "lpHeaderField list \<Rightarrow> u64" where
  "getIncomingFaceId [] = -1"
| "getIncomingFaceId (IncomingFaceId i # hs) = i"
| "getIncomingFaceId (_ # hs) = getIncomingFaceId hs"

section \<open>Encoding a nack\<close>

definition encodeLpNackValue :: "nackReason \<Rightarrow> writer" where
  "encodeLpNackValue reason = writeNonNegativeIntegerTlv 801 (of_int (nackCode reason))"

definition encodeLpValue :: "byte list \<Rightarrow> nackReason \<Rightarrow> writer" where
  "encodeLpValue interestEncoding reason e =
    bindE (writeNestedTlv 800 (encodeLpNackValue reason) False e) (writeBlobTlv 80 interestEncoding)"

definition encodeLpNack :: "byte list \<Rightarrow> nackReason \<Rightarrow> ndn_Error + blob" where
  "encodeLpNack interestEncoding reason =
    bindE (writeNestedTlv 100 (encodeLpValue interestEncoding reason) False (TlvEncoder 256))
      (\<lambda>e. Inr (enc_finish e))"

section \<open>The round trip\<close>

definition nack_value :: "nackReason \<Rightarrow> byte list" where
  "nack_value reason = tlvBytes 801 (nonNegativeIntegerBytes (of_int (nackCode reason)))"

definition nack_bytes :: "byte list \<Rightarrow> nackReason \<Rightarrow> byte list" where
  "nack_bytes interestEncoding reason = tlvBytes 800 (nack_value reason) @ tlvBytes 80 interestEncoding"

lemma encodeLpValue_writer: "tlv_writer (encodeLpValue bs reason) (nack_bytes bs reason)"
proof -
  have "tlv_writer (encodeLpNackValue reason) (nack_value reason)"
    unfolding encodeLpNackValue_def nack_value_def by (rule nt.tlv_writer_axioms)
  then have "tlv_writer (writeNestedTlv 800 (encodeLpNackValue reason) False) (tlvBytes 800 (nack_value reason))"
    using tlv_writer_nested [of "encodeLpNackValue reason" "nack_value reason" 800 False] by simp
  then show ?thesis
    using tlv_writer_seq [OF _ bt.tlv_writer_axioms]
    unfolding encodeLpValue_def nack_bytes_def by (simp add: fun_eq_iff)
qed

lemma encodeLpNack_bytes: "encodeLpNack bs reason = Inr (Some (tlvBytes 100 (nack_bytes bs reason)))"
proof -
  have w: "tlv_writer (writeNestedTlv 100 (encodeLpValue bs reason) False) (tlvBytes 100 (nack_bytes bs reason))"
    using tlv_writer_nested [OF encodeLpValue_writer [of bs reason], of 100 False] by simp
  show ?thesis
    using tlv_writer.write_fresh [OF w, of 256] by (auto simp: encodeLpNack_def)
qed

text \<open>Reading type and length of a field without checking the type, as the loop does.\<close>

lemma field_header:
  assumes "dec_wf d" and "upcoming d = tlvBytes t bs @ rest"
  shows "\<exists>d1. readVarNumber d = Inr (ucast t, d1) \<and>
      readVarNumber d1 = Inr (of_nat (length bs), advance d (length (typeAndLengthBytes t (length bs))))"
proof -
  have u1: "upcoming d = varNumberBytes (ucast t) @ varNumberBytes (of_nat (length bs)) @ bs @ rest"
    using assms(2) by (simp add: tlvBytes_def typeAndLengthBytes_def)
  note d1 = advance_facts(1,2) [OF assms(1) u1]
  show ?thesis
    using readVarNumber_back [OF assms(1) u1] readVarNumber_back [OF d1]
    by (simp add: typeAndLengthBytes_def advance_advance)
qed

lemma peekType_back:
  assumes "dec_wf d" and "upcoming d = tlvBytes t bs @ rest" and "dec_offset d < endOffset"
  shows "peekType t endOffset d = Inr True"
  using field_header [OF assms(1,2)] assms(3) by (auto simp: peekType_def)

lemma sint_of_small:
  assumes "0 \<le> i" and "i < 2 ^ 31"
  shows "sint (ucast (of_int i :: u64) :: u32) = i"
proof -
  have "is_down (ucast :: u64 \<Rightarrow> u32)"
    by (simp add: is_down)
  then show ?thesis
    using assms by (simp add: ucast_down_wi sint_sbintrunc' signed_take_bit_int_eq_self)
qed

lemma offset_less:
  assumes "dec_wf d" and "upcoming d = xs @ rest" and "xs \<noteq> []"
  shows "dec_offset d < dec_offset d + of_nat (length xs)"
  using advance_facts(3) [OF assms(1,2)] assms(3) by (simp add: word_less_nat_alt advance_def)

lemma length_nack_value: "0 < length (nack_value reason)"
  by (simp add: nack_value_def sizeOfBlobTlv_def sizeOfVarNumber_def)

text \<open>Codes that mean something else as a reason, or do not fit an int, do not come back.\<close>

definition reason_ok :: "nackReason \<Rightarrow> bool" where
  "reason_ok reason \<longleftrightarrow>
    (case reason of NACK_OTHER_CODE code \<Rightarrow> 0 < code \<and> code < 2 ^ 31 \<and> code \<notin> {50, 100, 150} | _ \<Rightarrow> True)"

lemma decode_nackCode:
  "reason_ok reason \<Longrightarrow>
    decodeNackReason (nackCode reason) = reason \<and> 0 \<le> nackCode reason \<and> nackCode reason < 2 ^ 31"
  by (cases reason) (auto simp: reason_ok_def decodeNackReason_def)

lemma lp_field_nack:
  assumes "dec_wf d" and "upcoming d = tlvBytes 800 (nack_value reason) @ rest" and "reason_ok reason"
    and "\<not> lp_full maxHeaderFields lp"
  shows "\<exists>d'. lp_field maxHeaderFields lp d =
      Inr (lp_addHeaderField (NetworkNack reason) lp, d', dec_offset d', False) \<and> dec_wf d' \<and> upcoming d' = rest \<and>
      d' = advance d (length (tlvBytes 800 (nack_value reason)))"
proof -
  let ?v = "nack_value reason"
  let ?h = "advance d (length (typeAndLengthBytes 800 (length ?v)))"
  obtain d1 where r: "readVarNumber d = Inr (ucast (800 :: u32), d1)" "readVarNumber d1 = Inr (of_nat (length ?v), ?h)"
    using field_header [OF assms(1,2)] by blast
  have h: "dec_wf ?h" "upcoming ?h = ?v @ rest"
    using tlv_upcoming [OF assms(1,2)] by blast+
  have uh: "upcoming ?h = tlvBytes 801 (nonNegativeIntegerBytes (of_int (nackCode reason))) @ rest"
    using h(2) by (simp add: nack_value_def)
  let ?stop = "dec_offset ?h + of_nat (length ?v)"
  have in_range: "\<not> ?stop > inputLength ?h"
    using advance_facts(4) [OF h] .
  have ne: "?v \<noteq> []"
    using length_nack_value [of reason] by auto
  have peek: "peekType 801 ?stop ?h = Inr True"
    using peekType_back [OF h(1) uh] offset_less [OF h ne] by blast
  have read: "readNonNegativeIntegerTlv 801 ?h = Inr (of_int (nackCode reason), advance ?h (length ?v))"
    using ntc.read_back [OF h(1) uh] by (simp add: nack_value_def)
  have opt: "readOptionalNonNegativeIntegerTlv 801 ?stop ?h = Inr (nackCode reason, advance ?h (length ?v))"
    using peek read sint_of_small decode_nackCode [OF assms(3)] by (simp add: readOptionalNonNegativeIntegerTlv_def)
  have type: "sint (ucast (ucast (800 :: u32) :: u64) :: u32) = 800"
    by simp
  have "lp_field maxHeaderFields lp d =
      Inr (lp_addHeaderField (NetworkNack reason) lp, advance ?h (length ?v), ?stop, False)"
    using r in_range opt assms(4) decode_nackCode [OF assms(3)] unfolding lp_field_def by (simp add: type)
  moreover have "dec_offset (advance ?h (length ?v)) = ?stop"
    by (simp add: advance_def)
  moreover have "advance ?h (length ?v) = advance d (length (tlvBytes 800 ?v))"
    by (simp add: advance_advance tlvBytes_def)
  ultimately show ?thesis
    using advance_facts(1,2) [OF h] by metis
qed

lemma lp_field_fragment:
  assumes "dec_wf d" and "upcoming d = tlvBytes 80 bs @ rest"
  shows "\<exists>s. lp_field maxHeaderFields lp d =
      Inr (lp\<lparr>lp_fragment := Some s\<rparr>, advance d (length (tlvBytes 80 bs)), dec_offset (advance d (length (tlvBytes 80 bs))), True) \<and>
      slice_bytes (dec_input d) s = Some bs"
proof -
  let ?h = "advance d (length (typeAndLengthBytes 80 (length bs)))"
  obtain d1 where r: "readVarNumber d = Inr (ucast (80 :: u32), d1)" "readVarNumber d1 = Inr (of_nat (length bs), ?h)"
    using field_header [OF assms] by blast
  have h: "dec_wf ?h" "upcoming ?h = bs @ rest"
    using tlv_upcoming [OF assms] by blast+
  let ?stop = "dec_offset ?h + of_nat (length bs)"
  have in_range: "\<not> ?stop > inputLength ?h"
    using advance_facts(4) [OF h] .
  have u: "unat ?stop = unat (dec_offset ?h) + length bs"
    using advance_facts(3) [OF h] by (simp add: advance_def)
  have le: "\<not> dec_offset ?h > ?stop"
    using u by (simp add: word_less_nat_alt)
  have len: "unat (dec_offset ?h) + length bs \<le> length (dec_input d)"
    using h(1) upcoming_length [OF h(1)] h(2) by (simp add: dec_wf_def advance_def) linarith
  let ?s = "\<lparr>slice_begin = dec_offset ?h, slice_length = ?stop - dec_offset ?h\<rparr>"
  have "\<not> dec_offset ?h > inputLength ?h"
    using in_range le by (auto simp: not_less)
  then have slice: "getSlice ?h (dec_offset ?h) ?stop = Inr ?s"
    using in_range le by (simp add: getSlice_def)
  have "length bs < 2 ^ 64"
    using len h(1) by (simp add: dec_wf_def advance_def)
  then have "unat (of_nat (length bs) :: u64) = length bs"
    by simp
  then have bytes: "slice_bytes (dec_input d) ?s = Some bs"
    using len h(2) by (simp add: slice_bytes_def slice_in_bounds_def upcoming_def advance_def)
  have seek: "dec_seek ?h ?stop = advance d (length (tlvBytes 80 bs))"
    by (simp add: dec_seek_def advance_def tlvBytes_def)
  have type: "sint (ucast (ucast (80 :: u32) :: u64) :: u32) = 80"
    by simp
  have "lp_field maxHeaderFields lp d = Inr (lp\<lparr>lp_fragment := Some ?s\<rparr>, dec_seek ?h ?stop, ?stop, True)"
    using r in_range slice unfolding lp_field_def by (simp add: type Let_def)
  moreover have "?stop = dec_offset (advance d (length (tlvBytes 80 bs)))"
    by (simp add: advance_def tlvBytes_def)
  ultimately show ?thesis
    using bytes seek by metis
qed

text \<open>
  C33. A nack survives the wire: what encodeLpNack writes for an interest encoding and a reason is
  decoded into one nack header with that reason and a fragment that holds the interest encoding.
\<close>

theorem lp_nack_roundtrip:
  assumes "reason_ok reason" and "length bs < 2 ^ 62"
  shows "\<exists>bytes lp d s. encodeLpNack bs reason = Inr (Some bytes) \<and>
    decodeTlvLpPacket 5 (dec_initialize bytes) = Some (Inr (lp, d)) \<and>
    lp_headerFields lp = [NetworkNack reason] \<and>
    lp_fragment lp = Some s \<and> slice_bytes bytes s = Some bs"
proof -
  let ?v = "nack_bytes bs reason" and ?n = "tlvBytes 800 (nack_value reason)" and ?f = "tlvBytes 80 bs"
  let ?bytes = "tlvBytes 100 ?v"
  let ?d = "dec_initialize ?bytes"
  have "length ?bytes < 2 ^ 63"
    using assms(2)
    by (simp add: sizeOfBlobTlv_def nack_bytes_def nack_value_def sizeOfVarNumber_def sizeOfNonNegativeInteger_def)
  then have wf: "dec_wf ?d" and up: "upcoming ?d = ?bytes @ []"
    by (simp_all add: dec_wf_def dec_initialize_def upcoming_def)
  let ?h = "advance ?d (length (typeAndLengthBytes 100 (length ?v)))"
  have h: "readTypeAndLength 100 ?d = Inr (of_nat (length ?v), ?h)" "dec_wf ?h" "upcoming ?h = ?n @ ?f"
    using tlv_upcoming [OF wf up] by (simp_all add: nack_bytes_def)
  let ?stop = "dec_offset ?h + of_nat (length ?v)"
  let ?lp0 = "\<lparr>lp_headerFields = [], lp_fragment = None\<rparr>"
  obtain d3 where nack: "lp_field 5 ?lp0 ?h =
      Inr (lp_addHeaderField (NetworkNack reason) ?lp0, d3, dec_offset d3, False)"
    and d3: "dec_wf d3" "upcoming d3 = ?f @ []" "d3 = advance ?h (length ?n)"
    using lp_field_nack [OF h(2,3) assms(1), of 5 ?lp0] by (auto simp: lp_full_def)
  let ?lp1 = "lp_addHeaderField (NetworkNack reason) ?lp0"
  obtain s where frag: "lp_field 5 ?lp1 d3 =
      Inr (?lp1\<lparr>lp_fragment := Some s\<rparr>, advance d3 (length ?f), dec_offset (advance d3 (length ?f)), True)"
    and s: "slice_bytes (dec_input d3) s = Some bs"
    using lp_field_fragment [OF d3(1,2)] by blast
  have fne: "?f \<noteq> []"
  proof
    assume "?f = []"
    then have "length ?f = 0" by simp
    then show False by (simp add: sizeOfBlobTlv_def sizeOfVarNumber_def)
  qed
  have last: "?stop = dec_offset (advance d3 (length ?f))"
    by (simp add: d3(3) advance_def nack_bytes_def)
  have less3: "dec_offset d3 < ?stop"
    using offset_less [OF d3(1,2) fne] last by (simp add: advance_def)
  have less: "dec_offset ?h < ?stop"
    using offset_less [OF h(2), of "?n @ ?f" "[]"] h(3) fne by (simp add: nack_bytes_def)
  have loop3: "lp_loop 5 ?lp1 d3 ?stop = Some (Inr (?lp1\<lparr>lp_fragment := Some s\<rparr>, advance d3 (length ?f)))"
    using less3 frag by (subst lp_loop.simps) simp
  have loop: "lp_loop 5 ?lp0 ?h ?stop = Some (Inr (?lp1\<lparr>lp_fragment := Some s\<rparr>, advance d3 (length ?f)))"
    using less nack loop3 by (subst lp_loop.simps) (simp add: finishNestedTlvs_def)
  have "decodeTlvLpPacket 5 ?d = Some (Inr (?lp1\<lparr>lp_fragment := Some s\<rparr>, advance d3 (length ?f)))"
    using h(1) loop last by (simp add: decodeTlvLpPacket_def readNestedTlvsStart_def finishNestedTlvs_def)
  moreover have "dec_input d3 = ?bytes"
    by (simp add: d3(3) advance_def dec_initialize_def)
  ultimately show ?thesis
    using encodeLpNack_bytes s by (fastforce simp: lp_addHeaderField_def)
qed

theorem lp_nack_roundtrip_witness:
  "\<exists>bytes lp d s. encodeLpNack [5, 0] NACK_CONGESTION = Inr (Some bytes) \<and>
    decodeTlvLpPacket 5 (dec_initialize bytes) = Some (Inr (lp, d)) \<and>
    lp_headerFields lp = [NetworkNack NACK_CONGESTION] \<and>
    lp_fragment lp = Some s \<and> slice_bytes bytes s = Some [5, 0]"
proof -
  have h: "reason_ok NACK_CONGESTION" "length [5, 0 :: byte] < 2 ^ 62"
    by (simp_all add: reason_ok_def)
  show ?thesis
    by (rule lp_nack_roundtrip [OF h])
qed

end
