(* ===== verification/Node.thy ===== *)
theory Node
  imports Face_Tables Lp_Packet
begin

text \<open>
  The node behind a Face (src/node.cpp, src/node.hpp): expressing interests, dispatching received
  elements to the pending interest table and the interest filters, timeouts, prefix registration.

  A handler takes the state of the node and returns the new state, the calls it makes to the outside
  in their order (application callbacks and the transport) and the exception it throws, if any;
  the state is meaningful in that case too, because C++ keeps what was done before the throw.
  Exceptions of application callbacks are caught by the source and have no effect.  An application
  callback that calls back into the node is a further operation in the sequence of operations.

  The record node_env collects the arguments: the wire formats and the digest, the regular expression
  matcher, the transport's isAsync and isLocal, the decoder of control responses and the
  construction of the signed command interest.
\<close>

section \<open>State\<close>

record registerInfo =
  ri_prefix :: name
  ri_onRegisterFailed :: nat
  ri_onRegisterSuccess :: "nat option"
  ri_registeredPrefixId :: u64
  ri_onInterest :: "nat option"

text \<open>A callback of the application, or the node's own response to a registration.\<close>

datatype callback = UserCallback nat | RegisterResponse registerInfo

datatype delayedCall = ProcessInterestTimeout nat | UserCall nat

datatype connectStatus = UNCONNECTED | CONNECT_REQUESTED | CONNECT_COMPLETE

datatype 'w "output" =
    Connect | Close | Send "byte list"
  | OnData nat callback "'w data"
  | OnTimeout nat callback
  | OnNetworkNack nat nat nackReason
  | OnInterest nat name "'w interest" u64
  | OnRegisterFailed nat name
  | OnRegisterSuccess nat name u64
  | CallUser nat

record 'w expressArgs =
  xa_pendingInterestId :: u64
  xa_interest :: "'w interest"
  xa_onData :: callback
  xa_onTimeout :: "callback option"
  xa_onNetworkNack :: "nat option"
  xa_wireFormat :: 'w

record 'w node =
  nd_pendingInterestTable :: "('w, callback) pendingInterestTable"
  nd_registeredPrefixTable :: registeredPrefixTable
  nd_interestFilterTable :: interestFilterTable
  nd_delayedCallTable :: "delayedCall delayedCallTable"
  nd_onConnectedCallbacks :: "'w expressArgs list"
  nd_connectStatus :: connectStatus
  nd_interestLoopbackEnabled :: bool
  nd_lastEntryId :: u64

record 'w node_env =
  ne_wire :: "'w wire_env"
  ne_tlvWireFormat :: 'w
  ne_encodeInterest :: "'w \<Rightarrow> 'w interest \<Rightarrow> error + signedBlob"
  ne_decodeInterest :: "'w \<Rightarrow> byte list \<Rightarrow> 'w interest \<Rightarrow> error + ('w interest \<times> nat \<times> nat)"
  ne_regexMatch :: "byte list \<Rightarrow> name \<Rightarrow> error + bool"
  ne_isAsync :: bool
  ne_isLocal :: bool
  ne_decodeControlResponse :: "blob \<Rightarrow> error + int"
  ne_signCommand :: "name \<Rightarrow> 'w interest \<Rightarrow> error + 'w interest"

type_synonym 'w result = "'w node \<times> 'w output list \<times> error option"

definition andThen :: "'w result \<Rightarrow> ('w node \<Rightarrow> 'w result) \<Rightarrow> 'w result" where
  "andThen r f =
    (case r of
       (nd, out, Some e) \<Rightarrow> (nd, out, Some e)
     | (nd, out, None) \<Rightarrow> (let (nd', out', e) = f nd in (nd', out @ out', e)))"

fun each :: "('a \<Rightarrow> 'w node \<Rightarrow> 'w result) \<Rightarrow> 'a list \<Rightarrow> 'w node \<Rightarrow> 'w result" where
  "each f [] nd = (nd, [], None)"
| "each f (x # xs) nd = andThen (f x nd) (each f xs)"

definition Node :: "'w node" where
  "Node = \<lparr>nd_pendingInterestTable = pit_empty,
     nd_registeredPrefixTable = \<lparr>rpt_table = [], rpt_removeRequests = []\<rparr>,
     nd_interestFilterTable = [], nd_delayedCallTable = [], nd_onConnectedCallbacks = [],
     nd_connectStatus = UNCONNECTED, nd_interestLoopbackEnabled = False, nd_lastEntryId = 0\<rparr>"

definition timeoutPrefix :: name where
  "timeoutPrefix = [genericComponent (str ''local''), genericComponent (str ''timeout'')]"

definition getMaxNdnPacketSize :: nat where
  "getMaxNdnPacketSize = 8800"

section \<open>Handlers\<close>

definition getNextEntryId :: "'w node \<Rightarrow> u64 \<times> 'w node" where
  "getNextEntryId nd = (nd_lastEntryId nd + 1, nd\<lparr>nd_lastEntryId := nd_lastEntryId nd + 1\<rparr>)"

definition node_send :: "byte list \<Rightarrow> 'w node \<Rightarrow> 'w result" where
  "node_send encoding nd =
    (if length encoding > getMaxNdnPacketSize
     then (nd, [], Some (Runtime_error ''The encoded packet size exceeds the maximum limit getMaxNdnPacketSize()''))
     else (nd, [Send encoding], None))"

definition dispatchInterest :: "'w node_env \<Rightarrow> 'w interest \<Rightarrow> 'w node \<Rightarrow> 'w result" where
  "dispatchInterest env interest nd =
    (case getMatchedFilters (ne_regexMatch env) (int_getName interest) (nd_interestFilterTable nd) of
       Inl e \<Rightarrow> (nd, [], Some e)
     | Inr matchedFilters \<Rightarrow>
         (nd, map (\<lambda>entry. OnInterest (fe_onInterest entry) (fe_prefix entry) interest (fe_interestFilterId entry))
                matchedFilters, None))"

definition registerFailed :: "registerInfo \<Rightarrow> 'w node \<Rightarrow> 'w result" where
  "registerFailed info nd = (nd, [OnRegisterFailed (ri_onRegisterFailed info) (ri_prefix info)], None)"

definition registerSucceeded :: "registerInfo \<Rightarrow> 'w node \<Rightarrow> 'w result" where
  "registerSucceeded info nd =
    (nd, case ri_onRegisterSuccess info of
           None \<Rightarrow> [] | Some cb \<Rightarrow> [OnRegisterSuccess cb (ri_prefix info) (ri_registeredPrefixId info)], None)"

text \<open>The response to a registration command: data with a control response.\<close>

definition registerResponse :: "'w node_env \<Rightarrow> registerInfo \<Rightarrow> 'w data \<Rightarrow> 'w node \<Rightarrow> 'w result" where
  "registerResponse env info responseData nd =
    (case ne_decodeControlResponse env (d_content responseData) of
       Inl _ \<Rightarrow> registerFailed info nd
     | Inr statusCode \<Rightarrow>
         if statusCode \<noteq> 200 then registerFailed info nd
         else if ri_registeredPrefixId info \<noteq> 0 then
           let (interestFilterId, nd) =
                 (case ri_onInterest info of
                    None \<Rightarrow> (0, nd)
                  | Some onInterest \<Rightarrow>
                      let (interestFilterId, nd) = getNextEntryId nd in
                      (interestFilterId,
                       nd\<lparr>nd_interestFilterTable := setInterestFilter interestFilterId
                            \<lparr>if_prefix = ri_prefix info, if_regexFilter = []\<rparr> onInterest (nd_interestFilterTable nd)\<rparr>));
               (added, table) = rpt_add \<lparr>re_registeredPrefixId = ri_registeredPrefixId info,
                 re_prefix = ri_prefix info, re_relatedInterestFilterId = interestFilterId\<rparr> (nd_registeredPrefixTable nd);
               nd = nd\<lparr>nd_registeredPrefixTable := table\<rparr>
           in if \<not> added then
                (if interestFilterId > 0
                 then nd\<lparr>nd_interestFilterTable := unsetInterestFilter interestFilterId (nd_interestFilterTable nd)\<rparr>
                 else nd, [], None)
              else registerSucceeded info nd
         else registerSucceeded info nd)"

definition call_onData :: "'w node_env \<Rightarrow> 'w data \<Rightarrow> nat \<Rightarrow> 'w node \<Rightarrow> 'w result" where
  "call_onData env data a nd =
    (let cb = pe_onData (pit_heap (nd_pendingInterestTable nd) ! a) in
     andThen (nd, [OnData a cb data], None)
       (case cb of UserCallback _ \<Rightarrow> (\<lambda>nd. (nd, [], None)) | RegisterResponse info \<Rightarrow> registerResponse env info data))"

definition satisfyPendingInterests :: "'w node_env \<Rightarrow> 'w data \<Rightarrow> 'w node \<Rightarrow> 'w result" where
  "satisfyPendingInterests env data nd =
    (let (pitEntries, data, table, e) =
           extractEntriesForExpressedInterest (ne_wire env) data (nd_pendingInterestTable nd);
         nd = nd\<lparr>nd_pendingInterestTable := table\<rparr>
     in case e of Some e \<Rightarrow> (nd, [], Some e) | None \<Rightarrow> each (call_onData env data) pitEntries nd)"

definition satisfyPendingInterestsCopy :: "'w node_env \<Rightarrow> 'w data \<Rightarrow> 'w node \<Rightarrow> bool \<times> 'w result" where
  "satisfyPendingInterestsCopy env data nd =
    (let (pitEntries, data, table, e) =
           extractEntriesForExpressedInterest (ne_wire env) data (nd_pendingInterestTable nd);
         nd = nd\<lparr>nd_pendingInterestTable := table\<rparr>
     in case e of Some e \<Rightarrow> (False, nd, [], Some e)
        | None \<Rightarrow> (pitEntries \<noteq> [], each (call_onData env (data_copy data)) pitEntries nd))"

definition putData :: "'w node_env \<Rightarrow> 'w \<Rightarrow> 'w data \<Rightarrow> 'w node \<Rightarrow> 'w result" where
  "putData env wireFormat data nd =
    (let send_it = (\<lambda>nd. case data_wireEncode (ne_wire env) wireFormat data of
           Inl e \<Rightarrow> (nd, [], Some e)
         | Inr (encoding, _) \<Rightarrow>
             if length (sb_bytes encoding) > getMaxNdnPacketSize
             then (nd, [], Some (Runtime_error ''The encoded Data packet size exceeds the maximum limit getMaxNdnPacketSize()''))
             else node_send (sb_bytes encoding) nd)
     in if nd_interestLoopbackEnabled nd then
          let (hasApplicationMatch, r) = satisfyPendingInterestsCopy env data nd in
          if hasApplicationMatch then r else andThen r send_it
        else send_it nd)"

definition putNack :: "'w node_env \<Rightarrow> 'w interest \<Rightarrow> nackReason \<Rightarrow> 'w node \<Rightarrow> 'w result" where
  "putNack env interest reason nd =
    (case int_wireEncode (env_default (ne_wire env)) (ne_encodeInterest env) (ne_tlvWireFormat env) interest of
       Inl e \<Rightarrow> (nd, [], Some e)
     | Inr (interestEncoding, _) \<Rightarrow>
         (case encodeLpNack (sb_bytes interestEncoding) reason of
            Inl e \<Rightarrow> (nd, [], Some (Ndn e))
          | Inr encoding \<Rightarrow>
              if blob_size encoding > getMaxNdnPacketSize
              then (nd, [], Some (Runtime_error ''The encoded Nack packet size exceeds the maximum limit getMaxNdnPacketSize()''))
              else node_send (blob_bytes encoding) nd))"

definition timeout_delay :: "'w interest \<Rightarrow> int" where
  "timeout_delay interest = (if i_interestLifetime interest < 0 then 4000000000 else i_interestLifetime interest)"

definition schedule_timeout :: "int \<Rightarrow> 'w interest \<Rightarrow> callback option \<Rightarrow> nat \<Rightarrow> 'w node \<Rightarrow> 'w node" where
  "schedule_timeout now interest onTimeout a nd =
    (if onTimeout \<noteq> None \<or> i_interestLifetime interest \<ge> 0
     then nd\<lparr>nd_delayedCallTable := callLater now (timeout_delay interest)
            (ProcessInterestTimeout a) (nd_delayedCallTable nd)\<rparr>
     else nd)"

definition expressInterestHelper :: "'w node_env \<Rightarrow> int \<Rightarrow> 'w expressArgs \<Rightarrow> 'w node \<Rightarrow> 'w result" where
  "expressInterestHelper env now args nd =
    (let interestCopy = xa_interest args;
         (pendingInterest, table) = pit_add
           \<lparr>pe_pendingInterestId = xa_pendingInterestId args, pe_interest = interestCopy,
            pe_onData = xa_onData args, pe_onTimeout = xa_onTimeout args,
            pe_onNetworkNack = xa_onNetworkNack args, pe_isRemoved = False\<rparr> (nd_pendingInterestTable nd);
         nd = nd\<lparr>nd_pendingInterestTable := table\<rparr>
     in case pendingInterest of
          None \<Rightarrow> (nd, [], None)
        | Some a \<Rightarrow>
            let nd = schedule_timeout now interestCopy (xa_onTimeout args) a nd
            in if \<not> name_match timeoutPrefix (int_getName interestCopy) then
                 (case int_wireEncode (env_default (ne_wire env)) (ne_encodeInterest env) (xa_wireFormat args) interestCopy of
                    Inl e \<Rightarrow> (nd, [], Some e)
                  | Inr (encoding, interestCopy) \<Rightarrow>
                      let nd = nd\<lparr>nd_pendingInterestTable := (nd_pendingInterestTable nd)
                            \<lparr>pit_heap := (pit_heap (nd_pendingInterestTable nd))
                               [a := (pit_heap (nd_pendingInterestTable nd) ! a)\<lparr>pe_interest := interestCopy\<rparr>]\<rparr>\<rparr>
                      in if length (sb_bytes encoding) > getMaxNdnPacketSize
                         then (nd, [], Some (Runtime_error ''The encoded interest size exceeds the maximum limit getMaxNdnPacketSize()''))
                         else andThen (nd, [Send (sb_bytes encoding)], None)
                                (\<lambda>nd. if nd_interestLoopbackEnabled nd then dispatchInterest env interestCopy nd
                                      else (nd, [], None)))
               else (nd, [], None))"

text \<open>
  expressInterest first gives the interest a nonce if it has none: the template of four zero bytes is
  replaced by the first of the random draws that differs from it.
\<close>

definition with_nonce :: "byte list list \<Rightarrow> 'w interest \<Rightarrow> 'w interest option" where
  "with_nonce draws interest =
    (let (nonce, interest) = int_getNonce interest in
     if blob_size nonce = 0 then refreshNonce draws (int_setNonce (Some [0, 0, 0, 0]) interest) else Some interest)"

definition expressInterest ::
    "'w node_env \<Rightarrow> int \<Rightarrow> byte list list \<Rightarrow> 'w expressArgs \<Rightarrow> 'w node \<Rightarrow> 'w result option" where
  "expressInterest env now draws args nd =
    (case with_nonce draws (xa_interest args) of
       None \<Rightarrow> None
     | Some interestCopy \<Rightarrow>
         let args = args\<lparr>xa_interest := interestCopy\<rparr> in
         Some (
           if nd_connectStatus nd = CONNECT_COMPLETE then expressInterestHelper env now args nd
           else if \<not> ne_isAsync env then
             andThen (andThen (nd, [Connect], None) (expressInterestHelper env now args))
               (\<lambda>nd. (nd\<lparr>nd_connectStatus := CONNECT_COMPLETE\<rparr>, [], None))
           else if nd_connectStatus nd = UNCONNECTED then
             (nd\<lparr>nd_connectStatus := CONNECT_REQUESTED,
                 nd_onConnectedCallbacks := nd_onConnectedCallbacks nd @ [args]\<rparr>, [Connect], None)
           else (nd\<lparr>nd_onConnectedCallbacks := nd_onConnectedCallbacks nd @ [args]\<rparr>, [], None)))"

definition onConnected :: "'w node_env \<Rightarrow> int \<Rightarrow> 'w node \<Rightarrow> 'w result" where
  "onConnected env now nd =
    andThen (each (expressInterestHelper env now) (nd_onConnectedCallbacks nd) nd)
      (\<lambda>nd. (nd\<lparr>nd_onConnectedCallbacks := [], nd_connectStatus := CONNECT_COMPLETE\<rparr>, [], None))"

definition processInterestTimeout :: "nat \<Rightarrow> 'w node \<Rightarrow> 'w result" where
  "processInterestTimeout a nd =
    (let (removed, table) = removeEntry a (nd_pendingInterestTable nd);
         nd = nd\<lparr>nd_pendingInterestTable := table\<rparr>
     in if removed then
          (case pe_onTimeout (pit_heap table ! a) of
             None \<Rightarrow> (nd, [], None)
           | Some cb \<Rightarrow>
               andThen (nd, [OnTimeout a cb], None)
                 (case cb of UserCallback _ \<Rightarrow> (\<lambda>nd. (nd, [], None)) | RegisterResponse info \<Rightarrow> registerFailed info))
        else (nd, [], None))"

fun callDelayed :: "delayedCall \<Rightarrow> 'w node \<Rightarrow> 'w result" where
  "callDelayed (ProcessInterestTimeout a) nd = processInterestTimeout a nd"
| "callDelayed (UserCall cb) nd = (nd, [CallUser cb], None)"

definition processEvents :: "int \<Rightarrow> 'w node \<Rightarrow> 'w result" where
  "processEvents now nd =
    (let (calls, table) = callTimedOut now (nd_delayedCallTable nd)
     in each callDelayed calls (nd\<lparr>nd_delayedCallTable := table\<rparr>))"

definition nfdRegisterPrefix ::
    "'w node_env \<Rightarrow> int \<Rightarrow> byte list list \<Rightarrow> registerInfo \<Rightarrow> name \<Rightarrow> 'w \<Rightarrow> 'w node \<Rightarrow> 'w result option" where
  "nfdRegisterPrefix env now draws info commandCertificateName wireFormat nd =
    (if length commandCertificateName = 0
     then Some (nd, [], Some (Runtime_error ''registerPrefix: The command certificate name has not been set. You must call setCommandSigningInfo.''))
     else
       let commandInterest = Interest True True \<lparr>ver_value = [], ver_changeCount = 0\<rparr>;
           commandInterest = int_setMustBeFresh True (int_setCanBePrefix True commandInterest);
           commandInterest =
             (if ne_isLocal env
              then int_setInterestLifetime 2000000000
                     (int_setName \<lparr>ver_value = map (\<lambda>s. genericComponent (str s)) [''localhost'', ''nfd'', ''rib'', ''register''],
                        ver_changeCount = 0\<rparr> commandInterest)
              else int_setInterestLifetime 4000000000
                     (int_setName \<lparr>ver_value = map (\<lambda>s. genericComponent (str s)) [''localhop'', ''nfd'', ''rib'', ''register''],
                        ver_changeCount = 0\<rparr> commandInterest))
       in case ne_signCommand env (ri_prefix info) commandInterest of
            Inl e \<Rightarrow> Some (nd, [], Some e)
          | Inr commandInterest \<Rightarrow>
              let (entryId, nd) = getNextEntryId nd in
              expressInterest env now draws
                \<lparr>xa_pendingInterestId = entryId, xa_interest = commandInterest,
                 xa_onData = RegisterResponse info, xa_onTimeout = Some (RegisterResponse info),
                 xa_onNetworkNack = None, xa_wireFormat = wireFormat\<rparr> nd)"

text \<open>
  A received element: an NDNLP packet is replaced by its fragment; then an interest goes to the
  filters, data to the pending interests, and a nack to the pending interests with a nack callback.
  An NDNLP packet may have no fragment; the handler then reads through a null pointer.
\<close>

definition unwrap :: "byte list \<Rightarrow> (error + (lpHeaderField list option \<times> blob)) option" where
  "unwrap element =
    (if element = [] then Some (Inl Undefined_behaviour)
     else if hd element = 100 then
       (case decodeTlvLpPacket 5 (dec_initialize element) of
          None \<Rightarrow> None
        | Some (Inl e) \<Rightarrow> Some (Inl (Ndn e))
        | Some (Inr (lp, _)) \<Rightarrow>
            Some (Inr (Some (lp_headerFields lp), Option.bind (lp_fragment lp) (slice_bytes element))))
     else Some (Inr (None, Some element)))"

definition onNack :: "'w node_env \<Rightarrow> 'w interest \<Rightarrow> nackReason \<Rightarrow> 'w node \<Rightarrow> 'w result" where
  "onNack env interest reason nd =
    (let (pitEntries, table, e) = extractEntriesForNackInterest (ne_encodeInterest env)
           (env_default (ne_wire env)) interest (nd_pendingInterestTable nd);
         nd = nd\<lparr>nd_pendingInterestTable := table\<rparr>
     in case e of Some e \<Rightarrow> (nd, [], Some e)
        | None \<Rightarrow> each (\<lambda>a nd. (nd, case pe_onNetworkNack (pit_heap (nd_pendingInterestTable nd) ! a) of
                     None \<Rightarrow> [] | Some cb \<Rightarrow> [OnNetworkNack a cb reason], None)) pitEntries nd)"

definition onReceivedElement :: "'w node_env \<Rightarrow> byte list \<Rightarrow> 'w node \<Rightarrow> 'w result option" where
  "onReceivedElement env element nd =
    (case unwrap element of
       None \<Rightarrow> None
     | Some (Inl e) \<Rightarrow> Some (nd, [], Some e)
     | Some (Inr (headers, None)) \<Rightarrow> Some (nd, [], Some Undefined_behaviour)
     | Some (Inr (headers, Some element)) \<Rightarrow>
         if element = [] then Some (nd, [], Some Undefined_behaviour)
         else Some (
           if hd element = 5 then
             (case int_wireDecode (env_default (ne_wire env)) (ne_decodeInterest env) (ne_tlvWireFormat env) element
                     (Interest True True \<lparr>ver_value = [], ver_changeCount = 0\<rparr>) of
                Inl e \<Rightarrow> (nd, [], Some e)
              | Inr interest \<Rightarrow>
                  (case Option.bind headers getFirstNack of
                     Some reason \<Rightarrow> onNack env interest reason nd
                   | None \<Rightarrow> dispatchInterest env interest nd))
           else if hd element = 6 then
             (case data_wireDecode (ne_wire env) (ne_tlvWireFormat env) element
                     (Data \<lparr>ver_value = [], ver_changeCount = 0\<rparr>) of
                Inl e \<Rightarrow> (nd, [], Some e)
              | Inr data \<Rightarrow>
                  (case Option.bind headers getFirstNack of
                     Some reason \<Rightarrow> (nd, [], None)
                   | None \<Rightarrow> satisfyPendingInterests env data nd))
           else (nd, [], None)))"

definition node_shutdown :: "'w node \<Rightarrow> 'w result" where
  "node_shutdown nd = (nd, [Close], None)"

definition node_removePendingInterest :: "u64 \<Rightarrow> 'w node \<Rightarrow> 'w result" where
  "node_removePendingInterest i nd =
    (nd\<lparr>nd_pendingInterestTable := removePendingInterest i (nd_pendingInterestTable nd)\<rparr>, [], None)"

definition node_removeRegisteredPrefix :: "u64 \<Rightarrow> 'w node \<Rightarrow> 'w result" where
  "node_removeRegisteredPrefix i nd =
    (let (t, f) = removeRegisteredPrefix i (nd_registeredPrefixTable nd, nd_interestFilterTable nd)
     in (nd\<lparr>nd_registeredPrefixTable := t, nd_interestFilterTable := f\<rparr>, [], None))"

definition node_setInterestFilter :: "u64 \<Rightarrow> interestFilter \<Rightarrow> nat \<Rightarrow> 'w node \<Rightarrow> 'w result" where
  "node_setInterestFilter i f onInterest nd =
    (nd\<lparr>nd_interestFilterTable := setInterestFilter i f onInterest (nd_interestFilterTable nd)\<rparr>, [], None)"

definition node_unsetInterestFilter :: "u64 \<Rightarrow> 'w node \<Rightarrow> 'w result" where
  "node_unsetInterestFilter i nd =
    (nd\<lparr>nd_interestFilterTable := unsetInterestFilter i (nd_interestFilterTable nd)\<rparr>, [], None)"

definition node_callLater :: "int \<Rightarrow> int \<Rightarrow> nat \<Rightarrow> 'w node \<Rightarrow> 'w result" where
  "node_callLater now delay cb nd =
    (nd\<lparr>nd_delayedCallTable := callLater now delay (UserCall cb) (nd_delayedCallTable nd)\<rparr>, [], None)"

end
