(* ===== verification/Node_Props.thy ===== *)
theory Node_Props
  imports Node
begin

text \<open>
  Properties of the node: the invariant of its tables is kept by every operation, the callbacks of
  a pending interest are called at most once over any sequence of operations, interests do not
  outlive their timeout, received data reaches exactly the pending interests that select it.
\<close>

section \<open>Sequences of operations\<close>

datatype 'w node_op =
    Express int "byte list list" "'w expressArgs"
  | Connected int
  | Received "byte list"
  | Events int
  | Register int "byte list list" registerInfo name 'w
  | RemovePending u64 | RemoveRegistered u64
  | SetFilter u64 interestFilter nat | UnsetFilter u64
  | PutData 'w "'w data" | PutNack "'w interest" nackReason
  | CallLater int int nat
  | Shutdown

fun node_step :: "'w node_env \<Rightarrow> 'w node_op \<Rightarrow> 'w node \<Rightarrow> 'w result option" where
  "node_step env (Express now draws args) nd = expressInterest env now draws args nd"
| "node_step env (Connected now) nd = Some (onConnected env now nd)"
| "node_step env (Received element) nd = onReceivedElement env element nd"
| "node_step env (Events now) nd = Some (processEvents now nd)"
| "node_step env (Register now draws info cert w) nd = nfdRegisterPrefix env now draws info cert w nd"
| "node_step env (RemovePending i) nd = Some (node_removePendingInterest i nd)"
| "node_step env (RemoveRegistered i) nd = Some (node_removeRegisteredPrefix i nd)"
| "node_step env (SetFilter i f cb) nd = Some (node_setInterestFilter i f cb nd)"
| "node_step env (UnsetFilter i) nd = Some (node_unsetInterestFilter i nd)"
| "node_step env (PutData w d) nd = Some (putData env w d nd)"
| "node_step env (PutNack i r) nd = Some (putNack env i r nd)"
| "node_step env (CallLater now delay cb) nd = Some (node_callLater now delay cb nd)"
| "node_step env Shutdown nd = Some (node_shutdown nd)"

text \<open>The application goes on after an exception; an operation that does not return ends the run.\<close>

fun node_run :: "'w node_env \<Rightarrow> 'w node_op list \<Rightarrow> 'w node \<Rightarrow> ('w node \<times> 'w output list) option" where
  "node_run env [] nd = Some (nd, [])"
| "node_run env (op # ops) nd =
    (case node_step env op nd of
       None \<Rightarrow> None
     | Some (nd', out, e) \<Rightarrow> map_option (\<lambda>(nd'', out'). (nd'', out @ out')) (node_run env ops nd'))"

fun entry_call :: "'w output \<Rightarrow> nat list" where
  "entry_call (OnData a _ _) = [a]"
| "entry_call (OnTimeout a _) = [a]"
| "entry_call (OnNetworkNack a _ _) = [a]"
| "entry_call _ = []"

definition entry_calls :: "'w output list \<Rightarrow> nat list" where
  "entry_calls outs = concat (map entry_call outs)"

lemma entry_calls_simps [simp]:
  "entry_calls [] = []" "entry_calls (x # xs) = entry_call x @ entry_calls xs"
  "entry_calls (xs @ ys) = entry_calls xs @ entry_calls ys"
  by (simp_all add: entry_calls_def)

section \<open>Invariant\<close>

abbreviation pit :: "'w node \<Rightarrow> ('w, callback) pendingInterestTable" where
  "pit \<equiv> nd_pendingInterestTable"

definition pending :: "'w node \<Rightarrow> nat set" where
  "pending nd = set (pit_table (pit nd))"

definition heap_size :: "'w node \<Rightarrow> nat" where
  "heap_size nd = length (pit_heap (pit nd))"

definition has_timeout :: "('w, 'd) pitEntry \<Rightarrow> bool" where
  "has_timeout entry \<longleftrightarrow> pe_onTimeout entry \<noteq> None \<or> i_interestLifetime (pe_interest entry) \<ge> 0"

definition scheduled :: "nat \<Rightarrow> delayedCall delayedCallTable \<Rightarrow> bool" where
  "scheduled a table \<longleftrightarrow> (\<exists>e \<in> set table. de_callback e = ProcessInterestTimeout a)"

definition node_wf :: "'w node \<Rightarrow> bool" where
  "node_wf nd \<longleftrightarrow> pit_wf (pit nd) \<and> delayed_wf (nd_delayedCallTable nd) \<and>
     (\<forall>a. scheduled a (nd_delayedCallTable nd) \<longrightarrow> a < heap_size nd) \<and>
     (\<forall>a \<in> pending nd. has_timeout (pit_heap (pit nd) ! a) \<longrightarrow> scheduled a (nd_delayedCallTable nd))"

text \<open>What an operation may do: call entries that were pending or new, at most once, and drop them.\<close>

definition good_step :: "'w node \<Rightarrow> 'w result \<Rightarrow> bool" where
  "good_step nd r \<longleftrightarrow>
    (case r of (nd', out, e) \<Rightarrow>
       node_wf nd' \<and> heap_size nd \<le> heap_size nd' \<and> distinct (entry_calls out) \<and>
       set (entry_calls out) \<subseteq> pending nd \<union> {heap_size nd..<heap_size nd'} \<and>
       set (entry_calls out) \<inter> pending nd' = {} \<and>
       pending nd' \<subseteq> pending nd \<union> {heap_size nd..<heap_size nd'})"

lemma pending_bound: "node_wf nd \<Longrightarrow> a \<in> pending nd \<Longrightarrow> a < heap_size nd"
  by (auto simp: node_wf_def pit_wf_def pending_def heap_size_def)

lemma good_step_trans:
  assumes "node_wf nd" and "good_step nd (nd1, out1, e1)" and "good_step nd1 (nd2, out2, e2)"
  shows "good_step nd (nd2, out1 @ out2, e2)"
proof -
  have g1: "node_wf nd1" "heap_size nd \<le> heap_size nd1" "distinct (entry_calls out1)"
    "set (entry_calls out1) \<subseteq> pending nd \<union> {heap_size nd..<heap_size nd1}"
    "set (entry_calls out1) \<inter> pending nd1 = {}"
    "pending nd1 \<subseteq> pending nd \<union> {heap_size nd..<heap_size nd1}"
    using assms(2) by (auto simp: good_step_def)
  have g2: "node_wf nd2" "heap_size nd1 \<le> heap_size nd2" "distinct (entry_calls out2)"
    "set (entry_calls out2) \<subseteq> pending nd1 \<union> {heap_size nd1..<heap_size nd2}"
    "set (entry_calls out2) \<inter> pending nd2 = {}"
    "pending nd2 \<subseteq> pending nd1 \<union> {heap_size nd1..<heap_size nd2}"
    using assms(3) by (auto simp: good_step_def)
  have old: "set (entry_calls out1) \<subseteq> {..<heap_size nd1}"
    using g1(4) pending_bound [OF assms(1)] g1(2) by fastforce
  have range: "{heap_size nd..<heap_size nd1} \<union> {heap_size nd1..<heap_size nd2} = {heap_size nd..<heap_size nd2}"
    using g1(2) g2(2) by auto
  have "set (entry_calls out1) \<inter> set (entry_calls out2) = {}"
    using g2(4) g1(5) old by fastforce
  moreover have "set (entry_calls out1) \<inter> pending nd2 = {}"
    using g2(6) g1(5) old by fastforce
  moreover have "set (entry_calls (out1 @ out2)) \<subseteq> pending nd \<union> {heap_size nd..<heap_size nd2}"
    using g1(4,6) g2(4) range by auto
  moreover have "pending nd2 \<subseteq> pending nd \<union> {heap_size nd..<heap_size nd2}"
    using g1(6) g2(6) range by blast
  ultimately show ?thesis
    using g1 g2 by (simp add: good_step_def Int_Un_distrib2)
qed

lemma good_step_andThen:
  assumes "node_wf nd" and "good_step nd r"
    and "\<And>nd'. node_wf nd' \<Longrightarrow> heap_size nd \<le> heap_size nd' \<Longrightarrow> good_step nd' (f nd')"
  shows "good_step nd (andThen r f)"
proof -
  obtain nd1 out1 e1 where r: "r = (nd1, out1, e1)"
    by (cases r)
  obtain nd2 out2 e2 where f: "f nd1 = (nd2, out2, e2)"
    by (cases "f nd1")
  have "node_wf nd1" "heap_size nd \<le> heap_size nd1"
    using assms(2) r by (simp_all add: good_step_def)
  then have "good_step nd1 (nd2, out2, e2)"
    using assms(3) f by metis
  then show ?thesis
    using good_step_trans [OF assms(1) assms(2) [unfolded r]] assms(2) r f
    by (cases e1) (simp_all add: andThen_def)
qed

lemma good_step_each:
  assumes "\<And>x nd'. x \<in> set xs \<Longrightarrow> node_wf nd' \<Longrightarrow> heap_size nd \<le> heap_size nd' \<Longrightarrow> good_step nd' (f x nd')"
    and "node_wf nd"
  shows "good_step nd (each f xs nd)"
  using assms
proof (induction xs arbitrary: nd)
  case Nil
  then show ?case by (simp add: good_step_def)
next
  case (Cons x xs)
  have "good_step nd (f x nd)"
    using Cons.prems by simp
  moreover have "good_step nd' (each f xs nd')" if "node_wf nd'" "heap_size nd \<le> heap_size nd'" for nd'
    using Cons.IH [of nd'] Cons.prems(1) that by (meson list.set_intros(2) order_trans)
  ultimately show ?case
    using good_step_andThen [OF Cons.prems(2)] by simp
qed

text \<open>Operations that leave the pending interests and the delayed calls alone.\<close>

definition same_pit :: "'w node \<Rightarrow> 'w node \<Rightarrow> bool" where
  "same_pit nd nd' \<longleftrightarrow> pit nd' = pit nd \<and> nd_delayedCallTable nd' = nd_delayedCallTable nd"

lemma same_pit_facts:
  assumes "same_pit nd nd'"
  shows "node_wf nd' = node_wf nd" and "pending nd' = pending nd" and "heap_size nd' = heap_size nd"
  using assms by (simp_all add: same_pit_def node_wf_def pending_def heap_size_def)

lemma good_step_same:
  "\<lbrakk>node_wf nd; same_pit nd nd'; entry_calls out = []\<rbrakk> \<Longrightarrow> good_step nd (nd', out, e)"
  by (simp add: good_step_def same_pit_facts)

section \<open>The invariant is kept\<close>

text \<open>Replacing the table: the entries taken out, with timeouts of the heap unchanged.\<close>

lemma node_wf_take_out:
  assumes "node_wf nd" and "pit_wf t" and "length (pit_heap t) = heap_size nd"
    and "set (pit_table t) \<subseteq> pending nd"
    and "\<And>a. a < heap_size nd \<Longrightarrow> has_timeout (pit_heap t ! a) = has_timeout (pit_heap (pit nd) ! a)"
  shows "node_wf (nd\<lparr>nd_pendingInterestTable := t\<rparr>)"
  using assms pending_bound [OF assms(1)]
  by (auto simp: node_wf_def heap_size_def pending_def subset_iff)

lemma has_timeout_setIsRemoved:
  "a < length heap \<Longrightarrow> has_timeout (fold setIsRemoved as heap ! a) = has_timeout (heap ! a)"
  by (simp add: nth_setIsRemoved has_timeout_def)

lemma int_getDefaultWireEncoding_lifetime:
  "i_interestLifetime (snd (int_getDefaultWireEncoding i)) = i_interestLifetime i"
  by (simp add: int_getDefaultWireEncoding_def int_getChangeCount_def int_changed_def Let_def case_prod_unfold)

lemma int_setDefaultWireEncoding_lifetime:
  "i_interestLifetime (int_setDefaultWireEncoding e f i) = i_interestLifetime i"
  by (simp add: int_setDefaultWireEncoding_def int_getChangeCount_def int_changed_def Let_def case_prod_unfold)

lemma int_wireEncode_lifetime:
  "int_wireEncode dflt enc w i = Inr (e, i') \<Longrightarrow> i_interestLifetime i' = i_interestLifetime i"
  using int_getDefaultWireEncoding_lifetime [of i]
  by (auto simp: int_wireEncode_def bindE_eq_Inr int_setDefaultWireEncoding_lifetime
      split: prod.splits option.splits if_splits)

lemma nack_test_timeout:
  assumes "nack_test enc dflt encoding a heap = Inr (b, heap')"
  shows "has_timeout (heap' ! x) = has_timeout (heap ! x)"
proof (cases "a < length heap \<and> x = a")
  case True
  then show ?thesis
    using assms
    by (auto simp: nack_test_def bindE_eq_Inr has_timeout_def split: if_splits dest: int_wireEncode_lifetime)
next
  case False
  then show ?thesis
    using assms by (cases "a < length heap") (auto simp: nack_test_def bindE_eq_Inr list_update_beyond split: if_splits)
qed

lemma extract_nack_timeout:
  assumes "extract_loop (nack_test enc dflt encoding) as heap = (entries, kept, heap', e)"
  shows "has_timeout (heap' ! x) = has_timeout (heap ! x)"
  using assms
proof (induction as arbitrary: heap entries kept)
  case (Cons a as)
  show ?case
  proof (cases "nack_test enc dflt encoding a heap")
    case (Inr bh)
    obtain b h where bh: "bh = (b, h)"
      by fastforce
    then obtain entries' kept' where "extract_loop (nack_test enc dflt encoding) as h = (entries', kept', heap', e)"
      using Cons.prems Inr by (auto split: prod.splits if_splits)
    then show ?thesis
      using Cons.IH nack_test_timeout [OF Inr [unfolded bh]] by simp
  qed (use Cons.prems in simp)
qed simp

lemma extract_data_node:
  assumes "node_wf nd" and "extractEntriesForExpressedInterest env data (pit nd) = (entries, data', t, e)"
  shows "node_wf (nd\<lparr>nd_pendingInterestTable := t\<rparr>)" and "heap_size (nd\<lparr>nd_pendingInterestTable := t\<rparr>) = heap_size nd"
    and "distinct entries" and "set entries \<subseteq> pending nd"
    and "pending (nd\<lparr>nd_pendingInterestTable := t\<rparr>) = pending nd - set entries"
proof -
  have wf: "pit_wf (pit nd)"
    using assms(1) by (simp add: node_wf_def)
  note ex = extractEntriesForExpressedInterest_wf [OF wf assms(2)]
  have "has_timeout (pit_heap t ! a) = has_timeout (pit_heap (pit nd) ! a)" if "a < heap_size nd" for a
    using assms(2) that
    by (auto simp: extractEntriesForExpressedInterest_def has_timeout_setIsRemoved heap_size_def split: prod.splits)
  then show "node_wf (nd\<lparr>nd_pendingInterestTable := t\<rparr>)"
    using ex by (intro node_wf_take_out [OF assms(1)]) (auto simp: heap_size_def pending_def)
  show "heap_size (nd\<lparr>nd_pendingInterestTable := t\<rparr>) = heap_size nd" "distinct entries" "set entries \<subseteq> pending nd"
    "pending (nd\<lparr>nd_pendingInterestTable := t\<rparr>) = pending nd - set entries"
    using ex by (simp_all add: heap_size_def pending_def)
qed

lemma extract_nack_node:
  assumes "node_wf nd" and "extractEntriesForNackInterest enc dflt i (pit nd) = (entries, t, e)"
  shows "node_wf (nd\<lparr>nd_pendingInterestTable := t\<rparr>)" and "heap_size (nd\<lparr>nd_pendingInterestTable := t\<rparr>) = heap_size nd"
    and "distinct entries" and "set entries \<subseteq> pending nd"
    and "pending (nd\<lparr>nd_pendingInterestTable := t\<rparr>) = pending nd - set entries"
proof -
  have wf: "pit_wf (pit nd)"
    using assms(1) by (simp add: node_wf_def)
  note ex = extractEntriesForNackInterest_wf [OF wf assms(2)]
  have "has_timeout (pit_heap t ! a) = has_timeout (pit_heap (pit nd) ! a)" if "a < heap_size nd" for a
  proof (cases "int_wireEncode dflt enc dflt i")
    case (Inl x)
    then show ?thesis
      using assms(2) by (simp add: extractEntriesForNackInterest_def)
  next
    case (Inr ei)
    then obtain encoding kept heap where
      l: "extract_loop (nack_test enc dflt encoding) (rev (pit_table (pit nd))) (pit_heap (pit nd)) = (entries, kept, heap, e)"
      and t: "pit_heap t = fold setIsRemoved entries heap"
      using assms(2) by (auto simp: extractEntriesForNackInterest_def split: prod.splits)
    have "length heap = heap_size nd"
      using extract_nack_heap [OF l] by (simp add: heap_size_def)
    then show ?thesis
      using t that extract_nack_timeout [OF l] has_timeout_setIsRemoved [of a heap entries] by simp
  qed
  then show "node_wf (nd\<lparr>nd_pendingInterestTable := t\<rparr>)"
    using ex by (intro node_wf_take_out [OF assms(1)]) (auto simp: heap_size_def pending_def)
  show "heap_size (nd\<lparr>nd_pendingInterestTable := t\<rparr>) = heap_size nd" "distinct entries" "set entries \<subseteq> pending nd"
    "pending (nd\<lparr>nd_pendingInterestTable := t\<rparr>) = pending nd - set entries"
    using ex by (simp_all add: heap_size_def pending_def)
qed

text \<open>The loops that call the extracted entries.\<close>

lemma registerResponse_same:
  assumes "registerResponse env info d nd = (nd', out, e)"
  shows "same_pit nd nd'" and "entry_calls out = []" and "e = None"
  using assms
  by (auto simp: registerResponse_def registerFailed_def registerSucceeded_def getNextEntryId_def
      same_pit_def rpt_add_def Let_def split: sum.splits if_splits option.splits prod.splits)

lemma call_onData_same:
  assumes "call_onData env d a nd = (nd', out, e)"
  shows "same_pit nd nd'" and "entry_calls out = [a]" and "e = None"
proof -
  have all: "same_pit nd nd' \<and> entry_calls out = [a] \<and> e = None"
  proof (cases "pe_onData (pit_heap (pit nd) ! a)")
    case (UserCallback cb)
    then show ?thesis
      using assms by (auto simp: call_onData_def andThen_def same_pit_def)
  next
    case (RegisterResponse info)
    obtain nd1 out1 e1 where "registerResponse env info d nd = (nd1, out1, e1)"
      by (cases "registerResponse env info d nd")
    then show ?thesis
      using assms RegisterResponse registerResponse_same [of env info d nd nd1 out1 e1]
      by (auto simp: call_onData_def andThen_def)
  qed
  then show "same_pit nd nd'" "entry_calls out = [a]" "e = None"
    by simp_all
qed

lemma each_same:
  assumes "\<And>x nd nd' out e. f x nd = (nd', out, e) \<Longrightarrow> same_pit nd nd' \<and> set (entry_calls out) \<subseteq> {x} \<and> distinct (entry_calls out) \<and> e = None"
    and "each f xs nd = (nd', out, e)" and "distinct xs"
  shows "same_pit nd nd' \<and> set (entry_calls out) \<subseteq> set xs \<and> distinct (entry_calls out) \<and> e = None"
  using assms(2,3)
proof (induction xs arbitrary: nd out)
  case Nil
  then show ?case by (simp add: same_pit_def)
next
  case (Cons x xs)
  obtain nd1 out1 e1 where f: "f x nd = (nd1, out1, e1)"
    by (cases "f x nd")
  obtain nd2 out2 e2 where g: "each f xs nd1 = (nd2, out2, e2)"
    by (cases "each f xs nd1")
  have "e1 = None" using assms(1) [OF f] by simp
  then have "nd' = nd2" "out = out1 @ out2" "e = e2"
    using Cons.prems(1) f g by (simp_all add: andThen_def)
  then show ?case
    using assms(1) [OF f] Cons.IH [of nd1 out2] g Cons.prems(2)
    by (auto simp: same_pit_def)
qed

lemma good_step_extracted:
  assumes "node_wf nd1" and "heap_size nd1 = heap_size nd" and "distinct entries" and "set entries \<subseteq> pending nd"
    and "pending nd1 = pending nd - set entries"
    and "\<And>x nd nd' out e. f x nd = (nd', out, e) \<Longrightarrow> same_pit nd nd' \<and> set (entry_calls out) \<subseteq> {x} \<and> distinct (entry_calls out) \<and> e = None"
  shows "good_step nd (each f entries nd1)"
proof -
  obtain nd2 out e where r: "each f entries nd1 = (nd2, out, e)"
    by (cases "each f entries nd1")
  note same = each_same [OF assms(6) r assms(3)]
  then have "node_wf nd2" "pending nd2 = pending nd1" "heap_size nd2 = heap_size nd1"
    using same_pit_facts [of nd1 nd2] assms(1) by simp_all
  then show ?thesis
    using assms same r by (auto simp: good_step_def)
qed

lemma satisfyPendingInterests_good:
  assumes "node_wf nd"
  shows "good_step nd (satisfyPendingInterests env d nd)"
proof -
  obtain entries d' t e where x: "extractEntriesForExpressedInterest (ne_wire env) d (pit nd) = (entries, d', t, e)"
    by (metis prod_cases4)
  note ex = extract_data_node [OF assms x]
  show ?thesis
  proof (cases e)
    case None
    then show ?thesis
      using x good_step_extracted [OF ex, of "call_onData env d'"] call_onData_same
      by (fastforce simp: satisfyPendingInterests_def)
  next
    case (Some err)
    then show ?thesis
      using x ex by (auto simp: satisfyPendingInterests_def good_step_def)
  qed
qed

lemma satisfyPendingInterestsCopy_good:
  assumes "node_wf nd"
  shows "good_step nd (snd (satisfyPendingInterestsCopy env d nd))"
proof -
  obtain entries d' t e where x: "extractEntriesForExpressedInterest (ne_wire env) d (pit nd) = (entries, d', t, e)"
    by (metis prod_cases4)
  note ex = extract_data_node [OF assms x]
  show ?thesis
  proof (cases e)
    case None
    then show ?thesis
      using x good_step_extracted [OF ex, of "call_onData env (data_copy d')"] call_onData_same
      by (fastforce simp: satisfyPendingInterestsCopy_def)
  next
    case (Some err)
    then show ?thesis
      using x ex by (auto simp: satisfyPendingInterestsCopy_def good_step_def)
  qed
qed

lemma onNack_good:
  assumes "node_wf nd"
  shows "good_step nd (onNack env i r nd)"
proof -
  obtain entries t e where x: "extractEntriesForNackInterest (ne_encodeInterest env) (env_default (ne_wire env)) i (pit nd) = (entries, t, e)"
    by (metis prod_cases3)
  note ex = extract_nack_node [OF assms x]
  show ?thesis
  proof (cases e)
    case None
    have "good_step nd (each (\<lambda>a nd. (nd, case pe_onNetworkNack (pit_heap (pit nd) ! a) of
         None \<Rightarrow> [] | Some cb \<Rightarrow> [OnNetworkNack a cb r], None)) entries (nd\<lparr>nd_pendingInterestTable := t\<rparr>))"
      by (rule good_step_extracted [OF ex]) (auto simp: same_pit_def split: option.splits)
    with None show ?thesis
      using x by (simp add: onNack_def)
  next
    case (Some err)
    then show ?thesis
      using x ex by (auto simp: onNack_def good_step_def)
  qed
qed

lemma scheduled_callLater:
  "scheduled a (callLater now delay c table) \<longleftrightarrow> c = ProcessInterestTimeout a \<or> scheduled a table"
  by (auto simp: scheduled_def callLater_set)

lemma pit_add_node:
  assumes "node_wf nd" and "pit_add entry (pit nd) = (a, t)"
  shows "a = None \<Longrightarrow> node_wf (nd\<lparr>nd_pendingInterestTable := t\<rparr>) \<and> set (pit_table t) = pending nd \<and> length (pit_heap t) = heap_size nd"
    and "a = Some b \<Longrightarrow> b = heap_size nd \<and> set (pit_table t) = insert b (pending nd) \<and>
      length (pit_heap t) = Suc (heap_size nd) \<and> pit_wf t \<and> pit_heap t = pit_heap (pit nd) @ [entry\<lparr>pe_isRemoved := False\<rparr>]"
proof -
  have wf: "pit_wf (pit nd)"
    using assms(1) by (simp add: node_wf_def)
  have t: "pit_wf t"
    using pit_add_wf [OF wf, of entry] assms(2) by simp
  show "node_wf (nd\<lparr>nd_pendingInterestTable := t\<rparr>) \<and> set (pit_table t) = pending nd \<and> length (pit_heap t) = heap_size nd"
    if "a = None"
    using that assms t by (auto simp: pit_add_def node_wf_def pending_def heap_size_def split: if_splits)
  show "b = heap_size nd \<and> set (pit_table t) = insert b (pending nd) \<and>
      length (pit_heap t) = Suc (heap_size nd) \<and> pit_wf t \<and> pit_heap t = pit_heap (pit nd) @ [entry\<lparr>pe_isRemoved := False\<rparr>]"
    if "a = Some b"
    using that assms(2) t by (auto simp: pit_add_def pending_def heap_size_def split: if_splits)
qed

text \<open>The node after a new entry was added and its timeout scheduled.\<close>

lemma node_wf_added:
  assumes "node_wf nd" and "pit_wf t" and "set (pit_table t) = insert (heap_size nd) (pending nd)"
    and "length (pit_heap t) = Suc (heap_size nd)"
    and "\<And>a. a < heap_size nd \<Longrightarrow> has_timeout (pit_heap t ! a) = has_timeout (pit_heap (pit nd) ! a)"
    and "delayed_wf dt" and "\<And>a. scheduled a dt \<longleftrightarrow>
      scheduled a (nd_delayedCallTable nd) \<or> a = heap_size nd \<and> has_timeout (pit_heap t ! a)"
  shows "node_wf (nd\<lparr>nd_pendingInterestTable := t, nd_delayedCallTable := dt\<rparr>)"
proof -
  have "a < Suc (heap_size nd)" if "scheduled a (nd_delayedCallTable nd)" for a
    using assms(1) that by (auto simp: node_wf_def less_Suc_eq)
  moreover have "scheduled a (nd_delayedCallTable nd)" if "a \<in> pending nd" "has_timeout (pit_heap t ! a)" for a
    using assms(1,5) that pending_bound [OF assms(1)] by (auto simp: node_wf_def)
  ultimately show ?thesis
    using assms(2-4,6,7) by (auto simp: node_wf_def pending_def heap_size_def)
qed

lemma pit_wf_update_interest:
  assumes "pit_wf t"
  shows "pit_wf (t\<lparr>pit_heap := (pit_heap t)[a := (pit_heap t ! a)\<lparr>pe_interest := i\<rparr>]\<rparr>)"
proof -
  have same: "pe_isRemoved ((pit_heap t)[a := (pit_heap t ! a)\<lparr>pe_interest := i\<rparr>] ! b) = pe_isRemoved (pit_heap t ! b) \<and>
    pe_pendingInterestId ((pit_heap t)[a := (pit_heap t ! a)\<lparr>pe_interest := i\<rparr>] ! b) = pe_pendingInterestId (pit_heap t ! b)" for b
    by (cases "a < length (pit_heap t)"; cases "a = b") (simp_all add: list_update_beyond)
  then show ?thesis
    using assms by (simp add: pit_wf_def)
qed

lemma dispatchInterest_same:
  "dispatchInterest env i nd = (nd', out, e) \<Longrightarrow> nd' = nd \<and> entry_calls out = []"
  by (auto simp: dispatchInterest_def entry_calls_def split: sum.splits)

lemma expressInterestHelper_good:
  assumes "node_wf nd"
  shows "good_step nd (expressInterestHelper env now args nd)"
proof -
  let ?i = "xa_interest args"
  let ?entry = "\<lparr>pe_pendingInterestId = xa_pendingInterestId args, pe_interest = ?i,
            pe_onData = xa_onData args, pe_onTimeout = xa_onTimeout args,
            pe_onNetworkNack = xa_onNetworkNack args, pe_isRemoved = False\<rparr>"
  obtain pa t where p: "pit_add ?entry (pit nd) = (pa, t)"
    by fastforce
  show ?thesis
  proof (cases pa)
    case None
    then show ?thesis
      using pit_add_node(1) [OF assms p None] p
      by (simp add: expressInterestHelper_def good_step_def pending_def heap_size_def)
  next
    case (Some a)
    note add = pit_add_node(2) [OF assms p Some]
    define D where "D = (if xa_onTimeout args \<noteq> None \<or> i_interestLifetime ?i \<ge> 0
      then callLater now (timeout_delay ?i) (ProcessInterestTimeout a) (nd_delayedCallTable nd) else nd_delayedCallTable nd)"
    let ?nd = "nd\<lparr>nd_pendingInterestTable := t, nd_delayedCallTable := D\<rparr>"
    have dw: "delayed_wf (nd_delayedCallTable nd)"
      using assms by (simp add: node_wf_def)
    have dt: "delayed_wf D" "\<And>b. scheduled b D \<longleftrightarrow> scheduled b (nd_delayedCallTable nd) \<or>
        b = heap_size nd \<and> (xa_onTimeout args \<noteq> None \<or> i_interestLifetime ?i \<ge> 0)"
      using dw add callLater_wf by (auto simp: D_def scheduled_callLater)
    have good: "good_step nd (nd\<lparr>nd_pendingInterestTable := t', nd_delayedCallTable := D\<rparr>, out, e)"
      if "pit_wf t'" "pit_table t' = pit_table t" "length (pit_heap t') = length (pit_heap t)"
        "\<And>b. has_timeout (pit_heap t' ! b) = has_timeout (pit_heap t ! b)" "entry_calls out = []" for t' out e
    proof -
      have "has_timeout (pit_heap t' ! b) = has_timeout (pit_heap (pit nd) ! b)" if "b < heap_size nd" for b
        using that add \<open>\<And>b. has_timeout (pit_heap t' ! b) = has_timeout (pit_heap t ! b)\<close>
        by (simp add: heap_size_def nth_append)
      moreover have "has_timeout (pit_heap t' ! heap_size nd) \<longleftrightarrow> xa_onTimeout args \<noteq> None \<or> i_interestLifetime ?i \<ge> 0"
        using that(4) add by (simp add: heap_size_def has_timeout_def)
      ultimately have "node_wf (nd\<lparr>nd_pendingInterestTable := t', nd_delayedCallTable := D\<rparr>)"
        using that add dt by (intro node_wf_added [OF assms]) auto
      then show ?thesis
        using that add by (auto simp: good_step_def pending_def heap_size_def)
    qed
    have upd: "schedule_timeout now ?i (xa_onTimeout args) a (nd\<lparr>nd_pendingInterestTable := t\<rparr>) = ?nd"
      by (simp add: schedule_timeout_def D_def)
    show ?thesis
    proof (cases "name_match timeoutPrefix (int_getName ?i)")
      case True
      then show ?thesis
        using p Some good [of t] add upd by (simp add: expressInterestHelper_def Let_def)
    next
      case False
      show ?thesis
      proof (cases "int_wireEncode (env_default (ne_wire env)) (ne_encodeInterest env) (xa_wireFormat args) ?i")
        case (Inl x)
        then show ?thesis
          using p Some False good [of t] add upd by (simp add: expressInterestHelper_def Let_def)
      next
        case (Inr ei)
        obtain e i where ei: "ei = (e, i)"
          by fastforce
        let ?t = "t\<lparr>pit_heap := (pit_heap t)[a := (pit_heap t ! a)\<lparr>pe_interest := i\<rparr>]\<rparr>"
        have life: "i_interestLifetime i = i_interestLifetime ?i"
          using int_wireEncode_lifetime [of _ _ _ ?i e i] Inr ei by blast
        have "has_timeout (pit_heap ?t ! b) = has_timeout (pit_heap t ! b)" for b
          using add life by (cases "b = a") (auto simp: has_timeout_def nth_append heap_size_def)
        note ht = this
        have pw: "pit_wf ?t"
          using add pit_wf_update_interest by blast
        have g: "good_step nd (nd\<lparr>nd_pendingInterestTable := ?t, nd_delayedCallTable := D\<rparr>, out, err)"
          if "entry_calls out = []" for out err
          by (rule good [OF pw _ _ ht that]) simp_all
        have swap: "nd\<lparr>nd_delayedCallTable := D, nd_pendingInterestTable := X\<rparr> =
            nd\<lparr>nd_pendingInterestTable := X, nd_delayedCallTable := D\<rparr>" for X
          by simp
        let ?out = "dispatchInterest env i (nd\<lparr>nd_pendingInterestTable := ?t, nd_delayedCallTable := D\<rparr>)"
        obtain x y z where d: "?out = (x, y, z)"
          by (cases ?out)
        have "x = nd\<lparr>nd_pendingInterestTable := ?t, nd_delayedCallTable := D\<rparr>" "entry_calls y = []"
          using dispatchInterest_same [OF d] by simp_all
        then show ?thesis
          using p Some False Inr ei upd d g [of "[]"] g [of "[Send (sb_bytes e)]"] g [of "Send (sb_bytes e) # y" z]
          by (simp add: expressInterestHelper_def andThen_def Let_def swap)
      qed
    qed
  qed
qed

lemma processInterestTimeout_calls:
  assumes "removeEntry a (pit nd) = (b, t)" and "processInterestTimeout a nd = (nd', out, e)"
  shows "nd' = nd\<lparr>nd_pendingInterestTable := t\<rparr> \<and> e = None \<and> (entry_calls out = [] \<or> b \<and> entry_calls out = [a])"
  using assms
  by (auto simp: processInterestTimeout_def Let_def andThen_def registerFailed_def
      split: if_splits option.splits callback.splits)

text \<open>
  The delayed calls that are due are taken out of the table, then made one after the other; an entry
  whose timeout is due must not be pending when the table is put back.
\<close>

definition due :: "int \<Rightarrow> 'w node \<Rightarrow> delayedCall list" where
  "due now nd = map de_callback (filter (\<lambda>e. de_callTime e \<le> now) (nd_delayedCallTable nd))"

text \<open>The invariant while due calls are being made: calls still to be made count as scheduled.\<close>

definition node_wf_due :: "delayedCall list \<Rightarrow> 'w node \<Rightarrow> bool" where
  "node_wf_due calls nd \<longleftrightarrow> pit_wf (pit nd) \<and> delayed_wf (nd_delayedCallTable nd) \<and>
     (\<forall>a. scheduled a (nd_delayedCallTable nd) \<longrightarrow> a < heap_size nd) \<and>
     (\<forall>a. ProcessInterestTimeout a \<in> set calls \<longrightarrow> a < heap_size nd) \<and>
     (\<forall>a \<in> pending nd. has_timeout (pit_heap (pit nd) ! a) \<longrightarrow>
        scheduled a (nd_delayedCallTable nd) \<or> ProcessInterestTimeout a \<in> set calls)"

lemma node_wf_due_Nil: "node_wf_due [] nd \<longleftrightarrow> node_wf nd"
  by (simp add: node_wf_due_def node_wf_def)

lemma callDelayed_due:
  assumes "node_wf_due (c # calls) nd" and "callDelayed c nd = (nd', out, e)"
  shows "node_wf_due calls nd'" and "e = None" and "heap_size nd' = heap_size nd"
    and "nd_delayedCallTable nd' = nd_delayedCallTable nd"
    and "pending nd' = pending nd - {a. c = ProcessInterestTimeout a}"
    and "distinct (entry_calls out)" and "set (entry_calls out) \<subseteq> pending nd \<inter> {a. c = ProcessInterestTimeout a}"
proof -
  have all: "node_wf_due calls nd' \<and> e = None \<and> heap_size nd' = heap_size nd \<and>
    nd_delayedCallTable nd' = nd_delayedCallTable nd \<and> pending nd' = pending nd - {a. c = ProcessInterestTimeout a} \<and>
    distinct (entry_calls out) \<and> set (entry_calls out) \<subseteq> pending nd \<inter> {a. c = ProcessInterestTimeout a}"
  proof (cases c)
    case (UserCall cb)
    have "nd' = nd" "out = [CallUser cb]" "e = None"
      using assms(2) UserCall by simp_all
    then show ?thesis
      using assms(1) UserCall by (simp add: node_wf_due_def)
  next
    case (ProcessInterestTimeout a)
    have wf: "pit_wf (pit nd)" and a: "a < length (pit_heap (pit nd))"
      using assms(1) ProcessInterestTimeout by (auto simp: node_wf_due_def heap_size_def)
    obtain b t where r: "removeEntry a (pit nd) = (b, t)"
      by fastforce
    note re = removeEntry_wf [OF wf a, unfolded r fst_conv snd_conv]
    have same: "has_timeout (pit_heap t ! x) = has_timeout (pit_heap (pit nd) ! x)" if "x < heap_size nd" for x
      using r that has_timeout_setIsRemoved [of x "pit_heap (pit nd)" "[a]"]
      by (auto simp: removeEntry_def heap_size_def split: if_splits)
    have sub: "set (pit_table (pit nd)) \<subseteq> {..<heap_size nd}"
      using wf by (simp add: pit_wf_def heap_size_def)
    have due: "node_wf_due calls (nd\<lparr>nd_pendingInterestTable := t\<rparr>)"
    proof -
      have "scheduled x (nd_delayedCallTable nd) \<or> ProcessInterestTimeout x \<in> set calls"
        if "x \<in> set (pit_table t)" "has_timeout (pit_heap t ! x)" for x
      proof -
        have "x \<in> pending nd" "x \<noteq> a" "x < heap_size nd"
          using that(1) re(3) sub by (auto simp: pending_def)
        then show ?thesis
          using same [of x] that(2) assms(1) ProcessInterestTimeout by (auto simp: node_wf_due_def)
      qed
      then show ?thesis
        using assms(1) re(1,4) by (simp add: node_wf_due_def pending_def heap_size_def)
    qed
    have nd': "nd' = nd\<lparr>nd_pendingInterestTable := t\<rparr>" "e = None" "entry_calls out = [] \<or> b \<and> entry_calls out = [a]"
      using processInterestTimeout_calls [OF r] assms(2) ProcessInterestTimeout by simp_all
    have c: "{x. c = ProcessInterestTimeout x} = {a}"
      using ProcessInterestTimeout by auto
    have "pending nd' = pending nd - {a}" "heap_size nd' = heap_size nd"
      using nd'(1) re(3,4) by (simp_all add: pending_def heap_size_def)
    moreover have "distinct (entry_calls out)" "set (entry_calls out) \<subseteq> pending nd \<inter> {a}"
      using nd'(3) re(2) by (auto simp: pending_def)
    ultimately show ?thesis
      using due nd'(1,2) unfolding c by simp
  qed
  then show "node_wf_due calls nd'" "e = None" "heap_size nd' = heap_size nd"
    "nd_delayedCallTable nd' = nd_delayedCallTable nd" "pending nd' = pending nd - {a. c = ProcessInterestTimeout a}"
    "distinct (entry_calls out)" "set (entry_calls out) \<subseteq> pending nd \<inter> {a. c = ProcessInterestTimeout a}"
    by simp_all
qed

lemma each_callDelayed:
  assumes "node_wf_due calls nd" and "each callDelayed calls nd = (nd', out, e)"
  shows "node_wf nd' \<and> e = None \<and> heap_size nd' = heap_size nd \<and> nd_delayedCallTable nd' = nd_delayedCallTable nd \<and>
    pending nd' = pending nd - {a. ProcessInterestTimeout a \<in> set calls} \<and> distinct (entry_calls out) \<and>
    set (entry_calls out) \<subseteq> pending nd \<inter> {a. ProcessInterestTimeout a \<in> set calls}"
  using assms
proof (induction calls arbitrary: nd nd' out e)
  case Nil
  then show ?case by (simp add: node_wf_due_Nil)
next
  case (Cons c calls)
  obtain nd1 out1 e1 where c: "callDelayed c nd = (nd1, out1, e1)"
    by (cases "callDelayed c nd")
  note d = callDelayed_due [OF Cons.prems(1) c]
  obtain nd2 out2 e2 where r: "each callDelayed calls nd1 = (nd2, out2, e2)"
    by (cases "each callDelayed calls nd1")
  note IH = Cons.IH [OF d(1) r]
  have "nd' = nd2" "out = out1 @ out2" "e = e2"
    using Cons.prems(2) c r d(2) by (simp_all add: andThen_def)
  then show ?case
    using IH d by auto
qed

lemma processEvents_facts:
  assumes "node_wf nd" and "processEvents now nd = (nd', out, e)"
  shows "node_wf nd' \<and> e = None \<and> heap_size nd' = heap_size nd \<and>
    nd_delayedCallTable nd' = filter (\<lambda>e. \<not> de_callTime e \<le> now) (nd_delayedCallTable nd) \<and>
    pending nd' = pending nd - {a. ProcessInterestTimeout a \<in> set (due now nd)} \<and> distinct (entry_calls out) \<and>
    set (entry_calls out) \<subseteq> pending nd \<inter> {a. ProcessInterestTimeout a \<in> set (due now nd)}"
proof -
  let ?rest = "filter (\<lambda>e. \<not> de_callTime e \<le> now) (nd_delayedCallTable nd)"
  have dw: "delayed_wf (nd_delayedCallTable nd)"
    using assms(1) by (simp add: node_wf_def)
  have calls: "callTimedOut now (nd_delayedCallTable nd) = (due now nd, ?rest)"
    using callTimedOut_spec [OF dw] by (simp add: due_def)
  have split: "scheduled a (nd_delayedCallTable nd) \<longleftrightarrow> scheduled a ?rest \<or> ProcessInterestTimeout a \<in> set (due now nd)" for a
    by (auto simp: scheduled_def due_def image_iff)
  have "node_wf_due (due now nd) (nd\<lparr>nd_delayedCallTable := ?rest\<rparr>)"
    using assms(1) callTimedOut_wf [OF dw calls] split
    by (auto simp: node_wf_def node_wf_due_def pending_def heap_size_def)
  then show ?thesis
    using each_callDelayed [of "due now nd" "nd\<lparr>nd_delayedCallTable := ?rest\<rparr>" nd' out e] assms(2) calls
    by (simp add: processEvents_def pending_def heap_size_def)
qed

lemma processEvents_good: "node_wf nd \<Longrightarrow> good_step nd (processEvents now nd)"
  using processEvents_facts [of nd now] by (cases "processEvents now nd") (auto simp: good_step_def)

lemma good_step_cong:
  assumes "same_pit nd0 nd" and "good_step nd r"
  shows "good_step nd0 r"
  using assms same_pit_facts [OF assms(1)] by (simp add: good_step_def)

lemma expressInterest_good:
  assumes "node_wf nd" and "expressInterest env now draws args nd = Some r"
  shows "good_step nd r"
proof -
  obtain i where i: "with_nonce draws (xa_interest args) = Some i"
    using assms(2) by (auto simp: expressInterest_def split: option.splits)
  let ?args = "args\<lparr>xa_interest := i\<rparr>"
  have same: "good_step nd (nd', out, None)" if "same_pit nd nd'" "entry_calls out = []" for nd' out
    using good_step_same assms(1) that by blast
  have sync: "good_step nd (andThen (andThen (nd, [Connect], None) (expressInterestHelper env now ?args))
      (\<lambda>nd. (nd\<lparr>nd_connectStatus := CONNECT_COMPLETE\<rparr>, [], None)))"
  proof (rule good_step_andThen [OF assms(1) good_step_andThen [OF assms(1)]])
    show "good_step nd (nd, [Connect], None)"
      by (rule same) (simp_all add: same_pit_def)
  qed (auto intro: good_step_same expressInterestHelper_good simp: same_pit_def)
  show ?thesis
    using assms i sync expressInterestHelper_good [OF assms(1), of env now ?args]
    by (auto simp: expressInterest_def Let_def same_pit_def split: if_splits intro: same)
qed

lemma onConnected_good: "node_wf nd \<Longrightarrow> good_step nd (onConnected env now nd)"
  unfolding onConnected_def
  by (intro good_step_andThen good_step_each)
    (auto intro: expressInterestHelper_good good_step_same simp: same_pit_def)

lemma dispatchInterest_good: "node_wf nd \<Longrightarrow> good_step nd (dispatchInterest env i nd)"
  using dispatchInterest_same [of env i nd]
  by (cases "dispatchInterest env i nd") (auto intro: good_step_same simp: same_pit_def)

lemma onReceivedElement_good:
  assumes "node_wf nd" and "onReceivedElement env element nd = Some r"
  shows "good_step nd r"
proof -
  have quiet: "good_step nd (nd, [], e)" for e
    using good_step_same [OF assms(1)] by (simp add: same_pit_def)
  show ?thesis
    using assms quiet
    by (auto simp: onReceivedElement_def dispatchInterest_good onNack_good satisfyPendingInterests_good
        split: option.splits sum.splits prod.splits if_splits)
qed

lemma putData_good:
  assumes "node_wf nd"
  shows "good_step nd (putData env w d nd)"
proof -
  define send_it :: "'a node \<Rightarrow> 'a result" where "send_it = (\<lambda>nd. case data_wireEncode (ne_wire env) w d of
           Inl e \<Rightarrow> (nd, [], Some e)
         | Inr (encoding, _) \<Rightarrow>
             if length (sb_bytes encoding) > getMaxNdnPacketSize
             then (nd, [], Some (Runtime_error ''The encoded Data packet size exceeds the maximum limit getMaxNdnPacketSize()''))
             else node_send (sb_bytes encoding) nd)"
  have send: "good_step nd' (send_it nd')" if "node_wf nd'" for nd'
    using good_step_same [OF that]
    by (auto simp: send_it_def node_send_def same_pit_def split: sum.splits prod.splits)
  have "putData env w d nd =
     (if nd_interestLoopbackEnabled nd then
        if fst (satisfyPendingInterestsCopy env d nd) then snd (satisfyPendingInterestsCopy env d nd)
        else andThen (snd (satisfyPendingInterestsCopy env d nd)) send_it
      else send_it nd)"
    unfolding putData_def send_it_def Let_def by (simp add: case_prod_unfold)
  then show ?thesis
    using send [OF assms] satisfyPendingInterestsCopy_good [OF assms, of env d]
      good_step_andThen [OF assms satisfyPendingInterestsCopy_good [OF assms, of env d], of send_it] send
    by auto
qed

lemma node_step_good:
  assumes "node_wf nd" and "node_step env op nd = Some r"
  shows "good_step nd r"
proof (cases op)
  case (Register now draws info cert w)
  have quiet: "good_step nd (nd, [], e)" for e
    using good_step_same [OF assms(1)] by (simp add: same_pit_def)
  have "same_pit nd (snd (getNextEntryId nd))"
    by (simp add: getNextEntryId_def same_pit_def)
  then have "good_step nd r'" if "expressInterest env now draws args (snd (getNextEntryId nd)) = Some r'" for args r'
    using expressInterest_good [OF _ that] good_step_cong same_pit_facts(1) assms(1) by blast
  then show ?thesis
    using assms(2) Register quiet
    by (auto simp: nfdRegisterPrefix_def Let_def getNextEntryId_def split: if_splits sum.splits)
next
  case (RemovePending i)
  have wf: "pit_wf (pit nd)"
    using assms(1) by (simp add: node_wf_def)
  note rm = removePendingInterest_wf [OF wf, of i]
  have "has_timeout (pit_heap (removePendingInterest i (pit nd)) ! a) = has_timeout (pit_heap (pit nd) ! a)"
    if "a < heap_size nd" for a
    using that by (simp add: removePendingInterest_def Let_def has_timeout_setIsRemoved heap_size_def)
  then have "node_wf (nd\<lparr>nd_pendingInterestTable := removePendingInterest i (pit nd)\<rparr>)"
    using rm by (intro node_wf_take_out [OF assms(1)]) (auto simp: heap_size_def pending_def)
  moreover have "r = (nd\<lparr>nd_pendingInterestTable := removePendingInterest i (pit nd)\<rparr>, [], None)"
    using assms(2) RemovePending by (simp add: node_removePendingInterest_def)
  ultimately show ?thesis
    by (simp add: good_step_def pending_def heap_size_def rm(2,3))
next
  case (CallLater now delay cb)
  have "node_wf (nd\<lparr>nd_delayedCallTable := callLater now delay (UserCall cb) (nd_delayedCallTable nd)\<rparr>)"
    using assms(1) callLater_wf by (auto simp: node_wf_def scheduled_callLater pending_def heap_size_def)
  then show ?thesis
    using assms(2) CallLater by (auto simp: node_callLater_def good_step_def pending_def heap_size_def)
next
  case (PutNack i reason)
  then show ?thesis
    using assms good_step_same [OF assms(1)]
    by (auto simp: putNack_def node_send_def same_pit_def split: sum.splits prod.splits)
qed (use assms in \<open>auto intro: expressInterest_good onConnected_good onReceivedElement_good processEvents_good
       putData_good good_step_same simp: node_removeRegisteredPrefix_def node_setInterestFilter_def
       node_unsetInterestFilter_def node_shutdown_def same_pit_def split: prod.splits\<close>)

lemma node_run_good:
  assumes "node_wf nd" and "node_run env ops nd = Some (nd', out)"
  shows "good_step nd (nd', out, None)"
  using assms
proof (induction ops arbitrary: nd out)
  case Nil
  then show ?case by (simp add: good_step_def)
next
  case (Cons op ops)
  obtain nd1 out1 e1 out2 where s: "node_step env op nd = Some (nd1, out1, e1)"
    and r: "node_run env ops nd1 = Some (nd', out2)" and out: "out = out1 @ out2"
    using Cons.prems(2) by (auto split: option.splits)
  have g: "good_step nd (nd1, out1, e1)"
    using node_step_good [OF Cons.prems(1) s] .
  then have "good_step nd1 (nd', out2, None)"
    using Cons.IH [OF _ r] by (simp add: good_step_def)
  then show ?case
    using good_step_trans [OF Cons.prems(1) g] out by simp
qed

lemma node_wf_new: "node_wf Node"
  by (simp add: node_wf_def Node_def pit_wf_def pit_empty_def delayed_wf_def scheduled_def pending_def)

text \<open>
  C2. Over any sequence of operations on a new node, each pending interest gets at most one of its
  callbacks (data, timeout or nack) and gets it once, and an interest that has been called back is
  no longer pending.
\<close>

theorem node_callbacks_once:
  assumes "node_run env ops Node = Some (nd, out)"
  shows "distinct (entry_calls out) \<and> (\<forall>a \<in> set (entry_calls out). a \<notin> set (pit_table (nd_pendingInterestTable nd)))"
  using node_run_good [OF node_wf_new assms] by (auto simp: good_step_def pending_def)

text \<open>
  C17. Interests do not outlive their timeout: in every state that a new node reaches, processEvents at
  time now leaves no pending interest with a timeout whose delayed call is due, and every pending
  interest that has a timeout callback or a lifetime has its delayed call still to come.
\<close>

theorem processEvents_times_out:
  assumes "node_run env ops Node = Some (nd, out)" and "processEvents now nd = (nd', out', e)"
    and "a \<in> set (pit_table (nd_pendingInterestTable nd'))"
    and "has_timeout (pit_heap (nd_pendingInterestTable nd') ! a)"
  shows "\<exists>c \<in> set (nd_delayedCallTable nd'). de_callback c = ProcessInterestTimeout a \<and> now < de_callTime c"
proof -
  have wf: "node_wf nd"
    using node_run_good [OF node_wf_new assms(1)] by (simp add: good_step_def)
  have "node_wf nd'" "nd_delayedCallTable nd' = filter (\<lambda>e. \<not> de_callTime e \<le> now) (nd_delayedCallTable nd)"
    using processEvents_facts [OF wf assms(2)] by simp_all
  then show ?thesis
    using assms(3,4) by (auto simp: node_wf_def scheduled_def pending_def)
qed

text \<open>A node with a synchronous transport, the wire format of the Data_Packet samples and no filters.\<close>

definition sample_node_env :: "unit node_env" where
  "sample_node_env = \<lparr>ne_wire = sample_env, ne_tlvWireFormat = (),
     ne_encodeInterest = (\<lambda>_ i. Inr \<lparr>sb_bytes = 5 # concat (map (\<lambda>c. blob_bytes (c_value c)) (int_getName i)),
       sb_signedPortionBeginOffset = 0, sb_signedPortionEndOffset = 0\<rparr>),
     ne_decodeInterest = (\<lambda>_ _ i. Inr (i, 0, 0)),
     ne_regexMatch = (\<lambda>_ _. Inr True), ne_isAsync = False, ne_isLocal = True,
     ne_decodeControlResponse = (\<lambda>_. Inr 200), ne_signCommand = (\<lambda>_ i. Inr i)\<rparr>"

definition sample_args :: "u64 \<Rightarrow> int \<Rightarrow> unit expressArgs" where
  "sample_args i lifetime = \<lparr>xa_pendingInterestId = i,
     xa_interest = int_setInterestLifetime lifetime (Interest True True \<lparr>ver_value = [], ver_changeCount = 0\<rparr>),
     xa_onData = UserCallback 1, xa_onTimeout = Some (UserCallback 2), xa_onNetworkNack = None, xa_wireFormat = ()\<rparr>"

definition sample_node_ops :: "unit node_op list" where
  "sample_node_ops = [Express 0 [[1, 2, 3, 4]] (sample_args 1 10), Express 0 [[1, 2, 3, 5]] (sample_args 2 30), Events 20, Events 25]"

theorem node_callbacks_once_witness:
  "\<exists>nd out. node_run sample_node_env sample_node_ops Node = Some (nd, out) \<and> entry_calls out = [0] \<and>
    pit_table (nd_pendingInterestTable nd) = [1] \<and> distinct (entry_calls out)"
proof -
  let ?run = "node_run sample_node_env sample_node_ops Node"
  have "\<not> Option.is_none ?run" by code_simp
  then obtain nd out where r: "?run = Some (nd, out)" by (auto simp: Option.is_none_def)
  have "entry_calls (snd (the ?run)) = [0]" "pit_table (nd_pendingInterestTable (fst (the ?run))) = [1]"
    by code_simp+
  then show ?thesis
    using r node_callbacks_once [OF r] by simp
qed

theorem processEvents_times_out_witness:
  "\<exists>nd out nd' out'. node_run sample_node_env sample_node_ops Node = Some (nd, out) \<and>
    processEvents 28 nd = (nd', out', None) \<and>
    (\<exists>c \<in> set (nd_delayedCallTable nd'). de_callback c = ProcessInterestTimeout 1 \<and> 28 < de_callTime c)"
proof -
  let ?run = "node_run sample_node_env sample_node_ops Node"
  let ?ev = "processEvents 28 (fst (the ?run))"
  have "\<not> Option.is_none ?run" by code_simp
  then have r: "?run = Some (fst (the ?run), snd (the ?run))" by (auto simp: Option.is_none_def)
  have e: "?ev = (fst ?ev, fst (snd ?ev), None)" by code_simp
  have "pit_table (nd_pendingInterestTable (fst ?ev)) = [1]" by code_simp
  then have a: "1 \<in> set (pit_table (nd_pendingInterestTable (fst ?ev)))" by simp
  have h: "has_timeout (pit_heap (nd_pendingInterestTable (fst ?ev)) ! 1)" by code_simp
  show ?thesis
    using r e processEvents_times_out [OF r e a h] by blast
qed

section \<open>Received data\<close>

lemma data_getFullName_stable:
  assumes "data_getFullName env (env_default env) d = Inr (full, d1)"
  shows "\<exists>d2. data_getFullName env (env_default env) d1 = Inr (full, d2)"
proof -
  obtain c d0 where g: "data_getDefaultWireEncoding d = (c, d0)"
    by fastforce
  have clean0: "data_pending d0 = 0 \<and> d_getDefaultWireEncodingChangeCount d0 = d_changeCount d0"
  proof -
    have "data_pending (data_getChangeCount d) = 0"
      by (rule dt.pending_notice)
    then show ?thesis
      using g by (auto simp: data_getDefaultWireEncoding_def Let_def data_pending_def split: if_splits)
  qed
  have d1: "d_defaultFullName d1 = full" "full \<noteq> []"
    using data_getFullName_caches [OF assms] by simp_all
  have "data_pending d1 = 0 \<and> d_getDefaultWireEncodingChangeCount d1 = d_changeCount d1 \<and>
      d_defaultWireEncoding d1 \<noteq> None \<and> d_defaultWireEncodingFormat d1 = Some (env_default env)"
  proof (cases "c \<noteq> None \<and> length (d_defaultFullName d0) > 0 \<and> d_defaultWireEncodingFormat d0 = Some (env_default env)")
    case True
    then show ?thesis
      using assms g clean0 data_getDefaultWireEncoding_cached [OF g] by (auto simp: data_getFullName_def)
  next
    case False
    then obtain e d2 where w: "data_wireEncode env (env_default env) d0 = Inr (e, d2)"
      and "d1 = d2\<lparr>d_defaultFullName := full\<rparr>"
      using assms g by (auto simp: data_getFullName_def bindE_eq_Inr Let_def split: if_splits)
    then show ?thesis
      using data_wireEncode_clean [OF w] data_wireEncode_default [OF w] by (simp add: data_pending_def)
  qed
  then have clean: "data_pending d1 = 0" "d_getDefaultWireEncodingChangeCount d1 = d_changeCount d1"
    and cached: "d_defaultWireEncoding d1 \<noteq> None" "d_defaultWireEncodingFormat d1 = Some (env_default env)"
    by simp_all
  obtain c' d' where g': "data_getDefaultWireEncoding d1 = (c', d')"
    by fastforce
  show ?thesis
    using data_getDefaultWireEncoding_clean [OF clean] g' cached d1 by (auto simp: data_getFullName_def)
qed

text \<open>The packet has this full name, however often it is asked.\<close>

definition full_name_is :: "'w wire_env \<Rightarrow> name \<Rightarrow> 'w data \<Rightarrow> bool" where
  "full_name_is env full d \<longleftrightarrow>
    (\<exists>d'. data_getFullName env (env_default env) d = Inr (full, d')) \<and> (\<exists>digest. full = data_getName d @ [digest])"

lemma data_getName_get: "data_getName d = dv_name (data_get d)"
  by (simp add: data_getName_def data_get_def)

lemma matchesData_keeps:
  assumes "data_getFullName env w d = Inr (full, d1)" and "matchesData env w i d = Inr (b, d')"
  shows "d' = d \<or> d' = d1"
  using assms by (auto simp: matchesData_def Let_def bindE_eq_Inr split: if_splits)

lemma matchesData_full_name:
  assumes "full_name_is env full d"
  shows "\<exists>d'. matchesData env (env_default env) i d = Inr (int_selects i full (sp_get (d_signature d)), d') \<and>
    full_name_is env full d' \<and> sp_get (d_signature d') = sp_get (d_signature d)"
proof -
  obtain d1 digest where f: "data_getFullName env (env_default env) d = Inr (full, d1)"
    and full: "full = data_getName d @ [digest]"
    using assms by (auto simp: full_name_is_def)
  obtain d' where m: "matchesData env (env_default env) i d = Inr (int_selects i full (sp_get (d_signature d)), d')"
    and get: "data_get d' = data_get d"
    using matchesData_spec [OF f [unfolded full], of i] full by blast
  have "\<exists>x. data_getFullName env (env_default env) d' = Inr (full, x)"
    using matchesData_keeps [OF f m] f data_getFullName_stable [OF f] by auto
  then have "full_name_is env full d'"
    using full get by (auto simp: full_name_is_def data_getName_get)
  moreover have "sp_get (d_signature d') = sp_get (d_signature d)"
    using get by (simp add: data_get_def)
  ultimately show ?thesis
    using m by blast
qed

lemma extract_loop_matching:
  assumes "full_name_is env full d" and "sp_get (d_signature d) = sig"
  shows "\<exists>d'. extract_loop (\<lambda>a d. matchesData env (env_default env) (f a) d) as d =
    (filter (\<lambda>a. int_selects (f a) full sig) as, filter (\<lambda>a. \<not> int_selects (f a) full sig) as, d', None)"
  using assms
proof (induction as arbitrary: d)
  case (Cons a as)
  obtain d' where m: "matchesData env (env_default env) (f a) d = Inr (int_selects (f a) full sig, d')"
    and d': "full_name_is env full d'" "sp_get (d_signature d') = sig"
    using matchesData_full_name [OF Cons.prems(1), of "f a"] Cons.prems(2) by auto
  then show ?case
    using Cons.IH [OF d'] by (auto simp: m)
qed simp

lemma each_call_onData_calls:
  "each (call_onData env d) as nd = (nd', out, e) \<Longrightarrow> entry_calls out = as \<and> pit nd' = pit nd"
proof (induction as arbitrary: nd out)
  case (Cons a as)
  obtain nd1 out1 e1 where c: "call_onData env d a nd = (nd1, out1, e1)"
    by (cases "call_onData env d a nd")
  obtain nd2 out2 e2 where r: "each (call_onData env d) as nd1 = (nd2, out2, e2)"
    by (cases "each (call_onData env d) as nd1")
  have one: "entry_calls out1 = [a]" "e1 = None" "pit nd1 = pit nd"
    using call_onData_same [OF c] by (simp_all add: same_pit_def)
  have "(nd2, out1 @ out2, e2) = (nd', out, e)"
    using Cons.prems by (simp add: c one(2) andThen_def r)
  then have eqs: "nd' = nd2" "out = out1 @ out2" "e = e2"
    by simp_all
  have "entry_calls out2 = as \<and> pit nd2 = pit nd1"
    using Cons.IH r eqs by blast
  then show ?case
    using one eqs by simp
qed simp

text \<open>
  C16. Received data reaches exactly the pending interests that select it: when the packet's full name is
  its name with a digest, satisfyPendingInterests calls back the pending entries whose interest
  selects that full name and the packet's signature, newest first, and exactly the other entries
  stay in the table, in their order.
\<close>

theorem satisfyPendingInterests_exact:
  assumes "full_name_is (ne_wire env) full data"
    and "satisfyPendingInterests env data nd = (nd', out, e)"
  shows "entry_calls out = filter (\<lambda>a. int_selects (pe_interest (pit_heap (nd_pendingInterestTable nd) ! a)) full
           (sp_get (d_signature data))) (rev (pit_table (nd_pendingInterestTable nd))) \<and>
    pit_table (nd_pendingInterestTable nd') = filter (\<lambda>a. \<not> int_selects (pe_interest (pit_heap (nd_pendingInterestTable nd) ! a)) full
           (sp_get (d_signature data))) (pit_table (nd_pendingInterestTable nd))"
proof -
  let ?f = "\<lambda>a. pe_interest (pit_heap (pit nd) ! a)"
  obtain d' where "extract_loop (\<lambda>a d. matchesData (ne_wire env) (env_default (ne_wire env)) (?f a) d)
      (rev (pit_table (pit nd))) data =
      (filter (\<lambda>a. int_selects (?f a) full (sp_get (d_signature data))) (rev (pit_table (pit nd))),
       filter (\<lambda>a. \<not> int_selects (?f a) full (sp_get (d_signature data))) (rev (pit_table (pit nd))), d', None)"
    using extract_loop_matching [OF assms(1) refl, of ?f "rev (pit_table (pit nd))"] by blast
  then show ?thesis
    using assms(2)
    by (auto simp: satisfyPendingInterests_def extractEntriesForExpressedInterest_def rev_filter
        dest!: each_call_onData_calls)
qed

definition sample_pending_node :: "unit node" where
  "sample_pending_node = fst (the (node_run sample_node_env
     [Express 0 [[1, 2, 3, 4]] (sample_args 1 10), Express 0 [[1, 2, 3, 5]] (sample_args 2 30)] Node))"

theorem satisfyPendingInterests_exact_witness:
  "\<exists>full nd' out. full_name_is (ne_wire sample_node_env) full sample_data \<and>
    satisfyPendingInterests sample_node_env sample_data sample_pending_node = (nd', out, None) \<and>
    entry_calls out = [1, 0] \<and>
    filter (\<lambda>a. int_selects (pe_interest (pit_heap (nd_pendingInterestTable sample_pending_node) ! a)) full
      (sp_get (d_signature sample_data))) (rev (pit_table (nd_pendingInterestTable sample_pending_node))) = [1, 0]"
proof -
  let ?full = "data_getFullName sample_env () sample_data"
  let ?r = "satisfyPendingInterests sample_node_env sample_data sample_pending_node"
  have "\<not> isl ?full" by code_simp
  then have g: "?full = Inr (fst (projr ?full), snd (projr ?full))" by simp
  have l: "fst (projr ?full) = data_getName sample_data @ [last (fst (projr ?full))]" by code_simp
  have w: "ne_wire sample_node_env = sample_env" by (simp add: sample_node_env_def)
  have f: "full_name_is (ne_wire sample_node_env) (fst (projr ?full)) sample_data"
    unfolding full_name_is_def w sample_default using g l by blast
  have r: "?r = (fst ?r, fst (snd ?r), None)" by code_simp
  have c: "entry_calls (fst (snd ?r)) = [1, 0]" by code_simp
  show ?thesis
    using f r c satisfyPendingInterests_exact [OF f r] by metis
qed

section \<open>Removals that come early\<close>

text \<open>
  The response to a registration when the prefix was removed before, and the removal after the response: the filter that
  the response sets for the combined form of \<open>registerPrefix\<close> is unset again, by the one or by the other.
\<close>

lemma unset_new_filter:
  "\<forall>e \<in> set fs. fe_interestFilterId e \<noteq> k \<Longrightarrow> unsetInterestFilter k (setInterestFilter k f cb fs) = fs"
  by (simp add: unsetInterestFilter_def setInterestFilter_def filter_id_conv)

definition registered_node :: "registerInfo \<Rightarrow> 'w node \<Rightarrow> 'w node" where
  "registered_node info nd = (if ri_onInterest info = None then nd else nd\<lparr>nd_lastEntryId := nd_lastEntryId nd + 1\<rparr>)"

lemma removal_then_response:
  assumes "ne_decodeControlResponse env (d_content d) = Inr 200" "ri_registeredPrefixId info = j" "j \<noteq> 0"
    and "j \<notin> re_registeredPrefixId ` set (rpt_table (nd_registeredPrefixTable nd))" "j \<notin> set (rpt_removeRequests (nd_registeredPrefixTable nd))"
    and "nd_lastEntryId nd + 1 \<noteq> 0" "\<forall>e \<in> set (nd_interestFilterTable nd). fe_interestFilterId e \<noteq> nd_lastEntryId nd + 1"
  shows "registerResponse env info d (fst (node_removeRegisteredPrefix j nd)) = (registered_node info nd, [], None)"
proof -
  let ?r = "nd_registeredPrefixTable nd"
  have none: "filter (\<lambda>e. re_registeredPrefixId e = j) (rpt_table ?r) = []" "filter (\<lambda>e. re_registeredPrefixId e \<noteq> j) (rpt_table ?r) = rpt_table ?r"
    using assms(4) by (auto simp: filter_empty_conv filter_id_conv)
  have rm: "fst (node_removeRegisteredPrefix j nd) = nd\<lparr>nd_registeredPrefixTable := ?r\<lparr>rpt_removeRequests := rpt_removeRequests ?r @ [j]\<rparr>\<rparr>"
    using none assms(5) by (simp add: node_removeRegisteredPrefix_def removeRegisteredPrefix_def Let_def)
  have "remove1 j (rpt_removeRequests ?r @ [j]) = rpt_removeRequests ?r" using assms(5) by (simp add: remove1_append)
  moreover have "nd_lastEntryId nd + 1 > 0" using assms(6) by (simp add: word_neq_0_conv)
  ultimately show ?thesis
    unfolding rm using assms(1-3) unset_new_filter [OF assms(7)]
    by (cases "ri_onInterest info") (simp_all add: registerResponse_def rpt_add_def getNextEntryId_def registered_node_def)
qed

lemma response_then_removal:
  assumes "ne_decodeControlResponse env (d_content d) = Inr 200" "ri_registeredPrefixId info = j" "j \<noteq> 0"
    and "j \<notin> re_registeredPrefixId ` set (rpt_table (nd_registeredPrefixTable nd))" "j \<notin> set (rpt_removeRequests (nd_registeredPrefixTable nd))"
    and "nd_lastEntryId nd + 1 \<noteq> 0" "\<forall>e \<in> set (nd_interestFilterTable nd). fe_interestFilterId e \<noteq> nd_lastEntryId nd + 1"
  shows "node_removeRegisteredPrefix j (fst (registerResponse env info d nd)) = (registered_node info nd, [], None)"
proof -
  let ?r = "nd_registeredPrefixTable nd"
  have none: "filter (\<lambda>e. re_registeredPrefixId e = j) (rpt_table ?r) = []" "filter (\<lambda>e. re_registeredPrefixId e \<noteq> j) (rpt_table ?r) = rpt_table ?r"
    using assms(4) by (auto simp: filter_empty_conv filter_id_conv)
  have "nd_lastEntryId nd + 1 > 0" using assms(6) by (simp add: word_neq_0_conv)
  then show ?thesis
    using assms(1-3,5) none unset_new_filter [OF assms(7)]
    by (cases "ri_onInterest info")
      (simp_all add: registerResponse_def registerSucceeded_def rpt_add_def getNextEntryId_def registered_node_def
        node_removeRegisteredPrefix_def removeRegisteredPrefix_def unset_related_def)
qed

text \<open>
  C31. A removal that arrives before the entry it names is added has the effect of a removal that arrives after.  In the
  table of pending interests the entry is absent in the end, the other entries stay, and no removal request is left
  behind.  When a registered prefix is removed before the response to its registration or after it, the node is in the
  same state in the end: its tables of registered prefixes, of removal requests and of interest filters are as before,
  also when the response sets a filter for the prefix, and only the counter of entries has advanced.  The identifiers
  are new: the entry's is neither in the table nor requested, and the filter's, the next one of the node, is not in use.
\<close>

theorem early_removal_equivalent:
  assumes t: "pit_wf t" "i \<notin> pit_ids t" "i \<notin> set (pit_removeRequests t)"
    and response: "ne_decodeControlResponse env (d_content d) = Inr 200" "ri_registeredPrefixId info = j" "j \<noteq> 0"
    and new: "j \<notin> re_registeredPrefixId ` set (rpt_table (nd_registeredPrefixTable nd))" "j \<notin> set (rpt_removeRequests (nd_registeredPrefixTable nd))"
      "nd_lastEntryId nd + 1 \<noteq> 0" "\<forall>e \<in> set (nd_interestFilterTable nd). fe_interestFilterId e \<noteq> nd_lastEntryId nd + 1"
  shows "pit_ids (pit_add_entry i e (removePendingInterest i t)) = pit_ids t \<and>
    pit_ids (removePendingInterest i (pit_add_entry i e t)) = pit_ids t \<and>
    set (pit_removeRequests (pit_add_entry i e (removePendingInterest i t))) = set (pit_removeRequests t) \<and>
    set (pit_removeRequests (removePendingInterest i (pit_add_entry i e t))) = set (pit_removeRequests t) \<and>
    (let nd' = if ri_onInterest info = None then nd else nd\<lparr>nd_lastEntryId := nd_lastEntryId nd + 1\<rparr> in
     registerResponse env info d (fst (node_removeRegisteredPrefix j nd)) = (nd', [], None) \<and>
     node_removeRegisteredPrefix j (fst (registerResponse env info d nd)) = (nd', [], None))"
  using pr.remove_before_or_after_add [OF t] removal_then_response [OF response new] response_then_removal [OF response new]
  by (simp add: registered_node_def Let_def)

definition sample_registration :: registerInfo where
  "sample_registration = \<lparr>ri_prefix = [genericComponent [97]], ri_onRegisterFailed = 1, ri_onRegisterSuccess = Some 2,
     ri_registeredPrefixId = 7, ri_onInterest = Some 3\<rparr>"

definition sample_entry :: "(unit, unit) pitEntry" where
  "sample_entry = \<lparr>pe_pendingInterestId = 7, pe_interest = Interest True True \<lparr>ver_value = [], ver_changeCount = 0\<rparr>,
     pe_onData = (), pe_onTimeout = None, pe_onNetworkNack = None, pe_isRemoved = False\<rparr>"

theorem early_removal_equivalent_witness:
  "pit_ids (pit_add_entry 7 sample_entry (removePendingInterest 7 (pit_empty :: (unit, unit) pendingInterestTable))) = {} \<and>
    registerResponse sample_node_env sample_registration sample_data (fst (node_removeRegisteredPrefix 7 (Node :: unit node))) =
      (Node\<lparr>nd_lastEntryId := 1\<rparr>, [], None) \<and>
    node_removeRegisteredPrefix 7 (fst (registerResponse sample_node_env sample_registration sample_data (Node :: unit node))) =
      (Node\<lparr>nd_lastEntryId := 1\<rparr>, [], None)"
proof -
  have t: "pit_wf (pit_empty :: (unit, unit) pendingInterestTable)" "7 \<notin> pit_ids (pit_empty :: (unit, unit) pendingInterestTable)"
    "7 \<notin> set (pit_removeRequests (pit_empty :: (unit, unit) pendingInterestTable))"
    by (simp_all add: pit_wf_def pit_empty_def pit_ids_def)
  have ids: "pit_ids (pit_empty :: (unit, unit) pendingInterestTable) = {}" by (simp add: pit_ids_def pit_empty_def)
  have response: "ne_decodeControlResponse sample_node_env (d_content sample_data) = Inr 200"
    "ri_registeredPrefixId sample_registration = 7" "(7 :: u64) \<noteq> 0"
    by (simp_all add: sample_node_env_def sample_registration_def)
  have node: "7 \<notin> re_registeredPrefixId ` set (rpt_table (nd_registeredPrefixTable (Node :: unit node)))"
    "7 \<notin> set (rpt_removeRequests (nd_registeredPrefixTable (Node :: unit node)))" "nd_lastEntryId (Node :: unit node) + 1 \<noteq> 0"
    "\<forall>e \<in> set (nd_interestFilterTable (Node :: unit node)). fe_interestFilterId e \<noteq> nd_lastEntryId (Node :: unit node) + 1"
    "ri_onInterest sample_registration \<noteq> None" "nd_lastEntryId (Node :: unit node) + 1 = 1"
    by (simp_all add: Node_def sample_registration_def)
  show ?thesis
    using early_removal_equivalent [OF t response node(1-4), of sample_entry] ids unfolding node(6) by (simp add: node(5) Let_def)
qed

text \<open>
  C39. An NDNLP packet without a fragment, such as the two bytes 0x64 0x00, makes onReceivedElement read
  its first payload byte through a null pointer: the packet decodes without an error, and the
  handler does not check that there is a fragment.
\<close>

theorem received_lp_without_fragment:
  "onReceivedElement env [100, 0] nd = Some (nd, [], Some Undefined_behaviour)"
proof -
  have "decodeTlvLpPacket 5 (dec_initialize [100, 0]) =
      Some (Inr (\<lparr>lp_headerFields = [], lp_fragment = None\<rparr>, \<lparr>dec_input = [100, 0], dec_offset = 2\<rparr>))"
    by code_simp
  then show ?thesis
    by (simp add: onReceivedElement_def unwrap_def)
qed

end
