(* ===== verification/Digest_Tree.thy ===== *)
theory Digest_Tree
  imports Name_Uri
begin

text \<open>
  The digest tree of ChronoSync (\<open>src/sync/digest-tree.cpp\<close>): a vector of nodes sorted by data prefix
  and session number, each with the hexadecimal digest of its fields, and the root digest over the node
  digests.  SHA-256 (OpenSSL, or the copy under \<open>contrib\<close>) is an argument.  The tree is shown to hold
  the highest sequence number of every (prefix, session) it was updated with, whatever the order of the
  updates, and two roots are shown to agree exactly when these maps do.
\<close>

section \<open>Definitions\<close>

type_synonym sha256 = "byte list \<Rightarrow> byte list"

record digestNode =
  dn_dataPrefix :: "byte list"
  dn_sessionNo :: u32
  dn_sequenceNo :: u32
  dn_digest :: "byte list"

record digestTree =
  dt_digestNode :: "digestNode list"
  dt_root :: "byte list"

definition digest_fromHexChar :: "byte \<Rightarrow> int" where
  "digest_fromHexChar c =
     (if c \<ge> 48 \<and> c \<le> 57 then uint c - 48
      else if c \<ge> 65 \<and> c \<le> 70 then uint c - 65 + 10
      else if c \<ge> 97 \<and> c \<le> 102 then uint c - 97 + 10
      else -1)"

text \<open>The bytes that \<open>SHA256_UpdateHex\<close> adds to the message.\<close>

definition SHA256_UpdateHex :: "byte list \<Rightarrow> byte list" where
  "SHA256_UpdateHex hex =
    map (\<lambda>i. of_int (16 * digest_fromHexChar (hex ! (2 * i)) + digest_fromHexChar (hex ! (2 * i + 1))))
      [0..<length hex div 2]"

primrec littleEndian_loop :: "nat \<Rightarrow> u32 \<Rightarrow> byte list" where
  "littleEndian_loop 0 v = []"
| "littleEndian_loop (Suc n) v = ucast (v mod 256) # littleEndian_loop n (v div 256)"

definition int32ToLittleEndian :: "u32 \<Rightarrow> byte list" where
  "int32ToLittleEndian v = littleEndian_loop 4 v"

definition recomputeDigest :: "sha256 \<Rightarrow> digestNode \<Rightarrow> digestNode" where
  "recomputeDigest sha n =
    (let sequenceDigest = sha (int32ToLittleEndian (dn_sessionNo n) @ int32ToLittleEndian (dn_sequenceNo n));
         nameDigest = sha (dn_dataPrefix n);
         nodeDigest = sha (nameDigest @ sequenceDigest)
     in n\<lparr>dn_digest := toHex nodeDigest\<rparr>)"

definition DigestTree_Node :: "sha256 \<Rightarrow> byte list \<Rightarrow> u32 \<Rightarrow> u32 \<Rightarrow> digestNode" where
  "DigestTree_Node sha dataPrefix sessionNo sequenceNo =
    recomputeDigest sha \<lparr>dn_dataPrefix = dataPrefix, dn_sessionNo = sessionNo,
                         dn_sequenceNo = sequenceNo, dn_digest = []\<rparr>"

definition setSequenceNo :: "sha256 \<Rightarrow> u32 \<Rightarrow> digestNode \<Rightarrow> digestNode" where
  "setSequenceNo sha sequenceNo n = recomputeDigest sha (n\<lparr>dn_sequenceNo := sequenceNo\<rparr>)"

definition nodeCompare :: "digestNode \<Rightarrow> digestNode \<Rightarrow> bool" where
  "nodeCompare node1 node2 =
    (if dn_dataPrefix node1 \<noteq> dn_dataPrefix node2 then dn_dataPrefix node1 < dn_dataPrefix node2
     else sint (dn_sessionNo node1) < sint (dn_sessionNo node2))"

definition DigestTree_new :: digestTree where
  "DigestTree_new = \<lparr>dt_digestNode = [], dt_root = str ''00''\<rparr>"

definition recomputeRoot :: "sha256 \<Rightarrow> digestTree \<Rightarrow> digestTree" where
  "recomputeRoot sha t =
    t\<lparr>dt_root := toHex (sha (concat (map (\<lambda>n. SHA256_UpdateHex (dn_digest n)) (dt_digestNode t))))\<rparr>"

fun digest_find_from :: "int \<Rightarrow> byte list \<Rightarrow> u32 \<Rightarrow> digestNode list \<Rightarrow> int" where
  "digest_find_from i dataPrefix sessionNo [] = -1"
| "digest_find_from i dataPrefix sessionNo (n # ns) =
    (if dn_dataPrefix n = dataPrefix \<and> dn_sessionNo n = sessionNo then i
     else digest_find_from (i + 1) dataPrefix sessionNo ns)"

definition digest_find :: "byte list \<Rightarrow> u32 \<Rightarrow> digestTree \<Rightarrow> int" where
  "digest_find dataPrefix sessionNo t = digest_find_from 0 dataPrefix sessionNo (dt_digestNode t)"

definition digest_update :: "sha256 \<Rightarrow> byte list \<Rightarrow> u32 \<Rightarrow> u32 \<Rightarrow> digestTree \<Rightarrow> bool \<times> digestTree" where
  "digest_update sha dataPrefix sessionNo sequenceNo t =
    (let index = digest_find dataPrefix sessionNo t in
     if index \<ge> 0 then
       let n = dt_digestNode t ! nat index in
       if sint (dn_sequenceNo n) < sint sequenceNo
       then (True, recomputeRoot sha
              (t\<lparr>dt_digestNode := (dt_digestNode t)[nat index := setSequenceNo sha sequenceNo n]\<rparr>))
       else (False, t)
     else
       let temp = DigestTree_Node sha dataPrefix sessionNo sequenceNo in
       (True, recomputeRoot sha
          (t\<lparr>dt_digestNode := insert_at (lower_bound nodeCompare temp (dt_digestNode t)) temp (dt_digestNode t)\<rparr>)))"

text \<open>A history of updates, oldest first, applied to a new tree.\<close>

type_synonym digestUpdate = "(byte list \<times> u32) \<times> u32"

definition digest_run :: "sha256 \<Rightarrow> digestUpdate list \<Rightarrow> digestTree" where
  "digest_run sha us = fold (\<lambda>((p, s), q) t. snd (digest_update sha p s q t)) us DigestTree_new"

text \<open>What the tree has to hold: the highest sequence number of each (prefix, session).\<close>

definition sequences :: "digestUpdate list \<Rightarrow> byte list \<times> u32 \<Rightarrow> int list" where
  "sequences us k = [sint q. (k', q) \<leftarrow> us, k' = k]"

definition latest :: "digestUpdate list \<Rightarrow> byte list \<times> u32 \<Rightarrow> int option" where
  "latest us k = (if sequences us k = [] then None else Some (Max (set (sequences us k))))"

section \<open>The tree is sorted and up to date\<close>

definition dnkey :: "digestNode \<Rightarrow> byte list \<times> int" where
  "dnkey n = (dn_dataPrefix n, sint (dn_sessionNo n))"

lemma nodeCompare_iff: "nodeCompare a b \<longleftrightarrow> dnkey a < dnkey b"
  by (auto simp: nodeCompare_def dnkey_def dest: le_neq_trans)

definition node_current :: "sha256 \<Rightarrow> digestNode \<Rightarrow> bool" where
  "node_current sha n \<longleftrightarrow> recomputeDigest sha n = n"

definition digest_inv :: "sha256 \<Rightarrow> digestTree \<Rightarrow> bool" where
  "digest_inv sha t \<longleftrightarrow>
    sorted_wrt (<) (map dnkey (dt_digestNode t)) \<and> list_all (node_current sha) (dt_digestNode t) \<and>
    (if dt_digestNode t = [] then t = DigestTree_new else recomputeRoot sha t = t)"

lemma recompute_simps [simp]:
  "dn_dataPrefix (recomputeDigest sha n) = dn_dataPrefix n"
  "dn_sessionNo (recomputeDigest sha n) = dn_sessionNo n"
  "dn_sequenceNo (recomputeDigest sha n) = dn_sequenceNo n"
  "recomputeDigest sha (recomputeDigest sha n) = recomputeDigest sha n"
  "dt_digestNode (recomputeRoot sha t) = dt_digestNode t"
  "recomputeRoot sha (recomputeRoot sha t) = recomputeRoot sha t"
  by (simp_all add: recomputeDigest_def recomputeRoot_def Let_def)

lemma node_fields [simp]:
  "dn_dataPrefix (DigestTree_Node sha p s q) = p" "dn_sessionNo (DigestTree_Node sha p s q) = s"
  "dn_sequenceNo (DigestTree_Node sha p s q) = q" "dnkey (DigestTree_Node sha p s q) = (p, sint s)"
  "node_current sha (DigestTree_Node sha p s q)"
  by (simp_all add: DigestTree_Node_def dnkey_def node_current_def)

lemma setSequenceNo_fields [simp]:
  "dn_dataPrefix (setSequenceNo sha q n) = dn_dataPrefix n"
  "dn_sessionNo (setSequenceNo sha q n) = dn_sessionNo n"
  "dn_sequenceNo (setSequenceNo sha q n) = q"
  "dnkey (setSequenceNo sha q n) = dnkey n" "node_current sha (setSequenceNo sha q n)"
  by (simp_all add: setSequenceNo_def dnkey_def node_current_def)

lemma digest_find_from_spec:
  "digest_find_from i p s ns = -1 \<and> (\<forall>n \<in> set ns. \<not> (dn_dataPrefix n = p \<and> dn_sessionNo n = s)) \<or>
   (\<exists>k < length ns. digest_find_from i p s ns = i + int k \<and>
      dn_dataPrefix (ns ! k) = p \<and> dn_sessionNo (ns ! k) = s)"
proof (induction ns arbitrary: i)
  case (Cons n ns)
  show ?case
  proof (cases "dn_dataPrefix n = p \<and> dn_sessionNo n = s")
    case True
    then show ?thesis by (intro disjI2 exI [of _ 0]) simp
  next
    case False
    then show ?thesis
      using Cons.IH [of "i + 1"] by (fastforce intro: exI [of _ "Suc k" for k])
  qed
qed simp

lemma digest_find_cases:
  obtains (absent) "digest_find p s t = -1" "\<forall>n \<in> set (dt_digestNode t). \<not> (dn_dataPrefix n = p \<and> dn_sessionNo n = s)"
  | (found) k where "digest_find p s t = int k" "k < length (dt_digestNode t)"
      "dn_dataPrefix (dt_digestNode t ! k) = p" "dn_sessionNo (dt_digestNode t ! k) = s"
  using digest_find_from_spec [of 0 p s "dt_digestNode t"] by (auto simp: digest_find_def)

lemma sorted_insert_node:
  assumes "sorted_wrt (<) (map dnkey ns)" "dnkey x \<notin> dnkey ` set ns"
  shows "sorted_wrt (<) (map dnkey (insert_at (lower_bound nodeCompare x ns) x ns))"
  using assms sorted_insert_lower_bound [of nodeCompare x dnkey ns]
  by (simp add: strict_sorted_iff nodeCompare_iff distinct_insert_at)

section \<open>The map a tree holds\<close>

definition node_entry :: "digestNode \<Rightarrow> (byte list \<times> u32) \<times> int" where
  "node_entry n = ((dn_dataPrefix n, dn_sessionNo n), sint (dn_sequenceNo n))"

definition digest_map :: "digestTree \<Rightarrow> byte list \<times> u32 \<Rightarrow> int option" where
  "digest_map t = map_of (map node_entry (dt_digestNode t))"

lemma distinct_entries:
  assumes "digest_inv sha t"
  shows "distinct (map fst (map node_entry (dt_digestNode t)))"
proof -
  have "distinct (map dnkey (dt_digestNode t))"
    using assms by (simp add: digest_inv_def strict_sorted_iff)
  moreover have "map dnkey (dt_digestNode t) = map (\<lambda>(p, s). (p, sint s)) (map fst (map node_entry (dt_digestNode t)))"
    by (simp add: dnkey_def node_entry_def)
  ultimately show ?thesis by (metis distinct_map)
qed

lemma digest_map_found:
  assumes "digest_inv sha t" "k < length (dt_digestNode t)"
    "dn_dataPrefix (dt_digestNode t ! k) = p" "dn_sessionNo (dt_digestNode t ! k) = s"
  shows "digest_map t (p, s) = Some (sint (dn_sequenceNo (dt_digestNode t ! k)))"
  using distinct_entries [OF assms(1)] assms(2-)
  by (auto simp: digest_map_def node_entry_def map_of_eq_Some_iff intro!: image_eqI [of _ _ "dt_digestNode t ! k"])

lemma digest_map_absent:
  "\<forall>n \<in> set (dt_digestNode t). \<not> (dn_dataPrefix n = p \<and> dn_sessionNo n = s) \<Longrightarrow> digest_map t (p, s) = None"
  by (auto simp: digest_map_def map_of_eq_None_iff node_entry_def)

lemma digest_update_inv:
  assumes inv: "digest_inv sha t"
  shows "digest_inv sha (snd (digest_update sha p s q t))"
proof (cases rule: digest_find_cases [of p s t])
  case absent
  let ?x = "DigestTree_Node sha p s q"
  have "dnkey ?x \<notin> dnkey ` set (dt_digestNode t)" using absent(2) by (auto simp: dnkey_def dest: signed_word_eqI)
  then have "sorted_wrt (<) (map dnkey (insert_at (lower_bound nodeCompare ?x (dt_digestNode t)) ?x (dt_digestNode t)))"
    using inv by (intro sorted_insert_node) (auto simp: digest_inv_def)
  moreover have "list_all (node_current sha) (insert_at i ?x (dt_digestNode t))" for i
    using inv by (auto simp: digest_inv_def list_all_iff)
  ultimately show ?thesis using absent(1) by (simp add: digest_update_def digest_inv_def Let_def)
next
  case (found k)
  then have "map dnkey ((dt_digestNode t)[k := setSequenceNo sha q (dt_digestNode t ! k)]) = map dnkey (dt_digestNode t)"
    by (metis list_update_id list_update_overwrite map_update setSequenceNo_fields(4))
  moreover have "list_all (node_current sha) ((dt_digestNode t)[k := setSequenceNo sha q (dt_digestNode t ! k)])"
    using inv by (auto simp: digest_inv_def list_all_iff dest!: set_update_subset_insert [THEN subsetD])
  ultimately show ?thesis using found(1,2) inv
    by (auto simp: digest_update_def digest_inv_def Let_def)
qed

lemma digest_update_map:
  assumes inv: "digest_inv sha t"
  shows "digest_map (snd (digest_update sha p s q t)) =
      (digest_map t)((p, s) \<mapsto> (case digest_map t (p, s) of None \<Rightarrow> sint q | Some m \<Rightarrow> max m (sint q)))"
    and "fst (digest_update sha p s q t) \<longleftrightarrow> (case digest_map t (p, s) of None \<Rightarrow> True | Some m \<Rightarrow> m < sint q)"
proof -
  have "digest_map (snd (digest_update sha p s q t)) =
      (digest_map t)((p, s) \<mapsto> (case digest_map t (p, s) of None \<Rightarrow> sint q | Some m \<Rightarrow> max m (sint q))) \<and>
    fst (digest_update sha p s q t) = (case digest_map t (p, s) of None \<Rightarrow> True | Some m \<Rightarrow> m < sint q)"
  proof (cases rule: digest_find_cases [of p s t])
    case absent
    let ?x = "DigestTree_Node sha p s q" and ?ns = "dt_digestNode t"
    let ?i = "lower_bound nodeCompare ?x ?ns"
    have "map_of (map node_entry (take ?i ?ns) @ ((p, s), sint q) # map node_entry (drop ?i ?ns)) =
        (map_of (map node_entry (take ?i ?ns) @ map node_entry (drop ?i ?ns)))((p, s) \<mapsto> sint q)"
      using absent(2) by (intro map_of_insert_fresh) (auto simp: node_entry_def dest: in_set_takeD)
    also have "map node_entry (take ?i ?ns) @ map node_entry (drop ?i ?ns) = map node_entry ?ns"
      by (simp flip: map_append)
    finally show ?thesis using absent digest_map_absent [OF absent(2)]
      by (simp add: digest_update_def Let_def digest_map_def insert_at_def node_entry_def [of ?x] fun_upd_def)
  next
    case (found k)
    let ?n = "dt_digestNode t ! k"
    note old = digest_map_found [OF inv found(2-)]
    have "map_of (map node_entry ((dt_digestNode t)[k := setSequenceNo sha q ?n])) = (digest_map t)((p, s) \<mapsto> sint q)"
      using map_of_list_update [of "map node_entry (dt_digestNode t)" k "(p, s)" "sint q"] distinct_entries [OF inv] found(2-)
      by (simp add: map_update node_entry_def digest_map_def)
    moreover have "(digest_map t)((p, s) \<mapsto> sint (dn_sequenceNo ?n)) = digest_map t" using old by auto
    ultimately show ?thesis using found(1) old
      by (auto simp: digest_update_def Let_def digest_map_def max_def)
  qed
  then show "digest_map (snd (digest_update sha p s q t)) =
      (digest_map t)((p, s) \<mapsto> (case digest_map t (p, s) of None \<Rightarrow> sint q | Some m \<Rightarrow> max m (sint q)))"
    and "fst (digest_update sha p s q t) \<longleftrightarrow> (case digest_map t (p, s) of None \<Rightarrow> True | Some m \<Rightarrow> m < sint q)"
    by simp_all
qed

lemma latest_Nil [simp]: "latest [] = Map.empty"
  by (simp add: latest_def sequences_def fun_eq_iff)

lemma sequences_snoc: "sequences (us @ [(k, q)]) j = sequences us j @ (if k = j then [sint q] else [])"
  by (simp add: sequences_def)

lemma latest_snoc:
  "latest (us @ [(k, q)]) =
    (latest us)(k \<mapsto> (case latest us k of None \<Rightarrow> sint q | Some m \<Rightarrow> max m (sint q)))"
  by (auto simp: latest_def sequences_snoc fun_eq_iff Max_insert max.commute)

lemma digest_run_spec: "digest_inv sha (digest_run sha us) \<and> digest_map (digest_run sha us) = latest us"
proof (induction us rule: rev_induct)
  case Nil
  show ?case by (simp add: digest_run_def digest_inv_def DigestTree_new_def digest_map_def)
next
  case (snoc u us)
  obtain p s q where u: "u = ((p, s), q)" by (metis surj_pair)
  have "digest_run sha (us @ [u]) = snd (digest_update sha p s q (digest_run sha us))"
    by (simp add: digest_run_def u)
  then show ?case
    using snoc.IH digest_update_inv [of sha "digest_run sha us" p s q]
      digest_update_map(1) [of sha "digest_run sha us" p s q] by (simp add: u latest_snoc)
qed

section \<open>Equal maps have equal roots\<close>

definition sorted_entry :: "digestNode \<Rightarrow> (byte list \<times> int) \<times> int" where
  "sorted_entry n = (dnkey n, sint (dn_sequenceNo n))"

lemma sorted_entry_inj:
  assumes "node_current sha n" "node_current sha m" "sorted_entry n = sorted_entry m"
  shows "n = m"
proof -
  have "dn_dataPrefix n = dn_dataPrefix m" "dn_sessionNo n = dn_sessionNo m" "dn_sequenceNo n = dn_sequenceNo m"
    using assms(3) by (auto simp: sorted_entry_def dnkey_def intro: signed_word_eqI)
  then have "recomputeDigest sha n = recomputeDigest sha m"
    by (cases n; cases m) (simp add: recomputeDigest_def Let_def)
  with assms(1,2) show ?thesis by (simp add: node_current_def)
qed

lemma equal_maps_equal_trees:
  assumes t: "digest_inv sha t" and u: "digest_inv sha u" and eq: "digest_map t = digest_map u"
  shows "t = u"
proof -
  let ?e = "\<lambda>t. map sorted_entry (dt_digestNode t)"
  have keys: "map fst (?e t) = map dnkey (dt_digestNode t)" for t by (simp add: sorted_entry_def)
  have entries: "set (?e t) = (\<lambda>((p, s), v). ((p, sint s), v)) ` Map.graph (digest_map t)" if "digest_inv sha t" for t
    using distinct_entries [OF that]
    by (force simp: digest_map_def graph_map_of_if_distinct_dom sorted_entry_def node_entry_def dnkey_def)
  have distinct: "distinct (map fst (?e t))" if "digest_inv sha t" for t
    using that unfolding keys by (simp add: digest_inv_def strict_sorted_iff)
  have "map_of (?e t) = map_of (?e u)"
    using map_of_inject_set [OF distinct [OF t] distinct [OF u]] entries [OF t] entries [OF u] eq by simp
  then have "?e t = ?e u"
    using t u by (intro sorted_alist_unique) (simp_all only: keys digest_inv_def)
  moreover have "inj_on sorted_entry (set (dt_digestNode t) \<union> set (dt_digestNode u))"
    using t u by (intro inj_onI sorted_entry_inj [of sha]) (auto simp: digest_inv_def list_all_iff)
  ultimately have "dt_digestNode t = dt_digestNode u" by (rule map_inj_on)
  with t u show ?thesis
    by (cases t; cases u) (auto simp: digest_inv_def recomputeRoot_def DigestTree_new_def split: if_splits)
qed

section \<open>Equal roots have equal maps\<close>

text \<open>The messages a tree hashes: the inputs on which SHA-256 must not collide.\<close>

definition sequence_input :: "digestNode \<Rightarrow> byte list" where
  "sequence_input n = int32ToLittleEndian (dn_sessionNo n) @ int32ToLittleEndian (dn_sequenceNo n)"

definition node_input :: "sha256 \<Rightarrow> digestNode \<Rightarrow> byte list" where
  "node_input sha n = sha (dn_dataPrefix n) @ sha (sequence_input n)"

definition root_input :: "sha256 \<Rightarrow> digestTree \<Rightarrow> byte list" where
  "root_input sha t = concat (map (\<lambda>n. sha (node_input sha n)) (dt_digestNode t))"

definition hashed :: "sha256 \<Rightarrow> digestTree \<Rightarrow> byte list list" where
  "hashed sha t = root_input sha t #
    concat (map (\<lambda>n. [sequence_input n, dn_dataPrefix n, node_input sha n]) (dt_digestNode t))"

lemma digest_fromHexChar_eq: "digest_fromHexChar = fromHexChar"
  by (simp add: fun_eq_iff digest_fromHexChar_def fromHexChar_def)

lemma length_toHex [simp]: "length (toHex bs) = 2 * length bs"
proof (induction bs)
  case (Cons b bs)
  then show ?case by (simp add: toHex_Cons)
qed (simp add: toHex_def)

lemma toHex_nth:
  "i < length bs \<Longrightarrow> toHex bs ! (2 * i) = print_digit 87 (unat (bs ! i) div 16) \<and>
    toHex bs ! (2 * i + 1) = print_digit 87 (unat (bs ! i) mod 16)"
proof (induction bs arbitrary: i)
  case (Cons b bs)
  then show ?case by (cases i) (simp_all add: toHex_Cons)
qed simp

lemma SHA256_UpdateHex_toHex [simp]: "SHA256_UpdateHex (toHex bs) = bs"
proof (rule nth_equalityI)
  fix i assume "i < length (SHA256_UpdateHex (toHex bs))"
  then have "i < length bs" by (simp add: SHA256_UpdateHex_def)
  then show "SHA256_UpdateHex (toHex bs) ! i = bs ! i"
    using toHex_nth [of i bs] hex_value [of 87 "bs ! i"]
    by (simp add: SHA256_UpdateHex_def digest_fromHexChar_eq del: of_int_add of_int_mult)
qed (simp add: SHA256_UpdateHex_def)

lemma toHex_inj: "toHex xs = toHex ys \<Longrightarrow> xs = ys"
  by (metis SHA256_UpdateHex_toHex)

lemma node_digest:
  assumes "node_current sha n"
  shows "dn_digest n = toHex (sha (node_input sha n))"
proof -
  have "dn_digest n = dn_digest (recomputeDigest sha n)" using assms by (simp add: node_current_def)
  then show ?thesis by (simp add: recomputeDigest_def node_input_def sequence_input_def)
qed

lemma tree_root:
  assumes "digest_inv sha t"
  shows "dt_root t = (if dt_digestNode t = [] then str ''00'' else toHex (sha (root_input sha t)))"
proof (cases "dt_digestNode t = []")
  case False
  have "concat (map (\<lambda>n. SHA256_UpdateHex (dn_digest n)) (dt_digestNode t)) = root_input sha t"
    using assms unfolding root_input_def
    by (intro arg_cong [where f = concat] map_cong) (auto simp: digest_inv_def list_all_iff node_digest)
  moreover have "dt_root t = dt_root (recomputeRoot sha t)" using assms False by (simp add: digest_inv_def)
  ultimately show ?thesis using False by (simp add: recomputeRoot_def)
qed (use assms in \<open>simp add: digest_inv_def DigestTree_new_def\<close>)

lemma littleEndian_loop_inj:
  "littleEndian_loop n v = littleEndian_loop n w \<Longrightarrow> take_bit (8 * n) v = take_bit (8 * n) w"
proof (induction n arbitrary: v w)
  case (Suc n)
  have low: "(ucast (v mod 256) :: byte) = ucast (w mod 256)" and
    loop: "littleEndian_loop n (v div 256) = littleEndian_loop n (w div 256)"
    using Suc.prems by simp_all
  have high: "take_bit (8 * n) (v div 256) = take_bit (8 * n) (w div 256)" by (rule Suc.IH [OF loop])
  have shift: "x div 256 = drop_bit 8 x" for x :: u32 by (simp add: drop_bit_eq_div)
  have mask: "x mod 256 = take_bit 8 x" for x :: u32 by (simp add: take_bit_eq_mod)
  show ?case
  proof (rule bit_eqI)
    fix i assume "possible_bit TYPE(u32) i"
    show "bit (take_bit (8 * Suc n) v) i \<longleftrightarrow> bit (take_bit (8 * Suc n) w) i"
    proof (cases "i < 8")
      case True
      then show ?thesis using arg_cong [OF low, of "\<lambda>x. bit x i"] by (simp add: mask bit_simps)
    next
      case False
      then show ?thesis using arg_cong [OF high, of "\<lambda>x. bit x (i - 8)"] by (auto simp: shift bit_simps)
    qed
  qed
qed simp

lemma int32ToLittleEndian_inj: "int32ToLittleEndian v = int32ToLittleEndian w \<Longrightarrow> v = w"
  using littleEndian_loop_inj [of 4 v w] by (simp add: int32ToLittleEndian_def take_bit_word_eq_self)

lemma length_int32ToLittleEndian [simp]: "length (int32ToLittleEndian v) = 4"
  by (simp add: int32ToLittleEndian_def numeral_eq_Suc)

lemma blocks_inj:
  "\<lbrakk>concat xss = concat yss; \<forall>xs \<in> set xss \<union> set yss. length xs = Suc n\<rbrakk> \<Longrightarrow> xss = yss"
proof (induction xss arbitrary: yss)
  case Nil
  then show ?case by (cases yss) auto
next
  case (Cons xs xss)
  then show ?case by (cases yss) auto
qed

lemma node_digest_inj:
  assumes "\<forall>x. length (sha x) = 32" "node_current sha n" "node_current sha m"
    "inj_on sha {sequence_input n, dn_dataPrefix n, node_input sha n, sequence_input m, dn_dataPrefix m, node_input sha m}"
    "sha (node_input sha n) = sha (node_input sha m)"
  shows "n = m"
proof -
  have "node_input sha n = node_input sha m" using assms(4,5) by (auto dest: inj_onD)
  then have "sha (dn_dataPrefix n) = sha (dn_dataPrefix m)" "sha (sequence_input n) = sha (sequence_input m)"
    using assms(1) by (simp_all add: node_input_def)
  then have prefix: "dn_dataPrefix n = dn_dataPrefix m" and seq: "sequence_input n = sequence_input m"
    using assms(4) by (auto dest: inj_onD)
  have "dn_sessionNo n = dn_sessionNo m" "dn_sequenceNo n = dn_sequenceNo m"
    using seq by (auto simp: sequence_input_def intro: int32ToLittleEndian_inj)
  with prefix show ?thesis
    by (intro sorted_entry_inj [OF assms(2,3)]) (simp add: sorted_entry_def dnkey_def)
qed

lemma equal_roots_equal_trees:
  assumes len: "\<forall>x. length (sha x) = 32" and t: "digest_inv sha t" and u: "digest_inv sha u"
    and inj: "inj_on sha (set (hashed sha t) \<union> set (hashed sha u))" and eq: "dt_root t = dt_root u"
  shows "t = u"
proof -
  let ?d = "\<lambda>n. sha (node_input sha n)"
  have two: "length (str ''00'') = 2" by (simp add: str_def)
  consider "dt_digestNode t = []" "dt_digestNode u = []" | "dt_digestNode t \<noteq> []" "dt_digestNode u \<noteq> []"
    using eq len two length_toHex [of "sha (root_input sha t)"] length_toHex [of "sha (root_input sha u)"]
    by (cases "dt_digestNode t = []"; cases "dt_digestNode u = []") (force simp: tree_root [OF t] tree_root [OF u])+
  then show ?thesis
  proof cases
    case 2
    then have "sha (root_input sha t) = sha (root_input sha u)"
      using eq by (auto simp: tree_root [OF t] tree_root [OF u] intro: toHex_inj)
    then have "root_input sha t = root_input sha u" by (rule inj_onD [OF inj]) (simp_all add: hashed_def)
    then have "map ?d (dt_digestNode t) = map ?d (dt_digestNode u)"
      unfolding root_input_def by (rule blocks_inj [where n = 31]) (use len in auto)
    moreover have "inj_on ?d (set (dt_digestNode t) \<union> set (dt_digestNode u))"
    proof (rule inj_onI)
      fix n m assume n: "n \<in> set (dt_digestNode t) \<union> set (dt_digestNode u)"
        and m: "m \<in> set (dt_digestNode t) \<union> set (dt_digestNode u)" and d: "?d n = ?d m"
      have "node_current sha n" "node_current sha m"
        using t u n m by (auto simp: digest_inv_def list_all_iff)
      moreover have "inj_on sha {sequence_input n, dn_dataPrefix n, node_input sha n,
          sequence_input m, dn_dataPrefix m, node_input sha m}"
        by (rule inj_on_subset [OF inj]) (use n m in \<open>auto simp: hashed_def\<close>)
      ultimately show "n = m" by (rule node_digest_inj [OF len _ _ _ d])
    qed
    ultimately have "dt_digestNode t = dt_digestNode u" by (rule map_inj_on)
    with eq show ?thesis by (cases t; cases u) simp
  qed (use t u in \<open>simp add: digest_inv_def\<close>)
qed

text \<open>
  C15. Convergence of the digest tree.  After any history of updates the tree holds the highest sequence
  number of every (data prefix, session) in the history, whatever the order; and two participants have the
  same root digest exactly when these highest numbers agree.  SHA-256 is an argument: its digests have 32
  bytes and it does not collide on the messages the two trees hash.
\<close>

theorem digest_tree_converges:
  assumes "\<forall>x. length (sha x) = 32"
    and "inj_on sha (set (hashed sha (digest_run sha us)) \<union> set (hashed sha (digest_run sha vs)))"
  shows "digest_map (digest_run sha us) = latest us \<and>
    (dt_root (digest_run sha us) = dt_root (digest_run sha vs) \<longleftrightarrow> latest us = latest vs)"
proof -
  have inv: "digest_inv sha (digest_run sha us)" "digest_inv sha (digest_run sha vs)"
    and maps: "digest_map (digest_run sha us) = latest us" "digest_map (digest_run sha vs) = latest vs"
    using digest_run_spec by auto
  have "dt_root (digest_run sha us) = dt_root (digest_run sha vs) \<Longrightarrow> digest_run sha us = digest_run sha vs"
    by (rule equal_roots_equal_trees [OF assms(1) inv assms(2)])
  moreover have "latest us = latest vs \<Longrightarrow> digest_run sha us = digest_run sha vs"
    using equal_maps_equal_trees [OF inv] maps by simp
  ultimately show ?thesis using maps by metis
qed

definition sample_sha :: sha256 where
  "sample_sha bs = replicate 30 0 @ [of_nat (length bs), foldl (\<lambda>h b. 3 * h + b + 1) 0 bs]"

theorem digest_tree_converges_witness:
  "dt_root (digest_run sample_sha [((str ''/a'', 0), 1), ((str ''/b'', -1), 5), ((str ''/a'', 0), 3)]) =
   dt_root (digest_run sample_sha [((str ''/b'', -1), 5), ((str ''/a'', 0), 3)])"
proof -
  let ?us = "[((str ''/a'', 0), 1), ((str ''/b'', -1), 5), ((str ''/a'', 0), 3)] :: digestUpdate list"
  let ?vs = "[((str ''/b'', -1), 5), ((str ''/a'', 0), 3)] :: digestUpdate list"
  have len: "\<forall>x. length (sample_sha x) = 32" by (simp add: sample_sha_def)
  have same: "latest ?us = latest ?vs"
    by (simp add: latest_def sequences_def fun_eq_iff str_def)
  then have tree: "digest_run sample_sha ?us = digest_run sample_sha ?vs"
    using digest_run_spec by (intro equal_maps_equal_trees [of sample_sha]) (blast, blast, metis)
  have "distinct (map sample_sha (hashed sample_sha (digest_run sample_sha ?vs)))"
    by code_simp
  then have "inj_on sample_sha (set (hashed sample_sha (digest_run sample_sha ?us)) \<union> set (hashed sample_sha (digest_run sample_sha ?vs)))"
    by (simp only: tree distinct_map Un_absorb)
  then show ?thesis
    using digest_tree_converges [OF len, of ?us ?vs] same by blast
qed

end
