(* ===== verification/Content_Cache.thy ===== *)
theory Content_Cache
  imports Node
begin

text \<open>
  The content cache of an application (\<open>src/util/memory-content-cache.cpp\<close>): data packets with and
  without a freshness period, a table of interests that wait for data, and the calls to the Face.

  Times are nanosecond counts; the operations that read the clock take its value \<open>now\<close>.  A Face is a
  number.  Calls to a Face and to the application are outputs in their order; \<open>OnContentRemoved\<close> alone is an
  argument that acts on the cache, because the source expects it to call \<open>add\<close> during the cleanup.
\<close>

section \<open>State\<close>

record content =
  ct_name :: name
  ct_dataEncoding :: "byte list"

record staleTimeContent = content +
  st_cacheRemovalTime :: int
  st_freshnessExpiryTime :: int

record 'w cachePending =
  cp_interest :: "'w interest"
  cp_face :: nat
  cp_timeoutPeriodStart :: int
  cp_timeoutTime :: int

record 'w contentCache =
  mc_cleanupInterval :: int
  mc_nextCleanupTime :: int
  mc_onDataNotFoundForPrefix :: "byte list \<Rightarrow> nat option option"
  mc_interestFilterIdList :: "u64 list"
  mc_registeredPrefixIdList :: "u64 list"
  mc_noStaleTimeCache :: "content list"
  mc_staleTimeCache :: "staleTimeContent list"
  mc_pendingInterestTable :: "'w cachePending list"
  mc_hasOnContentRemoved :: bool
  mc_isDoingCleanup :: bool
  mc_minimumCacheLifetime :: int

datatype 'w cacheOutput =
    FaceSend nat "byte list"
  | FaceRegisterPrefix name
  | FaceSetInterestFilter interestFilter
  | FaceUnsetInterestFilter u64
  | FaceRemoveRegisteredPrefix u64
  | OnDataNotFound nat name "'w interest" nat u64

text \<open>The application's \<open>OnContentRemoved\<close>: it receives the removed contents and may use the cache.\<close>

type_synonym 'w onContentRemoved =
  "content list \<Rightarrow> 'w contentCache \<Rightarrow> 'w contentCache \<times> 'w cacheOutput list"

type_synonym 'w cacheResult = "'w contentCache \<times> 'w cacheOutput list \<times> error option"

section \<open>Operations\<close>

definition MemoryContentCache :: "int \<Rightarrow> int \<Rightarrow> 'w contentCache" where
  "MemoryContentCache now cleanupInterval =
    \<lparr>mc_cleanupInterval = cleanupInterval, mc_nextCleanupTime = now + cleanupInterval,
     mc_onDataNotFoundForPrefix = Map.empty, mc_interestFilterIdList = [], mc_registeredPrefixIdList = [],
     mc_noStaleTimeCache = [], mc_staleTimeCache = [], mc_pendingInterestTable = [],
     mc_hasOnContentRemoved = False, mc_isDoingCleanup = False, mc_minimumCacheLifetime = 0\<rparr>"

text \<open>The identifier is the one the Face returns.\<close>

definition mc_registerPrefix ::
    "name \<Rightarrow> nat option \<Rightarrow> u64 \<Rightarrow> 'w contentCache \<Rightarrow> 'w cacheResult" where
  "mc_registerPrefix prefix onDataNotFound registeredPrefixId c =
    (case toUri False prefix of
       Inl e \<Rightarrow> (c, [], Some e)
     | Inr uri \<Rightarrow>
         (c\<lparr>mc_onDataNotFoundForPrefix := (mc_onDataNotFoundForPrefix c)(uri \<mapsto> onDataNotFound),
            mc_registeredPrefixIdList := mc_registeredPrefixIdList c @ [registeredPrefixId]\<rparr>,
          [FaceRegisterPrefix prefix], None))"

definition mc_setInterestFilter ::
    "interestFilter \<Rightarrow> nat option \<Rightarrow> u64 \<Rightarrow> 'w contentCache \<Rightarrow> 'w cacheResult" where
  "mc_setInterestFilter fltr onDataNotFound interestFilterId c =
    (case toUri False (if_prefix fltr) of
       Inl e \<Rightarrow> (c, [], Some e)
     | Inr uri \<Rightarrow>
         (c\<lparr>mc_onDataNotFoundForPrefix := (mc_onDataNotFoundForPrefix c)(uri \<mapsto> onDataNotFound),
            mc_interestFilterIdList := mc_interestFilterIdList c @ [interestFilterId]\<rparr>,
          [FaceSetInterestFilter fltr], None))"

definition mc_setInterestFilterPrefix ::
    "name \<Rightarrow> nat option \<Rightarrow> u64 \<Rightarrow> 'w contentCache \<Rightarrow> 'w cacheResult" where
  "mc_setInterestFilterPrefix prefix onDataNotFound interestFilterId c =
    mc_setInterestFilter \<lparr>if_prefix = prefix, if_regexFilter = []\<rparr> onDataNotFound interestFilterId c"

definition mc_unregisterAll :: "'w contentCache \<Rightarrow> 'w contentCache \<times> 'w cacheOutput list" where
  "mc_unregisterAll c =
    (c\<lparr>mc_interestFilterIdList := [], mc_registeredPrefixIdList := [],
       mc_onDataNotFoundForPrefix := Map.empty\<rparr>,
     map FaceUnsetInterestFilter (mc_interestFilterIdList c) @
     map FaceRemoveRegisteredPrefix (mc_registeredPrefixIdList c))"

definition isPastRemovalTime :: "int \<Rightarrow> staleTimeContent \<Rightarrow> bool" where
  "isPastRemovalTime now s \<longleftrightarrow> st_cacheRemovalTime s \<le> now"

definition st_isFresh :: "int \<Rightarrow> staleTimeContent \<Rightarrow> bool" where
  "st_isFresh now s \<longleftrightarrow> st_freshnessExpiryTime s > now"

definition contentCompare :: "staleTimeContent \<Rightarrow> staleTimeContent \<Rightarrow> bool" where
  "contentCompare x y \<longleftrightarrow> st_cacheRemovalTime x < st_cacheRemovalTime y"

definition Content_of :: "staleTimeContent \<Rightarrow> content" where
  "Content_of s = \<lparr>ct_name = ct_name s, ct_dataEncoding = ct_dataEncoding s\<rparr>"

definition StaleTimeContent :: "name \<Rightarrow> byte list \<Rightarrow> int \<Rightarrow> int \<Rightarrow> int \<Rightarrow> staleTimeContent" where
  "StaleTimeContent name encoding freshnessPeriod now minimumCacheLifetime =
    \<lparr>ct_name = name, ct_dataEncoding = encoding,
     st_cacheRemovalTime = now + max freshnessPeriod minimumCacheLifetime,
     st_freshnessExpiryTime = now + freshnessPeriod\<rparr>"

text \<open>The loop of \<open>doCleanup\<close> takes contents from the front as long as they are past their removal time.\<close>

definition doCleanup ::
    "'w onContentRemoved \<Rightarrow> int \<Rightarrow> 'w contentCache \<Rightarrow> 'w contentCache \<times> 'w cacheOutput list" where
  "doCleanup onContentRemoved now c =
    (if mc_isDoingCleanup c then (c, [])
     else
       let c = c\<lparr>mc_isDoingCleanup := True\<rparr>;
           removed = (if now \<ge> mc_nextCleanupTime c then takeWhile (isPastRemovalTime now) (mc_staleTimeCache c) else []);
           c = (if now \<ge> mc_nextCleanupTime c
                then c\<lparr>mc_staleTimeCache := dropWhile (isPastRemovalTime now) (mc_staleTimeCache c),
                       mc_nextCleanupTime := now + mc_cleanupInterval c\<rparr>
                else c);
           (c, out) = (if mc_hasOnContentRemoved c \<and> removed \<noteq> []
                       then onContentRemoved (map Content_of removed) c else (c, []))
       in (c\<lparr>mc_isDoingCleanup := False\<rparr>, out))"

definition cp_isTimedOut :: "int \<Rightarrow> 'w cachePending \<Rightarrow> bool" where
  "cp_isTimedOut now p \<longleftrightarrow> now \<ge> cp_timeoutTime p"

definition cache_PendingInterest :: "int \<Rightarrow> 'w interest \<Rightarrow> nat \<Rightarrow> 'w cachePending" where
  "cache_PendingInterest now interest face =
    (let interestLifetime = (if i_interestLifetime interest < 0 then 4000000000 else i_interestLifetime interest)
     in \<lparr>cp_interest = interest, cp_face = face, cp_timeoutPeriodStart = now, cp_timeoutTime = now + interestLifetime\<rparr>)"

text \<open>
  The loop of \<open>add\<close> over the pending interests, which goes backwards (the argument is the reversed
  table).  The result is what is left of it, the packets sent and an exception of \<open>matchesName\<close>;
  an exception while sending ends the loop.
\<close>

fun add_loop :: "'w wire_env \<Rightarrow> int \<Rightarrow> 'w data \<Rightarrow> 'w cachePending list \<Rightarrow>
    'w cachePending list \<times> 'w cacheOutput list \<times> error option" where
  "add_loop env now data [] = ([], [], None)"
| "add_loop env now data (p # ps) =
    (if cp_isTimedOut now p then add_loop env now data ps
     else case matchesName (cp_interest p) (data_getName data) of
       Inl e \<Rightarrow> (p # ps, [], Some e)
     | Inr False \<Rightarrow> (let (kept, out, e) = add_loop env now data ps in (p # kept, out, e))
     | Inr True \<Rightarrow>
         (case data_wireEncode env (env_default env) data of
            Inl _ \<Rightarrow> (p # ps, [], None)
          | Inr (encoding, data) \<Rightarrow>
              if length (sb_bytes encoding) > getMaxNdnPacketSize then (p # ps, [], None)
              else let (kept, out, e) = add_loop env now data ps
                   in (kept, FaceSend (cp_face p) (sb_bytes encoding) # out, e)))"

definition mc_add ::
    "'w wire_env \<Rightarrow> 'w onContentRemoved \<Rightarrow> int \<Rightarrow> 'w data \<Rightarrow> 'w contentCache \<Rightarrow> 'w cacheResult" where
  "mc_add env onContentRemoved now data c =
    (let (c, out1) = doCleanup onContentRemoved now c in
     case data_wireEncode env (env_default env) data of
       Inl e \<Rightarrow> (c, out1, Some e)
     | Inr (encoding, data) \<Rightarrow>
         let freshnessPeriod = mi_freshnessPeriod (cc_get (d_metaInfo data));
             c = (if freshnessPeriod \<ge> 0 then
                    let content = StaleTimeContent (data_getName data) (sb_bytes encoding) freshnessPeriod now
                                    (mc_minimumCacheLifetime c)
                    in c\<lparr>mc_staleTimeCache :=
                           insert_at (lower_bound contentCompare content (mc_staleTimeCache c)) content (mc_staleTimeCache c)\<rparr>
                  else c\<lparr>mc_noStaleTimeCache := mc_noStaleTimeCache c @
                           [\<lparr>ct_name = data_getName data, ct_dataEncoding = sb_bytes encoding\<rparr>]\<rparr>);
             (kept, out2, e) = add_loop env now data (rev (mc_pendingInterestTable c))
         in (c\<lparr>mc_pendingInterestTable := rev kept\<rparr>, out1 @ out2, e))"

definition mc_storePendingInterest :: "int \<Rightarrow> 'w interest \<Rightarrow> nat \<Rightarrow> 'w contentCache \<Rightarrow> 'w contentCache" where
  "mc_storePendingInterest now interest face c =
    c\<lparr>mc_pendingInterestTable := mc_pendingInterestTable c @ [cache_PendingInterest now interest face]\<rparr>"

text \<open>The loop of the two queries, over the reversed table: what is left of it and the matches.\<close>

fun pending_loop :: "int \<Rightarrow> ('w cachePending \<Rightarrow> error + bool) \<Rightarrow> 'w cachePending list \<Rightarrow>
    'w cachePending list \<times> 'w cachePending list \<times> error option" where
  "pending_loop now matches [] = ([], [], None)"
| "pending_loop now matches (p # ps) =
    (if cp_isTimedOut now p then pending_loop now matches ps
     else case matches p of
       Inl e \<Rightarrow> (p # ps, [], Some e)
     | Inr b \<Rightarrow> (let (kept, found, e) = pending_loop now matches ps
                 in (p # kept, if b then p # found else found, e)))"

definition getPendingInterestsForName ::
    "int \<Rightarrow> name \<Rightarrow> 'w contentCache \<Rightarrow> 'w contentCache \<times> 'w cachePending list \<times> error option" where
  "getPendingInterestsForName now name c =
    (let (kept, found, e) = pending_loop now (\<lambda>p. matchesName (cp_interest p) name) (rev (mc_pendingInterestTable c))
     in (c\<lparr>mc_pendingInterestTable := rev kept\<rparr>, found, e))"

definition getPendingInterestsWithPrefix ::
    "int \<Rightarrow> name \<Rightarrow> 'w contentCache \<Rightarrow> 'w contentCache \<times> 'w cachePending list \<times> error option" where
  "getPendingInterestsWithPrefix now prefix c =
    (let (kept, found, e) = pending_loop now (\<lambda>p. Inr (name_match prefix (int_getName (cp_interest p))))
           (rev (mc_pendingInterestTable c))
     in (c\<lparr>mc_pendingInterestTable := rev kept\<rparr>, found, e))"

definition mc_setOnContentRemoved :: "bool \<Rightarrow> 'w contentCache \<Rightarrow> 'w contentCache" where
  "mc_setOnContentRemoved given c = c\<lparr>mc_hasOnContentRemoved := given\<rparr>"

definition mc_setMinimumCacheLifetime :: "int \<Rightarrow> 'w contentCache \<Rightarrow> 'w contentCache" where
  "mc_setMinimumCacheLifetime minimumCacheLifetime c = c\<lparr>mc_minimumCacheLifetime := minimumCacheLifetime\<rparr>"

text \<open>
  The search of \<open>onInterest\<close> over both caches, each content with its freshness.  The selection so far is
  the component and the encoding of the best match; the result is either the first match (left) when the
  interest has no child selector, or the final selection.
\<close>

definition child_component :: "'w interest \<Rightarrow> content \<Rightarrow> error + component" where
  "child_component interest content =
    (if length (ct_name content) > length (int_getName interest)
     then name_get (ct_name content) (int (length (int_getName interest))) else Inr Component0)"

definition better_match :: "'w interest \<Rightarrow> component \<Rightarrow> (component \<times> byte list) option \<Rightarrow> bool" where
  "better_match interest component selected =
    (case selected of
       None \<Rightarrow> True
     | Some (selectedComponent, _) \<Rightarrow>
         if i_childSelector interest = 0 then component_compare component selectedComponent < 0
         else component_compare component selectedComponent > 0)"

primrec select_loop :: "'w interest \<Rightarrow> (component \<times> byte list) option \<Rightarrow> (content \<times> bool) list \<Rightarrow>
    error + (byte list + (component \<times> byte list) option)" where
  "select_loop interest selected [] = Inr (Inr selected)"
| "select_loop interest selected (x # rest) =
    (let content = fst x; isFresh = snd x in
     bindE (matchesName interest (ct_name content)) (\<lambda>m.
     if m \<and> \<not> (i_mustBeFresh interest \<and> \<not> isFresh) then
       if i_childSelector interest < 0 then Inr (Inl (ct_dataEncoding content))
       else bindE (child_component interest content) (\<lambda>component.
         select_loop interest
           (if better_match interest component selected then Some (component, ct_dataEncoding content) else selected) rest)
     else select_loop interest selected rest))"

definition cache_contents :: "int \<Rightarrow> 'w contentCache \<Rightarrow> (content \<times> bool) list" where
  "cache_contents now c =
    map (\<lambda>s. (Content_of s, st_isFresh now s)) (mc_staleTimeCache c) @
    map (\<lambda>content. (content, True)) (mc_noStaleTimeCache c)"

definition face_send :: "nat \<Rightarrow> byte list \<Rightarrow> 'w cacheOutput list \<Rightarrow> 'w contentCache \<Rightarrow> 'w cacheResult" where
  "face_send face encoding out c =
    (if length encoding > getMaxNdnPacketSize
     then (c, out, Some (Runtime_error ''The encoded packet size exceeds the maximum limit getMaxNdnPacketSize()''))
     else (c, out @ [FaceSend face encoding], None))"

definition mc_onInterest ::
    "'w onContentRemoved \<Rightarrow> int \<Rightarrow> name \<Rightarrow> 'w interest \<Rightarrow> nat \<Rightarrow> u64 \<Rightarrow> 'w contentCache \<Rightarrow> 'w cacheResult" where
  "mc_onInterest onContentRemoved now prefix interest face interestFilterId c =
    (let (c, out) = doCleanup onContentRemoved now c in
     case select_loop interest None (cache_contents now c) of
       Inl e \<Rightarrow> (c, out, Some e)
     | Inr (Inl encoding) \<Rightarrow> face_send face encoding out c
     | Inr (Inr (Some (_, selectedEncoding))) \<Rightarrow> face_send face selectedEncoding out c
     | Inr (Inr None) \<Rightarrow>
         (case toUri False prefix of
            Inl e \<Rightarrow> (c, out, Some e)
          | Inr uri \<Rightarrow>
              (c, case mc_onDataNotFoundForPrefix c uri of
                    Some (Some onDataNotFound) \<Rightarrow> out @ [OnDataNotFound onDataNotFound prefix interest face interestFilterId]
                  | _ \<Rightarrow> out, None)))"

section \<open>Encoding a packet twice\<close>

lemma checkChanged_idle:
  "cc_pending c = 0 \<Longrightarrow> checkChanged c = (False, c)" "sp_pending s = 0 \<Longrightarrow> sp_checkChanged s = (False, s)"
  by (auto simp: cc_pending_def checkChanged_def sp_pending_def sp_checkChanged_def Let_def unat_eq_0
      split: option.splits)

lemma data_getChangeCount_idle: "data_pending d = 0 \<Longrightarrow> data_getChangeCount d = d"
  by (simp add: data_pending_def data_getChangeCount_def checkChanged_idle)

lemma data_wireEncode_values:
  assumes "data_wireEncode env w d = Inr (e, d')"
  shows "data_get d' = data_get d"
  using assms
  by (auto simp: data_wireEncode_def data_getDefaultWireEncoding_def data_setDefaultWireEncoding_def
      data_getChangeCount_values Let_def bindE_eq_Inr split: if_splits option.splits prod.splits)

lemma data_wireEncode_again:
  assumes "data_wireEncode env (env_default env) d = Inr (e, d')"
  shows "data_wireEncode env (env_default env) d' = Inr (e, d')"
  using data_wireEncode_default [OF assms] data_wireEncode_clean [OF assms]
  by (simp add: data_wireEncode_def data_getDefaultWireEncoding_def data_getChangeCount_idle)

section \<open>The answer to an interest\<close>

definition interest_matches :: "'w interest \<Rightarrow> name \<Rightarrow> bool" where
  "interest_matches i n \<longleftrightarrow> matchesName i n = Inr True"

lemma matchesName_total: "matchesName i n = Inr (interest_matches i n)"
proof -
  have "\<exists>b. matchesName i n = Inr b" by (auto simp: matchesName_def name_get_nat)
  then show ?thesis by (auto simp: interest_matches_def)
qed

definition child_of :: "'w interest \<Rightarrow> content \<Rightarrow> component" where
  "child_of i content =
    (if length (ct_name content) > length (int_getName i) then ct_name content ! length (int_getName i) else Component0)"

lemma child_component_total: "child_component i content = Inr (child_of i content)"
  by (simp add: child_component_def child_of_def name_get_nat)

text \<open>The contents that may answer an interest, in the order of the caches.\<close>

definition candidates :: "'w interest \<Rightarrow> (content \<times> bool) list \<Rightarrow> content list" where
  "candidates i xs =
    map fst (filter (\<lambda>x. interest_matches i (ct_name (fst x)) \<and> (i_mustBeFresh i \<longrightarrow> snd x)) xs)"

lemma candidates_simps [simp]:
  "candidates i [] = []"
  "candidates i (x # xs) = (if interest_matches i (ct_name (fst x)) \<and> (i_mustBeFresh i \<longrightarrow> snd x)
     then fst x # candidates i xs else candidates i xs)"
  by (simp_all add: candidates_def)

lemma select_loop_first:
  "i_childSelector i < 0 \<Longrightarrow> select_loop i selected xs =
    Inr (case candidates i xs of [] \<Rightarrow> Inr selected | content # _ \<Rightarrow> Inl (ct_dataEncoding content))"
  by (induction xs) (auto simp: matchesName_total)

definition keep_better :: "'w interest \<Rightarrow> (component \<times> byte list) option \<Rightarrow> content \<Rightarrow> (component \<times> byte list) option" where
  "keep_better i selected content =
    (if better_match i (child_of i content) selected then Some (child_of i content, ct_dataEncoding content) else selected)"

lemma select_loop_best:
  "\<not> i_childSelector i < 0 \<Longrightarrow> select_loop i selected xs = Inr (Inr (foldl (keep_better i) selected (candidates i xs)))"
  by (induction xs arbitrary: selected) (auto simp: matchesName_total child_component_total keep_better_def)

text \<open>The first optimum of a list of keys under a strict total order.\<close>

definition first_best :: "('k \<Rightarrow> 'k \<Rightarrow> bool) \<Rightarrow> 'k list \<Rightarrow> nat \<Rightarrow> bool" where
  "first_best lt ks k \<longleftrightarrow> k < length ks \<and> (\<forall>j < length ks. \<not> lt (ks ! j) (ks ! k)) \<and> (\<forall>j < k. lt (ks ! k) (ks ! j))"

lemma first_best_snoc:
  assumes trans: "\<And>a b c. lt a b \<Longrightarrow> lt b c \<Longrightarrow> lt a c" and irrefl: "\<And>a. \<not> lt a a"
    and total: "\<And>a b. a \<noteq> b \<Longrightarrow> lt a b \<or> lt b a" and best: "first_best lt ks k"
  shows "first_best lt (ks @ [x]) (if lt x (ks ! k) then length ks else k)"
proof (cases "lt x (ks ! k)")
  case True
  have "lt x (ks ! j)" if "j < length ks" for j
    using that best True total [of "ks ! j" "ks ! k"] trans by (metis first_best_def)
  moreover have "\<not> lt (ks ! j) x" if "j < length ks" for j
    using calculation [OF that] irrefl [of x] trans by blast
  ultimately show ?thesis
    using True irrefl by (auto simp: first_best_def nth_append less_Suc_eq)
next
  case False
  with best show ?thesis by (auto simp: first_best_def nth_append less_Suc_eq)
qed

text \<open>What the child selector asks for: no selector takes the first, 0 the leftmost, others the rightmost child.\<close>

definition chosen :: "'w interest \<Rightarrow> component list \<Rightarrow> nat \<Rightarrow> bool" where
  "chosen i cs k \<longleftrightarrow>
    (if i_childSelector i < 0 then k = 0
     else first_best (if i_childSelector i = 0 then (<) else (>)) (map key cs) k)"

lemma foldl_keep_better:
  assumes "\<not> i_childSelector i < 0" "cs \<noteq> []"
  shows "\<exists>k. chosen i (map (child_of i) cs) k \<and> k < length cs \<and>
    foldl (keep_better i) None cs = Some (child_of i (cs ! k), ct_dataEncoding (cs ! k))"
  using assms(2)
proof (induction cs rule: rev_induct)
  case (snoc c cs)
  let ?lt = "if i_childSelector i = 0 then (<) else (>) :: ckey \<Rightarrow> ckey \<Rightarrow> bool"
  let ?keys = "map key (map (child_of i) cs)"
  show ?case
  proof (cases "cs = []")
    case True
    then show ?thesis
      using assms(1) by (auto simp: chosen_def first_best_def keep_better_def better_match_def)
  next
    case False
    then obtain k where k: "first_best ?lt ?keys k" "k < length cs"
      "foldl (keep_better i) None cs = Some (child_of i (cs ! k), ct_dataEncoding (cs ! k))"
      using snoc.IH assms(1) by (auto simp: chosen_def)
    have better: "better_match i (child_of i c) (foldl (keep_better i) None cs) \<longleftrightarrow> ?lt (key (child_of i c)) (?keys ! k)"
      using k by (auto simp: better_match_def component_compare_cmp cmp_def)
    have "first_best ?lt (?keys @ [key (child_of i c)])
        (if ?lt (key (child_of i c)) (?keys ! k) then length ?keys else k)"
      by (rule first_best_snoc [OF _ _ _ k(1)]) (auto split: if_splits)
    then show ?thesis
      using better k assms(1)
      by (intro exI [of _ "if ?lt (key (child_of i c)) (?keys ! k) then length cs else k"])
        (auto simp: chosen_def keep_better_def [of i "Some p" for p] nth_append split: if_splits)
  qed
qed simp

text \<open>
  C19. The answer of the content cache.  After the cleanup, an interest that no cached content answers
  (matching name, and fresh when the interest asks for it) goes to the callback registered for the prefix,
  if there is one; otherwise exactly one packet is sent to the face the interest came from: the first
  candidate in the order of the caches without a child selector, else the first one whose next component
  is leftmost (selector 0) or rightmost (others) in the canonical order.
\<close>

theorem content_cache_answer:
  "case doCleanup onContentRemoved now c of (c', out) \<Rightarrow>
     let cs = candidates interest (cache_contents now c') in
     if cs = [] then
       mc_onInterest onContentRemoved now prefix interest face interestFilterId c =
         (case toUri False prefix of
            Inl e \<Rightarrow> (c', out, Some e)
          | Inr uri \<Rightarrow> (c', case mc_onDataNotFoundForPrefix c' uri of
              Some (Some cb) \<Rightarrow> out @ [OnDataNotFound cb prefix interest face interestFilterId] | _ \<Rightarrow> out, None))
     else \<exists>k < length cs. chosen interest (map (child_of interest) cs) k \<and>
       mc_onInterest onContentRemoved now prefix interest face interestFilterId c =
         face_send face (ct_dataEncoding (cs ! k)) out c'"
proof -
  obtain c' out where cleanup: "doCleanup onContentRemoved now c = (c', out)" by fastforce
  let ?cs = "candidates interest (cache_contents now c')"
  have selected: "select_loop interest None (cache_contents now c') =
      (if i_childSelector interest < 0 then
         Inr (case ?cs of [] \<Rightarrow> Inr None | content # _ \<Rightarrow> Inl (ct_dataEncoding content))
       else Inr (Inr (foldl (keep_better interest) None ?cs)))"
    by (simp add: select_loop_first select_loop_best)
  show ?thesis
  proof (cases "?cs = []")
    case True
    then show ?thesis using cleanup selected by (simp add: mc_onInterest_def)
  next
    case False
    then obtain k where "chosen interest (map (child_of interest) ?cs) k" "k < length ?cs"
      "mc_onInterest onContentRemoved now prefix interest face interestFilterId c = face_send face (ct_dataEncoding (?cs ! k)) out c'"
      using cleanup selected foldl_keep_better [of interest ?cs]
      by (cases "i_childSelector interest < 0") (force simp: mc_onInterest_def chosen_def neq_Nil_conv, force simp: mc_onInterest_def)
    then show ?thesis using cleanup False unfolding Let_def by auto
  qed
qed

section \<open>Adding a packet\<close>

definition waits_for :: "int \<Rightarrow> name \<Rightarrow> 'w cachePending \<Rightarrow> bool" where
  "waits_for now n p \<longleftrightarrow> \<not> cp_isTimedOut now p \<and> interest_matches (cp_interest p) n"

definition stays_pending :: "int \<Rightarrow> name \<Rightarrow> 'w cachePending \<Rightarrow> bool" where
  "stays_pending now n p \<longleftrightarrow> \<not> cp_isTimedOut now p \<and> \<not> interest_matches (cp_interest p) n"

lemma add_loop_spec:
  assumes "data_wireEncode env (env_default env) d = Inr (e, d)" "length (sb_bytes e) \<le> getMaxNdnPacketSize"
  shows "add_loop env now d ps =
    (filter (stays_pending now (data_getName d)) ps,
     map (\<lambda>p. FaceSend (cp_face p) (sb_bytes e)) (filter (waits_for now (data_getName d)) ps), None)"
  using assms
  by (induction ps) (auto simp: waits_for_def stays_pending_def matchesName_total case_bool_if)

text \<open>
  C20. Adding a packet to the content cache.  When the packet can be encoded and is not longer than the
  packet limit, it is stored (with its removal and expiry times if it has a freshness period), it is sent
  once to the face of every stored interest that has not timed out and matches its name, latest interest
  first, and exactly the interests that neither timed out nor matched stay in the table.
\<close>

theorem content_cache_add:
  assumes "data_wireEncode env (env_default env) d = Inr (e, d')" "length (sb_bytes e) \<le> getMaxNdnPacketSize"
    and "doCleanup onContentRemoved now c = (c', out)"
  shows "\<exists>c''. mc_add env onContentRemoved now d c = (c'', out @ map (\<lambda>p. FaceSend (cp_face p) (sb_bytes e))
      (rev (filter (waits_for now (data_getName d)) (mc_pendingInterestTable c'))), None) \<and>
    mc_pendingInterestTable c'' = filter (stays_pending now (data_getName d)) (mc_pendingInterestTable c') \<and>
    (let fresh = mi_freshnessPeriod (cc_get (d_metaInfo d));
         content = StaleTimeContent (data_getName d) (sb_bytes e) fresh now (mc_minimumCacheLifetime c')
     in if fresh \<ge> 0 then
          set (mc_staleTimeCache c'') = insert content (set (mc_staleTimeCache c')) \<and>
          mc_noStaleTimeCache c'' = mc_noStaleTimeCache c'
        else mc_staleTimeCache c'' = mc_staleTimeCache c' \<and>
          mc_noStaleTimeCache c'' = mc_noStaleTimeCache c' @ [Content_of content])"
proof -
  have vals: "data_getName d' = data_getName d" "cc_get (d_metaInfo d') = cc_get (d_metaInfo d)"
    using data_wireEncode_values [OF assms(1)] by (auto simp: data_get_def data_getName_def)
  note loop = add_loop_spec [OF data_wireEncode_again [OF assms(1)] assms(2)]
  show ?thesis
    using assms vals by (simp add: mc_add_def loop rev_filter rev_map Content_of_def StaleTimeContent_def Let_def)
qed

section \<open>The cleanup\<close>

datatype 'w cache_op =
    Add int "'w data" | OnInterestOp int name "'w interest" nat u64
  | StorePendingInterest int "'w interest" nat
  | PendingForName int name | PendingWithPrefix int name
  | RegisterPrefix name "nat option" u64 | SetInterestFilter interestFilter "nat option" u64 | UnregisterAll
  | SetOnContentRemoved bool | SetMinimumCacheLifetime int

fun cache_step :: "'w wire_env \<Rightarrow> 'w onContentRemoved \<Rightarrow> 'w cache_op \<Rightarrow> 'w contentCache \<Rightarrow> 'w contentCache" where
  "cache_step env app (Add now d) c = fst (mc_add env app now d c)"
| "cache_step env app (OnInterestOp now prefix i face fid) c = fst (mc_onInterest app now prefix i face fid c)"
| "cache_step env app (StorePendingInterest now i face) c = mc_storePendingInterest now i face c"
| "cache_step env app (PendingForName now n) c = fst (getPendingInterestsForName now n c)"
| "cache_step env app (PendingWithPrefix now n) c = fst (getPendingInterestsWithPrefix now n c)"
| "cache_step env app (RegisterPrefix prefix cb rid) c = fst (mc_registerPrefix prefix cb rid c)"
| "cache_step env app (SetInterestFilter fltr cb fid) c = fst (mc_setInterestFilter fltr cb fid c)"
| "cache_step env app UnregisterAll c = fst (mc_unregisterAll c)"
| "cache_step env app (SetOnContentRemoved given) c = mc_setOnContentRemoved given c"
| "cache_step env app (SetMinimumCacheLifetime l) c = mc_setMinimumCacheLifetime l c"

definition cache_run :: "'w wire_env \<Rightarrow> 'w onContentRemoved \<Rightarrow> 'w cache_op list \<Rightarrow> 'w contentCache \<Rightarrow> 'w contentCache" where
  "cache_run env app ops c = fold (cache_step env app) ops c"

definition cache_sorted :: "'w contentCache \<Rightarrow> bool" where
  "cache_sorted c \<longleftrightarrow> sorted (map st_cacheRemovalTime (mc_staleTimeCache c))"

text \<open>The cleanup as it is meant: every content past its removal time goes, wherever it stands.\<close>

definition cleanup_spec :: "'w onContentRemoved \<Rightarrow> int \<Rightarrow> 'w contentCache \<Rightarrow> 'w contentCache \<times> 'w cacheOutput list" where
  "cleanup_spec app now c =
    (if mc_isDoingCleanup c then (c, [])
     else
       let due = (now \<ge> mc_nextCleanupTime c);
           removed = (if due then filter (isPastRemovalTime now) (mc_staleTimeCache c) else []);
           kept = (if due then filter (\<lambda>s. \<not> isPastRemovalTime now s) (mc_staleTimeCache c) else mc_staleTimeCache c);
           c = c\<lparr>mc_isDoingCleanup := True, mc_staleTimeCache := kept,
                 mc_nextCleanupTime := (if due then now + mc_cleanupInterval c else mc_nextCleanupTime c)\<rparr>;
           (c, out) = (if mc_hasOnContentRemoved c \<and> removed \<noteq> [] then app (map Content_of removed) c else (c, []))
       in (c\<lparr>mc_isDoingCleanup := False\<rparr>, out))"

lemma sorted_while:
  assumes "sorted (map f xs)" "\<And>x y. f x \<le> f y \<Longrightarrow> P y \<Longrightarrow> P x"
  shows "takeWhile P xs = filter P xs" and "dropWhile P xs = filter (\<lambda>x. \<not> P x) xs"
proof -
  have "takeWhile P xs = filter P xs \<and> dropWhile P xs = filter (\<lambda>x. \<not> P x) xs"
    using assms(1)
  proof (induction xs)
    case (Cons x xs)
    have "\<forall>y \<in> set xs. \<not> P y" if "\<not> P x" using Cons.prems assms(2) that by auto
    with Cons show ?case by (auto simp: filter_empty_conv filter_id_conv)
  qed simp
  then show "takeWhile P xs = filter P xs" and "dropWhile P xs = filter (\<lambda>x. \<not> P x) xs" by simp_all
qed

lemma doCleanup_spec: "cache_sorted c \<Longrightarrow> doCleanup app now c = cleanup_spec app now c"
  using sorted_while [of st_cacheRemovalTime "mc_staleTimeCache c" "isPastRemovalTime now"]
  by (cases c) (auto simp: doCleanup_def cleanup_spec_def cache_sorted_def isPastRemovalTime_def Let_def)

lemma doCleanup_sorted:
  assumes "\<forall>cs c. cache_sorted c \<longrightarrow> cache_sorted (fst (app cs c))" "cache_sorted c" "doCleanup app now c = (c', out)"
  shows "cache_sorted c'"
proof -
  have upd: "cache_sorted (c\<lparr>mc_isDoingCleanup := b\<rparr>) = cache_sorted c" for b and c :: "'a contentCache"
    by (simp add: cache_sorted_def)
  have dropped: "sorted (map st_cacheRemovalTime (dropWhile P (mc_staleTimeCache c)))" for P
    using assms(2) by (simp add: cache_sorted_def sorted_wrt_map dropWhile_eq_drop sorted_wrt_drop)
  let ?c = "if mc_nextCleanupTime c \<le> now
      then c\<lparr>mc_isDoingCleanup := True, mc_staleTimeCache := dropWhile (isPastRemovalTime now) (mc_staleTimeCache c),
             mc_nextCleanupTime := now + mc_cleanupInterval c\<rparr>
      else c\<lparr>mc_isDoingCleanup := True\<rparr>"
  have "cache_sorted ?c" using dropped assms(2) by (simp add: cache_sorted_def)
  then have app: "cache_sorted (fst (app cs ?c))" for cs using assms(1) by blast
  let ?removed = "if mc_nextCleanupTime c \<le> now then takeWhile (isPastRemovalTime now) (mc_staleTimeCache c) else []"
  have "fst (doCleanup app now c) = (if mc_isDoingCleanup c then c
      else fst (if mc_hasOnContentRemoved ?c \<and> ?removed \<noteq> [] then app (map Content_of ?removed) ?c else (?c, []))
        \<lparr>mc_isDoingCleanup := False\<rparr>)"
    by (simp add: doCleanup_def Let_def case_prod_unfold)
  then show ?thesis
    using assms(2,3) app \<open>cache_sorted ?c\<close> by (simp only: upd fst_conv split: if_split) auto
qed

lemma mc_add_sorted:
  assumes "\<forall>cs c. cache_sorted c \<longrightarrow> cache_sorted (fst (app cs c))" "cache_sorted c"
  shows "cache_sorted (fst (mc_add env app now d c))"
proof -
  obtain c' out where cleanup: "doCleanup app now c = (c', out)" by fastforce
  have s: "cache_sorted c'" by (rule doCleanup_sorted [OF assms cleanup])
  have "sorted (map st_cacheRemovalTime (insert_at (lower_bound contentCompare x (mc_staleTimeCache c')) x (mc_staleTimeCache c')))" for x
    using s by (intro sorted_insert_lower_bound) (auto simp: contentCompare_def cache_sorted_def)
  with s show ?thesis
    by (auto simp: mc_add_def cleanup cache_sorted_def Let_def split: sum.splits prod.splits)
qed

lemma cache_run_sorted:
  assumes "\<forall>cs c. cache_sorted c \<longrightarrow> cache_sorted (fst (app cs c))" "cache_sorted c"
  shows "cache_sorted (cache_run env app ops c)"
  using assms(2)
proof (induction ops arbitrary: c)
  case (Cons a ops)
  have "cache_sorted (cache_step env app a c)"
  proof (cases a)
    case (OnInterestOp now prefix i face fid)
    obtain c' out where "doCleanup app now c = (c', out)" by fastforce
    moreover from this have "cache_sorted c'" by (rule doCleanup_sorted [OF assms(1) Cons.prems])
    ultimately show ?thesis
      using OnInterestOp by (auto simp: mc_onInterest_def face_send_def split: sum.splits option.splits prod.splits)
  qed (use Cons.prems mc_add_sorted [OF assms(1)] in \<open>auto simp: cache_sorted_def mc_storePendingInterest_def
      getPendingInterestsForName_def getPendingInterestsWithPrefix_def mc_registerPrefix_def mc_setInterestFilter_def
      mc_unregisterAll_def mc_setOnContentRemoved_def mc_setMinimumCacheLifetime_def split: sum.splits prod.splits\<close>)
  then show ?case using Cons.IH by (simp add: cache_run_def)
qed (simp add: cache_run_def)

text \<open>
  C21. The cleanup of the content cache.  In every cache that operations of the interface reach from a new
  one, removing contents from the front of the time-ordered cache until the first that is not past its
  removal time is the same as removing all contents past their removal time; the application's
  \<open>OnContentRemoved\<close> gets exactly these.  The callback may act on the cache as long as it keeps the order, as
  the operations of the interface do.
\<close>

theorem content_cache_cleanup:
  assumes "\<forall>cs c. cache_sorted c \<longrightarrow> cache_sorted (fst (app cs c))"
  shows "doCleanup app now (cache_run env app ops (MemoryContentCache start interval)) =
    cleanup_spec app now (cache_run env app ops (MemoryContentCache start interval))"
  by (intro doCleanup_spec cache_run_sorted assms) (simp add: cache_sorted_def MemoryContentCache_def)

definition no_callback :: "unit onContentRemoved" where
  "no_callback = (\<lambda>_ c. (c, []))"

definition waiting_cache :: "unit contentCache" where
  "waiting_cache = mc_storePendingInterest 0
     (int_setInterestLifetime 100 (Interest True True \<lparr>ver_value = [genericComponent [65]], ver_changeCount = 0\<rparr>)) 7
     (MemoryContentCache 0 1000)"

theorem content_cache_add_witness:
  "\<exists>c''. mc_add sample_env no_callback 5 sample_data waiting_cache = (c'', [FaceSend 7 [1]], None) \<and>
     mc_pendingInterestTable c'' = []"
proof -
  let ?enc = "data_wireEncode sample_env () sample_data"
  let ?clean = "doCleanup no_callback 5 waiting_cache"
  have "\<not> isl ?enc" by code_simp
  then have e: "?enc = Inr (fst (projr ?enc), snd (projr ?enc))" by simp
  have len: "length (sb_bytes (fst (projr ?enc))) \<le> getMaxNdnPacketSize" by code_simp
  have clean: "?clean = (fst ?clean, snd ?clean)" by simp
  have out: "snd ?clean = []" by code_simp
  have sent: "map (\<lambda>p. FaceSend (cp_face p) (sb_bytes (fst (projr ?enc))))
      (rev (filter (waits_for 5 (data_getName sample_data)) (mc_pendingInterestTable (fst ?clean)))) = [FaceSend 7 [1] :: unit cacheOutput]"
    by code_simp
  have kept: "length (filter (stays_pending 5 (data_getName sample_data)) (mc_pendingInterestTable (fst ?clean))) = 0"
    by code_simp
  show ?thesis
    using content_cache_add [where env = sample_env, unfolded sample_default, OF e len clean] kept
    unfolding sent out by (metis append_Nil length_0_conv)
qed

definition sample_cache_ops :: "unit cache_op list" where
  "sample_cache_ops = [Add 0 (data_editMetaInfo (\<lambda>m. m\<lparr>mi_freshnessPeriod := 10\<rparr>) sample_data),
     Add 5 (data_editMetaInfo (\<lambda>m. m\<lparr>mi_freshnessPeriod := 5000\<rparr>) sample_data), Add 7 sample_data]"

theorem content_cache_cleanup_witness:
  "let c = cache_run sample_env no_callback sample_cache_ops (MemoryContentCache 0 1000) in
   doCleanup no_callback 2000 c = cleanup_spec no_callback 2000 c \<and>
   map st_cacheRemovalTime (mc_staleTimeCache c) = [10, 5005] \<and>
   map st_cacheRemovalTime (mc_staleTimeCache (fst (doCleanup no_callback 2000 c))) = [5005]"
proof -
  let ?c = "cache_run sample_env no_callback sample_cache_ops (MemoryContentCache 0 1000)"
  have "\<forall>cs c. cache_sorted c \<longrightarrow> cache_sorted (fst (no_callback cs c))" by (simp add: no_callback_def)
  then have "doCleanup no_callback 2000 ?c = cleanup_spec no_callback 2000 ?c" by (rule content_cache_cleanup)
  moreover have "map st_cacheRemovalTime (mc_staleTimeCache ?c) = [10, 5005]" by code_simp
  moreover have "map st_cacheRemovalTime (mc_staleTimeCache (fst (doCleanup no_callback 2000 ?c))) = [5005]" by code_simp
  ultimately show ?thesis unfolding Let_def by blast
qed

end
