(* ===== verification/Wire_Fields.thy ===== *)
theory Wire_Fields
  imports Tlv_Decoder Lp_Packet
begin

text \<open>
  Groundwork for the packet formats.  The value of a nested TLV is a sequence of fields, each a type code and
  a value; \<open>fields_bytes\<close> are its bytes.  \<open>facing d e fs rest\<close> says that a decoder stands before the fields
  \<open>fs\<close> of a nested TLV that ends at the offset \<open>e\<close>; the lemmas say what each reader of theory Tlv_Decoder does there.
  The packet decoders may fail or, because of \<open>skipRemainingNestedTlvs\<close>, not return; \<open>bindO\<close> sequences them.
  \<open>writeNestedTlvWith\<close> is \<open>ndn_TlvEncoder_writeNestedTlv\<close> for a callback that also writes results through its context pointer.
\<close>

section \<open>Sequencing\<close>

type_synonym 'a decoding = "(ndn_Error + 'a) option"

definition bindO :: "('e + 'a) option \<Rightarrow> ('a \<Rightarrow> ('e + 'b) option) \<Rightarrow> ('e + 'b) option" where
  "bindO r f = (case r of None \<Rightarrow> None | Some (Inl e) \<Rightarrow> Some (Inl e) | Some (Inr x) \<Rightarrow> f x)"

lemma bindO_simps [simp]:
  "bindO None f = None" "bindO (Some (Inl e)) f = Some (Inl e)" "bindO (Some (Inr x)) f = f x"
  by (simp_all add: bindO_def)

definition "then_fail" :: "bool \<Rightarrow> 'e \<Rightarrow> ('e + unit) option" where
  "then_fail b e = (if b then Some (Inl e) else Some (Inr ()))"

lemma then_fail_simps [simp]: "then_fail True e = Some (Inl e)" "then_fail False e = Some (Inr ())"
  by (simp_all add: then_fail_def)

section \<open>Nested TLVs whose callback has results\<close>

definition writeNestedTlvWith :: "u32 \<Rightarrow> (encoder \<Rightarrow> ndn_Error + (encoder \<times> 's)) \<Rightarrow> bool \<Rightarrow> encoder \<Rightarrow> ndn_Error + (encoder \<times> 's)" where
  "writeNestedTlvWith type writeValue omitZeroLength e =
     (let originalEnableOutput = enc_enableOutput e;
          saveOffset = enc_offset e in
      bindE (writeValue (e\<lparr>enc_enableOutput := False\<rparr>)) (\<lambda>(e1, out).
        let valueLength = enc_offset e1 - saveOffset in
        if omitZeroLength \<and> valueLength = 0 then
          Inr (e1\<lparr>enc_enableOutput := originalEnableOutput\<rparr>, out)
        else if originalEnableOutput then
          bindE (writeTypeAndLength type valueLength
                  (e1\<lparr>enc_offset := saveOffset, enc_enableOutput := True\<rparr>))
            writeValue
        else bindE (writeTypeAndLength type valueLength e1) (\<lambda>e. Inr (e, out))))"

text \<open>A measuring pass, or an encoder that can grow: every writer succeeds.\<close>

definition enc_ready :: "encoder \<Rightarrow> bool" where
  "enc_ready e \<longleftrightarrow> (enc_enableOutput e \<longrightarrow> enc_wf e \<and> enc_realloc e)"

lemma writer_ready:
  assumes "tlv_writer w bs" "enc_ready e"
  shows "\<exists>e'. w e = Inr e' \<and> enc_ready e' \<and> enc_offset e' = enc_offset e + length bs"
proof (cases "enc_enableOutput e")
  case True
  then obtain e' where "w e = Inr e'" "appends e bs e'"
    using tlv_writer.write_enabled [OF assms(1)] assms(2) by (auto simp: enc_ready_def enc_fits_def)
  then show ?thesis using assms(2) appends_wf by (auto simp: enc_ready_def appends_def)
next
  case False
  then show ?thesis using tlv_writer.write_disabled [OF assms(1)] by (simp add: enc_ready_def)
qed

text \<open>With a writer and results that depend on where the value begins, it is the nested writer with the results of the second pass.\<close>

lemma writeNestedTlvWith_eq:
  assumes w: "tlv_writer w bs" and f: "\<And>e. enc_ready e \<Longrightarrow> f e = bindE (w e) (\<lambda>e'. Inr (e', g (enc_offset e)))"
    and e: "enc_enableOutput e" "enc_ready e"
  shows "\<exists>e'. writeNestedTlvWith t f False e = Inr (e', g (enc_offset e + length (typeAndLengthBytes t (length bs)))) \<and>
    writeNestedTlv t w False e = Inr e'"
proof -
  have dry: "w (e\<lparr>enc_enableOutput := False\<rparr>) = Inr (e\<lparr>enc_enableOutput := False, enc_offset := enc_offset e + length bs\<rparr>)"
    using tlv_writer.write_disabled [OF w, of "e\<lparr>enc_enableOutput := False\<rparr>"] by simp
  have f1: "f (e\<lparr>enc_enableOutput := False\<rparr>) = bindE (w (e\<lparr>enc_enableOutput := False\<rparr>)) (\<lambda>e'. Inr (e', g (enc_offset e)))"
    using f [of "e\<lparr>enc_enableOutput := False\<rparr>"] by (simp add: enc_ready_def)
  have same: "e\<lparr>enc_enableOutput := False, enc_offset := x, enc_offset := enc_offset e, enc_enableOutput := True\<rparr> = e" for x
    using e(1) by (cases e) simp
  obtain e1 where e1: "writeTypeAndLength t (length bs) e = Inr e1" "enc_ready e1"
      "enc_offset e1 = enc_offset e + length (typeAndLengthBytes t (length bs))"
    using writer_ready [OF tl.tlv_writer_axioms e(2)] by blast
  obtain e2 where e2: "w e1 = Inr e2" using writer_ready [OF w e1(2)] by blast
  have "writeNestedTlvWith t f False e = Inr (e2, g (enc_offset e1))"
    using dry e1(1) e2 e(1) f1 f [OF e1(2)] by (simp add: writeNestedTlvWith_def Let_def same)
  moreover have "writeNestedTlv t w False e = Inr e2" using writeNestedTlv_enabled [OF w e(1), of False t] e1(1) e2 by simp
  ultimately show ?thesis using e1(3) by simp
qed

section \<open>Fields\<close>

type_synonym field = "u32 \<times> byte list"

definition fields_bytes :: "field list \<Rightarrow> byte list" where
  "fields_bytes fs = concat (map (\<lambda>(t, bs). tlvBytes t bs) fs)"

lemma fields_bytes_simps [simp]:
  "fields_bytes [] = []" "fields_bytes ((t, bs) # fs) = tlvBytes t bs @ fields_bytes fs"
  "fields_bytes (fs @ gs) = fields_bytes fs @ fields_bytes gs"
  by (simp_all add: fields_bytes_def)

definition facing :: "decoder \<Rightarrow> u64 \<Rightarrow> field list \<Rightarrow> byte list \<Rightarrow> bool" where
  "facing d e fs rest \<longleftrightarrow> dec_wf d \<and> upcoming d = fields_bytes fs @ rest \<and> e = dec_offset d + of_nat (length (fields_bytes fs))"

lemma tlvBytes_nonempty: "tlvBytes t bs \<noteq> []"
proof -
  have "0 < length (tlvBytes t bs)" by (simp add: sizeOfBlobTlv_def sizeOfVarNumber_def)
  then show ?thesis by fastforce
qed

lemma within_less: "facing d e ((t, bs) # fs) rest \<Longrightarrow> dec_offset d < e"
  using offset_less [of d "fields_bytes ((t, bs) # fs)" rest] tlvBytes_nonempty [of t bs] by (simp add: facing_def del: length_tlvBytes)

lemma within_end: "facing d e [] rest \<Longrightarrow> dec_offset d = e"
  by (simp add: facing_def)

lemma within_step:
  assumes "facing d e ((t, bs) # fs) rest"
  shows "facing (advance d (length (tlvBytes t bs))) e fs rest"
  using assms advance_facts(1,2) [of d "tlvBytes t bs" "fields_bytes fs @ rest"]
  by (simp add: facing_def advance_def del: length_tlvBytes)

lemma advance_input [simp]: "dec_input (advance d n) = dec_input d"
  by (simp add: advance_def)

lemma unat_type: "unat (ucast (t :: u32) :: u64) = unat t"
proof -
  have "unat t < 2 ^ 32" using unsigned_less [of t] by simp
  then show ?thesis by (simp add: unsigned_ucast_eq take_bit_nat_eq_self)
qed

lemma ucast_type_inj [simp]: "(ucast (t :: u32) :: u64) = ucast u \<longleftrightarrow> t = u"
  by (metis unat_type word_unat_eq_iff)

lemma ucast_ucast_type [simp]: "ucast (ucast (t :: u32) :: u64) = t"
proof -
  have "unat t < 2 ^ 32" using unsigned_less [of t] by simp
  then show ?thesis by (simp add: word_unat_eq_iff unsigned_ucast_eq unsigned_take_bit_eq take_bit_nat_eq_self)
qed

lemma within_peek: "facing d e fs rest \<Longrightarrow> peekType u e d = Inr (fs \<noteq> [] \<and> fst (hd fs) = u)"
proof (cases fs)
  case Nil
  moreover assume "facing d e fs rest"
  ultimately show ?thesis by (simp add: peekType_def within_end)
next
  case (Cons f fs')
  obtain t bs where f: "f = (t, bs)" by fastforce
  assume a: "facing d e fs rest"
  have h: "dec_wf d" "upcoming d = tlvBytes t bs @ (fields_bytes fs' @ rest)" using a Cons f by (simp_all add: facing_def)
  obtain d1 where "readVarNumber d = Inr (ucast t, d1)" using field_header [OF h] by blast
  moreover have "\<not> e \<le> dec_offset d" using within_less a Cons f by (simp add: not_le)
  ultimately show ?thesis using Cons f by (simp add: peekType_def)
qed

text \<open>
  What the readers do before the fields.  A field of the expected type is consumed; an optional one that is
  not there is left to the next reader.
\<close>

definition took :: "decoder \<Rightarrow> decoder \<Rightarrow> u64 \<Rightarrow> field list \<Rightarrow> byte list \<Rightarrow> bool" where
  "took d d' e fs rest \<longleftrightarrow> dec_input d' = dec_input d \<and> facing d' e fs rest"

lemma tookI: "facing d e ((t, bs) # fs) rest \<Longrightarrow> took d (advance d (length (tlvBytes t bs))) e fs rest"
  by (simp add: took_def within_step del: length_tlvBytes)

lemma within_upcoming: "facing d e ((t, bs) # fs) rest \<Longrightarrow> dec_wf d \<and> upcoming d = tlvBytes t bs @ (fields_bytes fs @ rest)"
  by (simp add: facing_def)

lemma within_readBlobTlv:
  assumes "facing d e ((t, bs) # fs) rest"
  shows "\<exists>s d'. readBlobTlv t d = Inr (s, d') \<and> slice_bytes (dec_input d) s = Some bs \<and> took d d' e fs rest"
  using readBlobTlv_back [of d t bs "fields_bytes fs @ rest"] within_upcoming [OF assms] tookI [OF assms] by blast

lemma within_readOptionalBlobTlv:
  assumes "facing d e fs rest"
  shows "\<exists>s d'. readOptionalBlobTlv t e d = Inr (s, d') \<and>
    (case fs of [] \<Rightarrow> s = None \<and> d' = d
     | (u, bs) # gs \<Rightarrow> if u = t then (\<exists>sl. s = Some sl \<and> slice_bytes (dec_input d) sl = Some bs) \<and> took d d' e gs rest else s = None \<and> d' = d)"
proof (cases fs)
  case (Cons f gs)
  obtain u bs where f: "f = (u, bs)" by fastforce
  show ?thesis
  proof (cases "u = t")
    case True
    then show ?thesis
      using within_peek [OF assms, of t] within_readBlobTlv [of d e t bs gs rest] assms Cons f by (auto simp: readOptionalBlobTlv_def)
  qed (use within_peek [OF assms, of t] Cons f in \<open>simp add: readOptionalBlobTlv_def\<close>)
qed (use within_peek [OF assms, of t] in \<open>simp add: readOptionalBlobTlv_def\<close>)

lemma within_readBooleanTlv:
  assumes "facing d e fs rest"
  shows "\<exists>d'. readBooleanTlv t e d = Inr (fs \<noteq> [] \<and> fst (hd fs) = t, d') \<and>
    (case fs of [] \<Rightarrow> d' = d | (u, bs) # gs \<Rightarrow> if u = t then took d d' e gs rest else d' = d)"
proof (cases "fs \<noteq> [] \<and> fst (hd fs) = t")
  case True
  then obtain bs gs where fs: "fs = (t, bs) # gs" by (cases fs) auto
  note a = assms [unfolded fs]
  have up: "dec_wf d" "upcoming d = tlvBytes t bs @ (fields_bytes gs @ rest)" using within_upcoming [OF a] by simp_all
  have "readBooleanTlv t e d = Inr (True, advance d (length (tlvBytes t bs)))"
    using within_peek [OF assms, of t] tlv_upcoming(1) [OF up] fs
    by (simp add: readBooleanTlv_def advance_def typeAndLengthBytes_def sizeOfBlobTlv_def add.assoc)
  then show ?thesis using tookI [OF a] fs by simp
next
  case False
  then show ?thesis using within_peek [OF assms, of t]
    by (cases fs) (auto simp: readBooleanTlv_def)
qed

lemma within_readNonNegativeIntegerTlv:
  assumes "facing d e ((t, nonNegativeIntegerBytes v) # fs) rest"
  shows "\<exists>d'. readNonNegativeIntegerTlv t d = Inr (v, d') \<and> took d d' e fs rest"
  using ntc.read_back [of d t v "fields_bytes fs @ rest"] within_upcoming [OF assms] tookI [OF assms] by blast

text \<open>A nested TLV opens a context of its own; when its fields are read the outer context goes on.\<close>

lemma within_readNestedTlvsStart:
  assumes "facing d e ((t, fields_bytes fs) # gs) rest"
  shows "\<exists>d1 e1. readNestedTlvsStart t d = Inr (e1, d1) \<and> took d d1 e1 fs (fields_bytes gs @ rest) \<and>
    (\<forall>d2. took d1 d2 e1 [] (fields_bytes gs @ rest) \<longrightarrow> took d d2 e gs rest)"
proof -
  let ?h = "length (typeAndLengthBytes t (length (fields_bytes fs)))"
  let ?d1 = "advance d ?h"
  have up: "dec_wf d" "upcoming d = tlvBytes t (fields_bytes fs) @ (fields_bytes gs @ rest)" using within_upcoming [OF assms] by simp_all
  note h = tlv_upcoming [OF up]
  have "facing ?d1 (dec_offset ?d1 + of_nat (length (fields_bytes fs))) fs (fields_bytes gs @ rest)"
    using h(2,3) by (simp add: facing_def)
  moreover have "took d d2 e gs rest" if "took ?d1 d2 (dec_offset ?d1 + of_nat (length (fields_bytes fs))) [] (fields_bytes gs @ rest)" for d2
    using that assms by (auto simp: took_def facing_def advance_def typeAndLengthBytes_def sizeOfBlobTlv_def algebra_simps)
  ultimately show ?thesis using h(1) by (auto simp: readNestedTlvsStart_def took_def)
qed

lemma within_finish: "facing d e [] rest \<Longrightarrow> finishNestedTlvs d e = Some (Inr d) \<and> finishNestedTlvsSkipCritical d e = Some (Inr d)"
  by (simp add: finishNestedTlvs_def finishNestedTlvsSkipCritical_def within_end)

lemma took_refl: "facing d e fs rest \<Longrightarrow> took d d e fs rest"
  by (simp add: took_def)

lemma took_within: "took d d' e fs rest \<Longrightarrow> facing d' e fs rest"
  by (simp add: took_def)

lemma took_input: "took d d' e fs rest \<Longrightarrow> dec_input d' = dec_input d"
  by (simp add: took_def)

lemma took_trans: "took d d1 e fs rest \<Longrightarrow> took d1 d2 e' gs rest' \<Longrightarrow> took d d2 e' gs rest'"
  by (simp add: took_def)

lemma within_initial:
  assumes "length (tlvBytes t bs) < 2 ^ 63"
  shows "facing (dec_initialize (tlvBytes t bs)) (of_nat (length (tlvBytes t bs))) [(t, bs)] []"
  using assms by (simp add: facing_def dec_initialize_def dec_wf_def upcoming_def)

lemma within_getSlice:
  assumes "facing d e ((t, bs) # fs) rest" "readNestedTlvsStart t d = Inr (e1, d1)" "dec_input d2 = dec_input d"
  shows "\<exists>s. getSlice d2 (dec_offset d) e1 = Inr s \<and> slice_bytes (dec_input d) s = Some (tlvBytes t bs)"
proof -
  have up: "dec_wf d" "upcoming d = tlvBytes t bs @ (fields_bytes fs @ rest)" using within_upcoming [OF assms(1)] by simp_all
  let ?n = "length (tlvBytes t bs)"
  have e1: "e1 = dec_offset d + of_nat ?n"
    using assms(2) tlv_upcoming(1) [OF up] by (auto simp: readNestedTlvsStart_def advance_def typeAndLengthBytes_def sizeOfBlobTlv_def)
  note a = advance_facts [OF up]
  have n: "unat (of_nat ?n :: u64) = ?n" using a(1,3) up(1) by (simp add: dec_wf_def del: length_tlvBytes)
  have "unat e1 = unat (dec_offset d) + ?n" using a(3) by (simp add: e1 advance_def del: length_tlvBytes)
  then have "\<not> dec_offset d > e1" "e1 - dec_offset d = of_nat ?n" by (simp_all add: e1 word_less_nat_alt del: length_tlvBytes)
  moreover have "\<not> dec_offset d > inputLength d2" "\<not> e1 > inputLength d2"
    using up(1) a(1,3) assms(3) by (simp_all add: e1 advance_def dec_wf_def inputLength_def word_less_nat_alt del: length_tlvBytes)
  ultimately have s: "getSlice d2 (dec_offset d) e1 = Inr \<lparr>slice_begin = dec_offset d, slice_length = of_nat ?n\<rparr>"
    by (simp add: getSlice_def del: length_tlvBytes)
  have "take ?n (drop (unat (dec_offset d)) (dec_input d)) = tlvBytes t bs" using up(2) by (simp add: upcoming_def)
  then show ?thesis using s n a(1,3)
    by (simp add: slice_bytes_def slice_in_bounds_def dec_wf_def advance_def del: length_tlvBytes)
qed

section \<open>Optional fields\<close>

definition number_field :: "u32 \<Rightarrow> u64 option \<Rightarrow> field list" where
  "number_field t v = (case v of None \<Rightarrow> [] | Some n \<Rightarrow> [(t, nonNegativeIntegerBytes n)])"

definition blob_field :: "u32 \<Rightarrow> byte list option \<Rightarrow> field list" where
  "blob_field t v = (case v of None \<Rightarrow> [] | Some bs \<Rightarrow> [(t, bs)])"

definition flag_field :: "u32 \<Rightarrow> bool \<Rightarrow> field list" where
  "flag_field t b = (if b then [(t, [])] else [])"

definition next_not :: "u32 \<Rightarrow> field list \<Rightarrow> bool" where
  "next_not t fs \<longleftrightarrow> fs = [] \<or> fst (hd fs) \<noteq> t"

lemma next_not_simps [simp]:
  "next_not t []" "next_not t ((u, bs) # fs) \<longleftrightarrow> u \<noteq> t"
  "next_not t (number_field u v @ fs) \<longleftrightarrow> (if v = None then next_not t fs else u \<noteq> t)"
  "next_not t (blob_field u w @ fs) \<longleftrightarrow> (if w = None then next_not t fs else u \<noteq> t)"
  "next_not t (flag_field u b @ fs) \<longleftrightarrow> (if b then u \<noteq> t else next_not t fs)"
  "next_not t (number_field u v) \<longleftrightarrow> (v \<noteq> None \<longrightarrow> u \<noteq> t)" "next_not t (blob_field u w) \<longleftrightarrow> (w \<noteq> None \<longrightarrow> u \<noteq> t)"
  by (auto simp: next_not_def number_field_def blob_field_def flag_field_def split: option.splits)

lemma within_number:
  assumes "facing d e (number_field t v @ fs) rest" "next_not t fs"
  shows "\<exists>d'. took d d' e fs rest \<and> peekType t e d = Inr (v \<noteq> None) \<and>
    (case v of None \<Rightarrow> d' = d | Some n \<Rightarrow> readNonNegativeIntegerTlv t d = Inr (n, d'))"
proof (cases v)
  case None
  then have w: "facing d e fs rest" using assms(1) by (simp add: number_field_def)
  then show ?thesis using within_peek [OF w, of t] took_refl [OF w] assms(2) None by (auto simp: next_not_def)
next
  case (Some n)
  then have w: "facing d e ((t, nonNegativeIntegerBytes n) # fs) rest" using assms(1) by (simp add: number_field_def)
  then show ?thesis using within_peek [OF w, of t] within_readNonNegativeIntegerTlv [OF w] Some by auto
qed

lemma within_readOptionalNonNegativeIntegerTlv:
  assumes "facing d e (number_field t v @ fs) rest" "next_not t fs"
  shows "\<exists>d'. readOptionalNonNegativeIntegerTlv t e d = Inr (case v of None \<Rightarrow> -1 | Some n \<Rightarrow> sint (ucast n :: u32), d') \<and> took d d' e fs rest"
  using within_number [OF assms] by (cases v) (auto simp: readOptionalNonNegativeIntegerTlv_def)

lemma within_readOptionalBlob:
  assumes "facing d e (blob_field t v @ fs) rest" "next_not t fs"
  shows "\<exists>s d'. readOptionalBlobTlv t e d = Inr (s, d') \<and> took d d' e fs rest \<and>
    (case v of None \<Rightarrow> s = None | Some bs \<Rightarrow> \<exists>sl. s = Some sl \<and> slice_bytes (dec_input d) sl = Some bs)"
proof (cases v)
  case None
  then have w: "facing d e fs rest" using assms(1) by (simp add: blob_field_def)
  then show ?thesis using within_peek [OF w, of t] took_refl [OF w] assms(2) None by (auto simp: next_not_def readOptionalBlobTlv_def)
next
  case (Some bs)
  then have w: "facing d e ((t, bs) # fs) rest" using assms(1) by (simp add: blob_field_def)
  then show ?thesis using within_peek [OF w, of t] within_readBlobTlv [OF w] Some by (auto simp: readOptionalBlobTlv_def)
qed

lemma within_readFlag:
  assumes "facing d e (flag_field t b @ fs) rest" "next_not t fs"
  shows "\<exists>d'. readBooleanTlv t e d = Inr (b, d') \<and> took d d' e fs rest"
proof (cases b)
  case True
  then have w: "facing d e ((t, []) # fs) rest" using assms(1) by (simp add: flag_field_def)
  then show ?thesis using within_readBooleanTlv [OF w, of t] True by auto
next
  case False
  then have w: "facing d e fs rest" using assms(1) by (simp add: flag_field_def)
  then show ?thesis using within_readBooleanTlv [OF w, of t] took_refl [OF w] assms(2) False
    by (cases fs) (auto simp: next_not_def)
qed

text \<open>Fields of any type are skipped.\<close>

lemma within_skip:
  "facing d e fs rest \<Longrightarrow> \<exists>d'. skipRemainingNestedTlvs d e True = Some (Inr d') \<and> took d d' e [] rest"
proof (induction fs arbitrary: d)
  case Nil
  then show ?case using within_end [OF Nil] took_refl [OF Nil] by (simp add: skipRemainingNestedTlvs.simps [of d])
next
  case (Cons f fs)
  obtain t bs where f: "f = (t, bs)" by fastforce
  note w = Cons.prems [unfolded f]
  have up: "dec_wf d" "upcoming d = tlvBytes t bs @ (fields_bytes fs @ rest)" using within_upcoming [OF w] by simp_all
  let ?h = "length (typeAndLengthBytes t (length bs))"
  obtain d1 where v: "readVarNumber d = Inr (ucast t, d1)" "readVarNumber d1 = Inr (of_nat (length bs), advance d ?h)"
    using field_header [OF up] by blast
  note h = tlv_upcoming [OF up]
  have fits: "\<not> dec_offset (advance d ?h) + of_nat (length bs) > inputLength (advance d ?h)" using advance_facts(4) [OF h(2,3)] .
  have step: "(advance d ?h)\<lparr>dec_offset := dec_offset (advance d ?h) + of_nat (length bs)\<rparr> = advance d (length (tlvBytes t bs))"
    by (simp add: advance_def typeAndLengthBytes_def sizeOfBlobTlv_def)
  have "skipRemainingNestedTlvs d e True = skipRemainingNestedTlvs (advance d (length (tlvBytes t bs))) e True"
    using within_less [OF w] v fits step by (subst skipRemainingNestedTlvs.simps) (simp del: length_tlvBytes)
  then show ?case using Cons.IH [OF within_step [OF w]] by (simp add: took_def del: length_tlvBytes)
qed

lemma within_finishSkip:
  assumes "facing d e fs rest"
  shows "\<exists>d'. finishNestedTlvsSkipCritical d e = Some (Inr d') \<and> took d d' e [] rest"
proof (cases "dec_offset d = e")
  case True
  then have "fs = []" using within_less assms by (cases fs) fastforce+
  then show ?thesis using assms within_finish took_refl by blast
qed (use within_skip [OF assms] in \<open>simp add: finishNestedTlvsSkipCritical_def\<close>)

section \<open>Writers of optional fields\<close>

lemma number_writer: "tlv_writer (\<lambda>e. case v of None \<Rightarrow> Inr e | Some n \<Rightarrow> writeNonNegativeIntegerTlv t n e) (fields_bytes (number_field t v))"
  by (cases v) (simp_all add: number_field_def tlv_writer_Nil nt.tlv_writer_axioms)

lemma fields_append_writer:
  "tlv_writer w1 (fields_bytes fs) \<Longrightarrow> tlv_writer w2 (fields_bytes gs) \<Longrightarrow> tlv_writer (\<lambda>e. bindE (w1 e) w2) (fields_bytes (fs @ gs))"
  using tlv_writer_seq by simp

lemma nested_writer: "tlv_writer w (fields_bytes fs) \<Longrightarrow> tlv_writer (writeNestedTlv t w False) (fields_bytes [(t, fields_bytes fs)])"
  using tlv_writer_nested [of w "fields_bytes fs" t False] by simp

lemma blob_writer: "tlv_writer (writeBlobTlv t bs) (fields_bytes [(t, bs)])"
  using bt.tlv_writer_axioms by simp

lemma integer_writer: "tlv_writer (writeNonNegativeIntegerTlv t v) (fields_bytes [(t, nonNegativeIntegerBytes v)])"
  using nt.tlv_writer_axioms by simp

lemma empty_writer: "tlv_writer Inr (fields_bytes [])"
  using tlv_writer_Nil by simp

end
