(* ===== verification/Wire_Name.thy ===== *)
theory Wire_Name
  imports Wire_Fields Data_Packet
begin

text \<open>
  The TLV format of names (\<open>src/c/encoding/tlv/tlv-name.c\<close>) and key locators (\<open>tlv-key-locator.c\<close>), with
  \<open>Tlv0_3WireFormat::encodeName\<close> and \<open>decodeName\<close>.  The encoder reads the C++ objects through pointers, so it is
  modelled on them; the decoder fills the Lite structures, whose blobs are slices of the input, and the C++ layer copies them.
  A copy of a slice that reaches outside the input is undefined.
\<close>

abbreviation (input) ndn_Tlv_Name :: u32 where "ndn_Tlv_Name \<equiv> 7"
abbreviation (input) ndn_Tlv_KeyLocatorDigest :: u32 where "ndn_Tlv_KeyLocatorDigest \<equiv> 29"

section \<open>Encoding names\<close>

definition component_wireType :: "component \<Rightarrow> u32" where
  "component_wireType c = of_int (typeCode c)"

definition encodeTlvNameComponent :: "component \<Rightarrow> writer" where
  "encodeTlvNameComponent c e =
    (if c_type c = OTHER_CODE \<and> c_otherTypeCode c < 0
     then Inl NDN_ERROR_Name_component_otherTypeCode_must_be_non_negative
     else writeBlobTlv (component_wireType c) (blob_bytes (c_value c)) e)"

text \<open>The loop over the components; the second result is where the last component begins.\<close>

fun encodeTlvName_loop :: "name \<Rightarrow> nat \<Rightarrow> encoder \<Rightarrow> ndn_Error + (encoder \<times> nat)" where
  "encodeTlvName_loop [] signedPortionEndOffset e = Inr (e, signedPortionEndOffset)"
| "encodeTlvName_loop (c # cs) signedPortionEndOffset e =
    (let signedPortionEndOffset = (if cs = [] then enc_offset e else signedPortionEndOffset) in
     bindE (encodeTlvNameComponent c e) (encodeTlvName_loop cs signedPortionEndOffset))"

definition nameValueLength :: "name \<Rightarrow> nat" where
  "nameValueLength name = sum_list (map (\<lambda>c. sizeOfBlobTlv (component_wireType c) (blob_bytes (c_value c))) name)"

definition encodeTlvName :: "name \<Rightarrow> encoder \<Rightarrow> ndn_Error + (encoder \<times> nat \<times> nat)" where
  "encodeTlvName name e =
    bindE (writeTypeAndLength ndn_Tlv_Name (nameValueLength name) e) (\<lambda>e.
      let signedPortionBeginOffset = enc_offset e in
      bindE (encodeTlvName_loop name signedPortionBeginOffset e) (\<lambda>(e, signedPortionEndOffset).
        Inr (e, signedPortionBeginOffset, signedPortionEndOffset)))"

definition encodeTlvName_only :: "name \<Rightarrow> writer" where
  "encodeTlvName_only name e = bindE (encodeTlvName name e) (\<lambda>(e, _). Inr e)"

text \<open>\<open>Name::get\<close>: the Lite name has room for 100 components, each filled by \<open>Component::get\<close>.\<close>

definition maxNameComponents :: nat where
  "maxNameComponents = 100"

definition Name_getLite :: "name \<Rightarrow> error + name" where
  "Name_getLite name =
    (if length name > maxNameComponents
     then Inl (Ndn NDN_ERROR_attempt_to_add_a_component_past_the_maximum_number_of_components)
     else Inr (map component_get name))"

definition Tlv0_3_encodeName :: "name \<Rightarrow> error + blob" where
  "Tlv0_3_encodeName name =
    bindE (Name_getLite name) (\<lambda>name.
      case encodeTlvName name (TlvEncoder 256) of
        Inl e \<Rightarrow> Inl (Ndn e)
      | Inr (e, _) \<Rightarrow> Inr (enc_finish e))"

section \<open>Decoding names\<close>

record lite_component =
  lc_type :: ndn_NameComponentType
  lc_otherTypeCode :: int
  lc_value :: slice

definition decodeTlvNameComponent :: "decoder \<Rightarrow> ndn_Error + (lite_component \<times> decoder)" where
  "decodeTlvNameComponent d =
    bindE (readVarNumber d) (\<lambda>(type, _).
    bindE (readBlobTlv (ucast type) d) (\<lambda>(value, d).
      Inr (if type = 1 then \<lparr>lc_type = IMPLICIT_SHA256_DIGEST, lc_otherTypeCode = -1, lc_value = value\<rparr>
           else if type = 2 then \<lparr>lc_type = PARAMETERS_SHA256_DIGEST, lc_otherTypeCode = -1, lc_value = value\<rparr>
           else if type = 8 then \<lparr>lc_type = GENERIC, lc_otherTypeCode = -1, lc_value = value\<rparr>
           else \<lparr>lc_type = OTHER_CODE, lc_otherTypeCode = sint (ucast type :: u32), lc_value = value\<rparr>, d)))"

text \<open>The first argument is the room left in the array of components.\<close>

fun decodeTlvName_loop :: "nat \<Rightarrow> u64 \<Rightarrow> lite_component list \<Rightarrow> u64 \<Rightarrow> decoder \<Rightarrow> ndn_Error + (lite_component list \<times> u64 \<times> decoder)" where
  "decodeTlvName_loop 0 endOffset cs signedPortionEndOffset d =
    (if dec_offset d < endOffset
     then Inl NDN_ERROR_attempt_to_add_a_component_past_the_maximum_number_of_components
     else Inr (cs, signedPortionEndOffset, d))"
| "decodeTlvName_loop (Suc room) endOffset cs signedPortionEndOffset d =
    (if dec_offset d < endOffset
     then bindE (decodeTlvNameComponent d) (\<lambda>(c, d'). decodeTlvName_loop room endOffset (cs @ [c]) (dec_offset d) d')
     else Inr (cs, signedPortionEndOffset, d))"

definition decodeTlvName :: "nat \<Rightarrow> decoder \<Rightarrow> (lite_component list \<times> u64 \<times> u64 \<times> decoder) decoding" where
  "decodeTlvName maxComponents d =
    bindO (Some (readNestedTlvsStart ndn_Tlv_Name d)) (\<lambda>(endOffset, d).
    let signedPortionBeginOffset = dec_offset d in
    bindO (Some (decodeTlvName_loop maxComponents endOffset [] signedPortionBeginOffset d)) (\<lambda>(cs, signedPortionEndOffset, d).
    bindO (finishNestedTlvs d endOffset) (\<lambda>d.
      Some (Inr (cs, signedPortionBeginOffset, signedPortionEndOffset, d)))))"

text \<open>The copies of the C++ layer: \<open>Blob(BlobLite)\<close>, \<open>Component(NameLite::Component)\<close> and \<open>Name::set\<close>.\<close>

definition Blob_copy :: "byte list \<Rightarrow> slice \<Rightarrow> error + byte list" where
  "Blob_copy inp s = (case slice_bytes inp s of None \<Rightarrow> Inl Undefined_behaviour | Some bs \<Rightarrow> Inr bs)"

definition Blob_copyOptional :: "byte list \<Rightarrow> slice option \<Rightarrow> error + blob" where
  "Blob_copyOptional inp s =
    (case s of None \<Rightarrow> Inr None | Some s \<Rightarrow> bindE (Blob_copy inp s) (\<lambda>bs. Inr (Some bs)))"

definition Component_copy :: "byte list \<Rightarrow> lite_component \<Rightarrow> error + component" where
  "Component_copy inp lc =
    bindE (Blob_copy inp (lc_value lc)) (\<lambda>bs.
      Inr \<lparr>c_type = lc_type lc, c_otherTypeCode = lc_otherTypeCode lc, c_value = Some bs\<rparr>)"

fun Name_setLite :: "byte list \<Rightarrow> lite_component list \<Rightarrow> error + name" where
  "Name_setLite inp [] = Inr []"
| "Name_setLite inp (lc # lcs) =
    bindE (Component_copy inp lc) (\<lambda>c. bindE (Name_setLite inp lcs) (\<lambda>cs. Inr (c # cs)))"

definition lift_decoding :: "'a decoding \<Rightarrow> (error + 'a) option" where
  "lift_decoding r = map_option (case_sum (\<lambda>e. Inl (Ndn e)) Inr) r"

definition Tlv0_3_decodeName :: "byte list \<Rightarrow> (error + name) option" where
  "Tlv0_3_decodeName inp =
    bindO (lift_decoding (decodeTlvName maxNameComponents (dec_initialize inp))) (\<lambda>(cs, _). Some (Name_setLite inp cs))"

section \<open>Key locators\<close>

definition encodeTlvKeyLocatorValue :: "keyLocator \<Rightarrow> writer" where
  "encodeTlvKeyLocatorValue k e =
    (if kl_type k = KEY_LOCATOR_NONE then Inr e
     else if kl_type k = KEYNAME then encodeTlvName_only (kl_keyName k) e
     else if kl_type k = KEY_LOCATOR_DIGEST \<and> blob_size (kl_keyData k) > 0
     then writeBlobTlv ndn_Tlv_KeyLocatorDigest (blob_bytes (kl_keyData k)) e
     else Inl NDN_ERROR_unrecognized_ndn_KeyLocatorType)"

record lite_keyLocator =
  lk_type :: ndn_KeyLocatorType
  lk_keyData :: "slice option"
  lk_keyName :: "lite_component list"

definition lite_KeyLocator0 :: lite_keyLocator where
  "lite_KeyLocator0 = \<lparr>lk_type = KEY_LOCATOR_NONE, lk_keyData = None, lk_keyName = []\<rparr>"

definition decodeTlvKeyLocator :: "u32 \<Rightarrow> decoder \<Rightarrow> (lite_keyLocator \<times> decoder) decoding" where
  "decodeTlvKeyLocator expectedType d =
    bindO (Some (readNestedTlvsStart expectedType d)) (\<lambda>(endOffset, d).
    if dec_offset d = endOffset then Some (Inr (lite_KeyLocator0, d)) else
    bindO (Some (peekType ndn_Tlv_Name endOffset d)) (\<lambda>gotName.
    bindO (if gotName then
             bindO (decodeTlvName maxNameComponents d) (\<lambda>(cs, _, _, d).
               Some (Inr (lite_KeyLocator0\<lparr>lk_keyName := cs, lk_type := KEYNAME\<rparr>, d)))
           else bindO (Some (peekType ndn_Tlv_KeyLocatorDigest endOffset d)) (\<lambda>gotDigest.
             if gotDigest then
               bindO (Some (readBlobTlv ndn_Tlv_KeyLocatorDigest d)) (\<lambda>(s, d).
                 Some (Inr (lite_KeyLocator0\<lparr>lk_type := KEY_LOCATOR_DIGEST, lk_keyData := Some s\<rparr>, d)))
             else Some (Inl NDN_ERROR_decodeKeyLocator_unrecognized_key_locator_type))) (\<lambda>(k, d).
    bindO (finishNestedTlvs d endOffset) (\<lambda>d. Some (Inr (k, d))))))"

definition KeyLocator_getLite :: "keyLocator \<Rightarrow> error + keyLocator" where
  "KeyLocator_getLite k = bindE (Name_getLite (kl_keyName k)) (\<lambda>n. Inr (k\<lparr>kl_keyName := n\<rparr>))"

definition KeyLocator_setLite :: "byte list \<Rightarrow> lite_keyLocator \<Rightarrow> error + keyLocator" where
  "KeyLocator_setLite inp lk =
    bindE (Blob_copyOptional inp (lk_keyData lk)) (\<lambda>data.
    bindE (if lk_type lk = KEYNAME then Name_setLite inp (lk_keyName lk) else Inr []) (\<lambda>n.
      Inr \<lparr>kl_type = lk_type lk, kl_keyData = data, kl_keyName = n\<rparr>))"

section \<open>What the encoder writes\<close>

definition component_field :: "component \<Rightarrow> field" where
  "component_field c = (component_wireType c, blob_bytes (c_value c))"

definition name_bytes :: "name \<Rightarrow> byte list" where
  "name_bytes n = fields_bytes (map component_field n)"

definition component_encodable :: "component \<Rightarrow> bool" where
  "component_encodable c \<longleftrightarrow> (c_type c = OTHER_CODE \<longrightarrow> 0 \<le> c_otherTypeCode c)"

lemma name_bytes_simps [simp]:
  "name_bytes [] = []" "name_bytes (c # cs) = tlvBytes (component_wireType c) (blob_bytes (c_value c)) @ name_bytes cs"
  "name_bytes (m @ n) = name_bytes m @ name_bytes n"
  by (simp_all add: name_bytes_def component_field_def)

lemma nameValueLength_eq: "nameValueLength n = length (name_bytes n)"
  by (induction n) (simp_all add: nameValueLength_def)

lemma writeArrayEnabled_offset: "writeArrayEnabled bs e = Inr e' \<Longrightarrow> enc_offset e' = enc_offset e + length bs"
  by (auto simp: writeArrayEnabled_def bindE_eq_Inr ensureLength_def reallocArray_def Let_def split: if_splits)

lemma writeTypeAndLength_offset:
  "writeTypeAndLength t n e = Inr e' \<Longrightarrow> enc_offset e' = enc_offset e + length (typeAndLengthBytes t n)"
  by (auto simp: writeTypeAndLength_def writeVarNumberEnabled_eq bindE_eq_Inr typeAndLengthBytes_def
      dest!: writeArrayEnabled_offset split: if_splits)

lemma writeBlobTlv_offset: "writeBlobTlv t bs e = Inr e' \<Longrightarrow> enc_offset e' = enc_offset e + length (tlvBytes t bs)"
  by (auto simp: writeBlobTlv_def writeBlobTlvEnabled_def bindE_eq_Inr typeAndLengthBytes_def sizeOfBlobTlv_def
      dest!: writeArrayEnabled_offset writeTypeAndLength_offset split: if_splits)

fun encodeComponents :: "name \<Rightarrow> writer" where
  "encodeComponents [] e = Inr e"
| "encodeComponents (c # cs) e = bindE (encodeTlvNameComponent c e) (encodeComponents cs)"

lemma component_writer:
  "component_encodable c \<Longrightarrow> tlv_writer (encodeTlvNameComponent c) (tlvBytes (component_wireType c) (blob_bytes (c_value c)))"
  by (rule tlv_writer_cong [OF bt.tlv_writer_axioms]) (auto simp: encodeTlvNameComponent_def component_encodable_def)

lemma components_writer: "\<forall>c \<in> set cs. component_encodable c \<Longrightarrow> tlv_writer (encodeComponents cs) (name_bytes cs)"
proof (induction cs)
  case Nil
  then show ?case using tlv_writer_Nil by simp
next
  case (Cons c cs)
  have "tlv_writer (encodeTlvNameComponent c) (tlvBytes (component_wireType c) (blob_bytes (c_value c)))"
    "tlv_writer (encodeComponents cs) (name_bytes cs)" using Cons component_writer by simp_all
  from tlv_writer_seq [OF this] show ?case by simp
qed

lemma encodeTlvName_loop_eq:
  "encodeTlvName_loop cs end e =
    bindE (encodeComponents cs e) (\<lambda>e'. Inr (e', if cs = [] then end else enc_offset e + length (name_bytes (butlast cs))))"
proof (induction cs arbitrary: "end" e)
  case (Cons c cs)
  show ?case
  proof (cases "encodeTlvNameComponent c e")
    case (Inr e1)
    then have "enc_offset e1 = enc_offset e + length (tlvBytes (component_wireType c) (blob_bytes (c_value c)))"
      by (auto simp: encodeTlvNameComponent_def dest: writeBlobTlv_offset split: if_splits)
    then show ?thesis using Inr by (simp add: Cons.IH add.assoc)
  qed simp
qed simp

text \<open>The writer of a name, and where the portion of a signed interest begins and ends.\<close>

definition name_header :: "name \<Rightarrow> nat" where
  "name_header n = length (typeAndLengthBytes ndn_Tlv_Name (length (name_bytes n)))"

lemma encodeTlvName_eq:
  "encodeTlvName n e = bindE (encodeTlvName_only n e)
    (\<lambda>e'. Inr (e', enc_offset e + name_header n, enc_offset e + name_header n + length (name_bytes (butlast n))))"
proof (cases "writeTypeAndLength ndn_Tlv_Name (length (name_bytes n)) e")
  case (Inr e1)
  then show ?thesis using writeTypeAndLength_offset [OF Inr]
    by (cases "encodeComponents n e1")
      (simp_all add: encodeTlvName_only_def encodeTlvName_def nameValueLength_eq encodeTlvName_loop_eq Let_def name_header_def)
qed (simp add: encodeTlvName_only_def encodeTlvName_def nameValueLength_eq)

lemma name_writer:
  assumes "\<forall>c \<in> set n. component_encodable c"
  shows "tlv_writer (encodeTlvName_only n) (tlvBytes ndn_Tlv_Name (name_bytes n))"
proof -
  have "encodeTlvName_only n e = bindE (writeTypeAndLength ndn_Tlv_Name (length (name_bytes n)) e) (encodeComponents n)" for e
    by (cases "writeTypeAndLength ndn_Tlv_Name (length (name_bytes n)) e"; cases "encodeComponents n (projr (writeTypeAndLength ndn_Tlv_Name (length (name_bytes n)) e))")
      (auto simp: encodeTlvName_only_def encodeTlvName_def nameValueLength_eq encodeTlvName_loop_eq Let_def)
  then show ?thesis
    using tlv_writer_cong [OF tlv_writer_seq [OF tl.tlv_writer_axioms components_writer [OF assms]]] by (simp add: tlvBytes_def)
qed

section \<open>What the decoder reads\<close>

text \<open>
  Components that come back as they are, up to a null value, which comes back empty.  A parameters digest must have its
  32 bytes: \<open>Component::get\<close> turns any other into an empty generic component.
\<close>

definition component_wire_ok :: "component \<Rightarrow> bool" where
  "component_wire_ok c \<longleftrightarrow>
    (if c_type c = OTHER_CODE then 0 \<le> c_otherTypeCode c \<and> c_otherTypeCode c < 2 ^ 31 \<and> c_otherTypeCode c \<notin> {1, 2, 8}
     else c_otherTypeCode c = -1 \<and> (c_type c = PARAMETERS_SHA256_DIGEST \<longrightarrow> blob_size (c_value c) = 32))"

definition name_wire_ok :: "name \<Rightarrow> bool" where
  "name_wire_ok n \<longleftrightarrow> length n \<le> maxNameComponents \<and> (\<forall>c \<in> set n. component_wire_ok c)"

definition wire_component :: "component \<Rightarrow> component" where
  "wire_component c = c\<lparr>c_value := Some (blob_bytes (c_value c))\<rparr>"

definition wire_name :: "name \<Rightarrow> name" where
  "wire_name n = map wire_component n"

lemma component_wire_ok_encodable: "component_wire_ok c \<Longrightarrow> component_encodable c"
  by (simp add: component_wire_ok_def component_encodable_def split: if_splits)

lemma name_wire_ok_encodable: "name_wire_ok n \<Longrightarrow> \<forall>c \<in> set n. component_encodable c"
  by (simp add: name_wire_ok_def component_wire_ok_encodable)

lemma component_get_ok: "component_wire_ok c \<Longrightarrow> component_get c = c"
  by (cases c; cases "c_type c") (auto simp: component_wire_ok_def component_get_def)

lemma name_wire_ok_length: "name_wire_ok n \<Longrightarrow> \<not> maxNameComponents < length n"
  by (simp add: name_wire_ok_def)

lemma map_component_get: "name_wire_ok n \<Longrightarrow> map component_get n = n"
  by (simp add: name_wire_ok_def component_get_ok map_idI)

lemma Name_getLite_ok: "name_wire_ok n \<Longrightarrow> Name_getLite n = Inr n"
  by (simp add: Name_getLite_def map_component_get) (simp add: name_wire_ok_def)

text \<open>A parameters digest of another length is written as an empty generic component: \<open>07 02 08 00\<close>.\<close>

lemma short_parameters_digest_lost:
  "Tlv0_3_encodeName [\<lparr>c_type = PARAMETERS_SHA256_DIGEST, c_otherTypeCode = -1, c_value = Some [1]\<rparr>] = Inr (Some [7, 2, 8, 0])"
  by code_simp

lemma u32_of_int:
  assumes "0 \<le> i" "i < 2 ^ 31"
  shows "uint (of_int i :: u32) = i" "sint (of_int i :: u32) = i"
  using assms by (simp_all add: unsigned_of_int signed_of_int take_bit_int_eq_self signed_take_bit_int_eq_self)

lemma decodeTlvNameComponent_back:
  assumes "facing d e (component_field c # fs) rest" and c: "component_wire_ok c"
  shows "\<exists>lc d'. decodeTlvNameComponent d = Inr (lc, d') \<and> Component_copy (dec_input d) lc = Inr (wire_component c) \<and> took d d' e fs rest"
proof -
  let ?t = "component_wireType c"
  have a: "facing d e ((?t, blob_bytes (c_value c)) # fs) rest" using assms(1) by (simp add: component_field_def)
  obtain s d' where s: "readBlobTlv ?t d = Inr (s, d')" "slice_bytes (dec_input d) s = Some (blob_bytes (c_value c))" "took d d' e fs rest"
    using within_readBlobTlv [OF a] by blast
  obtain d1 where v: "readVarNumber d = Inr (ucast ?t, d1)" using field_header within_upcoming [OF a] by blast
  have num: "uint ?t = typeCode c" "sint ?t = typeCode c"
    using c u32_of_int [of "typeCode c"]
    by (cases "c_type c"; simp add: component_wireType_def component_wire_ok_def typeCode_def)+
  have eq: "(ucast ?t :: u64) = ucast (of_int k :: u32) \<longleftrightarrow> typeCode c = k" if "0 \<le> k" "k < 2 ^ 31" for k
    unfolding ucast_type_inj using num u32_of_int [OF that] by (auto simp: word_uint_eq_iff)
  have eqs: "(ucast ?t :: u64) = 1 \<longleftrightarrow> typeCode c = 1" "(ucast ?t :: u64) = 2 \<longleftrightarrow> typeCode c = 2" "(ucast ?t :: u64) = 8 \<longleftrightarrow> typeCode c = 8"
    using eq [of 1] eq [of 2] eq [of 8] by simp_all
  let ?lc = "\<lambda>k code. \<lparr>lc_type = k, lc_otherTypeCode = code, lc_value = s\<rparr>"
  have "decodeTlvNameComponent d = Inr (if typeCode c = 1 then ?lc IMPLICIT_SHA256_DIGEST (-1)
      else if typeCode c = 2 then ?lc PARAMETERS_SHA256_DIGEST (-1) else if typeCode c = 8 then ?lc GENERIC (-1)
      else ?lc OTHER_CODE (typeCode c), d')"
    using s(1) num(2) by (simp add: decodeTlvNameComponent_def v eqs)
  moreover have "Component_copy (dec_input d) (?lc k code) = Inr \<lparr>c_type = k, c_otherTypeCode = code, c_value = Some (blob_bytes (c_value c))\<rparr>" for k code
    using s(2) by (simp add: Component_copy_def Blob_copy_def)
  ultimately show ?thesis using s(3) c
    by (cases c; cases "c_type c") (auto simp: wire_component_def component_wire_ok_def typeCode_def)
qed

lemma decodeTlvName_loop_back:
  "\<lbrakk>facing d e (map component_field n) rest; \<forall>c \<in> set n. component_wire_ok c; length n \<le> room\<rbrakk> \<Longrightarrow>
    \<exists>lcs d'. decodeTlvName_loop room e acc sEnd d = Inr (acc @ lcs, if n = [] then sEnd else dec_offset d + of_nat (length (name_bytes (butlast n))), d') \<and>
      Name_setLite (dec_input d) lcs = Inr (wire_name n) \<and> took d d' e [] rest"
proof (induction n arbitrary: d acc sEnd room)
  case Nil
  then have "dec_offset d = e" "took d d e [] rest" by (simp_all add: within_end took_refl)
  then show ?case by (cases room) (simp_all add: wire_name_def)
next
  case (Cons c n)
  obtain r where r: "room = Suc r" using Cons.prems(3) by (cases room) simp_all
  have w: "facing d e (component_field c # map component_field n) rest" using Cons.prems(1) by simp
  obtain lc d1 where lc: "decodeTlvNameComponent d = Inr (lc, d1)" "Component_copy (dec_input d) lc = Inr (wire_component c)"
    "took d d1 e (map component_field n) rest"
    using decodeTlvNameComponent_back [OF w] Cons.prems(2) by auto
  obtain lcs d2 where IH: "decodeTlvName_loop r e (acc @ [lc]) (dec_offset d) d1 =
      Inr ((acc @ [lc]) @ lcs, if n = [] then dec_offset d else dec_offset d1 + of_nat (length (name_bytes (butlast n))), d2)"
    "Name_setLite (dec_input d1) lcs = Inr (wire_name n)" "took d1 d2 e [] rest"
    using Cons.IH [OF took_within [OF lc(3)], of r "acc @ [lc]" "dec_offset d"] Cons.prems(2,3) r by auto
  have less: "dec_offset d < e" using within_less [of d e] w by (simp add: component_field_def)
  have off: "dec_offset d1 = dec_offset d + of_nat (length (tlvBytes (component_wireType c) (blob_bytes (c_value c))))"
    using w took_within [OF lc(3)] by (simp add: facing_def component_field_def algebra_simps)
  show ?case
    using lc IH less took_trans [OF lc(3) IH(3)] took_input [OF lc(3)]
    by (auto simp: r wire_name_def off add.assoc)
qed

lemma decodeTlvName_back:
  assumes "facing d e ((ndn_Tlv_Name, name_bytes n) # fs) rest" and ok: "name_wire_ok n"
  shows "\<exists>lcs d'. decodeTlvName maxNameComponents d = Some (Inr (lcs, dec_offset d + of_nat (name_header n),
      dec_offset d + of_nat (name_header n + length (name_bytes (butlast n))), d')) \<and>
    Name_setLite (dec_input d) lcs = Inr (wire_name n) \<and> took d d' e fs rest"
proof -
  obtain d1 e1 where start: "readNestedTlvsStart ndn_Tlv_Name d = Inr (e1, d1)" "took d d1 e1 (map component_field n) (fields_bytes fs @ rest)"
    and outer: "\<And>d2. took d1 d2 e1 [] (fields_bytes fs @ rest) \<Longrightarrow> took d d2 e fs rest"
    using within_readNestedTlvsStart [of d e ndn_Tlv_Name "map component_field n" fs rest] assms(1) by (auto simp: name_bytes_def)
  have off: "dec_offset d1 = dec_offset d + of_nat (name_header n)"
    using start(1) tlv_upcoming(1) [of d ndn_Tlv_Name "name_bytes n" "fields_bytes fs @ rest"] within_upcoming [OF assms(1)]
    by (auto simp: readNestedTlvsStart_def name_header_def advance_def)
  obtain lcs d2 where loop: "decodeTlvName_loop maxNameComponents e1 [] (dec_offset d1) d1 =
      Inr ([] @ lcs, if n = [] then dec_offset d1 else dec_offset d1 + of_nat (length (name_bytes (butlast n))), d2)"
    "Name_setLite (dec_input d1) lcs = Inr (wire_name n)" "took d1 d2 e1 [] (fields_bytes fs @ rest)"
    using decodeTlvName_loop_back [OF took_within [OF start(2)], of maxNameComponents "[]" "dec_offset d1"] ok by (auto simp: name_wire_ok_def)
  have "finishNestedTlvs d2 e1 = Some (Inr d2)" using within_finish [OF took_within [OF loop(3)]] by simp
  then show ?thesis
    using start(1) loop(1,2) outer [OF loop(3)] off took_input [OF start(2)]
    by (auto simp: decodeTlvName_def Let_def add.assoc)
qed

lemma name_field: "tlvBytes ndn_Tlv_Name (name_bytes n) = fields_bytes [(ndn_Tlv_Name, name_bytes n)]"
  by simp

text \<open>
  C28. Round trip of names on the wire.  A name of at most 100 components, in which every component has a type of
  its own or another type code that is not one of the known ones, and every parameters digest has 32 bytes, is encoded,
  and its encoding is decoded to the same name; a component without a value comes back with an empty value.
\<close>

theorem name_wire_roundtrip:
  assumes "name_wire_ok n" and "length (name_bytes n) < 2 ^ 62"
  shows "\<exists>bytes. Tlv0_3_encodeName n = Inr (Some bytes) \<and> Tlv0_3_decodeName bytes = Some (Inr (wire_name n))"
proof -
  let ?bytes = "tlvBytes ndn_Tlv_Name (name_bytes n)"
  have w: "tlv_writer (encodeTlvName_only n) ?bytes" by (rule name_writer [OF name_wire_ok_encodable [OF assms(1)]])
  obtain e where e: "encodeTlvName_only n (TlvEncoder 256) = Inr e" "enc_finish e = Some ?bytes"
    using tlv_writer.write_fresh [OF w] by blast
  then have "Tlv0_3_encodeName n = Inr (Some ?bytes)"
    using assms(1) by (simp add: Tlv0_3_encodeName_def Name_getLite_ok encodeTlvName_eq)
  moreover have "length ?bytes < 2 ^ 63" using assms(2) by (simp add: sizeOfBlobTlv_def sizeOfVarNumber_def)
  then have "facing (dec_initialize ?bytes) (of_nat (length ?bytes)) [(ndn_Tlv_Name, name_bytes n)] []" by (rule within_initial)
  then have "Tlv0_3_decodeName ?bytes = Some (Inr (wire_name n))"
    using decodeTlvName_back [OF _ assms(1)] by (force simp: Tlv0_3_decodeName_def lift_decoding_def dec_initialize_def)
  ultimately show ?thesis by blast
qed

theorem name_wire_roundtrip_witness:
  "\<exists>bytes. Tlv0_3_encodeName [genericComponent [97, 98], \<lparr>c_type = OTHER_CODE, c_otherTypeCode = 300, c_value = Some []\<rparr>] = Inr (Some bytes) \<and>
    Tlv0_3_decodeName bytes = Some (Inr [genericComponent [97, 98], \<lparr>c_type = OTHER_CODE, c_otherTypeCode = 300, c_value = Some []\<rparr>])"
proof -
  let ?n = "[genericComponent [97, 98], \<lparr>c_type = OTHER_CODE, c_otherTypeCode = 300, c_value = Some []\<rparr>]"
  have ok: "name_wire_ok ?n"
    by (simp add: name_wire_ok_def component_wire_ok_def genericComponent_def maxNameComponents_def)
  have len: "length (name_bytes ?n) < 2 ^ 62"
    by (simp add: sizeOfBlobTlv_def sizeOfVarNumber_def genericComponent_def)
  show ?thesis using name_wire_roundtrip [OF ok len] by (simp add: wire_name_def wire_component_def genericComponent_def)
qed

section \<open>Key locators on the wire\<close>

definition keyLocator_fields :: "keyLocator \<Rightarrow> field list" where
  "keyLocator_fields k =
    (case kl_type k of KEY_LOCATOR_NONE \<Rightarrow> []
     | KEYNAME \<Rightarrow> [(ndn_Tlv_Name, name_bytes (kl_keyName k))]
     | KEY_LOCATOR_DIGEST \<Rightarrow> [(ndn_Tlv_KeyLocatorDigest, blob_bytes (kl_keyData k))])"

definition keyLocator_wire_ok :: "keyLocator \<Rightarrow> bool" where
  "keyLocator_wire_ok k \<longleftrightarrow> name_wire_ok (kl_keyName k) \<and> (kl_type k = KEY_LOCATOR_DIGEST \<longrightarrow> blob_size (kl_keyData k) > 0)"

definition wire_keyLocator :: "keyLocator \<Rightarrow> keyLocator" where
  "wire_keyLocator k =
    (case kl_type k of KEY_LOCATOR_NONE \<Rightarrow> KeyLocator0
     | KEYNAME \<Rightarrow> KeyLocator0\<lparr>kl_type := KEYNAME, kl_keyName := wire_name (kl_keyName k)\<rparr>
     | KEY_LOCATOR_DIGEST \<Rightarrow> KeyLocator0\<lparr>kl_type := KEY_LOCATOR_DIGEST, kl_keyData := kl_keyData k\<rparr>)"

lemma keyLocator_writer:
  assumes "keyLocator_wire_ok k"
  shows "tlv_writer (encodeTlvKeyLocatorValue k) (fields_bytes (keyLocator_fields k))"
proof (cases "kl_type k")
  case KEY_LOCATOR_NONE
  then show ?thesis by (simp add: keyLocator_fields_def) (rule tlv_writer_cong [OF tlv_writer_Nil], simp add: encodeTlvKeyLocatorValue_def)
next
  case KEYNAME
  have "tlv_writer (encodeTlvName_only (kl_keyName k)) (tlvBytes ndn_Tlv_Name (name_bytes (kl_keyName k)))"
    using assms by (intro name_writer name_wire_ok_encodable) (simp add: keyLocator_wire_ok_def)
  then show ?thesis using KEYNAME by (simp add: keyLocator_fields_def) (erule tlv_writer_cong, simp add: encodeTlvKeyLocatorValue_def)
next
  case KEY_LOCATOR_DIGEST
  then show ?thesis using assms
    by (simp add: keyLocator_fields_def) (rule tlv_writer_cong [OF bt.tlv_writer_axioms], simp add: encodeTlvKeyLocatorValue_def keyLocator_wire_ok_def)
qed

lemma decodeTlvKeyLocator_back:
  assumes "facing d e ((t, fields_bytes (keyLocator_fields k)) # fs) rest" and ok: "keyLocator_wire_ok k"
  shows "\<exists>lk d'. decodeTlvKeyLocator t d = Some (Inr (lk, d')) \<and>
    KeyLocator_setLite (dec_input d) lk = Inr (wire_keyLocator k) \<and> took d d' e fs rest"
proof -
  obtain d1 e1 where start: "readNestedTlvsStart t d = Inr (e1, d1)" "took d d1 e1 (keyLocator_fields k) (fields_bytes fs @ rest)"
    and outer: "\<And>d2. took d1 d2 e1 [] (fields_bytes fs @ rest) \<Longrightarrow> took d d2 e fs rest"
    using within_readNestedTlvsStart [OF assms(1)] by auto
  note w = took_within [OF start(2)]
  note inp = took_input [OF start(2)]
  show ?thesis
  proof (cases "kl_type k")
    case KEY_LOCATOR_NONE
    then have "facing d1 e1 [] (fields_bytes fs @ rest)" using w by (simp add: keyLocator_fields_def)
    then have "dec_offset d1 = e1" "took d d1 e fs rest" using within_end outer took_refl by blast+
    then show ?thesis using start(1) KEY_LOCATOR_NONE
      by (simp add: decodeTlvKeyLocator_def KeyLocator_setLite_def lite_KeyLocator0_def Blob_copyOptional_def wire_keyLocator_def KeyLocator0_def)
  next
    case KEYNAME
    then have w1: "facing d1 e1 [(ndn_Tlv_Name, name_bytes (kl_keyName k))] (fields_bytes fs @ rest)" using w by (simp add: keyLocator_fields_def)
    obtain lcs b b' d2 where n: "decodeTlvName maxNameComponents d1 = Some (Inr (lcs, b, b', d2))"
      "Name_setLite (dec_input d1) lcs = Inr (wire_name (kl_keyName k))" "took d1 d2 e1 [] (fields_bytes fs @ rest)"
      using decodeTlvName_back [OF w1] ok by (auto simp: keyLocator_wire_ok_def)
    have "dec_offset d1 \<noteq> e1" using within_less [OF w1] by simp
    then show ?thesis using start(1) n outer [OF n(3)] within_peek [OF w1] within_finish [OF took_within [OF n(3)]] inp KEYNAME
      by (simp add: decodeTlvKeyLocator_def KeyLocator_setLite_def lite_KeyLocator0_def Blob_copyOptional_def wire_keyLocator_def KeyLocator0_def)
  next
    case KEY_LOCATOR_DIGEST
    then have w1: "facing d1 e1 [(ndn_Tlv_KeyLocatorDigest, blob_bytes (kl_keyData k))] (fields_bytes fs @ rest)" using w by (simp add: keyLocator_fields_def)
    obtain s d2 where n: "readBlobTlv ndn_Tlv_KeyLocatorDigest d1 = Inr (s, d2)"
      "slice_bytes (dec_input d1) s = Some (blob_bytes (kl_keyData k))" "took d1 d2 e1 [] (fields_bytes fs @ rest)"
      using within_readBlobTlv [OF w1] by auto
    obtain bs where "kl_keyData k = Some bs" using ok KEY_LOCATOR_DIGEST by (cases "kl_keyData k") (simp_all add: keyLocator_wire_ok_def)
    moreover have "dec_offset d1 \<noteq> e1" using within_less [OF w1] by simp
    ultimately show ?thesis using start(1) n outer [OF n(3)] within_peek [OF w1] within_finish [OF took_within [OF n(3)]] inp KEY_LOCATOR_DIGEST
      by (simp add: decodeTlvKeyLocator_def KeyLocator_setLite_def lite_KeyLocator0_def Blob_copyOptional_def Blob_copy_def wire_keyLocator_def KeyLocator0_def)
  qed
qed

end
