(* ===== verification/PSync_State.thy ===== *)
theory PSync_State
  imports Wire_Name
begin

text \<open>
  The content of PSync's replies (\<open>src/sync/detail/psync-state.cpp\<close>): a sequence of names in one TLV.
\<close>

abbreviation (input) Tlv_PSyncContent :: u32 where "Tlv_PSyncContent \<equiv> 128"

section \<open>Encoding\<close>

text \<open>\<open>encodeContent\<close>; \<open>Name::get\<close> copies each name to a Lite name with room for 100 components.\<close>

fun psync_encodeContent :: "name list \<Rightarrow> writer" where
  "psync_encodeContent [] e = Inr e"
| "psync_encodeContent (n # ns) e =
    (if length n > maxNameComponents
     then Inl NDN_ERROR_attempt_to_add_a_component_past_the_maximum_number_of_components
     else bindE (encodeTlvName_only (map component_get n) e) (psync_encodeContent ns))"

definition psync_wireEncode :: "name list \<Rightarrow> error + byte list" where
  "psync_wireEncode content =
    bindE (lift_ndn (writeNestedTlv Tlv_PSyncContent (psync_encodeContent content) False (TlvEncoder 256))) (\<lambda>e.
      Inr (blob_bytes (enc_finish e)))"

section \<open>Decoding\<close>

text \<open>
  The loop runs until the end of the input, not of the TLV.  An offset that wraps could make it run for ever.
\<close>

partial_function (option) psync_decode_loop ::
    "name list \<Rightarrow> decoder \<Rightarrow> (error + (name list \<times> decoder)) option" where
  "psync_decode_loop content d =
    (if dec_offset d < of_nat (length (dec_input d)) then
       (case lift_decoding (decodeTlvName maxNameComponents d) of
          None \<Rightarrow> None
        | Some (Inl e) \<Rightarrow> Some (Inl e)
        | Some (Inr (cs, _, _, d')) \<Rightarrow>
            (case Name_setLite (dec_input d) cs of
               Inl e \<Rightarrow> Some (Inl e)
             | Inr name \<Rightarrow> psync_decode_loop (content @ [name]) d'))
     else Some (Inr (content, d)))"

declare psync_decode_loop.simps [code]

text \<open>\<open>TlvDecoder::finishNestedTlvs\<close> takes the end offset as an \<open>int\<close>.\<close>

definition int_offset :: "u64 \<Rightarrow> u64" where
  "int_offset endOffset = of_int (sint (ucast endOffset :: u32))"

definition psync_wireDecode :: "byte list \<Rightarrow> error + name list" where
  "psync_wireDecode inp =
    bindE (lift_ndn (readNestedTlvsStart Tlv_PSyncContent (dec_initialize inp))) (\<lambda>(endOffset, d).
      case psync_decode_loop [] d of
        None \<Rightarrow> Inl Never_returns
      | Some (Inl e) \<Rightarrow> Inl e
      | Some (Inr (content, d)) \<Rightarrow>
          (case lift_decoding (finishNestedTlvs d (int_offset endOffset)) of
             None \<Rightarrow> Inl Never_returns
           | Some (Inl e) \<Rightarrow> Inl e
           | Some (Inr d) \<Rightarrow> Inr content))"

section \<open>Round trip\<close>

definition names_fields :: "name list \<Rightarrow> field list" where
  "names_fields ns = map (\<lambda>n. (ndn_Tlv_Name, name_bytes n)) ns"

lemma names_fields_simps [simp]:
  "names_fields [] = []" "names_fields (n # ns) = (ndn_Tlv_Name, name_bytes n) # names_fields ns"
  by (simp_all add: names_fields_def)

lemma content_writer:
  "\<forall>n \<in> set ns. name_wire_ok n \<Longrightarrow> tlv_writer (psync_encodeContent ns) (fields_bytes (names_fields ns))"
proof (induction ns)
  case Nil
  then show ?case using empty_writer by (simp add: psync_encodeContent.simps [abs_def])
next
  case (Cons n ns)
  have "psync_encodeContent (n # ns) = (\<lambda>e. bindE (encodeTlvName_only n e) (psync_encodeContent ns))"
    using Cons.prems by (auto simp: fun_eq_iff name_wire_ok_def map_component_get [unfolded name_wire_ok_def])
  moreover have "tlv_writer (encodeTlvName_only n) (fields_bytes [(ndn_Tlv_Name, name_bytes n)])"
    using name_writer [OF name_wire_ok_encodable] Cons.prems by simp
  ultimately show ?case
    using fields_append_writer [of "encodeTlvName_only n" "[(ndn_Tlv_Name, name_bytes n)]" "psync_encodeContent ns" "names_fields ns"]
      Cons by simp
qed

lemma psync_wireEncode_eq:
  assumes "\<forall>n \<in> set ns. name_wire_ok n"
  shows "psync_wireEncode ns = Inr (tlvBytes Tlv_PSyncContent (fields_bytes (names_fields ns)))"
proof -
  let ?w = "writeNestedTlv Tlv_PSyncContent (psync_encodeContent ns) False"
  have "tlv_writer ?w (fields_bytes [(Tlv_PSyncContent, fields_bytes (names_fields ns))])"
    by (rule nested_writer [OF content_writer [OF assms]])
  then obtain e where "?w (TlvEncoder 256) = Inr e" "enc_finish e = Some (tlvBytes Tlv_PSyncContent (fields_bytes (names_fields ns)))"
    using tlv_writer.write_fresh by fastforce
  then show ?thesis by (simp add: psync_wireEncode_def blob_bytes_def)
qed

lemma of_nat_unat_id: "(of_nat (unat w) :: u64) = w"
  by simp

lemma within_input_end:
  assumes "facing d e fs []"
  shows "e = of_nat (length (dec_input d))" "dec_offset d \<le> e"
proof -
  have up: "dec_wf d" "length (upcoming d) = length (fields_bytes fs)" "e = dec_offset d + of_nat (length (fields_bytes fs))"
    using assms by (simp_all add: facing_def)
  then have len: "unat (dec_offset d) + length (fields_bytes fs) = length (dec_input d)" "length (dec_input d) < 2 ^ 63"
    by (auto simp: dec_wf_def upcoming_def)
  then show e: "e = of_nat (length (dec_input d))" using up(3) by (metis of_nat_add of_nat_unat_id)
  show "dec_offset d \<le> e" unfolding e using len by (simp add: word_le_nat_alt)
qed

lemma psync_decode_loop_back:
  "\<lbrakk>facing d e (names_fields ns) []; \<forall>n \<in> set ns. name_wire_ok n\<rbrakk> \<Longrightarrow>
    \<exists>d'. psync_decode_loop acc d = Some (Inr (acc @ map wire_name ns, d')) \<and> dec_offset d' = e"
proof (induction ns arbitrary: d acc)
  case Nil
  then have "dec_offset d = of_nat (length (dec_input d))" using within_input_end(1) within_end by fastforce
  then show ?case using Nil within_end by (subst psync_decode_loop.simps) auto
next
  case (Cons n ns)
  obtain lcs b b' d' where d': "decodeTlvName maxNameComponents d = Some (Inr (lcs, b, b', d'))"
    "Name_setLite (dec_input d) lcs = Inr (wire_name n)" "took d d' e (names_fields ns) []"
    using decodeTlvName_back [of d e n "names_fields ns" "[]"] Cons.prems by auto
  have "dec_offset d < of_nat (length (dec_input d))"
    using within_less Cons.prems(1) within_input_end(1) [OF Cons.prems(1)] by fastforce
  moreover obtain d2 where "psync_decode_loop (acc @ [wire_name n]) d' = Some (Inr ((acc @ [wire_name n]) @ map wire_name ns, d2))" "dec_offset d2 = e"
    using Cons.IH [OF took_within [OF d'(3)], of "acc @ [wire_name n]"] Cons.prems(2) by auto
  ultimately show ?case using d' by (subst psync_decode_loop.simps) (auto simp: lift_decoding_def)
qed

lemma int_offset_small: "n < 2 ^ 31 \<Longrightarrow> int_offset (of_nat n) = of_nat n"
proof -
  assume n: "n < 2 ^ 31"
  then have "(ucast (of_nat n :: u64) :: u32) = of_nat n" by (simp add: unsigned_of_nat take_bit_nat_eq_self)
  moreover have "sint (of_nat n :: u32) = int n" using n by (simp add: signed_of_nat signed_take_bit_int_eq_self)
  ultimately show ?thesis by (simp add: int_offset_def)
qed

lemma psync_state_decodes:
  assumes ok: "\<forall>n \<in> set ns. name_wire_ok n" and enc: "psync_wireEncode ns = Inr bytes" and len: "length bytes < 2 ^ 31"
  shows "psync_wireDecode bytes = Inr (map wire_name ns)"
proof -
  let ?fs = "names_fields ns"
  have bytes: "bytes = tlvBytes Tlv_PSyncContent (fields_bytes ?fs)" using psync_wireEncode_eq [OF ok] enc by simp
  have "facing (dec_initialize bytes) (of_nat (length bytes)) [(Tlv_PSyncContent, fields_bytes ?fs)] []"
    unfolding bytes by (rule within_initial) (use len bytes in simp)
  from within_readNestedTlvsStart [OF this]
  obtain d1 e1 where start: "readNestedTlvsStart Tlv_PSyncContent (dec_initialize bytes) = Inr (e1, d1)" "took (dec_initialize bytes) d1 e1 ?fs []"
    by auto
  have e1: "e1 = of_nat (length bytes)"
    using within_input_end(1) [OF took_within [OF start(2)]] took_input [OF start(2)] by (simp add: dec_initialize_def)
  obtain d2 where "psync_decode_loop [] d1 = Some (Inr (map wire_name ns, d2))" "dec_offset d2 = e1"
    using psync_decode_loop_back [OF took_within [OF start(2)] ok, of "[]"] by auto
  moreover have "int_offset e1 = e1" using int_offset_small [OF len] e1 by simp
  ultimately show ?thesis
    using start(1) by (simp add: psync_wireDecode_def finishNestedTlvs_def lift_decoding_def)
qed

end
