(* ===== verification/Iblt.thy ===== *)
theory Iblt
  imports Prelude
begin

text \<open>
  The invertible Bloom lookup table of PSync (\<open>src/sync/detail/invertible-bloom-lookup-table.cpp\<close>) with the
  hash it uses (\<open>contrib/murmur-hash/murmur-hash.c\<close>).  Entries form an abelian group under adding counts and
  xoring keys and checks; a table is the sum of the contributions of its keys, and peeling the
  difference of two tables is shown to return the two set differences as long as no bucket looks pure
  or empty by accident.  zlib is an argument of the encoding.  Counts are 32-bit two's complement words.
\<close>

section \<open>MurmurHash3\<close>

definition ROTL32 :: "u32 \<Rightarrow> nat \<Rightarrow> u32" where
  "ROTL32 x r = push_bit r x OR drop_bit (32 - r) x"

definition le_word :: "byte list \<Rightarrow> u32" where
  "le_word bs = foldr (\<lambda>b w. ucast b + 256 * w) bs 0"

definition murmur_block :: "u32 \<Rightarrow> u32 \<Rightarrow> u32" where
  "murmur_block h1 k2 =
    (let k2 = k2 * 0xcc9e2d51; k2 = ROTL32 k2 15; k2 = k2 * 0x1b873593;
         h1 = h1 XOR k2; h1 = ROTL32 h1 13
     in h1 * 5 + 0xe6546b64)"

definition murmur_tail :: "byte list \<Rightarrow> u32 \<Rightarrow> u32" where
  "murmur_tail tail h1 =
    (if tail = [] then h1
     else
       let k1 = (0 :: u32);
           k1 = (if length tail = 3 then k1 XOR push_bit 16 (ucast (tail ! 2)) else k1);
           k1 = (if length tail \<ge> 2 then k1 XOR push_bit 8 (ucast (tail ! 1)) else k1);
           k1 = k1 XOR ucast (tail ! 0);
           k1 = k1 * 0xcc9e2d51; k1 = ROTL32 k1 15; k1 = k1 * 0x1b873593
       in h1 XOR k1)"

definition murmur_final :: "nat \<Rightarrow> u32 \<Rightarrow> u32" where
  "murmur_final dataToHashLength h1 =
    (let h1 = h1 XOR of_nat dataToHashLength;
         h1 = h1 XOR drop_bit 16 h1; h1 = h1 * 0x85ebca6b;
         h1 = h1 XOR drop_bit 13 h1; h1 = h1 * 0xc2b2ae35
     in h1 XOR drop_bit 16 h1)"

definition ndn_murmurHash3 :: "u32 \<Rightarrow> byte list \<Rightarrow> u32" where
  "ndn_murmurHash3 nHashSeed dataToHash =
    (let nblocks = length dataToHash div 4;
         blocks = map (\<lambda>i. le_word (take 4 (drop (4 * i) dataToHash))) [0..<nblocks];
         h1 = foldl murmur_block nHashSeed blocks;
         h1 = murmur_tail (drop (4 * nblocks) dataToHash) h1
     in murmur_final (length dataToHash) h1)"

text \<open>The bytes of a 32-bit number in memory order, on a little-endian machine.\<close>

definition le32 :: "u32 \<Rightarrow> byte list" where
  "le32 v = [ucast v, ucast (drop_bit 8 v), ucast (drop_bit 16 v), ucast (drop_bit 24 v)]"

definition murmurHash3 :: "u32 \<Rightarrow> u32 \<Rightarrow> u32" where
  "murmurHash3 nHashSeed value = ndn_murmurHash3 nHashSeed (le32 value)"

section \<open>The table\<close>

datatype hashTableEntry = HashTableEntry (he_count: u32) (he_keySum: u32) (he_keyCheck: u32)

type_synonym iblt = "hashTableEntry list"

definition N_HASH :: nat where
  "N_HASH = 3"

definition N_HASHCHECK :: u32 where
  "N_HASHCHECK = 11"

definition he_isPure :: "hashTableEntry \<Rightarrow> bool" where
  "he_isPure e \<longleftrightarrow> (he_count e = 1 \<or> he_count e = -1) \<and> he_keyCheck e = murmurHash3 N_HASHCHECK (he_keySum e)"

definition he_isEmpty :: "hashTableEntry \<Rightarrow> bool" where
  "he_isEmpty e \<longleftrightarrow> he_count e = 0 \<and> he_keySum e = 0 \<and> he_keyCheck e = 0"

definition InvertibleBloomLookupTable :: "nat \<Rightarrow> iblt" where
  "InvertibleBloomLookupTable expectedNEntries =
    (let nEntries = expectedNEntries + expectedNEntries div 2;
         remainder = nEntries mod N_HASH;
         nEntries = (if remainder \<noteq> 0 then nEntries + (N_HASH - remainder) else nEntries)
     in replicate nEntries (HashTableEntry 0 0 0))"

definition entry_index :: "nat \<Rightarrow> nat \<Rightarrow> u32 \<Rightarrow> nat" where
  "entry_index bucketsPerHash i key = i * bucketsPerHash + nat (uint (murmurHash3 (of_nat i) key) mod int bucketsPerHash)"

text \<open>
  The count is an \<open>int32_t\<close> in the source.  Here it wraps at 32 bits; in the source a count that leaves its range is
  undefined, which takes \<open>2^31\<close> keys in one bucket.
\<close>

definition entry_update :: "u32 \<Rightarrow> u32 \<Rightarrow> hashTableEntry \<Rightarrow> hashTableEntry" where
  "entry_update plusOrMinus key e =
    HashTableEntry (he_count e + plusOrMinus) (he_keySum e XOR key) (he_keyCheck e XOR murmurHash3 N_HASHCHECK key)"

definition update_loop :: "nat \<Rightarrow> u32 \<Rightarrow> u32 \<Rightarrow> iblt \<Rightarrow> iblt" where
  "update_loop bucketsPerHash plusOrMinus key t =
    fold (\<lambda>i t. let j = entry_index bucketsPerHash i key in t[j := entry_update plusOrMinus key (t ! j)]) [0..<N_HASH] t"

text \<open>With no buckets the index is a remainder by zero.\<close>

definition iblt_update :: "u32 \<Rightarrow> u32 \<Rightarrow> iblt \<Rightarrow> error + iblt" where
  "iblt_update plusOrMinus key t =
    (let bucketsPerHash = length t div N_HASH in
     if bucketsPerHash = 0 then Inl Undefined_behaviour
     else Inr (update_loop bucketsPerHash plusOrMinus key t))"

definition iblt_insert :: "u32 \<Rightarrow> iblt \<Rightarrow> error + iblt" where
  "iblt_insert key t = iblt_update 1 key t"

definition iblt_erase :: "u32 \<Rightarrow> iblt \<Rightarrow> error + iblt" where
  "iblt_erase key t = iblt_update (-1) key t"

definition entry_difference :: "hashTableEntry \<Rightarrow> hashTableEntry \<Rightarrow> hashTableEntry" where
  "entry_difference e1 e2 =
    HashTableEntry (he_count e1 - he_count e2) (he_keySum e1 XOR he_keySum e2) (he_keyCheck e1 XOR he_keyCheck e2)"

definition iblt_difference :: "iblt \<Rightarrow> iblt \<Rightarrow> error + iblt" where
  "iblt_difference t other =
    (if length t \<noteq> length other then Inl (Runtime_error ''IBLT difference: Both tables must be the same size'')
     else Inr (map2 entry_difference t other))"

definition iblt_equals :: "iblt \<Rightarrow> iblt \<Rightarrow> bool" where
  "iblt_equals t other \<longleftrightarrow> length t = length other \<and>
    list_all (\<lambda>i. \<not> (he_count (t ! i) \<noteq> he_count (other ! i) \<or> he_keySum (t ! i) \<noteq> he_keySum (other ! i) \<or>
      he_keyCheck (t ! i) \<noteq> he_keyCheck (other ! i))) [0..<length t]"

text \<open>The state of listEntries: the peeled table and the keys found.  A pass visits the entries by index.\<close>

record peeling =
  pl_peeled :: iblt
  pl_positive :: "u32 set"
  pl_negative :: "u32 set"

fun peel_pass :: "nat \<Rightarrow> nat list \<Rightarrow> peeling \<Rightarrow> error + (nat \<times> peeling)" where
  "peel_pass nErased [] s = Inr (nErased, s)"
| "peel_pass nErased (i # is) s =
    (let e = pl_peeled s ! i in
     if he_isPure e then
       let s = (if he_count e = 1 then s\<lparr>pl_positive := insert (he_keySum e) (pl_positive s)\<rparr>
                else s\<lparr>pl_negative := insert (he_keySum e) (pl_negative s)\<rparr>)
       in bindE (iblt_update (- he_count e) (he_keySum e) (pl_peeled s)) (\<lambda>t.
            peel_pass (nErased + 1) is (s\<lparr>pl_peeled := t\<rparr>))
     else peel_pass nErased is s)"

text \<open>The do-while loop; it may run for ever, so not returning is the value \<open>None\<close>.\<close>

partial_function (option) peel_loop :: "peeling \<Rightarrow> (error + peeling) option" where
  "peel_loop s =
    (case peel_pass 0 [0..<length (pl_peeled s)] s of
       Inl e \<Rightarrow> Some (Inl e)
     | Inr (nErased, s') \<Rightarrow> if nErased > 0 then peel_loop s' else Some (Inr s'))"

declare peel_loop.simps [code]

definition listEntries :: "iblt \<Rightarrow> (error + (bool \<times> u32 set \<times> u32 set)) option" where
  "listEntries t =
    (case peel_loop \<lparr>pl_peeled = t, pl_positive = {}, pl_negative = {}\<rparr> of
       None \<Rightarrow> None
     | Some (Inl e) \<Rightarrow> Some (Inl e)
     | Some (Inr s) \<Rightarrow> Some (Inr (list_all he_isEmpty (pl_peeled s), pl_positive s, pl_negative s)))"

section \<open>Encoding\<close>

definition entry_bytes :: "hashTableEntry \<Rightarrow> byte list" where
  "entry_bytes e = le32 (he_count e) @ le32 (he_keySum e) @ le32 (he_keyCheck e)"

definition iblt_encode :: "(byte list \<Rightarrow> error + byte list) \<Rightarrow> iblt \<Rightarrow> error + byte list" where
  "iblt_encode zlibCompress t = zlibCompress (concat (map entry_bytes t))"

definition iblt_decode :: "(byte list \<Rightarrow> error + byte list) \<Rightarrow> byte list \<Rightarrow> error + u32 list" where
  "iblt_decode zlibDecompress encoding =
    bindE (zlibDecompress encoding) (\<lambda>ibltValues.
      let nEntries = length ibltValues div 4 in
      Inr (map (\<lambda>i. push_bit 24 (ucast (ibltValues ! (4 * i + 3))) + push_bit 16 (ucast (ibltValues ! (4 * i + 2))) +
                    push_bit 8 (ucast (ibltValues ! (4 * i + 1))) + ucast (ibltValues ! (4 * i)))
             [0..<nEntries]))"

definition iblt_initialize :: "(byte list \<Rightarrow> error + byte list) \<Rightarrow> byte list \<Rightarrow> iblt \<Rightarrow> error + iblt" where
  "iblt_initialize zlibDecompress encoding t =
    bindE (iblt_decode zlibDecompress encoding) (\<lambda>vs.
      if 3 * length t \<noteq> length vs
      then Inl (Runtime_error ''The received Invertible Bloom Filter cannot be decoded'')
      else Inr (map (\<lambda>i. if vs ! (i * 3) \<noteq> 0
                         then HashTableEntry (vs ! (i * 3)) (vs ! (i * 3 + 1)) (vs ! (i * 3 + 2))
                         else t ! i) [0..<length t]))"

section \<open>Entries as a group\<close>

instantiation hashTableEntry :: ab_group_add
begin

definition zero_hashTableEntry :: hashTableEntry where
  "0 = HashTableEntry 0 0 0"

definition plus_hashTableEntry :: "hashTableEntry \<Rightarrow> hashTableEntry \<Rightarrow> hashTableEntry" where
  "e1 + e2 = HashTableEntry (he_count e1 + he_count e2) (he_keySum e1 XOR he_keySum e2) (he_keyCheck e1 XOR he_keyCheck e2)"

definition uminus_hashTableEntry :: "hashTableEntry \<Rightarrow> hashTableEntry" where
  "- e = HashTableEntry (- he_count e) (he_keySum e) (he_keyCheck e)"

definition minus_hashTableEntry :: "hashTableEntry \<Rightarrow> hashTableEntry \<Rightarrow> hashTableEntry" where
  "e1 - e2 = entry_difference e1 e2"

instance
  by standard (auto simp: zero_hashTableEntry_def plus_hashTableEntry_def uminus_hashTableEntry_def
      minus_hashTableEntry_def entry_difference_def ac_simps)

end

definition key_entry :: "u32 \<Rightarrow> hashTableEntry" where
  "key_entry key = HashTableEntry 1 key (murmurHash3 N_HASHCHECK key)"

lemma entry_update_add:
  "entry_update 1 key e = e + key_entry key" "entry_update (- 1) key e = e - key_entry key"
  by (simp_all add: entry_update_def key_entry_def plus_hashTableEntry_def minus_hashTableEntry_def entry_difference_def)

lemma he_isEmpty_iff: "he_isEmpty e \<longleftrightarrow> e = 0"
  by (cases e) (simp add: he_isEmpty_def zero_hashTableEntry_def)

text \<open>Where a key is stored, and its share of an entry.\<close>

definition holds_key :: "nat \<Rightarrow> nat \<Rightarrow> u32 \<Rightarrow> bool" where
  "holds_key b j key \<longleftrightarrow> (\<exists>i < N_HASH. j = entry_index b i key)"

definition share :: "nat \<Rightarrow> nat \<Rightarrow> u32 \<Rightarrow> hashTableEntry" where
  "share b j key = (if holds_key b j key then key_entry key else 0)"

lemma entry_index_bound:
  assumes "b > 0" "i < N_HASH"
  shows "i * b \<le> entry_index b i key" "entry_index b i key < (i + 1) * b"
  using assms by (simp_all add: entry_index_def nat_less_iff)

lemma entry_index_inj:
  assumes "b > 0" "i < N_HASH" "j < N_HASH" "entry_index b i key = entry_index b j key"
  shows "i = j"
proof -
  have "entry_index b i key div b = i" if "i < N_HASH" for i
    using entry_index_bound [OF assms(1) that, of key] by (intro div_nat_eqI) (simp_all add: mult.commute)
  then show ?thesis using assms by metis
qed

lemma fold_update_nth:
  assumes "distinct (map f is)" "j < length t"
  shows "fold (\<lambda>i t. let k = f i in t[k := g (t ! k)]) is t ! j = (if j \<in> f ` set is then g (t ! j) else t ! j)"
  using assms by (induction "is" arbitrary: t) (auto simp: Let_def nth_list_update image_iff)

lemma length_fold_update [simp]: "length (fold (\<lambda>i t. let k = f i in t[k := g t k]) is t) = length t"
  by (induction "is" arbitrary: t) (simp_all add: Let_def)

lemma iblt_update_loop: "length t div N_HASH > 0 \<Longrightarrow> iblt_update pm key t = Inr (update_loop (length t div N_HASH) pm key t)"
  by (simp add: iblt_update_def)

lemma length_update_loop [simp]: "length (update_loop b pm key t) = length t"
  unfolding update_loop_def by (rule length_fold_update)

lemma update_loop_nth:
  assumes "b > 0" "j < length t"
  shows "update_loop b pm key t ! j = (if holds_key b j key then entry_update pm key (t ! j) else t ! j)"
proof -
  have "inj_on (\<lambda>i. entry_index b i key) {..<N_HASH}" by (rule inj_onI) (rule entry_index_inj [OF assms(1), of _ _ key], simp_all)
  then have d: "distinct (map (\<lambda>i. entry_index b i key) [0..<N_HASH])"
    by (simp add: distinct_map lessThan_atLeast0)
  show ?thesis
    unfolding update_loop_def fold_update_nth [OF d assms(2)] by (auto simp: holds_key_def)
qed

section \<open>The keys a table stands for\<close>

text \<open>The entry of bucket \<open>j\<close> when the keys \<open>P\<close> were inserted and the keys \<open>N\<close> erased.\<close>

definition bucket_total :: "nat \<Rightarrow> u32 set \<Rightarrow> u32 set \<Rightarrow> nat \<Rightarrow> hashTableEntry" where
  "bucket_total b P N j = (\<Sum>k \<in> P. share b j k) - (\<Sum>k \<in> N. share b j k)"

definition represents_keys :: "iblt \<Rightarrow> u32 set \<Rightarrow> u32 set \<Rightarrow> bool" where
  "represents_keys t P N \<longleftrightarrow> length t div N_HASH > 0 \<and> N_HASH dvd length t \<and>
    (\<forall>j < length t. t ! j = bucket_total (length t div N_HASH) P N j)"

lemma finite_keys [simp]: "finite (S :: u32 set)"
  by (rule finite_subset [OF subset_UNIV finite])

lemma total_insert:
  "k \<notin> P \<Longrightarrow> bucket_total b (insert k P) N j = bucket_total b P N j + share b j k"
  "k \<in> P \<Longrightarrow> bucket_total b (P - {k}) N j = bucket_total b P N j - share b j k"
  "k \<in> N \<Longrightarrow> bucket_total b P (N - {k}) j = bucket_total b P N j + share b j k"
  by (simp_all add: bucket_total_def sum_diff1 algebra_simps)

lemma update_loop_total:
  assumes "represents_keys t P N" "j < length t" "pm = 1 \<or> pm = -1"
  shows "update_loop (length t div N_HASH) pm k t ! j =
    (if pm = 1 then bucket_total (length t div N_HASH) P N j + share (length t div N_HASH) j k
     else bucket_total (length t div N_HASH) P N j - share (length t div N_HASH) j k)"
  using assms by (auto simp: represents_keys_def update_loop_nth share_def entry_update_add)

lemma represents_insert:
  "\<lbrakk>represents_keys t P N; k \<notin> P\<rbrakk> \<Longrightarrow> \<exists>t'. iblt_insert k t = Inr t' \<and> represents_keys t' (insert k P) N"
  using update_loop_total [of t P N _ 1 k]
  by (auto simp: represents_keys_def iblt_insert_def iblt_update_loop total_insert)

lemma represents_erase:
  "\<lbrakk>represents_keys t P N; k \<in> P\<rbrakk> \<Longrightarrow> \<exists>t'. iblt_erase k t = Inr t' \<and> represents_keys t' (P - {k}) N"
  using update_loop_total [of t P N _ "-1" k]
  by (auto simp: represents_keys_def iblt_erase_def iblt_update_loop total_insert)

lemma total_difference: "bucket_total b A {} j - bucket_total b B {} j = bucket_total b (A - B) (B - A) j"
proof -
  have "sum f A = sum f (A - B) + sum f (A \<inter> B)" "sum f B = sum f (B - A) + sum f (A \<inter> B)" for f :: "u32 \<Rightarrow> hashTableEntry"
    by (metis add.commute finite_keys sum.Int_Diff, metis add.commute finite_keys sum.Int_Diff Int_commute)
  then show ?thesis by (simp add: bucket_total_def)
qed

lemma represents_difference:
  assumes "represents_keys t A {}" "represents_keys u B {}" "length t = length u"
  shows "\<exists>d. iblt_difference t u = Inr d \<and> represents_keys d (A - B) (B - A)"
  using assms total_difference
  by (auto simp: iblt_difference_def represents_keys_def simp flip: minus_hashTableEntry_def)

lemma represents_new:
  assumes "0 < n"
  shows "represents_keys (InvertibleBloomLookupTable n) {} {}"
proof -
  have "represents_keys (replicate m (HashTableEntry 0 0 0)) {} {}" if "3 dvd m" "m > 0" for m
    using that by (auto simp: represents_keys_def bucket_total_def zero_hashTableEntry_def N_HASH_def elim!: dvdE)
  moreover have "3 dvd m + (3 - m mod 3)" if "m mod 3 \<noteq> 0" for m :: nat
    using that by presburger
  ultimately show ?thesis
    using assms by (auto simp: InvertibleBloomLookupTable_def N_HASH_def Let_def)
qed

section \<open>Peeling\<close>

text \<open>
  No accidents: among the keys in question, a bucket passes the purity test only when it holds one key,
  and is all zero only when it holds none.
\<close>

definition bucket_keys :: "nat \<Rightarrow> u32 set \<Rightarrow> nat \<Rightarrow> u32 set" where
  "bucket_keys b S j = {k \<in> S. holds_key b j k}"

definition collision_free :: "nat \<Rightarrow> u32 set \<Rightarrow> u32 set \<Rightarrow> bool" where
  "collision_free b P N \<longleftrightarrow>
    (\<forall>P' \<in> Pow P. \<forall>N' \<in> Pow N. \<forall>j \<in> {..<N_HASH * b}.
      (he_isPure (bucket_total b P' N' j) \<longrightarrow> is_singleton (bucket_keys b (P' \<union> N') j)) \<and>
      (bucket_total b P' N' j = 0 \<longrightarrow> bucket_keys b (P' \<union> N') j = {}))"

lemma sum_share: "(\<Sum>k \<in> S. share b j k) = (\<Sum>k \<in> bucket_keys b S j. key_entry k)"
  by (simp add: share_def bucket_keys_def sum.inter_filter)

lemma total_single:
  assumes "bucket_keys b (P \<union> N) j = {k}" "P \<inter> N = {}"
  shows "if k \<in> P then bucket_total b P N j = key_entry k else k \<in> N \<and> bucket_total b P N j = - key_entry k"
proof -
  have "bucket_keys b P j = (if k \<in> P then {k} else {})" "bucket_keys b N j = (if k \<in> P then {} else {k})" "k \<in> P \<union> N"
    using assms by (auto simp: bucket_keys_def set_eq_iff)
  then show ?thesis by (auto simp: bucket_total_def sum_share)
qed

lemma key_entry_fields [simp]:
  "he_count (key_entry k) = 1" "he_keySum (key_entry k) = k" "he_count (- key_entry k) = -1" "he_keySum (- key_entry k) = k"
  by (simp_all add: key_entry_def uminus_hashTableEntry_def)

definition peel_inv :: "u32 set \<Rightarrow> u32 set \<Rightarrow> nat \<Rightarrow> peeling \<Rightarrow> bool" where
  "peel_inv P N n s \<longleftrightarrow> length (pl_peeled s) = n \<and> pl_positive s \<subseteq> P \<and> pl_negative s \<subseteq> N \<and>
    represents_keys (pl_peeled s) (P - pl_positive s) (N - pl_negative s)"

definition remaining :: "u32 set \<Rightarrow> u32 set \<Rightarrow> peeling \<Rightarrow> nat" where
  "remaining P N s = card (P - pl_positive s) + card (N - pl_negative s)"

text \<open>One pure entry is peeled: its key moves from the unknown to the found ones.\<close>

lemma peel_entry:
  assumes cf: "collision_free (n div N_HASH) P N" "P \<inter> N = {}" and inv: "peel_inv P N n s"
    and i: "i < n" and pure: "he_isPure (pl_peeled s ! i)"
  obtains t s' where
    "s' = (if he_count (pl_peeled s ! i) = 1 then s\<lparr>pl_positive := insert (he_keySum (pl_peeled s ! i)) (pl_positive s)\<rparr>
           else s\<lparr>pl_negative := insert (he_keySum (pl_peeled s ! i)) (pl_negative s)\<rparr>)"
    "iblt_update (- he_count (pl_peeled s ! i)) (he_keySum (pl_peeled s ! i)) (pl_peeled s') = Inr t"
    "peel_inv P N n (s'\<lparr>pl_peeled := t\<rparr>)" "Suc (remaining P N (s'\<lparr>pl_peeled := t\<rparr>)) = remaining P N s"
proof -
  let ?b = "n div N_HASH" and ?P = "P - pl_positive s" and ?N = "N - pl_negative s" and ?t = "pl_peeled s"
  have rep: "represents_keys ?t ?P ?N" and len: "length ?t = n" and sub: "pl_positive s \<subseteq> P" "pl_negative s \<subseteq> N"
    using inv by (auto simp: peel_inv_def)
  have e: "?t ! i = bucket_total ?b ?P ?N i" using rep i len by (auto simp: represents_keys_def)
  have "i < N_HASH * ?b" using i rep len by (auto simp: represents_keys_def)
  then have "is_singleton (bucket_keys ?b (?P \<union> ?N) i)"
    using cf(1) pure e unfolding collision_free_def by (metis Diff_subset PowI lessThan_iff)
  then obtain k where k: "bucket_keys ?b (?P \<union> ?N) i = {k}" by (auto simp: is_singleton_def)
  have single: "if k \<in> ?P then ?t ! i = key_entry k else k \<in> ?N \<and> ?t ! i = - key_entry k"
    using total_single [OF k] cf(2) unfolding e by blast
  have ne: "(-1 :: u32) \<noteq> 1" by simp
  show thesis
  proof (cases "k \<in> ?P")
    case True
    then obtain t where t: "iblt_erase k ?t = Inr t" "represents_keys t (?P - {k}) ?N"
      using represents_erase [OF rep] by blast
    have "?P - {k} = P - insert k (pl_positive s)" by auto
    moreover have "length t = n" using t(1) rep len by (auto simp: iblt_erase_def iblt_update_loop represents_keys_def)
    moreover have "Suc (card (?P - {k})) = card ?P" using True by (intro card_Suc_Diff1) simp_all
    ultimately show thesis using True single t sub
      by (intro that [OF refl, of t]) (auto simp: iblt_erase_def peel_inv_def remaining_def)
  next
    case False
    then have kN: "k \<in> ?N" and ei: "?t ! i = - key_entry k" using single by auto
    have b: "length ?t div N_HASH > 0" using rep by (simp add: represents_keys_def)
    let ?u = "update_loop (length ?t div N_HASH) 1 k ?t"
    have "represents_keys ?u ?P (?N - {k})"
      using update_loop_total [OF rep, of _ 1 k] rep kN by (auto simp: represents_keys_def total_insert)
    moreover have "?N - {k} = N - insert k (pl_negative s)" by auto
    moreover have "Suc (card (?N - {k})) = card ?N" using kN by (intro card_Suc_Diff1) simp_all
    ultimately show thesis using ei kN sub b ne len
      by (intro that [OF refl, of ?u]) (auto simp: iblt_update_loop peel_inv_def remaining_def)
  qed
qed

lemma peel_pass_inv:
  assumes cf: "collision_free (n div N_HASH) P N" "P \<inter> N = {}"
  shows "\<lbrakk>peel_inv P N n s; \<forall>i \<in> set is. i < n\<rbrakk> \<Longrightarrow>
    \<exists>k s'. peel_pass m is s = Inr (m + k, s') \<and> peel_inv P N n s' \<and> remaining P N s' + k = remaining P N s"
proof (induction "is" arbitrary: m s)
  case (Cons i "is")
  show ?case
  proof (cases "he_isPure (pl_peeled s ! i)")
    case True
    have "i < n" using Cons.prems by simp
    obtain t s1 where s1:
      "s1 = (if he_count (pl_peeled s ! i) = 1 then s\<lparr>pl_positive := insert (he_keySum (pl_peeled s ! i)) (pl_positive s)\<rparr>
             else s\<lparr>pl_negative := insert (he_keySum (pl_peeled s ! i)) (pl_negative s)\<rparr>)"
      "iblt_update (- he_count (pl_peeled s ! i)) (he_keySum (pl_peeled s ! i)) (pl_peeled s1) = Inr t"
      and inv: "peel_inv P N n (s1\<lparr>pl_peeled := t\<rparr>)" and less: "Suc (remaining P N (s1\<lparr>pl_peeled := t\<rparr>)) = remaining P N s"
      using peel_entry [OF cf Cons.prems(1) \<open>i < n\<close> True] by metis
    have "peel_pass m (i # is) s = peel_pass (m + 1) is (s1\<lparr>pl_peeled := t\<rparr>)"
      using s1 True by (simp add: Let_def)
    moreover obtain k s' where "peel_pass (m + 1) is (s1\<lparr>pl_peeled := t\<rparr>) = Inr (m + 1 + k, s')"
      "peel_inv P N n s'" "remaining P N s' + k = remaining P N (s1\<lparr>pl_peeled := t\<rparr>)"
      using Cons.IH [OF inv, of "m + 1"] Cons.prems(2) by auto
    ultimately show ?thesis using less by (intro exI [of _ "k + 1"] exI [of _ s']) simp
  qed (use Cons in \<open>simp add: Let_def\<close>)
qed simp

lemma peel_loop_returns:
  assumes cf: "collision_free (n div N_HASH) P N" "P \<inter> N = {}" and "peel_inv P N n s"
  shows "\<exists>s'. peel_loop s = Some (Inr s') \<and> peel_inv P N n s'"
  using assms(3)
proof (induction "remaining P N s" arbitrary: s rule: less_induct)
  case less
  have "\<forall>i \<in> set [0..<length (pl_peeled s)]. i < n" using less.prems by (simp add: peel_inv_def)
  then obtain k s' where s': "peel_pass 0 [0..<length (pl_peeled s)] s = Inr (k, s')"
    "peel_inv P N n s'" "remaining P N s' + k = remaining P N s"
    using peel_pass_inv [OF cf less.prems, of "[0..<length (pl_peeled s)]" 0] by auto
  show ?case
  proof (cases "k > 0")
    case True
    then have "peel_loop s = peel_loop s'" using s'(1) by (simp add: peel_loop.simps [of s])
    then show ?thesis using less.hyps [OF _ s'(2)] s'(3) True by auto
  next
    case False
    then show ?thesis using s' by (simp add: peel_loop.simps [of s])
  qed
qed

lemma empty_bucket_iff:
  assumes "collision_free (length t div N_HASH) P N" "P' \<subseteq> P" "N' \<subseteq> N" "represents_keys t P' N'"
  shows "list_all he_isEmpty t \<longleftrightarrow> P' = {} \<and> N' = {}"
proof
  let ?b = "length t div N_HASH"
  have b: "?b > 0" and nth: "\<And>j. j < length t \<Longrightarrow> t ! j = bucket_total ?b P' N' j" and len: "N_HASH * ?b = length t"
    using assms(4) by (auto simp: represents_keys_def)
  assume "list_all he_isEmpty t"
  then have zero: "bucket_total ?b P' N' j = 0" if "j < length t" for j
    using that nth by (auto simp: list_all_length he_isEmpty_iff)
  have "k \<notin> P' \<union> N'" for k
  proof
    assume k: "k \<in> P' \<union> N'"
    let ?j = "entry_index ?b 0 k"
    have "?j < length t" using entry_index_bound [OF b, of 0 k] len by (simp add: N_HASH_def)
    then have "bucket_keys ?b (P' \<union> N') ?j = {}"
      using assms(1-3) zero len unfolding collision_free_def by (metis PowI lessThan_iff)
    moreover have "k \<in> bucket_keys ?b (P' \<union> N') ?j" using k by (auto simp: bucket_keys_def holds_key_def N_HASH_def intro: exI [of _ 0])
    ultimately show False by simp
  qed
  then show "P' = {} \<and> N' = {}" by blast
next
  assume "P' = {} \<and> N' = {}"
  then show "list_all he_isEmpty t"
    using assms(4) by (auto simp: represents_keys_def list_all_length bucket_total_def he_isEmpty_iff)
qed

lemma listEntries_difference:
  assumes "represents_keys t A {}" "represents_keys u B {}" "length t = length u"
    and "collision_free (length t div N_HASH) (A - B) (B - A)"
  shows "\<exists>d positive negative. iblt_difference t u = Inr d \<and>
    listEntries d = Some (Inr (positive = A - B \<and> negative = B - A, positive, negative)) \<and>
    positive \<subseteq> A - B \<and> negative \<subseteq> B - A"
proof -
  obtain d where d: "iblt_difference t u = Inr d" "represents_keys d (A - B) (B - A)"
    using represents_difference [OF assms(1-3)] by blast
  have len: "length d = length t" using d(1) assms(3) by (auto simp: iblt_difference_def split: if_splits)
  let ?s = "\<lparr>pl_peeled = d, pl_positive = {}, pl_negative = {}\<rparr>"
  have "peel_inv (A - B) (B - A) (length t) ?s" using d(2) len by (simp add: peel_inv_def)
  then obtain s' where s': "peel_loop ?s = Some (Inr s')" "peel_inv (A - B) (B - A) (length t) s'"
    using peel_loop_returns [OF assms(4)] by blast
  have "list_all he_isEmpty (pl_peeled s') \<longleftrightarrow> pl_positive s' = A - B \<and> pl_negative s' = B - A"
    using s'(2) empty_bucket_iff [of "pl_peeled s'" "A - B" "B - A" "A - B - pl_positive s'" "B - A - pl_negative s'"] assms(4)
    by (simp add: peel_inv_def) blast
  then show ?thesis
    using d(1) s' by (auto simp: listEntries_def peel_inv_def)
qed

text \<open>
  C13. Reconciliation of two lookup tables.  For two tables of the same size that hold the key sets \<open>A\<close> and
  \<open>B\<close>, listing the entries of their difference returns; what it reports as positive lies in \<open>A - B\<close>, what it
  reports as negative in \<open>B - A\<close>, and it reports success exactly when both are complete.  The hypothesis
  excludes accidents of the hash among the keys of the difference.
\<close>

theorem iblt_reconciles:
  assumes "represents_keys t A {}" "represents_keys u B {}" "length t = length u"
    and "collision_free (length t div N_HASH) (A - B) (B - A)"
  shows "\<exists>d positive negative. iblt_difference t u = Inr d \<and>
    listEntries d = Some (Inr (positive = A - B \<and> negative = B - A, positive, negative)) \<and>
    positive \<subseteq> A - B \<and> negative \<subseteq> B - A"
  by (rule listEntries_difference [OF assms])

definition sample_iblt :: "u32 list \<Rightarrow> iblt" where
  "sample_iblt keys = foldl (\<lambda>t k. projr (iblt_insert k t)) (InvertibleBloomLookupTable 4) keys"

lemma length_sample: "length (sample_iblt keys) = 6"
proof (induction keys rule: rev_induct)
  case Nil
  then show ?case by (simp add: sample_iblt_def InvertibleBloomLookupTable_def N_HASH_def Let_def)
next
  case (snoc k keys)
  then have "iblt_insert k (sample_iblt keys) = Inr (update_loop 2 1 k (sample_iblt keys))"
    by (simp add: iblt_insert_def iblt_update_def N_HASH_def)
  then show ?case using snoc.IH by (simp add: sample_iblt_def)
qed

lemma represents_sample: "distinct keys \<Longrightarrow> represents_keys (sample_iblt keys) (set keys) {}"
proof (induction keys rule: rev_induct)
  case Nil
  then show ?case using represents_new [of 4] by (simp add: sample_iblt_def)
next
  case (snoc k keys)
  then show ?case using represents_insert [of "sample_iblt keys" "set keys" "{}" k] by (auto simp: sample_iblt_def)
qed

lemma sample_hashes:
  "entry_index 2 0 1 = 0" "entry_index 2 1 1 = 2" "entry_index 2 2 1 = 4"
  "entry_index 2 0 3 = 1" "entry_index 2 1 3 = 3" "entry_index 2 2 3 = 5"
  "murmurHash3 N_HASHCHECK 1 = 3314192471" "murmurHash3 N_HASHCHECK 3 = 727523823"
  by code_simp+

lemmas sample_indexes = sample_hashes [unfolded One_nat_def]

lemma holds_key_cases:
  "holds_key b j key \<longleftrightarrow> j = entry_index b 0 key \<or> j = entry_index b 1 key \<or> j = entry_index b 2 key"
  by (auto simp: holds_key_def N_HASH_def numeral_eq_Suc less_Suc_eq)

text \<open>Keys that share no bucket are free of accidents, whatever their hashes.\<close>

lemma disjoint_collision_free:
  assumes "P \<inter> N = {}" "\<And>j k k'. \<lbrakk>k \<in> P \<union> N; k' \<in> P \<union> N; holds_key b j k; holds_key b j k'\<rbrakk> \<Longrightarrow> k = k'"
  shows "collision_free b P N"
  unfolding collision_free_def
proof (intro ballI)
  fix P' N' j assume sub: "P' \<in> Pow P" "N' \<in> Pow N"
  show "(he_isPure (bucket_total b P' N' j) \<longrightarrow> is_singleton (bucket_keys b (P' \<union> N') j)) \<and>
      (bucket_total b P' N' j = 0 \<longrightarrow> bucket_keys b (P' \<union> N') j = {})"
  proof (cases "bucket_keys b (P' \<union> N') j = {}")
    case True
    then have "bucket_keys b P' j = {}" "bucket_keys b N' j = {}" by (auto simp: bucket_keys_def)
    then have "bucket_total b P' N' j = 0" by (simp add: bucket_total_def sum_share)
    then show ?thesis using True by (simp add: he_isPure_def zero_hashTableEntry_def)
  next
    case False
    then obtain k where in_bucket: "k \<in> bucket_keys b (P' \<union> N') j" by blast
    have "x = k" if "x \<in> bucket_keys b (P' \<union> N') j" for x
      using that in_bucket sub by (intro assms(2) [of x k j]) (auto simp: bucket_keys_def)
    with in_bucket have k: "bucket_keys b (P' \<union> N') j = {k}" by blast
    have "P' \<inter> N' = {}" using assms(1) sub by auto
    from total_single [OF k this] have "he_count (bucket_total b P' N' j) \<noteq> 0" by (auto split: if_splits)
    then show ?thesis using k by (auto simp: zero_hashTableEntry_def)
  qed
qed

lemma sample_collision_free: "collision_free 2 {1} {3}"
  by (rule disjoint_collision_free) (auto simp: holds_key_cases sample_indexes)

theorem iblt_reconciles_witness:
  "\<exists>d positive negative. iblt_difference (sample_iblt [1, 2]) (sample_iblt [2, 3]) = Inr d \<and>
     listEntries d = Some (Inr (positive = {1} \<and> negative = {3}, positive, negative))"
proof -
  let ?t = "sample_iblt [1, 2]" and ?u = "sample_iblt [2, 3]"
  have rep: "represents_keys ?t {1, 2} {}" "represents_keys ?u {2, 3} {}"
    using represents_sample [of "[1, 2]"] represents_sample [of "[2, 3]"] by simp_all
  have sets: "{1, 2} - {2, 3} = {1 :: u32}" "{2, 3} - {1, 2} = {3 :: u32}" by auto
  have "length ?t = 6" "length ?u = 6" by (simp_all add: length_sample)
  then have "length ?t = length ?u" "collision_free (length ?t div N_HASH) ({1, 2} - {2, 3}) ({2, 3} - {1, 2})"
    using sample_collision_free by (simp_all only: sets) (simp add: N_HASH_def)
  then show ?thesis
    using iblt_reconciles [OF rep] unfolding sets by blast
qed

section \<open>A table that cannot be peeled\<close>

text \<open>The key 1 in bucket 1, where it does not belong (its buckets are 0, 2 and 4).\<close>

definition misplaced_table :: iblt where
  "misplaced_table = [0, key_entry 1, 0, 0, 0, 0]"

lemma zero_not_pure: "\<not> he_isPure 0"
  by (simp add: he_isPure_def zero_hashTableEntry_def)

lemma key_pure: "he_isPure (key_entry k)" "he_isPure (- key_entry k)"
  by (simp_all add: he_isPure_def key_entry_def uminus_hashTableEntry_def)

lemma upt_3: "[0..<3] = [0, Suc 0, 2]"
  by (simp add: upt_rec numeral_2_eq_2)

lemma misplaced_update:
  "iblt_update (- 1) 1 misplaced_table = Inr [- key_entry 1, key_entry 1, - key_entry 1, 0, - key_entry 1, 0]"
  "iblt_update 1 1 [- key_entry 1, key_entry 1, - key_entry 1, 0, - key_entry 1, 0] = Inr misplaced_table"
  by (simp_all add: misplaced_table_def iblt_update_def update_loop_def N_HASH_def upt_3 sample_indexes entry_update_add)

lemma misplaced_pass:
  assumes "pl_peeled s = misplaced_table"
  shows "peel_pass 0 [0..<6] s =
    Inr (2, s\<lparr>pl_positive := insert 1 (pl_positive s), pl_negative := insert 1 (pl_negative s), pl_peeled := misplaced_table\<rparr>)"
proof -
  have ne: "(-1 :: u32) \<noteq> 1" by simp
  have idx: "[0..<6] = [0, 1, 2, 3, 4, 5]" by (simp add: upt_rec)
  have nth: "misplaced_table ! 0 = 0" "misplaced_table ! 1 = key_entry 1" "misplaced_table ! 3 = 0"
    "misplaced_table ! 4 = 0" "misplaced_table ! 5 = 0"
    by (simp_all add: misplaced_table_def)
  show ?thesis
    using assms by (simp add: idx nth nth [unfolded One_nat_def] zero_not_pure key_pure misplaced_update ne Let_def)
qed

text \<open>
  A sync interest can stop a PSync node.  There is a table of the size the node expects with one entry
  in a bucket its key does not hash to, on which listing the entries never returns: each pass peels the
  misplaced key and one of its true buckets, and ends in the table it started from.
\<close>

lemma listEntries_can_loop:
  "length misplaced_table = length (InvertibleBloomLookupTable 4) \<and> listEntries misplaced_table = None"
proof -
  have "pl_peeled s \<noteq> misplaced_table" if "peel_loop s = Some r" for s r
  proof (rule peel_loop.raw_induct [where P = "\<lambda>s r. pl_peeled s \<noteq> misplaced_table", OF _ that])
    fix f s r
    assume IH: "\<And>s r. f s = Some r \<Longrightarrow> pl_peeled s \<noteq> misplaced_table"
      and eq: "(case peel_pass 0 [0..<length (pl_peeled s)] s of Inl e \<Rightarrow> Some (Inl e)
        | Inr (nErased, s') \<Rightarrow> if nErased > 0 then f s' else Some (Inr s')) = Some r"
    show "pl_peeled s \<noteq> misplaced_table"
    proof
      assume t: "pl_peeled s = misplaced_table"
      then have "length (pl_peeled s) = 6" by (simp add: misplaced_table_def)
      then show False using eq IH misplaced_pass [OF t] by force
    qed
  qed
  then have "peel_loop \<lparr>pl_peeled = misplaced_table, pl_positive = {}, pl_negative = {}\<rparr> = None"
    by (metis not_None_eq peeling.select_convs(1))
  then show ?thesis
    by (simp add: listEntries_def misplaced_table_def InvertibleBloomLookupTable_def N_HASH_def Let_def)
qed

section \<open>Encoding and decoding\<close>

lemma le32_read:
  "push_bit 24 (ucast (le32 v ! 3)) + push_bit 16 (ucast (le32 v ! 2)) + push_bit 8 (ucast (le32 v ! 1)) + ucast (le32 v ! 0) = v"
proof -
  have cast: "(ucast (ucast x :: byte) :: u32) = take_bit 8 x" for x :: u32
    by (rule bit_word_eqI) (auto simp: bit_simps)
  have part: "push_bit 8 (drop_bit (8 + n) v) + take_bit 8 (drop_bit n v) = drop_bit n v" for n
    using bits_ident [of 8 "drop_bit n v"] by (simp add: add.commute)
  have top: "take_bit 8 (drop_bit 24 v) = drop_bit 24 v"
    by (rule bit_word_eqI) (auto simp: bit_simps dest: bit_imp_le_length)
  have "push_bit 24 (drop_bit 24 v) + push_bit 16 (take_bit 8 (drop_bit 16 v)) = push_bit 16 (drop_bit 16 v)"
    using arg_cong [OF part [of 16], of "push_bit 16"] by (simp add: push_bit_add)
  moreover have "push_bit 16 (drop_bit 16 v) + push_bit 8 (take_bit 8 (drop_bit 8 v)) = push_bit 8 (drop_bit 8 v)"
    using arg_cong [OF part [of 8], of "push_bit 8"] by (simp add: push_bit_add)
  moreover have "push_bit 8 (drop_bit 8 v) + take_bit 8 v = v" by (rule bits_ident)
  ultimately show ?thesis by (simp add: le32_def cast top)
qed

lemma length_le32 [simp]: "length (le32 v) = 4"
  by (simp add: le32_def)

lemma nth_concat_blocks:
  "\<lbrakk>\<forall>xs \<in> set xss. length xs = n; i < length xss; r < n\<rbrakk> \<Longrightarrow> concat xss ! (n * i + r) = xss ! i ! r"
proof (induction xss arbitrary: i)
  case (Cons xs xss)
  then show ?case by (cases i) (auto simp: nth_append add.assoc)
qed simp

lemma length_concat_blocks: "\<forall>xs \<in> set xss. length xs = n \<Longrightarrow> length (concat xss) = n * length xss"
  by (induction xss) auto

lemma iblt_initialize_encoding:
  assumes "\<forall>x y. zlibCompress x = Inr y \<longrightarrow> zlibDecompress y = Inr x" "iblt_encode zlibCompress t = Inr encoding"
    and "\<forall>e \<in> set t. he_count e = 0 \<longrightarrow> he_isEmpty e" "length t = length (InvertibleBloomLookupTable n)"
  shows "iblt_initialize zlibDecompress encoding (InvertibleBloomLookupTable n) = Inr t"
proof -
  let ?bs = "concat (map entry_bytes t)"
  let ?words = "concat (map (\<lambda>e. [he_count e, he_keySum e, he_keyCheck e]) t)"
  have bytes: "?bs = concat (map le32 ?words)" by (induction t) (simp_all add: entry_bytes_def)
  have len: "length ?bs = 4 * length ?words" "length ?words = 3 * length t"
    using length_concat_blocks [of "map le32 ?words" 4]
      length_concat_blocks [of "map (\<lambda>e. [he_count e, he_keySum e, he_keyCheck e]) t" 3]
    by (simp_all only: bytes length_map) simp_all
  have byte: "?bs ! (4 * i + r) = le32 (?words ! i) ! r" if "i < length ?words" "r < 4" for i r
    unfolding bytes using that by (subst nth_concat_blocks) simp_all
  have word: "push_bit 24 (ucast (?bs ! (4 * i + 3))) + push_bit 16 (ucast (?bs ! (4 * i + 2))) +
      push_bit 8 (ucast (?bs ! (4 * i + 1))) + ucast (?bs ! (4 * i)) = ?words ! i" if "i < length ?words" for i
    using le32_read [of "?words ! i"] byte [OF that, of 0] byte [OF that, of 1] byte [OF that, of 2] byte [OF that, of 3] by simp
  have "zlibDecompress encoding = Inr ?bs" using assms(1,2) by (simp add: iblt_encode_def)
  then have "iblt_decode zlibDecompress encoding = Inr (map (\<lambda>i. ?words ! i) [0..<length ?words])"
    using len(1) word by (simp add: iblt_decode_def)
  then have "iblt_decode zlibDecompress encoding = Inr ?words" by (simp only: map_nth)
  moreover have "?words ! (i * 3 + r) = [he_count (t ! i), he_keySum (t ! i), he_keyCheck (t ! i)] ! r" if "i < length t" "r < 3" for i r
    using nth_concat_blocks [of "map (\<lambda>e. [he_count e, he_keySum e, he_keyCheck e]) t" 3 i r] that by (simp add: mult.commute)
  from this [of _ 0] this [of _ 1] this [of _ 2]
  have "?words ! (i * 3) = he_count (t ! i)" "?words ! (i * 3 + 1) = he_keySum (t ! i)" "?words ! (i * 3 + 2) = he_keyCheck (t ! i)"
    if "i < length t" for i using that by simp_all
  moreover have "InvertibleBloomLookupTable n ! i = t ! i" if "i < length t" "he_count (t ! i) = 0" for i
    using assms(3,4) that by (auto simp: InvertibleBloomLookupTable_def Let_def he_isEmpty_iff zero_hashTableEntry_def)
  ultimately show ?thesis
    using assms(4) len(2) by (auto simp: iblt_initialize_def intro!: nth_equalityI)
qed

text \<open>
  C32. Round trip of the encoding.  A table decoded from its encoding into a new table of the same size is the
  same table, when entries whose count is zero are empty (the decoder skips them), for any compression that
  decompression undoes.
\<close>

theorem iblt_encoding_roundtrip:
  assumes "\<forall>x y. zlibCompress x = Inr y \<longrightarrow> zlibDecompress y = Inr x" "iblt_encode zlibCompress t = Inr encoding"
    and "\<forall>e \<in> set t. he_count e = 0 \<longrightarrow> he_isEmpty e" "length t = length (InvertibleBloomLookupTable n)"
  shows "iblt_initialize zlibDecompress encoding (InvertibleBloomLookupTable n) = Inr t"
  by (rule iblt_initialize_encoding [OF assms])

theorem iblt_encoding_roundtrip_witness:
  "iblt_initialize (\<lambda>x. Inr x) (concat (map entry_bytes misplaced_table)) (InvertibleBloomLookupTable 4) = Inr misplaced_table"
  by (rule iblt_encoding_roundtrip [where zlibCompress = "\<lambda>x. Inr x"])
    (simp_all add: iblt_encode_def misplaced_table_def he_isEmpty_def zero_hashTableEntry_def key_entry_def
      InvertibleBloomLookupTable_def N_HASH_def Let_def)

end
