(* ===== verification/Name_Map.thy ===== *)
theory Name_Map
  imports Name_Order
begin

text \<open>
  \<open>std::map\<close> with \<open>Name\<close> keys.  Its order is \<open>Name::operator<\<close>, that is \<open>compare() < 0\<close>, which the theory of
  the canonical order shows to be the lexicographic order of component keys; the map is the list of its
  entries in that order, so iteration is list traversal.  The laws a client relies on are the locale
  \<open>std_map\<close>, interpreted by these operations.
\<close>

section \<open>The interface\<close>

locale std_map =
  fixes key_of :: "'k \<Rightarrow> 'o"
    and find :: "'k \<Rightarrow> 'm \<Rightarrow> 'v option"
    and assign :: "'k \<Rightarrow> 'v \<Rightarrow> 'm \<Rightarrow> 'm"
    and erase :: "'k \<Rightarrow> 'm \<Rightarrow> 'm"
    and entries :: "'m \<Rightarrow> ('k \<times> 'v) list"
    and ok :: "'m \<Rightarrow> bool"
  assumes find_assign: "ok m \<Longrightarrow> find k (assign j v m) = (if key_of k = key_of j then Some v else find k m)"
    and find_erase: "ok m \<Longrightarrow> find k (erase j m) = (if key_of k = key_of j then None else find k m)"
    and ok_assign: "ok m \<Longrightarrow> ok (assign k v m)"
    and ok_erase: "ok m \<Longrightarrow> ok (erase k m)"
    and find_entries: "ok m \<Longrightarrow> find k m = Some v \<longleftrightarrow> (\<exists>j. key_of j = key_of k \<and> (j, v) \<in> set (entries m))"
begin

lemma ok_assigns: "ok m \<Longrightarrow> ok (fold (\<lambda>(k, v). assign k v) kvs m)"
  by (induction kvs arbitrary: m) (auto intro: ok_assign)

text \<open>After a sequence of assignments with different keys each key has its value, other keys have the old one.\<close>

lemma find_assigns:
  assumes "ok m" "distinct (map (key_of \<circ> fst) kvs)"
  shows "(k, v) \<in> set kvs \<Longrightarrow> find k (fold (\<lambda>(k, v). assign k v) kvs m) = Some v"
    and "key_of k \<notin> (key_of \<circ> fst) ` set kvs \<Longrightarrow> find k (fold (\<lambda>(k, v). assign k v) kvs m) = find k m"
proof -
  have other: "find k (fold (\<lambda>(k, v). assign k v) kvs m) = find k m"
    if "ok m" "key_of k \<notin> (key_of \<circ> fst) ` set kvs" for k m kvs
    using that by (induction kvs arbitrary: m) (auto simp: find_assign ok_assign)
  show "key_of k \<notin> (key_of \<circ> fst) ` set kvs \<Longrightarrow> find k (fold (\<lambda>(k, v). assign k v) kvs m) = find k m"
    by (rule other [OF assms(1)])
  show "(k, v) \<in> set kvs \<Longrightarrow> find k (fold (\<lambda>(k, v). assign k v) kvs m) = Some v"
    using assms
  proof (induction kvs arbitrary: m)
    case (Cons p kvs)
    obtain j w where p: "p = (j, w)" by fastforce
    show ?case
    proof (cases "(k, v) = p")
      case True
      then have "key_of k \<notin> (key_of \<circ> fst) ` set kvs" using Cons.prems(3) by (simp only: list.map distinct.simps set_map p) auto
      then show ?thesis using True other [OF ok_assign [OF Cons.prems(2)]] Cons.prems(2) by (auto simp: find_assign)
    next
      case False
      then show ?thesis using Cons p by (auto simp: ok_assign)
    qed
  qed simp
qed

end

section \<open>Ordered maps\<close>

text \<open>An ordered map as the list of its entries; \<open>f\<close> is what the keys are compared by.\<close>

fun om_find :: "('k \<Rightarrow> 'o::linorder) \<Rightarrow> 'k \<Rightarrow> ('k \<times> 'v) list \<Rightarrow> 'v option" where
  "om_find f n [] = None"
| "om_find f n ((m, v) # xs) = (if f m = f n then Some v else om_find f n xs)"

fun om_assign :: "('k \<Rightarrow> 'o::linorder) \<Rightarrow> 'k \<Rightarrow> 'v \<Rightarrow> ('k \<times> 'v) list \<Rightarrow> ('k \<times> 'v) list" where
  "om_assign f n v [] = [(n, v)]"
| "om_assign f n v ((m, w) # xs) =
    (if f n < f m then (n, v) # (m, w) # xs
     else if f n = f m then (m, v) # xs
     else (m, w) # om_assign f n v xs)"

fun om_erase :: "('k \<Rightarrow> 'o::linorder) \<Rightarrow> 'k \<Rightarrow> ('k \<times> 'v) list \<Rightarrow> ('k \<times> 'v) list" where
  "om_erase f n [] = []"
| "om_erase f n ((m, w) # xs) = (if f m = f n then xs else (m, w) # om_erase f n xs)"

definition om_ok :: "('k \<Rightarrow> 'o::linorder) \<Rightarrow> ('k \<times> 'v) list \<Rightarrow> bool" where
  "om_ok f xs \<longleftrightarrow> sorted_wrt (<) (map (\<lambda>x. f (fst x)) xs)"

lemma om_ok_simps [simp]:
  "om_ok f []" "om_ok f (x # xs) \<longleftrightarrow> (\<forall>y \<in> set xs. f (fst x) < f (fst y)) \<and> om_ok f xs"
  by (simp_all add: om_ok_def)

lemma om_find_absent: "\<forall>y \<in> set xs. f (fst y) \<noteq> f n \<Longrightarrow> om_find f n xs = None"
  by (induction xs) auto

lemma om_assign_keys: "y \<in> set (om_assign f n v xs) \<Longrightarrow> f (fst y) = f n \<or> y \<in> set xs"
  by (induction xs) (auto split: if_splits)

lemma om_ok_assign: "om_ok f xs \<Longrightarrow> om_ok f (om_assign f n v xs)"
proof (induction xs)
  case (Cons x xs)
  then show ?case by (cases x) (auto simp: not_less_iff_gr_or_eq dest!: om_assign_keys)
qed simp

lemma om_erase_subset: "set (om_erase f n xs) \<subseteq> set xs"
  by (induction xs) (auto split: if_splits)

lemma om_ok_erase: "om_ok f xs \<Longrightarrow> om_ok f (om_erase f n xs)"
  using om_erase_subset by (induction xs) fastforce+

lemma om_find_assign: "om_ok f xs \<Longrightarrow> om_find f k (om_assign f n v xs) = (if f k = f n then Some v else om_find f k xs)"
  by (induction xs) auto

lemma om_find_erase: "om_ok f xs \<Longrightarrow> om_find f k (om_erase f n xs) = (if f k = f n then None else om_find f k xs)"
proof (induction xs)
  case (Cons x xs)
  obtain m w where x: "x = (m, w)" by fastforce
  have "om_find f k xs = None" if "f k = f m"
    using Cons.prems x that by (intro om_find_absent) fastforce
  with Cons x show ?case by (cases "f k = f n") auto
qed simp

lemma om_find_entries: "om_ok f xs \<Longrightarrow> om_find f k xs = Some v \<longleftrightarrow> (\<exists>j. f j = f k \<and> (j, v) \<in> set xs)"
proof (induction xs)
  case (Cons x xs)
  then show ?case by (cases x) force
qed simp

interpretation om: std_map f "om_find f" "om_assign f" "om_erase f" "\<lambda>xs. xs" "om_ok f" for f
  by unfold_locales
    (simp_all add: om_find_assign om_find_erase om_ok_assign om_ok_erase om_find_entries)

section \<open>Maps with name keys\<close>

type_synonym 'v name_map = "(name \<times> 'v) list"

abbreviation nm_find :: "name \<Rightarrow> 'v name_map \<Rightarrow> 'v option" where
  "nm_find \<equiv> om_find nkey"

abbreviation nm_assign :: "name \<Rightarrow> 'v \<Rightarrow> 'v name_map \<Rightarrow> 'v name_map" where
  "nm_assign \<equiv> om_assign nkey"

abbreviation nm_erase :: "name \<Rightarrow> 'v name_map \<Rightarrow> 'v name_map" where
  "nm_erase \<equiv> om_erase nkey"

abbreviation nm_ok :: "'v name_map \<Rightarrow> bool" where
  "nm_ok \<equiv> om_ok nkey"

end
