(* ===== verification/Iso_Time.thy ===== *)
theory Iso_Time
  imports Name_Uri
begin

text \<open>
  ISO strings of times, \<open>ndn_toIsoString\<close> and \<open>ndn_fromIsoString\<close> of \<open>src/c/util/time.c\<close>, as the encoding of
  validity periods uses them: whole milliseconds since 1970, without fractions of a second.  The calendar functions
  \<open>gmtime\<close> and \<open>timegm\<close> and the formats of \<open>sprintf\<close> and \<open>sscanf\<close> are those of the C library.

  \<open>sscanf\<close> reads what it can from a string of another form and leaves the other variables, one of them not initialised,
  as they are; what comes out then is the argument \<open>malformed\<close> of the parser.
\<close>

section \<open>The calendar\<close>

record tm =
  tm_year :: int
  tm_mon :: int
  tm_mday :: int
  tm_hour :: int
  tm_min :: int
  tm_sec :: int

definition isLeapYear :: "int \<Rightarrow> bool" where
  "isLeapYear y \<longleftrightarrow> (y mod 4 = 0 \<and> y mod 100 \<noteq> 0) \<or> y mod 400 = 0"

definition daysInYear :: "int \<Rightarrow> int" where
  "daysInYear y = (if isLeapYear y then 366 else 365)"

definition monthLengths :: "int \<Rightarrow> int list" where
  "monthLengths y = [31, if isLeapYear y then 29 else 28, 31, 30, 31, 30, 31, 31, 30, 31, 30, 31]"

function year_and_day :: "int \<Rightarrow> int \<Rightarrow> int \<times> int" where
  "year_and_day y day = (if day < daysInYear y then (y, day) else year_and_day (y + 1) (day - daysInYear y))"
  by pat_completeness auto
termination
  by (relation "measure (\<lambda>(y, day). nat (day + 1))") (auto simp: daysInYear_def split: if_splits)

fun month_and_day :: "int list \<Rightarrow> int \<Rightarrow> int \<Rightarrow> int \<times> int" where
  "month_and_day [] m day = (m, day)"
| "month_and_day (l # ls) m day = (if day < l then (m, day) else month_and_day ls (m + 1) (day - l))"

definition gmtime :: "int \<Rightarrow> tm" where
  "gmtime seconds =
    (let (y, yday) = year_and_day 1970 (seconds div 86400);
         (m, mday) = month_and_day (monthLengths y) 0 yday;
         r = seconds mod 86400
     in \<lparr>tm_year = y - 1900, tm_mon = m, tm_mday = mday + 1,
         tm_hour = r div 3600, tm_min = r mod 3600 div 60, tm_sec = r mod 60\<rparr>)"

text \<open>The days from 1970 to the first day of a year; \<open>timegm\<close> accepts fields outside their ranges.\<close>

definition daysToYear :: "int \<Rightarrow> int" where
  "daysToYear y = 365 * (y - 1970) + ((y - 1) div 4 - 492) - ((y - 1) div 100 - 19) + ((y - 1) div 400 - 4)"

definition timegm :: "tm \<Rightarrow> int" where
  "timegm t =
    (let y = tm_year t + 1900 + tm_mon t div 12;
         days = daysToYear y + sum_list (take (nat (tm_mon t mod 12)) (monthLengths y)) + (tm_mday t - 1)
     in ((days * 24 + tm_hour t) * 60 + tm_min t) * 60 + tm_sec t)"

section \<open>The strings\<close>

definition sprintf_d :: "nat \<Rightarrow> int \<Rightarrow> byte list" where
  "sprintf_d width i =
    (let digits = print_nat 10 87 (nat \<bar>i\<bar>) in
     if i < 0 then 45 # replicate (width - 1 - length digits) 48 @ digits
     else replicate (width - length digits) 48 @ digits)"

definition ndn_toIsoString :: "int \<Rightarrow> ndn_Error + byte list" where
  "ndn_toIsoString milliseconds =
    (if milliseconds < 0 then Inl NDN_ERROR_Calendar_time_value_out_of_range
     else if milliseconds > 200000000000000 then Inl NDN_ERROR_Calendar_time_value_out_of_range
     else let gmt = gmtime ((milliseconds + 500) div 1000)
          in Inr (sprintf_d 4 (1900 + tm_year gmt) @ sprintf_d 2 (tm_mon gmt + 1) @ sprintf_d 2 (tm_mday gmt) @ [84] @
               sprintf_d 2 (tm_hour gmt) @ sprintf_d 2 (tm_min gmt) @ sprintf_d 2 (tm_sec gmt)))"

definition iso_form :: "byte list \<Rightarrow> bool" where
  "iso_form s \<longleftrightarrow> length s = 15 \<and> s ! 8 = 84 \<and> list_all isDigit (take 8 s) \<and> list_all isDigit (drop 9 s)"

definition ndn_fromIsoString :: "(byte list \<Rightarrow> int) \<Rightarrow> byte list \<Rightarrow> int" where
  "ndn_fromIsoString malformed s =
    (if iso_form s then
       let number = (\<lambda>from n. decimal_value (take n (drop from s)));
           tm1 = \<lparr>tm_year = number 0 4 - 1900, tm_mon = number 4 2 - 1, tm_mday = number 6 2,
                  tm_hour = number 9 2, tm_min = number 11 2, tm_sec = 0\<rparr>
       in (timegm tm1 + number 13 2) * 1000
     else malformed s)"

section \<open>The calendar functions are inverse\<close>

lemma div_step:
  assumes k: "k > 0"
  shows "(y :: int) div k = (y - 1) div k + (if y mod k = 0 then 1 else 0)"
proof -
  have r: "0 \<le> y mod k" "y mod k < k" using k by simp_all
  have "(y - 1) div k = ((y mod k - 1) + k * (y div k)) div k" by (simp add: algebra_simps)
  also have "\<dots> = y div k + (y mod k - 1) div k" by (rule div_mult_self2) (use k in simp)
  finally have "(y - 1) div k = y div k + (y mod k - 1) div k" .
  moreover have "(y mod k - 1) div k = (if y mod k = 0 then -1 else 0)"
    using k r by (cases "y mod k = 0") (auto intro: div_pos_pos_trivial div_eq_minus1)
  ultimately show ?thesis by auto
qed

lemma daysToYear_Suc: "daysToYear (y + 1) = daysToYear y + daysInYear y"
proof -
  have "y mod 400 = 0 \<Longrightarrow> y mod 100 = 0" using dvd_trans [of 100 400 y] by (simp add: mod_eq_0_iff_dvd)
  moreover have "y mod 100 = 0 \<Longrightarrow> y mod 4 = 0" using dvd_trans [of 4 100 y] by (simp add: mod_eq_0_iff_dvd)
  ultimately have leap: "(if y mod 4 = 0 then 1 else 0) - (if y mod 100 = 0 then 1 else 0) + (if y mod 400 = 0 then 1 else 0) + 365 = daysInYear y"
    by (auto simp: daysInYear_def isLeapYear_def)
  have "daysToYear (y + 1) = 365 * (y - 1970) + 365 + (y div 4 - 492) - (y div 100 - 19) + (y div 400 - 4)"
    by (simp add: daysToYear_def)
  then show ?thesis unfolding leap [symmetric] div_step [of 4 y, simplified] div_step [of 100 y, simplified] div_step [of 400 y, simplified]
    by (simp only: daysToYear_def)
qed

lemma year_and_day_spec:
  "\<lbrakk>0 \<le> day; year_and_day y day = (y', day')\<rbrakk> \<Longrightarrow>
    daysToYear y + day = daysToYear y' + day' \<and> 0 \<le> day' \<and> day' < daysInYear y' \<and> y \<le> y'"
proof (induction y day rule: year_and_day.induct)
  case (1 y day)
  show ?case
  proof (cases "day < daysInYear y")
    case True
    then show ?thesis using 1(2,3) by (simp add: year_and_day.simps [of y day])
  next
    case False
    then have "year_and_day (y + 1) (day - daysInYear y) = (y', day')" using 1(3) by (simp add: year_and_day.simps [of y day])
    then show ?thesis using 1(1) [OF False] False by (simp add: daysToYear_Suc)
  qed
qed

declare year_and_day.simps [simp del]

lemma month_and_day_spec:
  "\<lbrakk>month_and_day ls m day = (m', day'); 0 \<le> day; day < sum_list ls; \<forall>l \<in> set ls. 0 < l\<rbrakk> \<Longrightarrow>
    \<exists>k < length ls. m' = m + int k \<and> day = sum_list (take k ls) + day' \<and> 0 \<le> day' \<and> day' < ls ! k"
proof (induction ls arbitrary: m day)
  case (Cons l ls)
  show ?case
  proof (cases "day < l")
    case True
    then show ?thesis using Cons.prems by (intro exI [of _ 0]) simp
  next
    case False
    then obtain k where "k < length ls" "m' = m + 1 + int k" "day - l = sum_list (take k ls) + day'" "0 \<le> day'" "day' < ls ! k"
      using Cons.IH [of "m + 1" "day - l"] Cons.prems by auto
    then show ?thesis by (intro exI [of _ "Suc k"]) simp
  qed
qed simp

lemma monthLengths_facts:
  "length (monthLengths y) = 12" "sum_list (monthLengths y) = daysInYear y" "\<forall>l \<in> set (monthLengths y). 0 < l \<and> l \<le> 31"
  by (simp_all add: monthLengths_def daysInYear_def)

lemma gmtime_spec:
  assumes "0 \<le> s"
  shows "timegm (gmtime s) = s"
    "0 \<le> tm_mon (gmtime s)" "tm_mon (gmtime s) < 12" "1 \<le> tm_mday (gmtime s)" "tm_mday (gmtime s) \<le> 31"
    "70 \<le> tm_year (gmtime s)" "daysToYear (tm_year (gmtime s) + 1900) \<le> s div 86400"
    "0 \<le> tm_hour (gmtime s)" "tm_hour (gmtime s) < 24" "0 \<le> tm_min (gmtime s)" "tm_min (gmtime s) < 60" "0 \<le> tm_sec (gmtime s)" "tm_sec (gmtime s) < 60"
proof -
  obtain y yday where y: "year_and_day 1970 (s div 86400) = (y, yday)" by fastforce
  have "0 \<le> s div 86400" using assms by simp
  note ys = year_and_day_spec [OF this y]
  obtain m mday where m: "month_and_day (monthLengths y) 0 yday = (m, mday)" by fastforce
  obtain k where k: "k < 12" "m = int k" "yday = sum_list (take k (monthLengths y)) + mday" "0 \<le> mday" "mday < monthLengths y ! k"
    using month_and_day_spec [OF m] ys monthLengths_facts [of y] by auto
  have l: "monthLengths y ! k \<le> 31" using k(1) monthLengths_facts [of y] nth_mem [of k "monthLengths y"] by simp
  define r where "r = s mod 86400"
  have g: "gmtime s = \<lparr>tm_year = y - 1900, tm_mon = m, tm_mday = mday + 1, tm_hour = r div 3600, tm_min = r mod 3600 div 60, tm_sec = r mod 60\<rparr>"
    by (simp only: gmtime_def y m r_def Let_def prod.case)
  have base: "daysToYear 1970 = 0" by (simp add: daysToYear_def)
  show "0 \<le> tm_mon (gmtime s)" "tm_mon (gmtime s) < 12" "1 \<le> tm_mday (gmtime s)" "tm_mday (gmtime s) \<le> 31" "70 \<le> tm_year (gmtime s)"
    "daysToYear (tm_year (gmtime s) + 1900) \<le> s div 86400"
    using k l ys base by (simp_all add: g)
  have r: "0 \<le> r" "r < 86400" by (simp_all add: r_def)
  have quotient: "0 \<le> a div k \<and> a div k < b" if "0 \<le> a" "0 < k" "a < k * b" for a k b :: int
  proof -
    have "k * (a div k) \<le> a" using that(2) mult_div_mod_eq [of k a] pos_mod_sign [OF that(2), of a] by linarith
    then have "k * (a div k) < k * b" using that(3) by linarith
    then show ?thesis using that by (simp add: pos_imp_zdiv_nonneg_iff)
  qed
  have "r mod 3600 < 60 * 60" by (rule less_le_trans [OF pos_mod_bound]) simp_all
  then show "0 \<le> tm_hour (gmtime s)" "tm_hour (gmtime s) < 24" "0 \<le> tm_min (gmtime s)" "tm_min (gmtime s) < 60" "0 \<le> tm_sec (gmtime s)" "tm_sec (gmtime s) < 60"
    using quotient [of r 3600 24] quotient [of "r mod 3600" 60 60] r by (simp_all add: g)
  have days: "s div 86400 = daysToYear y + sum_list (take k (monthLengths y)) + mday" using ys k(3) base by simp
  have "r div 3600 * 3600 + r mod 3600 = r" "r mod 3600 div 60 * 60 + r mod 3600 mod 60 = r mod 3600" by (rule div_mult_mod_eq)+
  moreover have "r mod 3600 mod 60 = r mod 60" by (rule mod_mod_cancel) simp
  ultimately have time: "r div 3600 * 3600 + r mod 3600 div 60 * 60 + r mod 60 = r" by linarith
  have "m div 12 = 0" "nat (m mod 12) = k" using k(1,2) by simp_all
  then have "timegm (gmtime s) = ((s div 86400 * 24 + r div 3600) * 60 + r mod 3600 div 60) * 60 + r mod 60"
    by (simp only: timegm_def g Let_def days tm.simps) (simp add: days)
  moreover have "((q * 24 + a) * 60 + b) * 60 + c = q * 86400 + (a * 3600 + b * 60 + c)" for q a b c :: int by simp
  ultimately show "timegm (gmtime s) = s"
    using div_mult_mod_eq [of s 86400] by (simp only: time r_def [symmetric])
qed

section \<open>Round trip of the strings\<close>

lemma print_nat_length: "n < 10 ^ Suc w \<Longrightarrow> length (print_nat 10 a n) \<le> Suc w"
proof (induction w arbitrary: n)
  case 0
  then show ?case by (simp add: print_nat.simps [of 10 a n])
next
  case (Suc w)
  show ?case
  proof (cases "n < 10")
    case False
    have "n div 10 < 10 ^ Suc w" using Suc.prems by (simp add: div_less_iff_less_mult mult.commute)
    then show ?thesis using Suc.IH [of "n div 10"] False by (simp add: print_nat.simps [of 10 a n])
  qed (simp add: print_nat.simps [of 10 a n])
qed

lemma decimal_value_zeros: "decimal_value (replicate k 48 @ ds) = decimal_value ds"
  by (induction k) (simp_all add: decimal_value_def)

lemma sprintf_d_digits:
  assumes "0 \<le> i" "i < 10 ^ w" "0 < w"
  shows "length (sprintf_d w i) = w" "list_all isDigit (sprintf_d w i)" "decimal_value (sprintf_d w i) = i"
proof -
  obtain v where v: "w = Suc v" using assms(3) by (cases w) simp_all
  have "nat i < 10 ^ Suc v" using assms(1,2) v by (simp add: nat_less_iff)
  then have "length (print_nat 10 87 (nat i)) \<le> w" using print_nat_length v by blast
  then show "length (sprintf_d w i) = w" "list_all isDigit (sprintf_d w i)" "decimal_value (sprintf_d w i) = i"
    using assms(1) print_nat_decimal [of 87 "nat i"]
    by (auto simp: sprintf_d_def Let_def decimal_value_zeros list_all_iff isDigit_def)
qed

lemma year_bound:
  assumes "daysToYear y \<le> d" "0 \<le> y" "d \<le> 2400000"
  shows "y < 9999"
proof -
  have "(y - 1) div 100 \<le> (y - 1) div 4 + 1" "0 \<le> (y - 1) div 400 + 1" using assms(2) by linarith+
  then show ?thesis using assms(1,3) by (simp add: daysToYear_def)
qed

lemma iso_time:
  "if 0 \<le> ms \<and> ms \<le> 200000000000000
   then \<exists>s. ndn_toIsoString ms = Inr s \<and> iso_form s \<and> ndn_fromIsoString malformed s = (ms + 500) div 1000 * 1000
   else ndn_toIsoString ms = Inl NDN_ERROR_Calendar_time_value_out_of_range"
proof (cases "0 \<le> ms \<and> ms \<le> 200000000000000")
  case True
  define t where "t = (ms + 500) div 1000"
  have t: "0 \<le> t" "t div 86400 \<le> 2400000" using True zdiv_mono1 [of "ms + 500" 200000000000500 1000] zdiv_mono1 [of t 200000000000 86400]
    by (simp_all add: t_def pos_imp_zdiv_nonneg_iff)
  define g where "g = gmtime t"
  note spec = gmtime_spec [OF t(1), folded g_def]
  have year: "0 \<le> 1900 + tm_year g" "1900 + tm_year g < 10 ^ 4"
    using year_bound [OF spec(7)] t(2) spec(6) by (simp_all add: add.commute)
  let ?y = "sprintf_d 4 (1900 + tm_year g)" and ?m = "sprintf_d 2 (tm_mon g + 1)" and ?d = "sprintf_d 2 (tm_mday g)"
    and ?h = "sprintf_d 2 (tm_hour g)" and ?i = "sprintf_d 2 (tm_min g)" and ?s = "sprintf_d 2 (tm_sec g)"
  let ?str = "?y @ ?m @ ?d @ [84] @ ?h @ ?i @ ?s"
  note Y = sprintf_d_digits [OF year, simplified]
  note digits = sprintf_d_digits [of "tm_mon g + 1" 2, simplified] sprintf_d_digits [of "tm_mday g" 2, simplified]
    sprintf_d_digits [of "tm_hour g" 2, simplified] sprintf_d_digits [of "tm_min g" 2, simplified] sprintf_d_digits [of "tm_sec g" 2, simplified]
  have len: "length ?y = 4" "length ?m = 2" "length ?d = 2" "length ?h = 2" "length ?i = 2" "length ?s = 2"
    using Y digits spec by auto
  have all: "list_all isDigit ?y" "list_all isDigit ?m" "list_all isDigit ?d" "list_all isDigit ?h" "list_all isDigit ?i" "list_all isDigit ?s"
    using Y digits spec by auto
  have val: "decimal_value ?y = 1900 + tm_year g" "decimal_value ?m = tm_mon g + 1" "decimal_value ?d = tm_mday g"
    "decimal_value ?h = tm_hour g" "decimal_value ?i = tm_min g" "decimal_value ?s = tm_sec g"
    using Y digits spec by auto
  have str: "ndn_toIsoString ms = Inr ?str" using True by (simp add: ndn_toIsoString_def t_def g_def Let_def)
  have form: "iso_form ?str" using len all by (simp add: iso_form_def nth_append)
  have "timegm (g\<lparr>tm_sec := 0\<rparr>) + tm_sec g = t" using spec(1) by (simp add: timegm_def Let_def)
  moreover have "g\<lparr>tm_sec := 0\<rparr> = \<lparr>tm_year = tm_year g, tm_mon = tm_mon g, tm_mday = tm_mday g, tm_hour = tm_hour g, tm_min = tm_min g, tm_sec = 0\<rparr>"
    by (cases g) simp
  ultimately have "ndn_fromIsoString malformed ?str = t * 1000"
    using form len val by (simp add: ndn_fromIsoString_def Let_def)
  then show ?thesis using True str form by (auto simp: t_def)
qed (auto simp: ndn_toIsoString_def)

text \<open>
  C34. Times survive the ISO string.  For a time from 1970 up to \<open>2 * 10^14\<close> milliseconds the string is formed, has
  the form of date, T and time, and is parsed to the same time rounded to the nearest second; outside of this
  range the string is refused.
\<close>

theorem iso_time_roundtrip:
  "if 0 \<le> ms \<and> ms \<le> 200000000000000
   then \<exists>s. ndn_toIsoString ms = Inr s \<and> iso_form s \<and> ndn_fromIsoString malformed s = (ms + 500) div 1000 * 1000
   else ndn_toIsoString ms = Inl NDN_ERROR_Calendar_time_value_out_of_range"
  by (rule iso_time)

end
