(* ===== verification/Double.thy ===== *)
theory Double
  imports Complex_Main "HOL-Library.Log_Nat" Prelude
begin

text \<open>
  Double precision numbers, as far as the wire formats use them: \<open>ndn_Milliseconds\<close> is a double, and times
  are converted between nanoseconds and milliseconds by \<open>toMilliseconds\<close> and \<open>fromMilliseconds\<close> of
  \<open>include/ndn-ind/common.hpp\<close>.  A finite double is a rational number; an operation is the exact operation
  followed by \<open>fl\<close>, rounding to 53 binary digits with ties to even.  No value here comes near the limits of the exponent.
\<close>

section \<open>Rounding\<close>

definition ilog2 :: "rat \<Rightarrow> int" where
  "ilog2 x =
    (let (n, d) = quotient_of \<bar>x\<bar>;
         k = int (floorlog 2 (nat n)) - int (floorlog 2 (nat d))
     in if 2 powi k \<le> \<bar>x\<bar> then k else k - 1)"

definition round_even :: "rat \<Rightarrow> int" where
  "round_even y =
    (let f = \<lfloor>y\<rfloor>; r = y - of_int f in
     if r < 1 / 2 then f else if r > 1 / 2 then f + 1 else if even f then f else f + 1)"

definition fl :: "rat \<Rightarrow> rat" where
  "fl x = (if x = 0 then 0 else let u = 2 powi (ilog2 x - 52) in of_int (round_even (x / u)) * u)"

text \<open>The function \<open>round\<close> of the C library, half away from zero, and the conversion to an integer.\<close>

definition c_round :: "rat \<Rightarrow> int" where
  "c_round x = (if 0 \<le> x then \<lfloor>x + 1 / 2\<rfloor> else - \<lfloor>1 / 2 - x\<rfloor>)"

definition c_truncate :: "rat \<Rightarrow> int" where
  "c_truncate x = (if 0 \<le> x then \<lfloor>x\<rfloor> else - \<lfloor>- x\<rfloor>)"

section \<open>Milliseconds\<close>

definition toMilliseconds :: "int \<Rightarrow> rat" where
  "toMilliseconds nanoseconds = fl (fl (1 / 1000000) * fl (of_int nanoseconds))"

text \<open>The conversion of a number that an \<open>int64_t\<close> cannot hold is undefined.\<close>

definition fromMilliseconds :: "rat \<Rightarrow> error + int" where
  "fromMilliseconds ms =
    (let n = c_truncate (fl (ms * 1000000)) in
     if - (2 ^ 63) \<le> n \<and> n < 2 ^ 63 then Inr n else Inl Undefined_behaviour)"

section \<open>The error of rounding\<close>

lemma floorlog_powi:
  assumes "n > 0"
  shows "(2 :: rat) powi (int (floorlog 2 (nat n)) - 1) \<le> of_int n" "of_int n < (2 :: rat) powi int (floorlog 2 (nat n))"
proof -
  obtain a where a: "floorlog 2 (nat n) = Suc a" using assms by (auto simp: floorlog_def)
  have "2 ^ a \<le> nat n" "nat n < 2 ^ Suc a" using floorlog_bounds [of "nat n" 2] assms a by auto
  then have "rat_of_nat (2 ^ a) \<le> of_nat (nat n)" "rat_of_nat (nat n) < of_nat (2 ^ Suc a)"
    by (simp_all only: of_nat_le_iff of_nat_less_iff)
  then show "(2 :: rat) powi (int (floorlog 2 (nat n)) - 1) \<le> of_int n" "of_int n < (2 :: rat) powi int (floorlog 2 (nat n))"
    using assms unfolding a by (simp_all add: power_int_def nat_add_distrib)
qed

lemma ilog2_bounds:
  assumes "x \<noteq> 0"
  shows "2 powi (ilog2 x) \<le> \<bar>x\<bar>" "\<bar>x\<bar> < 2 powi (ilog2 x + 1)"
proof -
  obtain n d where q: "quotient_of \<bar>x\<bar> = (n, d)" by fastforce
  have d: "d > 0" by (rule quotient_of_denom_pos [OF q])
  have x: "\<bar>x\<bar> = of_int n / of_int d" by (rule quotient_of_div [OF q])
  have "0 < \<bar>x\<bar>" using assms by simp
  then have n: "n > 0" using d unfolding x by (simp add: zero_less_divide_iff)
  let ?a = "int (floorlog 2 (nat n))" and ?b = "int (floorlog 2 (nat d))"
  note la = floorlog_powi [OF n] and lb = floorlog_powi [OF d]
  have d': "0 < rat_of_int d" using d by simp
  have "\<bar>x\<bar> < 2 powi ?a / 2 powi (?b - 1)"
    unfolding x using la(2) lb(1) d' n by (intro frac_less) simp_all
  also have "\<dots> = 2 powi (?a - ?b + 1)" by (simp add: power_int_diff power_int_add)
  finally have up: "\<bar>x\<bar> < 2 powi (?a - ?b + 1)" .
  have "2 powi (?a - ?b - 1) = (2 :: rat) powi (?a - 1) / 2 powi ?b" by (simp add: power_int_diff)
  also have "\<dots> \<le> \<bar>x\<bar>" unfolding x using la(1) lb(2) d' n by (intro frac_le) simp_all
  finally have low: "2 powi (?a - ?b - 1) \<le> \<bar>x\<bar>" .
  show "2 powi (ilog2 x) \<le> \<bar>x\<bar>" using low by (simp add: ilog2_def q Let_def)
  show "\<bar>x\<bar> < 2 powi (ilog2 x + 1)" using up by (simp add: ilog2_def q Let_def)
qed

lemma round_even_error: "\<bar>of_int (round_even y) - y\<bar> \<le> 1 / 2"
  unfolding round_even_def Let_def by (auto simp: abs_if) linarith+

lemma round_even_int: "round_even (of_int n) = n"
  by (simp add: round_even_def)

lemma fl_error: "\<bar>fl x - x\<bar> \<le> \<bar>x\<bar> / 2 ^ 53"
proof (cases "x = 0")
  case False
  let ?u = "(2 :: rat) powi (ilog2 x - 52)"
  have u: "0 < ?u" by simp
  have "\<bar>fl x - x\<bar> = \<bar>of_int (round_even (x / ?u)) - x / ?u\<bar> * ?u"
  proof -
    have "fl x - x = (of_int (round_even (x / ?u)) - x / ?u) * ?u"
      using False u by (simp add: fl_def Let_def left_diff_distrib)
    then show ?thesis by (simp only: abs_mult abs_of_pos [OF u])
  qed
  also have "\<dots> \<le> 1 / 2 * ?u" using round_even_error by (intro mult_right_mono) simp_all
  also have "\<dots> = 2 powi (ilog2 x) / 2 ^ 53" by (simp add: power_int_diff)
  also have "\<dots> \<le> \<bar>x\<bar> / 2 ^ 53" by (rule divide_right_mono [OF ilog2_bounds(1) [OF False]]) simp
  finally show ?thesis .
qed (simp add: fl_def)

text \<open>Whole numbers below \<open>2^53\<close> are doubles.\<close>

lemma fl_int:
  assumes "\<bar>n\<bar> < 2 ^ 53"
  shows "fl (of_int n) = of_int n"
proof (cases "n = 0")
  case False
  let ?x = "rat_of_int n" and ?k = "52 - ilog2 (of_int n)"
  have x: "?x \<noteq> 0" using False by simp
  have "\<bar>?x\<bar> < 2 ^ 53" using assms by (metis of_int_abs of_int_less_iff of_int_numeral of_int_power)
  then have "(2 :: rat) powi (ilog2 ?x) < 2 powi 53" using ilog2_bounds(1) [OF x] by simp
  then have "\<not> 53 \<le> ilog2 ?x" using power_int_increasing [of 53 "ilog2 ?x" "2 :: rat"] by linarith
  then obtain j where j: "ilog2 ?x = 52 - int j" using that [of "nat (52 - ilog2 ?x)"] by simp
  have "?x / 2 powi (ilog2 ?x - 52) = of_int (n * 2 ^ j)" unfolding j by (simp add: power_int_minus divide_inverse)
  then have "round_even (?x / 2 powi (ilog2 ?x - 52)) = n * 2 ^ j" by (simp only: round_even_int)
  then show ?thesis using x unfolding fl_def Let_def j by (simp add: power_int_minus)
qed (simp add: fl_def)

lemma relative_error_trans:
  assumes "\<bar>y - x\<bar> \<le> \<bar>x\<bar> * e" "\<bar>z - y\<bar> \<le> \<bar>y\<bar> * f" "0 \<le> (f :: rat)"
  shows "\<bar>z - x\<bar> \<le> \<bar>x\<bar> * (e + f + e * f)"
proof -
  have "\<bar>y\<bar> \<le> \<bar>x\<bar> + \<bar>x\<bar> * e" using assms(1) by linarith
  then have "\<bar>y\<bar> * f \<le> (\<bar>x\<bar> + \<bar>x\<bar> * e) * f" using assms(3) by (rule mult_right_mono)
  then have "\<bar>z - x\<bar> \<le> (\<bar>x\<bar> + \<bar>x\<bar> * e) * f + \<bar>x\<bar> * e" using assms(1,2) by linarith
  then show ?thesis by (simp add: algebra_simps)
qed

lemma fl_relative: "\<bar>fl x - x\<bar> \<le> \<bar>x\<bar> * (1 / 2 ^ 53)"
  using fl_error [of x] by simp

lemma relative_error_mult:
  assumes "\<bar>y - x\<bar> \<le> \<bar>x\<bar> * e"
  shows "\<bar>c * y - c * x\<bar> \<le> \<bar>c * x\<bar> * (e :: rat)"
proof -
  have "\<bar>c * y - c * x\<bar> = \<bar>c\<bar> * \<bar>y - x\<bar>" by (simp add: abs_mult flip: right_diff_distrib)
  also have "\<dots> \<le> \<bar>c\<bar> * (\<bar>x\<bar> * e)" using assms by (intro mult_left_mono) simp_all
  finally show ?thesis by (simp add: abs_mult mult.assoc)
qed

lemma toMilliseconds_error: "\<bar>toMilliseconds n - of_int n / 1000000\<bar> \<le> \<bar>of_int n / 1000000\<bar> * (1 / 2 ^ 51)"
proof -
  let ?e = "1 / 2 ^ 53 :: rat" and ?x = "rat_of_int n / 1000000"
  have 1: "\<bar>fl (1 / 1000000) * of_int n - ?x\<bar> \<le> \<bar>?x\<bar> * ?e"
    using relative_error_mult [OF fl_relative, of "of_int n" "1 / 1000000"] by (simp add: mult.commute)
  have 2: "\<bar>fl (1 / 1000000) * fl (of_int n) - fl (1 / 1000000) * of_int n\<bar> \<le> \<bar>fl (1 / 1000000) * of_int n\<bar> * ?e"
    by (rule relative_error_mult [OF fl_relative])
  have e: "0 \<le> ?e" by simp
  have "\<bar>toMilliseconds n - ?x\<bar> \<le> \<bar>?x\<bar> * (?e + ?e + ?e * ?e + ?e + (?e + ?e + ?e * ?e) * ?e)"
    unfolding toMilliseconds_def by (rule relative_error_trans [OF relative_error_trans [OF 1 2 e] fl_relative e])
  also have "\<dots> \<le> \<bar>?x\<bar> * (1 / 2 ^ 51)" by (intro mult_left_mono) simp_all
  finally show ?thesis .
qed

text \<open>A whole number of milliseconds survives the conversion of its nanoseconds and the rounding of the writer.\<close>

lemma toMilliseconds_round:
  assumes "0 \<le> m" "m < 2 ^ 49"
  shows "c_round (toMilliseconds (1000000 * m)) = m" "0 \<le> toMilliseconds (1000000 * m)"
proof -
  let ?t = "toMilliseconds (1000000 * m)"
  have err: "\<bar>?t - of_int m\<bar> \<le> of_int m * (1 / 2 ^ 51)" using toMilliseconds_error [of "1000000 * m"] assms(1) by simp
  have small: "rat_of_int m < of_int (2 ^ 49)" using assms(2) by (simp only: of_int_less_iff)
  then have less: "\<bar>?t - of_int m\<bar> < 1 / 2" using err by simp
  have "rat_of_int m * (1 / 2 ^ 51) \<le> of_int m" using assms(1) by simp
  then show nonneg: "0 \<le> ?t" using err by linarith
  have "\<lfloor>?t + 1 / 2\<rfloor> = m" by (rule floor_unique) (use less in linarith)+
  then show "c_round ?t = m" using nonneg by (simp add: c_round_def)
qed

lemma toMilliseconds_negative:
  assumes "n < 0"
  shows "toMilliseconds n < 0"
proof -
  let ?x = "rat_of_int n / 1000000"
  have x: "?x < 0" using assms by (simp add: divide_less_0_iff)
  have "\<bar>?x\<bar> * (1 / 2 ^ 51) < \<bar>?x\<bar>" using x by simp
  then show ?thesis using toMilliseconds_error [of n] x by linarith
qed

lemma fromMilliseconds_int:
  assumes "\<bar>m\<bar> * 1000000 < 2 ^ 53"
  shows "fromMilliseconds (of_int m) = Inr (1000000 * m)"
proof -
  have "fl (of_int (m * 1000000)) = of_int (m * 1000000)" using assms by (intro fl_int) (simp add: abs_mult)
  moreover have "c_truncate (of_int i) = i" for i by (simp add: c_truncate_def)
  ultimately have "c_truncate (fl (of_int m * 1000000)) = m * 1000000" by (metis of_int_mult of_int_numeral)
  then show ?thesis using assms by (auto simp: fromMilliseconds_def Let_def abs_less_iff)
qed

end
