(* ===== verification/Wire_Data.thy ===== *)
theory Wire_Data
  imports Wire_Name Iso_Time Double
begin

text \<open>
  The TLV format of data packets: \<open>src/c/encoding/tlv/tlv-signature-info.c\<close>, \<open>tlv-data.c\<close>, the conversions between the
  C++ objects and the Lite structures (\<open>Data::get\<close> and \<open>set\<close> and those of the objects a packet owns), and
  \<open>Tlv0_3WireFormat::encodeData\<close> and \<open>decodeData\<close>.  The Lite structures the decoder fills hold slices of the input.
\<close>

section \<open>Doubles in TLVs\<close>

text \<open>
  \<open>writeOptionalNonNegativeIntegerTlvFromDouble\<close> and \<open>readOptionalNonNegativeIntegerTlvAsDouble\<close>.  Times in nanoseconds
  fit 64 bits, so the rounded value does.
\<close>

definition writeOptionalNonNegativeIntegerTlvFromDouble :: "u32 \<Rightarrow> rat \<Rightarrow> writer" where
  "writeOptionalNonNegativeIntegerTlvFromDouble type value e =
    (if value \<ge> 0 then writeNonNegativeIntegerTlv type (of_int (c_round value)) e else Inr e)"

definition readOptionalNonNegativeIntegerTlvAsDouble :: "u32 \<Rightarrow> u64 \<Rightarrow> rat reader" where
  "readOptionalNonNegativeIntegerTlvAsDouble expectedType endOffset d =
    bindE (peekType expectedType endOffset d) (\<lambda>gotExpectedType.
      if \<not> gotExpectedType then Inr (-1, d)
      else bindE (readNonNegativeIntegerTlv expectedType d) (\<lambda>(v, d). Inr (fl (of_int (uint v)), d)))"

section \<open>Signature information\<close>

definition encodeValidityPeriodValue :: "int \<times> int \<Rightarrow> writer" where
  "encodeValidityPeriodValue period e =
    bindE (ndn_toIsoString (fst period)) (\<lambda>notBefore.
    bindE (writeOptionalBlobTlv 254 (Some notBefore) e) (\<lambda>e.
    bindE (ndn_toIsoString (snd period)) (\<lambda>notAfter.
      writeOptionalBlobTlv 255 (Some notAfter) e)))"

definition encodeValidityPeriod :: "(int \<times> int) option \<Rightarrow> writer" where
  "encodeValidityPeriod period e =
    (case period of None \<Rightarrow> Inr e | Some p \<Rightarrow> writeNestedTlv 253 (encodeValidityPeriodValue p) False e)"

definition encodeSignatureWithKeyLocatorAndValidityPeriodValue :: "u64 \<Rightarrow> keyLocator \<Rightarrow> (int \<times> int) option \<Rightarrow> writer" where
  "encodeSignatureWithKeyLocatorAndValidityPeriodValue type keyLocator period e =
    bindE (writeNonNegativeIntegerTlv 27 type e) (\<lambda>e.
    bindE (writeNestedTlv 28 (encodeTlvKeyLocatorValue keyLocator) False e) (\<lambda>e.
      encodeValidityPeriod period e))"

definition encodeDigestSha256Value :: "(int \<times> int) option \<Rightarrow> writer" where
  "encodeDigestSha256Value period e =
    bindE (writeNonNegativeIntegerTlv 27 0 e) (\<lambda>e. encodeValidityPeriod period e)"

text \<open>The test decoding of the encoding in a generic signature.\<close>

definition testSignatureInfo :: "byte list \<Rightarrow> unit decoding" where
  "testSignatureInfo encoding =
    (case bindO (Some (readNestedTlvsStart 22 (dec_initialize encoding))) (\<lambda>(endOffset, d).
            bindO (Some (readNonNegativeIntegerTlv 27 d)) (\<lambda>(_, d).
            finishNestedTlvsSkipCritical d endOffset)) of
       None \<Rightarrow> None
     | Some (Inl _) \<Rightarrow> Some (Inl NDN_ERROR_The_Generic_signature_encoding_is_not_a_valid_NDN_TLV_SignatureInfo)
     | Some (Inr _) \<Rightarrow> Some (Inr ()))"

fun signature_test :: "signature \<Rightarrow> unit decoding" where
  "signature_test (GenericSignature _ info _ _) = testSignatureInfo (blob_bytes info)"
| "signature_test _ = Some (Inr ())"

text \<open>The first argument is the result of the test decoding.\<close>

fun encodeTlvSignatureInfo :: "ndn_Error + unit \<Rightarrow> signature \<Rightarrow> writer" where
  "encodeTlvSignatureInfo test (GenericSignature _ info _ _) e = bindE test (\<lambda>_. writeArray (blob_bytes info) e)"
| "encodeTlvSignatureInfo test (Sha256WithRsaSignature k _ p) e =
    writeNestedTlv 22 (encodeSignatureWithKeyLocatorAndValidityPeriodValue 1 k (vp_period p)) False e"
| "encodeTlvSignatureInfo test (Sha256WithEcdsaSignature k _ p) e =
    writeNestedTlv 22 (encodeSignatureWithKeyLocatorAndValidityPeriodValue 3 k (vp_period p)) False e"
| "encodeTlvSignatureInfo test (HmacWithSha256Signature k _) e =
    writeNestedTlv 22 (encodeSignatureWithKeyLocatorAndValidityPeriodValue 4 k None) False e"
| "encodeTlvSignatureInfo test (DigestSha256Signature _ p) e =
    writeNestedTlv 22 (encodeDigestSha256Value (vp_period p)) False e"

fun signature_value :: "signature \<Rightarrow> blob" where
  "signature_value (GenericSignature s _ _ _) = s"
| "signature_value (Sha256WithRsaSignature _ s _) = s"
| "signature_value (Sha256WithEcdsaSignature _ s _) = s"
| "signature_value (HmacWithSha256Signature _ s) = s"
| "signature_value (DigestSha256Signature s _) = s"

text \<open>\<open>Signature::get\<close>: the key name must fit the Lite structure.\<close>

fun signature_getLite :: "signature \<Rightarrow> error + signature" where
  "signature_getLite (Sha256WithRsaSignature k s p) = bindE (KeyLocator_getLite k) (\<lambda>k. Inr (Sha256WithRsaSignature k s p))"
| "signature_getLite (Sha256WithEcdsaSignature k s p) = bindE (KeyLocator_getLite k) (\<lambda>k. Inr (Sha256WithEcdsaSignature k s p))"
| "signature_getLite (HmacWithSha256Signature k s) = bindE (KeyLocator_getLite k) (\<lambda>k. Inr (HmacWithSha256Signature k s))"
| "signature_getLite s = Inr s"

datatype lite_signatureType = LITE_Digest | LITE_Rsa | LITE_Ecdsa | LITE_Hmac | LITE_Generic

record lite_signature =
  ls_type :: lite_signatureType
  ls_signatureInfoEncoding :: "slice option"
  ls_genericTypeCode :: int
  ls_keyLocator :: lite_keyLocator
  ls_validityPeriod :: "(int \<times> int) option"

text \<open>An ISO string in a validity period: at most 15 characters, copied out of the input and parsed.\<close>

definition decodeIsoString :: "(byte list \<Rightarrow> int) \<Rightarrow> u32 \<Rightarrow> int reader" where
  "decodeIsoString malformed type d =
    bindE (readBlobTlv type d) (\<lambda>(s, d).
      if slice_length s > 15 then Inl NDN_ERROR_Calendar_time_value_out_of_range
      else Inr (ndn_fromIsoString malformed (take (unat (slice_length s)) (drop (unat (slice_begin s)) (dec_input d))), d))"

definition decodeValidityPeriod :: "(byte list \<Rightarrow> int) \<Rightarrow> decoder \<Rightarrow> ((int \<times> int) \<times> decoder) decoding" where
  "decodeValidityPeriod malformed d =
    bindO (Some (readNestedTlvsStart 253 d)) (\<lambda>(endOffset, d).
    bindO (Some (decodeIsoString malformed 254 d)) (\<lambda>(notBefore, d).
    bindO (Some (decodeIsoString malformed 255 d)) (\<lambda>(notAfter, d).
    bindO (finishNestedTlvs d endOffset) (\<lambda>d. Some (Inr ((notBefore, notAfter), d))))))"

definition decodeOptionalValidityPeriod :: "(byte list \<Rightarrow> int) \<Rightarrow> u64 \<Rightarrow> decoder \<Rightarrow> ((int \<times> int) option \<times> decoder) decoding" where
  "decodeOptionalValidityPeriod malformed endOffset d =
    bindO (Some (peekType 253 endOffset d)) (\<lambda>gotExpectedType.
      if gotExpectedType then bindO (decodeValidityPeriod malformed d) (\<lambda>(p, d). Some (Inr (Some p, d)))
      else Some (Inr (None, d)))"

definition lite_Signature0 :: lite_signature where
  "lite_Signature0 = \<lparr>ls_type = LITE_Generic, ls_signatureInfoEncoding = None, ls_genericTypeCode = -1,
     ls_keyLocator = lite_KeyLocator0, ls_validityPeriod = None\<rparr>"

definition decodeTlvSignatureInfo :: "(byte list \<Rightarrow> int) \<Rightarrow> decoder \<Rightarrow> (lite_signature \<times> decoder) decoding" where
  "decodeTlvSignatureInfo malformed d =
    (let beginOffset = dec_offset d in
     bindO (Some (readNestedTlvsStart 22 d)) (\<lambda>(endOffset, d).
     bindO (Some (readNonNegativeIntegerTlv 27 d)) (\<lambda>(signatureType, d).
     bindO (if signatureType = 1 \<or> signatureType = 3 \<or> signatureType = 4 then
              bindO (decodeTlvKeyLocator 28 d) (\<lambda>(k, d).
              bindO (decodeOptionalValidityPeriod malformed endOffset d) (\<lambda>(p, d).
                Some (Inr (lite_Signature0\<lparr>ls_type := (if signatureType = 1 then LITE_Rsa else if signatureType = 3 then LITE_Ecdsa else LITE_Hmac),
                  ls_keyLocator := k, ls_validityPeriod := p\<rparr>, d))))
            else if signatureType = 0 then
              bindO (decodeOptionalValidityPeriod malformed endOffset d) (\<lambda>(p, d).
                Some (Inr (lite_Signature0\<lparr>ls_type := LITE_Digest, ls_validityPeriod := p\<rparr>, d)))
            else
              bindO (Some (getSlice d beginOffset endOffset)) (\<lambda>s.
              bindO (finishNestedTlvsSkipCritical d endOffset) (\<lambda>d.
                Some (Inr (lite_Signature0\<lparr>ls_type := LITE_Generic, ls_genericTypeCode := sint (ucast signatureType :: u32),
                  ls_signatureInfoEncoding := Some s\<rparr>, d))))) (\<lambda>(sig, d).
     bindO (finishNestedTlvs d endOffset) (\<lambda>d. Some (Inr (sig, d)))))))"

text \<open>\<open>Data::set\<close> makes a signature object of the type and calls its \<open>set\<close>.\<close>

definition signature_of_lite :: "byte list \<Rightarrow> lite_signature \<Rightarrow> byte list \<Rightarrow> error + signature" where
  "signature_of_lite inp ls bits =
     (case ls_type ls of
        LITE_Rsa \<Rightarrow> bindE (KeyLocator_setLite inp (ls_keyLocator ls)) (\<lambda>k.
          Inr (Sha256WithRsaSignature k (Some bits) \<lparr>vp_period = ls_validityPeriod ls\<rparr>))
      | LITE_Ecdsa \<Rightarrow> bindE (KeyLocator_setLite inp (ls_keyLocator ls)) (\<lambda>k.
          Inr (Sha256WithEcdsaSignature k (Some bits) \<lparr>vp_period = ls_validityPeriod ls\<rparr>))
      | LITE_Hmac \<Rightarrow> bindE (KeyLocator_setLite inp (ls_keyLocator ls)) (\<lambda>k. Inr (HmacWithSha256Signature k (Some bits)))
      | LITE_Digest \<Rightarrow> Inr (DigestSha256Signature (Some bits) \<lparr>vp_period = ls_validityPeriod ls\<rparr>)
      | LITE_Generic \<Rightarrow> bindE (Blob_copyOptional inp (ls_signatureInfoEncoding ls)) (\<lambda>info.
          Inr (GenericSignature (Some bits) info (ls_genericTypeCode ls) ValidityPeriod0)))"

definition signature_setLite :: "byte list \<Rightarrow> lite_signature \<Rightarrow> slice \<Rightarrow> error + signature" where
  "signature_setLite inp ls signatureValue =
    bindE (Blob_copy inp signatureValue) (signature_of_lite inp ls)"

section \<open>Meta information\<close>

record lite_metaInfo =
  lm_type :: ndn_ContentType
  lm_otherTypeCode :: int
  lm_freshnessPeriod :: rat
  lm_finalBlockId :: component

text \<open>\<open>MetaInfo::get\<close> passes the value of the final block identifier on, not its type.\<close>

definition MetaInfo_getLite :: "metaInfo \<Rightarrow> lite_metaInfo" where
  "MetaInfo_getLite m =
    \<lparr>lm_type = mi_type m, lm_otherTypeCode = mi_otherTypeCode m, lm_freshnessPeriod = toMilliseconds (mi_freshnessPeriod m),
     lm_finalBlockId = \<lparr>c_type = GENERIC, c_otherTypeCode = -1, c_value = c_value (mi_finalBlockId m)\<rparr>\<rparr>"

fun contentTypeCode :: "ndn_ContentType \<Rightarrow> int \<Rightarrow> int" where
  "contentTypeCode CONTENT_BLOB code = 0"
| "contentTypeCode CONTENT_LINK code = 1"
| "contentTypeCode CONTENT_KEY code = 2"
| "contentTypeCode CONTENT_NACK code = 3"
| "contentTypeCode CONTENT_OTHER_CODE code = code"

definition encodeMetaInfoValue :: "lite_metaInfo \<Rightarrow> writer" where
  "encodeMetaInfoValue m e =
    bindE (if lm_type m = CONTENT_BLOB then Inr e
           else writeNonNegativeIntegerTlv 24 (of_int (contentTypeCode (lm_type m) (lm_otherTypeCode m))) e) (\<lambda>e.
    bindE (writeOptionalNonNegativeIntegerTlvFromDouble 25 (lm_freshnessPeriod m) e) (\<lambda>e.
      if blob_size (c_value (lm_finalBlockId m)) > 0 then
        bindE (writeTypeAndLength 26 (sizeOfBlobTlv (of_int (enumValue (c_type (lm_finalBlockId m)))) (blob_bytes (c_value (lm_finalBlockId m)))) e)
          (encodeTlvNameComponent (lm_finalBlockId m))
      else Inr e))"

record decoded_metaInfo =
  dm_type :: ndn_ContentType
  dm_otherTypeCode :: int
  dm_freshnessPeriod :: rat
  dm_finalBlockId :: "lite_component option"

definition decoded_MetaInfo0 :: decoded_metaInfo where
  "decoded_MetaInfo0 = \<lparr>dm_type = CONTENT_BLOB, dm_otherTypeCode = -1, dm_freshnessPeriod = -1, dm_finalBlockId = None\<rparr>"

definition decodeContentType :: "int \<Rightarrow> ndn_ContentType \<times> int" where
  "decodeContentType type =
    (if type < 0 \<or> type = 0 then (CONTENT_BLOB, -1) else if type = 1 then (CONTENT_LINK, -1)
     else if type = 2 then (CONTENT_KEY, -1) else if type = 3 then (CONTENT_NACK, -1) else (CONTENT_OTHER_CODE, type))"

definition decodeMetaInfo :: "decoder \<Rightarrow> (decoded_metaInfo \<times> decoder) decoding" where
  "decodeMetaInfo d =
    bindO (Some (readNestedTlvsStart 20 d)) (\<lambda>(endOffset, d).
    bindO (Some (readOptionalNonNegativeIntegerTlv 24 endOffset d)) (\<lambda>(type, d).
    bindO (Some (readOptionalNonNegativeIntegerTlvAsDouble 25 endOffset d)) (\<lambda>(freshnessPeriod, d).
    bindO (Some (peekType 26 endOffset d)) (\<lambda>gotExpectedType.
    bindO (if gotExpectedType then
             bindO (Some (readNestedTlvsStart 26 d)) (\<lambda>(finalBlockIdEndOffset, d).
             bindO (Some (decodeTlvNameComponent d)) (\<lambda>(c, d).
             bindO (finishNestedTlvs d finalBlockIdEndOffset) (\<lambda>d. Some (Inr (Some c, d)))))
           else Some (Inr (None, d))) (\<lambda>(finalBlockId, d).
    bindO (finishNestedTlvs d endOffset) (\<lambda>d.
      Some (Inr (\<lparr>dm_type = fst (decodeContentType type), dm_otherTypeCode = snd (decodeContentType type),
        dm_freshnessPeriod = freshnessPeriod, dm_finalBlockId = finalBlockId\<rparr>, d))))))))"

definition MetaInfo_setLite :: "byte list \<Rightarrow> decoded_metaInfo \<Rightarrow> error + metaInfo" where
  "MetaInfo_setLite inp m =
    bindE (fromMilliseconds (dm_freshnessPeriod m)) (\<lambda>freshnessPeriod.
    bindE (Blob_copyOptional inp (map_option lc_value (dm_finalBlockId m))) (\<lambda>value.
      Inr \<lparr>mi_type = dm_type m, mi_otherTypeCode = dm_otherTypeCode m, mi_freshnessPeriod = freshnessPeriod,
        mi_finalBlockId = \<lparr>c_type = GENERIC, c_otherTypeCode = -1, c_value = value\<rparr>\<rparr>))"

section \<open>Data packets\<close>

record lite_data =
  ld_signature :: signature
  ld_name :: name
  ld_metaInfo :: lite_metaInfo
  ld_content :: blob

definition Data_getLite :: "data_values \<Rightarrow> error + lite_data" where
  "Data_getLite v =
    (case dv_signature v of
       None \<Rightarrow> Inl Undefined_behaviour
     | Some signature \<Rightarrow>
         bindE (signature_getLite signature) (\<lambda>signature.
         bindE (Name_getLite (dv_name v)) (\<lambda>name.
           Inr \<lparr>ld_signature = signature, ld_name = name, ld_metaInfo = MetaInfo_getLite (dv_metaInfo v), ld_content = dv_content v\<rparr>)))"

definition encodeDataUnsigned :: "lite_data \<Rightarrow> writer" where
  "encodeDataUnsigned data e =
    bindE (encodeTlvName_only (ld_name data) e) (\<lambda>e.
    bindE (writeNestedTlv 20 (encodeMetaInfoValue (ld_metaInfo data)) False e) (\<lambda>e.
      writeBlobTlv 21 (blob_bytes (ld_content data)) e))"

definition encodeDataValue :: "ndn_Error + unit \<Rightarrow> lite_data \<Rightarrow> encoder \<Rightarrow> ndn_Error + (encoder \<times> nat \<times> nat)" where
  "encodeDataValue test data e =
    (let signedPortionBeginOffset = enc_offset e in
     bindE (encodeDataUnsigned data e) (\<lambda>e.
     bindE (encodeTlvSignatureInfo test (ld_signature data) e) (\<lambda>e.
     let signedPortionEndOffset = enc_offset e in
     bindE (writeBlobTlv 23 (blob_bytes (signature_value (ld_signature data))) e) (\<lambda>e.
       Inr (e, signedPortionBeginOffset, signedPortionEndOffset)))))"

text \<open>When the test decoding does not return, encoding does not, unless it fails before.\<close>

definition encodeTlvData :: "lite_data \<Rightarrow> encoder \<Rightarrow> (encoder \<times> nat \<times> nat) decoding" where
  "encodeTlvData data e =
    (case signature_test (ld_signature data) of
       None \<Rightarrow> (case encodeDataUnsigned data (e\<lparr>enc_enableOutput := False\<rparr>) of Inl err \<Rightarrow> Some (Inl err) | Inr _ \<Rightarrow> None)
     | Some test \<Rightarrow> Some (writeNestedTlvWith 6 (encodeDataValue test data) False e))"

definition Tlv0_3_encodeData :: "data_values \<Rightarrow> (error + signedBlob) option" where
  "Tlv0_3_encodeData v =
    bindO (Some (Data_getLite v)) (\<lambda>data.
    bindO (lift_decoding (encodeTlvData data (TlvEncoder 1500))) (\<lambda>(e, b, b').
      Some (Inr \<lparr>sb_bytes = blob_bytes (enc_finish e), sb_signedPortionBeginOffset = b, sb_signedPortionEndOffset = b'\<rparr>)))"

record decoded_data =
  dd_signature :: lite_signature
  dd_signatureValue :: slice
  dd_name :: "lite_component list"
  dd_metaInfo :: decoded_metaInfo
  dd_content :: "slice option"

definition decodeTlvData :: "(byte list \<Rightarrow> int) \<Rightarrow> decoder \<Rightarrow> (decoded_data \<times> u64 \<times> u64 \<times> decoder) decoding" where
  "decodeTlvData malformed d =
    bindO (Some (readNestedTlvsStart 6 d)) (\<lambda>(endOffset, d).
    let signedPortionBeginOffset = dec_offset d in
    bindO (decodeTlvName maxNameComponents d) (\<lambda>(name, _, _, d).
    bindO (Some (peekType 20 endOffset d)) (\<lambda>gotExpectedType.
    bindO (if gotExpectedType then decodeMetaInfo d else Some (Inr (decoded_MetaInfo0, d))) (\<lambda>(metaInfo, d).
    bindO (Some (readOptionalBlobTlv 21 endOffset d)) (\<lambda>(content, d).
    bindO (decodeTlvSignatureInfo malformed d) (\<lambda>(signature, d).
    let signedPortionEndOffset = dec_offset d in
    bindO (Some (readBlobTlv 23 d)) (\<lambda>(signatureValue, d).
    bindO (finishNestedTlvs d endOffset) (\<lambda>d.
      Some (Inr (\<lparr>dd_signature = signature, dd_signatureValue = signatureValue, dd_name = name, dd_metaInfo = metaInfo,
        dd_content = content\<rparr>, signedPortionBeginOffset, signedPortionEndOffset, d))))))))))"

definition Data_setLite :: "byte list \<Rightarrow> decoded_data \<Rightarrow> error + data_values" where
  "Data_setLite inp data =
    bindE (signature_setLite inp (dd_signature data) (dd_signatureValue data)) (\<lambda>signature.
    bindE (Name_setLite inp (dd_name data)) (\<lambda>name.
    bindE (MetaInfo_setLite inp (dd_metaInfo data)) (\<lambda>metaInfo.
    bindE (Blob_copyOptional inp (dd_content data)) (\<lambda>content.
      Inr \<lparr>dv_signature = Some signature, dv_name = name, dv_metaInfo = metaInfo, dv_content = content\<rparr>))))"

definition Tlv0_3_decodeData :: "(byte list \<Rightarrow> int) \<Rightarrow> byte list \<Rightarrow> (error + (data_values \<times> nat \<times> nat)) option" where
  "Tlv0_3_decodeData malformed inp =
    bindO (lift_decoding (decodeTlvData malformed (dec_initialize inp))) (\<lambda>(data, b, b', _).
    bindO (Some (Data_setLite inp data)) (\<lambda>v. Some (Inr (v, unat b, unat b'))))"

section \<open>Times on the wire\<close>

lemma c_round_bounds:
  assumes "0 \<le> n" "n \<le> 9000000000000000"
  shows "0 \<le> toMilliseconds n" "0 \<le> c_round (toMilliseconds n)" "c_round (toMilliseconds n) \<le> 9000000001"
proof -
  let ?x = "rat_of_int n / 1000000"
  have x: "0 \<le> ?x" "?x \<le> 9000000000" using assms by (simp_all add: divide_le_eq)
  have err: "\<bar>toMilliseconds n - ?x\<bar> \<le> ?x * (1 / 2 ^ 51)" using toMilliseconds_error [of n] x(1) by simp
  have "?x * (1 / 2 ^ 51) \<le> ?x" using x(1) by simp
  then show nonneg: "0 \<le> toMilliseconds n" using err by linarith
  have "?x * (1 / 2 ^ 51) \<le> 1 / 4" using x(2) by simp
  then have "toMilliseconds n + 1 / 2 < 9000000001 + 1" using err x(2) by linarith
  then have "\<lfloor>toMilliseconds n + 1 / 2\<rfloor> \<le> 9000000001" by linarith
  then show "c_round (toMilliseconds n) \<le> 9000000001" using nonneg by (simp add: c_round_def)
  show "0 \<le> c_round (toMilliseconds n)" using nonneg by (simp add: c_round_def)
qed

lemma uint_u64_of_int: "0 \<le> k \<Longrightarrow> k < 2 ^ 64 \<Longrightarrow> uint (of_int k :: u64) = k"
  by (simp add: unsigned_of_int take_bit_int_eq_self)

definition wire_time :: "int \<Rightarrow> int" where
  "wire_time nanoseconds = (if nanoseconds < 0 then -1000000 else 1000000 * c_round (toMilliseconds nanoseconds))"

definition time_number :: "int \<Rightarrow> u64 option" where
  "time_number nanoseconds = (if nanoseconds < 0 then None else Some (of_int (c_round (toMilliseconds nanoseconds))))"

definition time_wire_ok :: "int \<Rightarrow> bool" where
  "time_wire_ok nanoseconds \<longleftrightarrow> nanoseconds \<le> 9000000000000000"

lemma wire_time_milliseconds: "0 \<le> m \<Longrightarrow> m < 2 ^ 49 \<Longrightarrow> wire_time (1000000 * m) = 1000000 * m"
  by (simp add: wire_time_def toMilliseconds_round)

lemma time_writer:
  "time_wire_ok n \<Longrightarrow> tlv_writer (writeOptionalNonNegativeIntegerTlvFromDouble t (toMilliseconds n)) (fields_bytes (number_field t (time_number n)))"
  using c_round_bounds(1) [of n] toMilliseconds_negative [of n]
  by (intro tlv_writer_cong [OF number_writer])
    (auto simp: writeOptionalNonNegativeIntegerTlvFromDouble_def time_number_def time_wire_ok_def)

lemma within_time:
  assumes "facing d e (number_field t (time_number n) @ fs) rest" "next_not t fs" and ok: "time_wire_ok n"
  shows "\<exists>ms d'. readOptionalNonNegativeIntegerTlvAsDouble t e d = Inr (ms, d') \<and> fromMilliseconds ms = Inr (wire_time n) \<and> took d d' e fs rest"
proof (cases "n < 0")
  case True
  have "fromMilliseconds (-1) = Inr (-1000000)" using fromMilliseconds_int [of "-1"] by simp
  then show ?thesis using within_number [OF assms(1,2)] True
    by (auto simp: readOptionalNonNegativeIntegerTlvAsDouble_def time_number_def wire_time_def)
next
  case False
  let ?k = "c_round (toMilliseconds n)"
  have k: "0 \<le> ?k" "?k \<le> 9000000001" using c_round_bounds [of n] False ok by (simp_all add: time_wire_ok_def)
  then have "fl (of_int (uint (of_int ?k :: u64))) = of_int ?k" using uint_u64_of_int [of ?k] by (simp add: fl_int)
  moreover have "fromMilliseconds (of_int ?k) = Inr (1000000 * ?k)" using k by (intro fromMilliseconds_int) simp
  ultimately show ?thesis using within_number [OF assms(1,2)] False
    by (auto simp: readOptionalNonNegativeIntegerTlvAsDouble_def time_number_def wire_time_def)
qed

section \<open>Meta information on the wire\<close>

definition metaInfo_fields :: "metaInfo \<Rightarrow> field list" where
  "metaInfo_fields m =
    number_field 24 (if mi_type m = CONTENT_BLOB then None else Some (of_int (contentTypeCode (mi_type m) (mi_otherTypeCode m)))) @
    number_field 25 (time_number (mi_freshnessPeriod m)) @
    blob_field 26 (if blob_size (c_value (mi_finalBlockId m)) > 0 then Some (fields_bytes [(8, blob_bytes (c_value (mi_finalBlockId m)))]) else None)"

definition metaInfo_wire_ok :: "metaInfo \<Rightarrow> bool" where
  "metaInfo_wire_ok m \<longleftrightarrow> time_wire_ok (mi_freshnessPeriod m) \<and>
    (mi_type m = CONTENT_OTHER_CODE \<longrightarrow> 4 \<le> mi_otherTypeCode m \<and> mi_otherTypeCode m < 2 ^ 31)"

definition wire_metaInfo :: "metaInfo \<Rightarrow> metaInfo" where
  "wire_metaInfo m =
    \<lparr>mi_type = mi_type m, mi_otherTypeCode = (if mi_type m = CONTENT_OTHER_CODE then mi_otherTypeCode m else -1),
     mi_freshnessPeriod = wire_time (mi_freshnessPeriod m),
     mi_finalBlockId = \<lparr>c_type = GENERIC, c_otherTypeCode = -1,
       c_value = (if blob_size (c_value (mi_finalBlockId m)) > 0 then c_value (mi_finalBlockId m) else None)\<rparr>\<rparr>"

lemma finalBlockId_writer:
  "tlv_writer (\<lambda>e. if blob_size v > 0 then bindE (writeTypeAndLength 26 (sizeOfBlobTlv 8 (blob_bytes v)) e)
      (encodeTlvNameComponent \<lparr>c_type = GENERIC, c_otherTypeCode = -1, c_value = v\<rparr>) else Inr e)
    (fields_bytes (blob_field 26 (if blob_size v > 0 then Some (fields_bytes [(8, blob_bytes v)]) else None)))"
proof (cases "blob_size v > 0")
  case True
  let ?c = "\<lparr>c_type = GENERIC, c_otherTypeCode = -1, c_value = v\<rparr>"
  have "component_wireType ?c = 8" by (simp add: component_wireType_def typeCode_def)
  then have "tlv_writer (encodeTlvNameComponent ?c) (tlvBytes 8 (blob_bytes v))"
    using component_writer [of ?c] by (simp add: component_encodable_def)
  from tlv_writer_seq [OF tl.tlv_writer_axioms this, of 26 "sizeOfBlobTlv 8 (blob_bytes v)"]
  show ?thesis using True by (simp add: blob_field_def tlvBytes_def [of 26])
qed (simp add: blob_field_def tlv_writer_Nil)

lemma metaInfo_writer:
  assumes "metaInfo_wire_ok m"
  shows "tlv_writer (encodeMetaInfoValue (MetaInfo_getLite m)) (fields_bytes (metaInfo_fields m))"
proof -
  let ?v = "if mi_type m = CONTENT_BLOB then None else Some (of_int (contentTypeCode (mi_type m) (mi_otherTypeCode m)) :: u64)"
  have time: "tlv_writer (writeOptionalNonNegativeIntegerTlvFromDouble 25 (toMilliseconds (mi_freshnessPeriod m)))
      (fields_bytes (number_field 25 (time_number (mi_freshnessPeriod m))))"
    using assms by (intro time_writer) (simp add: metaInfo_wire_ok_def)
  note w = fields_append_writer [OF number_writer [where v = ?v and t = 24] fields_append_writer [OF time finalBlockId_writer [of "c_value (mi_finalBlockId m)"]]]
  show ?thesis unfolding metaInfo_fields_def
    by (rule tlv_writer_cong [OF w], cases "mi_type m = CONTENT_BLOB"; cases "blob_size (c_value (mi_finalBlockId m)) > 0")
      (simp_all add: encodeMetaInfoValue_def MetaInfo_getLite_def)
qed

lemma contentType_back:
  assumes "metaInfo_wire_ok m"
  shows "decodeContentType (case (if mi_type m = CONTENT_BLOB then None else Some (of_int (contentTypeCode (mi_type m) (mi_otherTypeCode m)) :: u64)) of
      None \<Rightarrow> -1 | Some n \<Rightarrow> sint (ucast n :: u32)) = (mi_type m, if mi_type m = CONTENT_OTHER_CODE then mi_otherTypeCode m else -1)"
  using assms sint_of_small [of "contentTypeCode (mi_type m) (mi_otherTypeCode m)"]
  by (cases "mi_type m") (simp_all add: decodeContentType_def metaInfo_wire_ok_def)

lemma decodeMetaInfo_back:
  assumes "facing d e ((20, fields_bytes (metaInfo_fields m)) # fs) rest" and ok: "metaInfo_wire_ok m"
  shows "\<exists>dm d'. decodeMetaInfo d = Some (Inr (dm, d')) \<and> MetaInfo_setLite (dec_input d) dm = Inr (wire_metaInfo m) \<and> took d d' e fs rest"
proof -
  let ?n = "if mi_type m = CONTENT_BLOB then None else Some (of_int (contentTypeCode (mi_type m) (mi_otherTypeCode m)) :: u64)"
  let ?v = "c_value (mi_finalBlockId m)"
  let ?b = "if blob_size ?v > 0 then Some (fields_bytes [(8, blob_bytes ?v)]) else None"
  let ?rest = "fields_bytes fs @ rest"
  obtain d1 e1 where start: "readNestedTlvsStart 20 d = Inr (e1, d1)" "took d d1 e1 (metaInfo_fields m) ?rest"
    and outer: "\<And>d2. took d1 d2 e1 [] ?rest \<Longrightarrow> took d d2 e fs rest"
    using within_readNestedTlvsStart [OF assms(1)] by auto
  have nn: "next_not 24 (number_field 25 (time_number (mi_freshnessPeriod m)) @ blob_field 26 ?b)" by simp
  obtain d2 where t: "readOptionalNonNegativeIntegerTlv 24 e1 d1 = Inr (case ?n of None \<Rightarrow> -1 | Some n \<Rightarrow> sint (ucast n :: u32), d2)"
    "took d1 d2 e1 (number_field 25 (time_number (mi_freshnessPeriod m)) @ blob_field 26 ?b) ?rest"
    using within_readOptionalNonNegativeIntegerTlv [OF took_within [OF start(2), unfolded metaInfo_fields_def] nn] by blast
  have nn2: "next_not 25 (blob_field 26 ?b)" by simp
  have time: "time_wire_ok (mi_freshnessPeriod m)" using ok by (simp add: metaInfo_wire_ok_def)
  obtain ms d3 where f: "readOptionalNonNegativeIntegerTlvAsDouble 25 e1 d2 = Inr (ms, d3)"
    "fromMilliseconds ms = Inr (wire_time (mi_freshnessPeriod m))" "took d2 d3 e1 (blob_field 26 ?b) ?rest"
    using within_time [OF took_within [OF t(2)] nn2 time] by blast
  have inp: "dec_input d3 = dec_input d" using took_input [OF start(2)] took_input [OF t(2)] took_input [OF f(3)] by simp
  have d3: "took d1 d3 e1 (blob_field 26 ?b) ?rest" by (rule took_trans [OF t(2) f(3)])
  have type: "decodeContentType (case ?n of None \<Rightarrow> -1 | Some n \<Rightarrow> sint (ucast n :: u32)) = (mi_type m, if mi_type m = CONTENT_OTHER_CODE then mi_otherTypeCode m else -1)"
    by (rule contentType_back [OF ok])
  note simps = decodeMetaInfo_def MetaInfo_setLite_def Blob_copyOptional_def wire_metaInfo_def type
  show ?thesis
  proof (cases "blob_size ?v > 0")
    case False
    then have w: "facing d3 e1 [] ?rest" using took_within [OF f(3)] by (simp add: blob_field_def)
    have "took d d3 e fs rest" using outer d3 False by (simp add: blob_field_def)
    then show ?thesis using start(1) t(1) f(1,2) within_peek [OF w] within_finish [OF w] False by (simp add: simps)
  next
    case True
    let ?c = "\<lparr>c_type = GENERIC, c_otherTypeCode = -1, c_value = ?v\<rparr>"
    have cf: "component_field ?c = (8, blob_bytes ?v)" by (simp add: component_field_def component_wireType_def typeCode_def)
    have w: "facing d3 e1 [(26, fields_bytes [component_field ?c])] ?rest" using took_within [OF f(3)] True by (simp add: blob_field_def cf)
    obtain d4 e2 where s2: "readNestedTlvsStart 26 d3 = Inr (e2, d4)" "took d3 d4 e2 [component_field ?c] (fields_bytes [] @ ?rest)"
      and outer2: "\<And>d2. took d4 d2 e2 [] (fields_bytes [] @ ?rest) \<Longrightarrow> took d3 d2 e1 [] ?rest"
      using within_readNestedTlvsStart [OF w] by blast
    obtain lc d5 where lc: "decodeTlvNameComponent d4 = Inr (lc, d5)" "Component_copy (dec_input d4) lc = Inr (wire_component ?c)"
      "took d4 d5 e2 [] (fields_bytes [] @ ?rest)"
      using decodeTlvNameComponent_back [OF took_within [OF s2(2)]] by (auto simp: component_wire_ok_def)
    have fin: "took d3 d5 e1 [] ?rest" by (rule outer2 [OF lc(3)])
    have done5: "took d d5 e fs rest" using outer [OF took_trans [OF d3 fin]] .
    have copy: "bindE (Blob_copy (dec_input d) (lc_value lc)) (\<lambda>bs. Inr (Some bs)) = Inr ?v"
      using lc(2) took_input [OF s2(2)] inp True
      by (cases ?v) (auto simp: Component_copy_def wire_component_def bindE_eq_Inr)
    show ?thesis using start(1) t(1) f(1,2) within_peek [OF w] s2(1) lc(1) within_finish [OF took_within [OF lc(3)]]
        within_finish [OF took_within [OF fin]] True done5 copy
      by (simp add: simps)
  qed
qed

section \<open>Signature information on the wire\<close>

definition iso_string :: "int \<Rightarrow> byte list" where
  "iso_string ms = projr (ndn_toIsoString ms)"

definition wire_seconds :: "int \<Rightarrow> int" where
  "wire_seconds ms = (ms + 500) div 1000 * 1000"

definition period_fields :: "(int \<times> int) option \<Rightarrow> field list" where
  "period_fields p = blob_field 253 (map_option (\<lambda>(a, b). fields_bytes [(254, iso_string a), (255, iso_string b)]) p)"

definition iso_time_ok :: "int \<Rightarrow> bool" where
  "iso_time_ok ms \<longleftrightarrow> 0 \<le> ms \<and> ms \<le> 200000000000000"

definition period_wire_ok :: "(int \<times> int) option \<Rightarrow> bool" where
  "period_wire_ok p \<longleftrightarrow> (case p of None \<Rightarrow> True | Some (a, b) \<Rightarrow> iso_time_ok a \<and> iso_time_ok b)"

definition wire_period :: "(int \<times> int) option \<Rightarrow> (int \<times> int) option" where
  "wire_period = map_option (\<lambda>(a, b). (wire_seconds a, wire_seconds b))"

lemma iso_string_facts:
  assumes "iso_time_ok ms"
  shows "ndn_toIsoString ms = Inr (iso_string ms)" "length (iso_string ms) = 15"
    "ndn_fromIsoString malformed (iso_string ms) = wire_seconds ms"
proof -
  obtain s where "ndn_toIsoString ms = Inr s" "iso_form s" "ndn_fromIsoString malformed s = wire_seconds ms"
    using assms iso_time [of ms malformed] by (auto simp: iso_time_ok_def wire_seconds_def)
  then show "ndn_toIsoString ms = Inr (iso_string ms)" "length (iso_string ms) = 15"
    "ndn_fromIsoString malformed (iso_string ms) = wire_seconds ms"
    by (simp_all add: iso_string_def iso_form_def)
qed

lemma period_writer:
  assumes "period_wire_ok p"
  shows "tlv_writer (encodeValidityPeriod p) (fields_bytes (period_fields p))"
proof (cases p)
  case None
  then show ?thesis by (simp add: period_fields_def blob_field_def) (rule tlv_writer_cong [OF tlv_writer_Nil], simp add: encodeValidityPeriod_def)
next
  case (Some ab)
  obtain a b where ab: "ab = (a, b)" by fastforce
  have a: "ndn_toIsoString a = Inr (iso_string a)" "length (iso_string a) = 15" and b: "ndn_toIsoString b = Inr (iso_string b)" "length (iso_string b) = 15"
    using assms Some ab iso_string_facts(1,2) by (simp_all add: period_wire_ok_def)
  have nonempty: "iso_string a \<noteq> []" "iso_string b \<noteq> []" using a(2) b(2) by auto
  have "encodeValidityPeriodValue (a, b) e = bindE (writeBlobTlv 254 (iso_string a) e) (writeBlobTlv 255 (iso_string b))" for e
    using a b nonempty by (simp add: encodeValidityPeriodValue_def writeOptionalBlobTlv_def)
  then have "tlv_writer (encodeValidityPeriodValue (a, b)) (fields_bytes [(254, iso_string a), (255, iso_string b)])"
    using tlv_writer_cong [OF fields_append_writer [OF blob_writer blob_writer]] by fastforce
  from nested_writer [OF this, of 253] show ?thesis
    using Some ab by (simp add: period_fields_def blob_field_def) (erule tlv_writer_cong, simp add: encodeValidityPeriod_def)
qed

lemma decodeIsoString_back:
  assumes "facing d e ((t, iso_string ms) # fs) rest" "iso_time_ok ms"
  shows "\<exists>d'. decodeIsoString malformed t d = Inr (wire_seconds ms, d') \<and> took d d' e fs rest"
proof -
  obtain s d' where s: "readBlobTlv t d = Inr (s, d')" "slice_bytes (dec_input d) s = Some (iso_string ms)" "took d d' e fs rest"
    using within_readBlobTlv [OF assms(1)] by blast
  then have bytes: "take (unat (slice_length s)) (drop (unat (slice_begin s)) (dec_input d)) = iso_string ms"
      "unat (slice_begin s) + unat (slice_length s) \<le> length (dec_input d)"
    by (simp_all add: slice_bytes_def slice_in_bounds_def split: if_splits)
  have "length (take (unat (slice_length s)) (drop (unat (slice_begin s)) (dec_input d))) = unat (slice_length s)"
    using bytes(2) by simp
  then have "unat (slice_length s) = 15" using bytes(1) iso_string_facts(2) [OF assms(2)] by simp
  then have "\<not> slice_length s > 15" by (simp add: word_less_nat_alt)
  then show ?thesis using s(1,3) bytes(1) iso_string_facts(3) [OF assms(2)] took_input [OF s(3)] by (simp add: decodeIsoString_def)
qed

lemma decodeOptionalValidityPeriod_back:
  assumes "facing d e (period_fields p @ fs) rest" "next_not 253 fs" "period_wire_ok p"
  shows "\<exists>d'. decodeOptionalValidityPeriod malformed e d = Some (Inr (wire_period p, d')) \<and> took d d' e fs rest"
proof (cases p)
  case None
  then have w: "facing d e fs rest" using assms(1) by (simp add: period_fields_def blob_field_def)
  then show ?thesis using within_peek [OF w, of 253] assms(2) took_refl [OF w] None
    by (auto simp: decodeOptionalValidityPeriod_def next_not_def wire_period_def)
next
  case (Some ab)
  obtain a b where ab: "ab = (a, b)" by fastforce
  have ok: "iso_time_ok a" "iso_time_ok b" using assms(3) Some ab by (simp_all add: period_wire_ok_def)
  have w: "facing d e ((253, fields_bytes [(254, iso_string a), (255, iso_string b)]) # fs) rest"
    using assms(1) Some ab by (simp add: period_fields_def blob_field_def)
  obtain d1 e1 where start: "readNestedTlvsStart 253 d = Inr (e1, d1)" "took d d1 e1 [(254, iso_string a), (255, iso_string b)] (fields_bytes fs @ rest)"
    and outer: "\<And>d2. took d1 d2 e1 [] (fields_bytes fs @ rest) \<Longrightarrow> took d d2 e fs rest"
    using within_readNestedTlvsStart [OF w] by blast
  obtain d2 where d2: "decodeIsoString malformed 254 d1 = Inr (wire_seconds a, d2)" "took d1 d2 e1 [(255, iso_string b)] (fields_bytes fs @ rest)"
    using decodeIsoString_back [OF took_within [OF start(2)] ok(1)] by blast
  obtain d3 where d3: "decodeIsoString malformed 255 d2 = Inr (wire_seconds b, d3)" "took d2 d3 e1 [] (fields_bytes fs @ rest)"
    using decodeIsoString_back [OF took_within [OF d2(2)] ok(2)] by blast
  show ?thesis
    using within_peek [OF w, of 253] start(1) d2(1) d3(1) within_finish [OF took_within [OF d3(2)]] outer [OF took_trans [OF d2(2) d3(2)]] Some ab
    by (simp add: decodeOptionalValidityPeriod_def decodeValidityPeriod_def wire_period_def)
qed

text \<open>
  The fields of the SignatureInfo of a signature that can be encoded.  The encoding kept in a generic signature is itself
  a SignatureInfo TLV, whose type is none of the known ones.
\<close>

fun signature_info :: "signature \<Rightarrow> field list \<Rightarrow> bool" where
  "signature_info (Sha256WithRsaSignature k _ p) fs \<longleftrightarrow> keyLocator_wire_ok k \<and> period_wire_ok (vp_period p) \<and>
    fs = [(27, nonNegativeIntegerBytes 1), (28, fields_bytes (keyLocator_fields k))] @ period_fields (vp_period p)"
| "signature_info (Sha256WithEcdsaSignature k _ p) fs \<longleftrightarrow> keyLocator_wire_ok k \<and> period_wire_ok (vp_period p) \<and>
    fs = [(27, nonNegativeIntegerBytes 3), (28, fields_bytes (keyLocator_fields k))] @ period_fields (vp_period p)"
| "signature_info (HmacWithSha256Signature k _) fs \<longleftrightarrow> keyLocator_wire_ok k \<and>
    fs = [(27, nonNegativeIntegerBytes 4), (28, fields_bytes (keyLocator_fields k))] @ period_fields None"
| "signature_info (DigestSha256Signature _ p) fs \<longleftrightarrow> period_wire_ok (vp_period p) \<and>
    fs = (27, nonNegativeIntegerBytes 0) # period_fields (vp_period p)"
| "signature_info (GenericSignature _ info code _) fs \<longleftrightarrow> info = Some (fields_bytes [(22, fields_bytes fs)]) \<and>
    length (fields_bytes [(22, fields_bytes fs)]) < 2 ^ 63 \<and>
    (\<exists>t gs. fs = (27, nonNegativeIntegerBytes t) # gs \<and> t \<notin> {0, 1, 3, 4} \<and> code = sint (ucast t :: u32))"

definition signature_wire_ok :: "signature \<Rightarrow> bool" where
  "signature_wire_ok sig \<longleftrightarrow> (\<exists>fs. signature_info sig fs)"

fun wire_signature :: "signature \<Rightarrow> signature" where
  "wire_signature (Sha256WithRsaSignature k s p) = Sha256WithRsaSignature (wire_keyLocator k) (Some (blob_bytes s)) \<lparr>vp_period = wire_period (vp_period p)\<rparr>"
| "wire_signature (Sha256WithEcdsaSignature k s p) = Sha256WithEcdsaSignature (wire_keyLocator k) (Some (blob_bytes s)) \<lparr>vp_period = wire_period (vp_period p)\<rparr>"
| "wire_signature (HmacWithSha256Signature k s) = HmacWithSha256Signature (wire_keyLocator k) (Some (blob_bytes s))"
| "wire_signature (DigestSha256Signature s p) = DigestSha256Signature (Some (blob_bytes s)) \<lparr>vp_period = wire_period (vp_period p)\<rparr>"
| "wire_signature (GenericSignature s info code p) = GenericSignature (Some (blob_bytes s)) info code ValidityPeriod0"

lemma keyLocator_signature_writer:
  assumes "keyLocator_wire_ok k" "period_wire_ok p"
  shows "tlv_writer (writeNestedTlv 22 (encodeSignatureWithKeyLocatorAndValidityPeriodValue t k p) False)
    (fields_bytes [(22, fields_bytes ([(27, nonNegativeIntegerBytes t), (28, fields_bytes (keyLocator_fields k))] @ period_fields p))])"
proof -
  note w = fields_append_writer [OF integer_writer [of 27 t] fields_append_writer [OF nested_writer [OF keyLocator_writer [OF assms(1)], of 28] period_writer [OF assms(2)]]]
  have "tlv_writer (encodeSignatureWithKeyLocatorAndValidityPeriodValue t k p)
      (fields_bytes ([(27, nonNegativeIntegerBytes t), (28, fields_bytes (keyLocator_fields k))] @ period_fields p))"
    using tlv_writer_cong [OF w] by (simp add: encodeSignatureWithKeyLocatorAndValidityPeriodValue_def [abs_def])
  then show ?thesis by (rule nested_writer)
qed

lemma digest_signature_writer:
  assumes "period_wire_ok p"
  shows "tlv_writer (writeNestedTlv 22 (encodeDigestSha256Value p) False) (fields_bytes [(22, fields_bytes ((27, nonNegativeIntegerBytes 0) # period_fields p))])"
proof -
  note w = fields_append_writer [OF integer_writer [of 27 0] period_writer [OF assms]]
  have "tlv_writer (encodeDigestSha256Value p) (fields_bytes ((27, nonNegativeIntegerBytes 0) # period_fields p))"
    using tlv_writer_cong [OF w] by (simp add: encodeDigestSha256Value_def [abs_def])
  then show ?thesis by (rule nested_writer)
qed

lemma signature_writer:
  assumes "signature_info sig fs"
  shows "tlv_writer (encodeTlvSignatureInfo (Inr ()) sig) (fields_bytes [(22, fields_bytes fs)])"
proof (cases sig)
  case (Sha256WithRsaSignature k s p)
  then have ok: "keyLocator_wire_ok k" "period_wire_ok (vp_period p)"
    and fs: "fs = [(27, nonNegativeIntegerBytes 1), (28, fields_bytes (keyLocator_fields k))] @ period_fields (vp_period p)" using assms by simp_all
  show ?thesis unfolding fs by (rule tlv_writer_cong [OF keyLocator_signature_writer [OF ok]]) (simp add: Sha256WithRsaSignature)
next
  case (Sha256WithEcdsaSignature k s p)
  then have ok: "keyLocator_wire_ok k" "period_wire_ok (vp_period p)"
    and fs: "fs = [(27, nonNegativeIntegerBytes 3), (28, fields_bytes (keyLocator_fields k))] @ period_fields (vp_period p)" using assms by simp_all
  show ?thesis unfolding fs by (rule tlv_writer_cong [OF keyLocator_signature_writer [OF ok]]) (simp add: Sha256WithEcdsaSignature)
next
  case (HmacWithSha256Signature k s)
  then have ok: "keyLocator_wire_ok k" "period_wire_ok None"
    and fs: "fs = [(27, nonNegativeIntegerBytes 4), (28, fields_bytes (keyLocator_fields k))] @ period_fields None" using assms by (simp_all add: period_wire_ok_def)
  show ?thesis unfolding fs by (rule tlv_writer_cong [OF keyLocator_signature_writer [OF ok]]) (simp add: HmacWithSha256Signature)
next
  case (DigestSha256Signature s p)
  then have ok: "period_wire_ok (vp_period p)" and fs: "fs = (27, nonNegativeIntegerBytes 0) # period_fields (vp_period p)" using assms by simp_all
  show ?thesis unfolding fs by (rule tlv_writer_cong [OF digest_signature_writer [OF ok]]) (simp add: DigestSha256Signature)
next
  case (GenericSignature s info code p)
  then have "fields_bytes [(22, fields_bytes fs)] = blob_bytes info" using assms by simp
  then show ?thesis using tlv_writer_cong [OF arr.tlv_writer_axioms [of "blob_bytes info"], of "encodeTlvSignatureInfo (Inr ()) sig"] GenericSignature by simp
qed

lemma signature_test_ok:
  assumes "signature_info sig fs"
  shows "signature_test sig = Some (Inr ())"
proof (cases sig)
  case (GenericSignature s info code p)
  then obtain t gs where fs: "fs = (27, nonNegativeIntegerBytes t) # gs" and info: "info = Some (fields_bytes [(22, fields_bytes fs)])"
    and len: "length (tlvBytes 22 (fields_bytes fs)) < 2 ^ 63" using assms by auto
  let ?d = "dec_initialize (tlvBytes 22 (fields_bytes fs))"
  obtain d1 e1 where start: "readNestedTlvsStart 22 ?d = Inr (e1, d1)" "took ?d d1 e1 fs (fields_bytes [] @ [])"
    using within_readNestedTlvsStart [OF within_initial [OF len]] by blast
  have w: "facing d1 e1 ((27, nonNegativeIntegerBytes t) # gs) []" using took_within [OF start(2)] fs by simp
  obtain d2 where d2: "readNonNegativeIntegerTlv 27 d1 = Inr (t, d2)" "took d1 d2 e1 gs []"
    using within_readNonNegativeIntegerTlv [OF w] by blast
  show ?thesis using GenericSignature info start(1) d2(1) within_finishSkip [OF took_within [OF d2(2)]]
    by (auto simp: testSignatureInfo_def)
qed simp_all

lemma decodeKeyLocatorSignature_back:
  assumes "facing d e ((28, fields_bytes (keyLocator_fields k)) # period_fields p) rest" "keyLocator_wire_ok k" "period_wire_ok p"
  shows "\<exists>lk d1 d2. decodeTlvKeyLocator 28 d = Some (Inr (lk, d1)) \<and> KeyLocator_setLite (dec_input d) lk = Inr (wire_keyLocator k) \<and>
    decodeOptionalValidityPeriod malformed e d1 = Some (Inr (wire_period p, d2)) \<and> took d d2 e [] rest"
proof -
  obtain lk d1 where lk: "decodeTlvKeyLocator 28 d = Some (Inr (lk, d1))" "KeyLocator_setLite (dec_input d) lk = Inr (wire_keyLocator k)"
    "took d d1 e (period_fields p) rest"
    using decodeTlvKeyLocator_back [OF assms(1,2)] by blast
  have "facing d1 e (period_fields p @ []) rest" using took_within [OF lk(3)] by simp
  from decodeOptionalValidityPeriod_back [OF this _ assms(3)]
  show ?thesis using lk took_trans [OF lk(3)] by fastforce
qed

definition signature_with :: "signature \<Rightarrow> byte list \<Rightarrow> lite_signature \<Rightarrow> bool" where
  "signature_with sig inp ls \<longleftrightarrow>
    (\<forall>s. slice_bytes inp s = Some (blob_bytes (signature_value sig)) \<longrightarrow> signature_setLite inp ls s = Inr (wire_signature sig))"

lemma decodeTlvSignatureInfo_back:
  assumes "facing d e ((22, fields_bytes fs) # gs) rest" and info: "signature_info sig fs"
  shows "\<exists>ls d'. decodeTlvSignatureInfo malformed d = Some (Inr (ls, d')) \<and> signature_with sig (dec_input d) ls \<and> took d d' e gs rest"
proof -
  let ?rest = "fields_bytes gs @ rest"
  obtain d1 e1 where start: "readNestedTlvsStart 22 d = Inr (e1, d1)" "took d d1 e1 fs ?rest"
    and outer: "\<And>d2. took d1 d2 e1 [] ?rest \<Longrightarrow> took d d2 e gs rest"
    using within_readNestedTlvsStart [OF assms(1)] by blast
  note inp = took_input [OF start(2)]
  have keyed: "\<exists>ls d'. decodeTlvSignatureInfo malformed d = Some (Inr (ls, d')) \<and> took d d' e gs rest \<and>
      ls_type ls = (if n = 1 then LITE_Rsa else if n = 3 then LITE_Ecdsa else LITE_Hmac) \<and>
      KeyLocator_setLite (dec_input d) (ls_keyLocator ls) = Inr (wire_keyLocator k) \<and> ls_validityPeriod ls = wire_period p"
    if n: "n = 1 \<or> n = 3 \<or> n = 4" and ok: "keyLocator_wire_ok k" "period_wire_ok p"
      and fs: "fs = [(27, nonNegativeIntegerBytes n), (28, fields_bytes (keyLocator_fields k))] @ period_fields p" for n k p
  proof -
    have w: "facing d1 e1 ((27, nonNegativeIntegerBytes n) # (28, fields_bytes (keyLocator_fields k)) # period_fields p) ?rest"
      using took_within [OF start(2)] fs by simp
    obtain d2 where d2: "readNonNegativeIntegerTlv 27 d1 = Inr (n, d2)" "took d1 d2 e1 ((28, fields_bytes (keyLocator_fields k)) # period_fields p) ?rest"
      using within_readNonNegativeIntegerTlv [OF w] by blast
    obtain lk d3 d4 where k: "decodeTlvKeyLocator 28 d2 = Some (Inr (lk, d3))" "KeyLocator_setLite (dec_input d2) lk = Inr (wire_keyLocator k)"
      "decodeOptionalValidityPeriod malformed e1 d3 = Some (Inr (wire_period p, d4))" "took d2 d4 e1 [] ?rest"
      using decodeKeyLocatorSignature_back [OF took_within [OF d2(2)] ok] by blast
    show ?thesis
      using start(1) d2(1) k(1-3) n within_finish [OF took_within [OF k(4)]] outer [OF took_trans [OF d2(2) k(4)]] inp took_input [OF d2(2)]
      by (auto simp: decodeTlvSignatureInfo_def Let_def)
  qed
  show ?thesis
  proof (cases sig)
    case (Sha256WithRsaSignature k s p)
    then show ?thesis using keyed [of 1 k "vp_period p"] info
      by (fastforce simp: signature_with_def signature_setLite_def signature_of_lite_def Blob_copy_def)
  next
    case (Sha256WithEcdsaSignature k s p)
    then show ?thesis using keyed [of 3 k "vp_period p"] info
      by (fastforce simp: signature_with_def signature_setLite_def signature_of_lite_def Blob_copy_def)
  next
    case (HmacWithSha256Signature k s)
    then show ?thesis using keyed [of 4 k None] info
      by (fastforce simp: signature_with_def signature_setLite_def signature_of_lite_def Blob_copy_def period_wire_ok_def)
  next
    case (DigestSha256Signature s p)
    then have w: "facing d1 e1 ((27, nonNegativeIntegerBytes 0) # period_fields (vp_period p)) ?rest" and ok: "period_wire_ok (vp_period p)"
      using took_within [OF start(2)] info by simp_all
    obtain d2 where d2: "readNonNegativeIntegerTlv 27 d1 = Inr (0, d2)" "took d1 d2 e1 (period_fields (vp_period p)) ?rest"
      using within_readNonNegativeIntegerTlv [OF w] by blast
    have w2: "facing d2 e1 (period_fields (vp_period p) @ []) ?rest" using took_within [OF d2(2)] by simp
    obtain d3 where d3: "decodeOptionalValidityPeriod malformed e1 d2 = Some (Inr (wire_period (vp_period p), d3))" "took d2 d3 e1 [] ?rest"
      using decodeOptionalValidityPeriod_back [OF w2 _ ok] by auto
    show ?thesis
      using start(1) d2(1) d3(1) within_finish [OF took_within [OF d3(2)]] outer [OF took_trans [OF d2(2) d3(2)]] DigestSha256Signature
      by (simp add: decodeTlvSignatureInfo_def Let_def signature_with_def signature_setLite_def signature_of_lite_def Blob_copy_def)
  next
    case (GenericSignature s info' code p)
    then obtain t hs where fs: "fs = (27, nonNegativeIntegerBytes t) # hs" and t: "t \<notin> {0, 1, 3, 4}" "code = sint (ucast t :: u32)"
      and info': "info' = Some (tlvBytes 22 (fields_bytes fs))" using info by auto
    have w: "facing d1 e1 ((27, nonNegativeIntegerBytes t) # hs) ?rest" using took_within [OF start(2)] fs by simp
    obtain d2 where d2: "readNonNegativeIntegerTlv 27 d1 = Inr (t, d2)" "took d1 d2 e1 hs ?rest"
      using within_readNonNegativeIntegerTlv [OF w] by blast
    obtain d3 where d3: "finishNestedTlvsSkipCritical d2 e1 = Some (Inr d3)" "took d2 d3 e1 [] ?rest"
      using within_finishSkip [OF took_within [OF d2(2)]] by blast
    have input2: "dec_input d2 = dec_input d" using inp took_input [OF d2(2)] by simp
    obtain sl where sl: "getSlice d2 (dec_offset d) e1 = Inr sl" "slice_bytes (dec_input d) sl = Some (tlvBytes 22 (fields_bytes fs))"
      using within_getSlice [OF assms(1) start(1) input2] by blast
    show ?thesis
      using start(1) d2(1) d3(1) sl t within_finish [OF took_within [OF d3(2)]] outer [OF took_trans [OF d2(2) d3(2)]] GenericSignature info'
      by (auto simp: decodeTlvSignatureInfo_def Let_def signature_with_def signature_setLite_def signature_of_lite_def Blob_copyOptional_def Blob_copy_def)
  qed
qed

section \<open>Data packets on the wire\<close>

definition unsigned_fields :: "data_values \<Rightarrow> field list" where
  "unsigned_fields v =
    [(ndn_Tlv_Name, name_bytes (dv_name v)), (20, fields_bytes (metaInfo_fields (dv_metaInfo v))), (21, blob_bytes (dv_content v))]"

definition data_wire_ok :: "data_values \<Rightarrow> bool" where
  "data_wire_ok v \<longleftrightarrow> name_wire_ok (dv_name v) \<and> metaInfo_wire_ok (dv_metaInfo v) \<and>
    (case dv_signature v of None \<Rightarrow> False | Some sig \<Rightarrow> signature_wire_ok sig)"

definition wire_data :: "data_values \<Rightarrow> data_values" where
  "wire_data v = \<lparr>dv_signature = map_option wire_signature (dv_signature v), dv_name = wire_name (dv_name v),
     dv_metaInfo = wire_metaInfo (dv_metaInfo v), dv_content = Some (blob_bytes (dv_content v))\<rparr>"

lemma unsigned_writer:
  assumes "name_wire_ok (dv_name v)" "metaInfo_wire_ok (dv_metaInfo v)"
  shows "tlv_writer (encodeDataUnsigned \<lparr>ld_signature = sig, ld_name = dv_name v, ld_metaInfo = MetaInfo_getLite (dv_metaInfo v), ld_content = dv_content v\<rparr>)
    (fields_bytes (unsigned_fields v))"
proof -
  have n: "tlv_writer (encodeTlvName_only (dv_name v)) (fields_bytes [(ndn_Tlv_Name, name_bytes (dv_name v))])"
    using name_writer [OF name_wire_ok_encodable [OF assms(1)]] by simp
  note w = fields_append_writer [OF n fields_append_writer [OF nested_writer [OF metaInfo_writer [OF assms(2)], of 20] blob_writer [of 21 "blob_bytes (dv_content v)"]]]
  show ?thesis using tlv_writer_cong [OF w] by (simp add: encodeDataUnsigned_def [abs_def] unsigned_fields_def)
qed

lemma encodeTlvData_bytes:
  assumes ok: "name_wire_ok (dv_name v)" "metaInfo_wire_ok (dv_metaInfo v)" and info: "signature_info sig fs"
    and data: "data = \<lparr>ld_signature = sig, ld_name = dv_name v, ld_metaInfo = MetaInfo_getLite (dv_metaInfo v), ld_content = dv_content v\<rparr>"
  defines "portion \<equiv> fields_bytes (unsigned_fields v @ [(22, fields_bytes fs)])"
  defines "bytes \<equiv> tlvBytes 6 (portion @ tlvBytes 23 (blob_bytes (signature_value sig)))"
  defines "b \<equiv> length bytes - length (portion @ tlvBytes 23 (blob_bytes (signature_value sig)))"
  shows "\<exists>e. encodeTlvData data (TlvEncoder n) = Some (Inr (e, b, b + length portion)) \<and> enc_finish e = Some bytes"
proof -
  let ?val = "tlvBytes 23 (blob_bytes (signature_value sig))"
  let ?w1 = "\<lambda>e. bindE (encodeDataUnsigned data e) (encodeTlvSignatureInfo (Inr ()) sig)"
  let ?w = "\<lambda>e. bindE (?w1 e) (writeBlobTlv 23 (blob_bytes (signature_value sig)))"
  have w1: "tlv_writer ?w1 portion"
    unfolding portion_def data by (rule fields_append_writer [OF unsigned_writer [OF ok] signature_writer [OF info]])
  have w: "tlv_writer ?w (portion @ ?val)" by (rule tlv_writer_seq [OF w1 bt.tlv_writer_axioms])
  have f: "encodeDataValue (Inr ()) data e = bindE (?w e) (\<lambda>e'. Inr (e', (\<lambda>o1. (o1, o1 + length portion)) (enc_offset e)))" if e_ready: "enc_ready e" for e
  proof -
    obtain e1 where e1: "?w1 e = Inr e1" "enc_offset e1 = enc_offset e + length portion" using writer_ready [OF w1 e_ready] by blast
    obtain e0 where e0: "encodeDataUnsigned data e = Inr e0" "encodeTlvSignatureInfo (Inr ()) sig e0 = Inr e1" using e1(1) by (auto simp: bindE_eq_Inr)
    then show ?thesis using e1(2) by (simp add: encodeDataValue_def Let_def data)
  qed
  have ready: "enc_enableOutput (TlvEncoder n)" "enc_ready (TlvEncoder n)" by (simp_all add: TlvEncoder_def enc_ready_def enc_wf_def)
  obtain e where e: "writeNestedTlvWith 6 (encodeDataValue (Inr ()) data) False (TlvEncoder n) =
      Inr (e, (\<lambda>o1. (o1, o1 + length portion)) (enc_offset (TlvEncoder n) + length (typeAndLengthBytes 6 (length (portion @ ?val)))))"
    "writeNestedTlv 6 ?w False (TlvEncoder n) = Inr e"
    using writeNestedTlvWith_eq [OF w f ready] by blast
  have "enc_finish e = Some bytes"
    using tlv_writer.write_fresh [OF tlv_writer_nested [OF w, of 6 False], of n] e(2) by (simp add: bytes_def)
  moreover have "b = length (typeAndLengthBytes 6 (length (portion @ ?val)))" by (simp add: b_def bytes_def tlvBytes_def [of 6])
  ultimately show ?thesis using e(1) signature_test_ok [OF info] by (simp add: encodeTlvData_def data TlvEncoder_def)
qed

lemma decodeTlvData_back:
  assumes ok: "name_wire_ok (dv_name v)" "metaInfo_wire_ok (dv_metaInfo v)" and info: "signature_info sig fs" and sig: "dv_signature v = Some sig"
  defines "portion \<equiv> fields_bytes (unsigned_fields v @ [(22, fields_bytes fs)])"
  defines "bytes \<equiv> tlvBytes 6 (portion @ tlvBytes 23 (blob_bytes (signature_value sig)))"
  defines "b \<equiv> length bytes - length (portion @ tlvBytes 23 (blob_bytes (signature_value sig)))"
  assumes len: "length bytes < 2 ^ 63"
  shows "\<exists>data d. decodeTlvData malformed (dec_initialize bytes) = Some (Inr (data, of_nat b, of_nat (b + length portion), d)) \<and>
    Data_setLite bytes data = Inr (wire_data v)"
proof -
  let ?val = "(23, blob_bytes (signature_value sig))" and ?d = "dec_initialize bytes"
  let ?fs = "unsigned_fields v @ [(22, fields_bytes fs), ?val]"
  have bytes: "bytes = tlvBytes 6 (fields_bytes ?fs)" by (simp add: bytes_def portion_def)
  have w: "facing ?d (of_nat (length bytes)) [(6, fields_bytes ?fs)] []" using within_initial [of 6 "fields_bytes ?fs"] len by (simp add: bytes)
  obtain d1 e1 where start: "readNestedTlvsStart 6 ?d = Inr (e1, d1)" "took ?d d1 e1 ?fs (fields_bytes [] @ [])"
    using within_readNestedTlvsStart [OF w] by blast
  have b: "dec_offset d1 = of_nat b"
  proof -
    have up: "dec_wf ?d" "upcoming ?d = tlvBytes 6 (fields_bytes ?fs) @ []" using w by (simp_all add: facing_def)
    show ?thesis using start(1) tlv_upcoming(1) [OF up]
      by (auto simp: readNestedTlvsStart_def b_def bytes_def portion_def advance_def dec_initialize_def tlvBytes_def [of 6])
  qed
  have w1: "facing d1 e1 ((ndn_Tlv_Name, name_bytes (dv_name v)) # (20, fields_bytes (metaInfo_fields (dv_metaInfo v))) #
      (21, blob_bytes (dv_content v)) # (22, fields_bytes fs) # [?val]) []"
    using took_within [OF start(2)] by (simp add: unsigned_fields_def)
  obtain lcs x y d2 where n: "decodeTlvName maxNameComponents d1 = Some (Inr (lcs, x, y, d2))" "Name_setLite (dec_input d1) lcs = Inr (wire_name (dv_name v))"
    "took d1 d2 e1 ((20, fields_bytes (metaInfo_fields (dv_metaInfo v))) # (21, blob_bytes (dv_content v)) # (22, fields_bytes fs) # [?val]) []"
    using decodeTlvName_back [OF w1 ok(1)] by blast
  note w2 = took_within [OF n(3)]
  obtain dm d3 where m: "decodeMetaInfo d2 = Some (Inr (dm, d3))" "MetaInfo_setLite (dec_input d2) dm = Inr (wire_metaInfo (dv_metaInfo v))"
    "took d2 d3 e1 ((21, blob_bytes (dv_content v)) # (22, fields_bytes fs) # [?val]) []"
    using decodeMetaInfo_back [OF w2 ok(2)] by blast
  note w3 = took_within [OF m(3)]
  obtain c d4 where c: "readOptionalBlobTlv 21 e1 d3 = Inr (Some c, d4)" "slice_bytes (dec_input d3) c = Some (blob_bytes (dv_content v))"
    "took d3 d4 e1 ((22, fields_bytes fs) # [?val]) []"
    using within_readOptionalBlobTlv [OF w3, of 21] by auto
  obtain ls d5 where s: "decodeTlvSignatureInfo malformed d4 = Some (Inr (ls, d5))" "signature_with sig (dec_input d4) ls" "took d4 d5 e1 [?val] []"
    using decodeTlvSignatureInfo_back [OF took_within [OF c(3)] info] by blast
  obtain sv d6 where sv: "readBlobTlv 23 d5 = Inr (sv, d6)" "slice_bytes (dec_input d5) sv = Some (blob_bytes (signature_value sig))" "took d5 d6 e1 [] []"
    using within_readBlobTlv [OF took_within [OF s(3)]] by blast
  have inp: "dec_input d1 = bytes" "dec_input d2 = bytes" "dec_input d3 = bytes" "dec_input d4 = bytes" "dec_input d5 = bytes"
    using took_input [OF start(2)] took_input [OF n(3)] took_input [OF m(3)] took_input [OF c(3)] took_input [OF s(3)] by (simp_all add: dec_initialize_def)
  have e5: "dec_offset d5 = of_nat (b + length portion)"
    using took_within [OF s(3)] took_within [OF start(2)] b by (simp add: facing_def portion_def)
  have peek: "peekType 20 e1 d2 = Inr True" using within_peek [OF w2, of 20] by simp
  let ?data = "\<lparr>dd_signature = ls, dd_signatureValue = sv, dd_name = lcs, dd_metaInfo = dm, dd_content = Some c\<rparr>"
  have "decodeTlvData malformed ?d = Some (Inr (?data, of_nat b, of_nat (b + length portion), d6))"
    using start(1) n(1) peek m(1) c(1) s(1) sv(1) within_finish [OF took_within [OF sv(3)]] b e5 by (simp add: decodeTlvData_def Let_def)
  moreover have "Data_setLite bytes ?data = Inr (wire_data v)"
    using n(2) m(2) c(2) s(2) sv(2) inp sig by (simp add: Data_setLite_def signature_with_def Blob_copyOptional_def Blob_copy_def wire_data_def)
  ultimately show ?thesis by blast
qed

lemma Data_getLite_ok:
  assumes "name_wire_ok (dv_name v)" "dv_signature v = Some sig" "signature_info sig fs"
  shows "Data_getLite v = Inr \<lparr>ld_signature = sig, ld_name = dv_name v, ld_metaInfo = MetaInfo_getLite (dv_metaInfo v), ld_content = dv_content v\<rparr>"
proof -
  have "keyLocator_wire_ok k \<Longrightarrow> KeyLocator_getLite k = Inr k" for k
    by (simp add: keyLocator_wire_ok_def KeyLocator_getLite_def Name_getLite_ok)
  then have "signature_getLite sig = Inr sig" using assms(3) by (cases sig) auto
  then show ?thesis using assms(1,2) by (simp add: Data_getLite_def Name_getLite_ok)
qed

definition signed_portion :: "data_values \<Rightarrow> field list \<Rightarrow> byte list" where
  "signed_portion v fs = fields_bytes (unsigned_fields v @ [(22, fields_bytes fs)])"

definition data_value :: "data_values \<Rightarrow> field list \<Rightarrow> byte list" where
  "data_value v fs = signed_portion v fs @ tlvBytes 23 (case dv_signature v of None \<Rightarrow> [] | Some sig \<Rightarrow> blob_bytes (signature_value sig))"

definition data_encoding :: "data_values \<Rightarrow> field list \<Rightarrow> signedBlob" where
  "data_encoding v fs =
    (let bytes = tlvBytes 6 (data_value v fs); b = length bytes - length (data_value v fs)
     in \<lparr>sb_bytes = bytes, sb_signedPortionBeginOffset = b, sb_signedPortionEndOffset = b + length (signed_portion v fs)\<rparr>)"

lemma Tlv0_3_encodeData_eq:
  assumes ok: "name_wire_ok (dv_name v)" "metaInfo_wire_ok (dv_metaInfo v)" and sig: "dv_signature v = Some sig" "signature_info sig fs"
  shows "Tlv0_3_encodeData v = Some (Inr (data_encoding v fs))"
  using encodeTlvData_bytes [OF ok sig(2) refl, of 1500] sig(1)
  by (auto simp: Tlv0_3_encodeData_def Data_getLite_ok [OF ok(1) sig] lift_decoding_def data_encoding_def data_value_def signed_portion_def Let_def
      simp del: length_tlvBytes)

text \<open>
  What the format does not keep: a missing content, signature or component value comes back empty, times come back
  as whole milliseconds (those of a validity period as whole seconds), the final block identifier loses its type, and
  fields that belong to another kind of key locator or signature are dropped.
\<close>

lemma data_wire:
  assumes "data_wire_ok v" and "\<forall>sb. Tlv0_3_encodeData v = Some (Inr sb) \<longrightarrow> length (sb_bytes sb) < 2 ^ 63"
  shows "\<exists>sb. Tlv0_3_encodeData v = Some (Inr sb) \<and>
    Tlv0_3_decodeData malformed (sb_bytes sb) = Some (Inr (wire_data v, sb_signedPortionBeginOffset sb, sb_signedPortionEndOffset sb))"
proof -
  obtain sig fs where sig: "dv_signature v = Some sig" "signature_info sig fs" and ok: "name_wire_ok (dv_name v)" "metaInfo_wire_ok (dv_metaInfo v)"
    using assms(1) by (auto simp: data_wire_ok_def signature_wire_ok_def split: option.splits)
  let ?portion = "fields_bytes (unsigned_fields v @ [(22, fields_bytes fs)])"
  let ?val = "?portion @ tlvBytes 23 (blob_bytes (signature_value sig))"
  let ?bytes = "tlvBytes 6 ?val"
  let ?b = "length ?bytes - length ?val"
  have sb: "data_encoding v fs = \<lparr>sb_bytes = ?bytes, sb_signedPortionBeginOffset = ?b, sb_signedPortionEndOffset = ?b + length ?portion\<rparr>"
    using sig(1) by (simp add: data_encoding_def data_value_def signed_portion_def Let_def)
  have enc: "Tlv0_3_encodeData v = Some (Inr (data_encoding v fs))" by (rule Tlv0_3_encodeData_eq [OF ok sig])
  then have len: "length ?bytes < 2 ^ 63" using assms(2) sb by fastforce
  obtain data d where d: "decodeTlvData malformed (dec_initialize ?bytes) = Some (Inr (data, of_nat ?b, of_nat (?b + length ?portion), d))"
    "Data_setLite ?bytes data = Inr (wire_data v)"
    using decodeTlvData_back [OF ok sig(2,1) len] by blast
  have "?b + length ?portion \<le> length ?bytes" by (simp add: tlvBytes_def [of 6] del: length_tlvBytes)
  moreover have "unat (of_nat k :: u64) = k" if "k \<le> length ?bytes" for k
    by (intro unat_of_nat_u64 less_trans [OF le_less_trans [OF that len]]) simp
  ultimately have "unat (of_nat (?b + length ?portion) :: u64) = ?b + length ?portion" "unat (of_nat ?b :: u64) = ?b" by (blast, simp)
  then have "Tlv0_3_decodeData malformed ?bytes = Some (Inr (wire_data v, ?b, ?b + length ?portion))"
    using d by (simp add: Tlv0_3_decodeData_def lift_decoding_def)
  then show ?thesis using enc sb by (intro exI [of _ "data_encoding v fs"]) simp
qed

text \<open>
  The wire format as an argument of the packet.  A loop without end and without effects has undefined behaviour in C++.
\<close>

definition returned :: "(error + 'a) option \<Rightarrow> error + 'a" where
  "returned r = (case r of None \<Rightarrow> Inl Undefined_behaviour | Some x \<Rightarrow> x)"

definition tlv_env :: "(byte list \<Rightarrow> int) \<Rightarrow> (byte list \<Rightarrow> byte list) \<Rightarrow> unit wire_env" where
  "tlv_env malformed sha256 = \<lparr>env_default = (),
     env_encodeData = (\<lambda>_ v. returned (Tlv0_3_encodeData v)),
     env_decodeData = (\<lambda>_ bytes. returned (Tlv0_3_decodeData malformed bytes)),
     env_sha256 = sha256\<rparr>"

lemma data_wireEncode_succeeds:
  assumes "data_inv env n d" "n < 2 ^ 64" "env_encodeData env w (data_get d) = Inr sb"
  shows "\<exists>e d'. data_wireEncode env w d = Inr (e, d')"
proof -
  obtain e d1 where d1: "data_getDefaultWireEncoding d = (e, d1)" by fastforce
  then have "data_get d1 = data_get d" using data_getDefaultWireEncoding_ok [OF assms(1,2)] by blast
  then show ?thesis using d1 assms(3) by (cases e) (auto simp: data_wireEncode_def)
qed

text \<open>
  C5. Round trip of data packets.  A packet that went through any sequence of fewer than \<open>2^64\<close> operations and whose
  fields the format can carry (with 32 bytes in every parameters digest of its name) is encoded in TLV, from its fields or from the cached encoding, and the decoder
  reads the packet's values from the bytes, up to what the format does not keep, and finds the signed portion where the
  encoder put it.
\<close>

theorem data_packet_roundtrip:
  assumes "data_run (tlv_env malformed sha256) ops (Data nm) = Inr d" and "length ops < 2 ^ 64" and "data_wire_ok (data_get d)"
    and "\<forall>sb. Tlv0_3_encodeData (data_get d) = Some (Inr sb) \<longrightarrow> length (sb_bytes sb) < 2 ^ 63"
  shows "\<exists>e d' v. data_wireEncode (tlv_env malformed sha256) () d = Inr (e, d') \<and> data_get d' = data_get d \<and>
    Tlv0_3_decodeData malformed (sb_bytes e) = Some (Inr (v, sb_signedPortionBeginOffset e, sb_signedPortionEndOffset e)) \<and>
    (v = data_get d \<or> v = wire_data (data_get d))"
proof -
  let ?env = "tlv_env malformed sha256"
  have inv: "data_inv ?env (0 + length ops) d" by (rule data_run_inv [OF data_new_inv]) (use assms(1,2) in simp_all)
  obtain sb where sb: "Tlv0_3_encodeData (data_get d) = Some (Inr sb)"
    "Tlv0_3_decodeData malformed (sb_bytes sb) = Some (Inr (wire_data (data_get d), sb_signedPortionBeginOffset sb, sb_signedPortionEndOffset sb))"
    using data_wire [OF assms(3,4)] by blast
  then have "env_encodeData ?env () (data_get d) = Inr sb" by (simp add: tlv_env_def returned_def)
  then obtain e d' where e: "data_wireEncode ?env () d = Inr (e, d')"
    using data_wireEncode_succeeds [OF inv, of "()" sb] assms(2) by auto
  have "represents ?env () (data_get d) e \<and> data_get d' = data_get d"
    using data_wireEncode_ok [OF inv] assms(2) e by simp
  then show ?thesis using e sb by (auto simp: represents_def tlv_env_def returned_def split: option.splits)
qed

definition packet_ops :: "unit data_op list" where
  "packet_ops = [EditName (\<lambda>n. n @ [genericComponent [97]]), SetContent (Some [1, 2]),
     SetSignature \<lparr>ver_value = DigestSha256Signature (Some [9]) ValidityPeriod0, ver_changeCount = 0\<rparr>]"

definition packet_values :: data_values where
  "packet_values = \<lparr>dv_signature = Some (DigestSha256Signature (Some [9]) ValidityPeriod0), dv_name = [genericComponent [97]],
     dv_metaInfo = MetaInfo0, dv_content = Some [1, 2]\<rparr>"

lemma packet_values_ok:
  "data_wire_ok packet_values"
  "Tlv0_3_encodeData packet_values = Some (Inr (data_encoding packet_values [(27, nonNegativeIntegerBytes 0)]))"
  "length (sb_bytes (data_encoding packet_values [(27, nonNegativeIntegerBytes 0)])) < 8800"
proof -
  have info: "signature_info (DigestSha256Signature (Some [9]) ValidityPeriod0) [(27, nonNegativeIntegerBytes 0)]"
    by (simp add: ValidityPeriod0_def period_wire_ok_def period_fields_def blob_field_def)
  have ok: "name_wire_ok (dv_name packet_values)" "metaInfo_wire_ok (dv_metaInfo packet_values)"
    by (simp_all add: packet_values_def name_wire_ok_def component_wire_ok_def genericComponent_def maxNameComponents_def
        metaInfo_wire_ok_def MetaInfo0_def time_wire_ok_def)
  show "data_wire_ok packet_values" using ok info by (auto simp: data_wire_ok_def signature_wire_ok_def packet_values_def)
  show "Tlv0_3_encodeData packet_values = Some (Inr (data_encoding packet_values [(27, nonNegativeIntegerBytes 0)]))"
    using Tlv0_3_encodeData_eq [OF ok _ info] by (simp add: packet_values_def)
  show "length (sb_bytes (data_encoding packet_values [(27, nonNegativeIntegerBytes 0)])) < 8800"
    by (simp add: data_encoding_def data_value_def signed_portion_def unsigned_fields_def packet_values_def MetaInfo0_def metaInfo_fields_def
        number_field_def blob_field_def time_number_def Let_def sizeOfBlobTlv_def sizeOfVarNumber_def sizeOfNonNegativeInteger_def
        genericComponent_def Component0_def)
qed

theorem data_packet_roundtrip_witness:
  "\<exists>d e d' v. data_run (tlv_env (\<lambda>_. 0) (\<lambda>bs. bs)) packet_ops (Data \<lparr>ver_value = [], ver_changeCount = 0\<rparr>) = Inr d \<and>
    data_wireEncode (tlv_env (\<lambda>_. 0) (\<lambda>bs. bs)) () d = Inr (e, d') \<and>
    Tlv0_3_decodeData (\<lambda>_. 0) (sb_bytes e) = Some (Inr (v, sb_signedPortionBeginOffset e, sb_signedPortionEndOffset e)) \<and>
    dv_content v = Some [1, 2] \<and> dv_name v = [genericComponent [97]]"
proof -
  let ?env = "tlv_env (\<lambda>_. 0) (\<lambda>bs. bs)"
  let ?run = "data_run ?env packet_ops (Data \<lparr>ver_value = [], ver_changeCount = 0\<rparr>)"
  have run: "?run = Inr (projr ?run)" by (simp add: packet_ops_def)
  have v: "data_get (projr ?run) = packet_values"
    by (simp add: packet_ops_def packet_values_def data_get_def data_editName_def data_setContent_def data_setSignature_def Data_def counting)
  have len: "\<forall>sb. Tlv0_3_encodeData packet_values = Some (Inr sb) \<longrightarrow> length (sb_bytes sb) < 2 ^ 63"
    using packet_values_ok(2,3) by auto
  have "dv_content (wire_data packet_values) = Some [1, 2]" "dv_name (wire_data packet_values) = [genericComponent [97]]"
    "dv_content packet_values = Some [1, 2]" "dv_name packet_values = [genericComponent [97]]"
    by (simp_all add: packet_values_def wire_data_def wire_name_def wire_component_def genericComponent_def)
  then show ?thesis
    using data_packet_roundtrip [OF run, unfolded v, OF _ packet_values_ok(1) len] run by (auto simp: packet_ops_def)
qed

end
