(* ===== verification/Segments.thy ===== *)
theory Segments
  imports Content_Cache Name_Map Name_Uri Wire_Data
begin

text \<open>
  Segmented content: the in-memory storage (\<open>src/in-memory-storage\<close>), the publisher of PSync
  (\<open>src/sync/detail/psync-segment-publisher.cpp\<close>) that cuts content into segments and stores them, and the
  segment fetcher (\<open>src/util/segment-fetcher.cpp\<close>) that asks for segments one after the other.  The composition
  is shown: what is published is what is fetched, except for content whose length is a multiple of the
  segment size.

  Signing is an argument; interests, data sent to the Face, delayed calls and the callbacks of the fetcher are outputs.
\<close>

section \<open>In-memory storage\<close>

type_synonym 'w storage = "'w data name_map"

definition storage_insert :: "'w wire_env \<Rightarrow> 'w data \<Rightarrow> 'w storage \<Rightarrow> error + ('w data \<times> 'w storage)" where
  "storage_insert env data cache =
    bindE (data_getFullName env (env_default env) data) (\<lambda>(fullName, data).
      Inr (data, nm_assign fullName (data_copy data) cache))"

fun storage_find :: "name \<Rightarrow> 'w storage \<Rightarrow> 'w data option" where
  "storage_find name [] = None"
| "storage_find name ((fullName, data) # rest) = (if name_match name fullName then Some data else storage_find name rest)"

definition storage_findInterest :: "'w interest \<Rightarrow> 'w storage \<Rightarrow> 'w data option" where
  "storage_findInterest interest cache = storage_find (int_getName interest) cache"

definition storage_remove :: "name \<Rightarrow> 'w storage \<Rightarrow> 'w storage" where
  "storage_remove prefix cache =
    takeWhile (\<lambda>x. nkey (fst x) < nkey prefix) cache @
    dropWhile (\<lambda>x. name_match prefix (fst x)) (dropWhile (\<lambda>x. nkey (fst x) < nkey prefix) cache)"

section \<open>The publisher\<close>

datatype 'w publisherOutput = PutData "'w data" | RemoveLater int name

definition maxPacketSize :: nat where
  "maxPacketSize = getMaxNdnPacketSize div 2"

definition segment_name :: "name \<Rightarrow> u64 \<Rightarrow> error + name" where
  "segment_name segmentPrefix segmentNo = bindE (fromSegment segmentNo) (\<lambda>c. Inr (segmentPrefix @ [c]))"

definition segment_data :: "name \<Rightarrow> byte list \<Rightarrow> int \<Rightarrow> component \<Rightarrow> 'w data" where
  "segment_data segmentName bytes freshnessPeriod finalBlockId =
    data_editMetaInfo (\<lambda>m. m\<lparr>mi_finalBlockId := finalBlockId\<rparr>)
      (data_editMetaInfo (\<lambda>m. m\<lparr>mi_freshnessPeriod := freshnessPeriod\<rparr>)
        (data_setContent (Some bytes) (Data \<lparr>ver_value = segmentName, ver_changeCount = 0\<rparr>)))"

record 'w publication =
  pu_storage :: "'w storage"
  pu_outputs :: "'w publisherOutput list"

text \<open>One round of the do-while loop: the segment with the first \<open>maxPacketSize\<close> bytes of what is left.\<close>

definition publish_segment :: "'w wire_env \<Rightarrow> ('w data \<Rightarrow> error + 'w data) \<Rightarrow> u64 \<Rightarrow> name \<Rightarrow> int \<Rightarrow> component \<Rightarrow>
    u64 \<Rightarrow> byte list \<Rightarrow> 'w publication \<Rightarrow> 'w publication \<times> error option" where
  "publish_segment env sign interestSegment segmentPrefix freshnessPeriod finalBlockId segmentNo rest p =
    (case segment_name segmentPrefix segmentNo of
       Inl e \<Rightarrow> (p, Some e)
     | Inr segmentName \<Rightarrow>
         (case sign (segment_data segmentName (take maxPacketSize rest) freshnessPeriod finalBlockId) of
            Inl e \<Rightarrow> (p, Some e)
          | Inr data \<Rightarrow>
              let p = (if interestSegment = segmentNo then p\<lparr>pu_outputs := pu_outputs p @ [PutData data]\<rparr> else p) in
              (case storage_insert env data (pu_storage p) of
                 Inl e \<Rightarrow> (p, Some e)
               | Inr (_, storage) \<Rightarrow>
                   (p\<lparr>pu_storage := storage,
                      pu_outputs := pu_outputs p @ [RemoveLater freshnessPeriod segmentName]\<rparr>, None))))"

function publish_loop :: "'w wire_env \<Rightarrow> ('w data \<Rightarrow> error + 'w data) \<Rightarrow> u64 \<Rightarrow> name \<Rightarrow> int \<Rightarrow> component \<Rightarrow>
    u64 \<Rightarrow> byte list \<Rightarrow> 'w publication \<Rightarrow> 'w publication \<times> error option" where
  "publish_loop env sign interestSegment segmentPrefix freshnessPeriod finalBlockId segmentNo rest p =
    (case publish_segment env sign interestSegment segmentPrefix freshnessPeriod finalBlockId segmentNo rest p of
       (p, Some e) \<Rightarrow> (p, Some e)
     | (p, None) \<Rightarrow>
         if length rest > maxPacketSize
         then publish_loop env sign interestSegment segmentPrefix freshnessPeriod finalBlockId (segmentNo + 1)
                (drop maxPacketSize rest) p
         else (p, None))"
  by pat_completeness auto
termination
  by (relation "measure (\<lambda>(_, _, _, _, _, _, _, rest, _). length rest)")
    (auto simp: maxPacketSize_def getMaxNdnPacketSize_def)

definition publish :: "'w wire_env \<Rightarrow> ('w data \<Rightarrow> error + 'w data) \<Rightarrow> u64 \<Rightarrow> name \<Rightarrow> name \<Rightarrow> byte list \<Rightarrow> int \<Rightarrow>
    'w storage \<Rightarrow> 'w publication \<times> error option" where
  "publish env sign nowMilliseconds interestName dataName content freshnessPeriod storage =
    (let p = \<lparr>pu_storage = storage, pu_outputs = []\<rparr>;
         args = bindE (name_get interestName (-1)) (\<lambda>c.
           bindE (if isSegment c then toSegment c else Inr 0) (\<lambda>interestSegment.
           bindE (fromSegment (of_nat (length content div maxPacketSize))) (\<lambda>finalBlockId.
           bindE (fromVersion nowMilliseconds) (\<lambda>version. Inr (interestSegment, finalBlockId, version)))))
     in case args of
          Inl e \<Rightarrow> (p, Some e)
        | Inr (interestSegment, finalBlockId, version) \<Rightarrow>
            publish_loop env sign interestSegment (dataName @ [version]) freshnessPeriod finalBlockId 0 content p)"

definition replyFromStore :: "name \<Rightarrow> 'w storage \<Rightarrow> bool \<times> 'w publisherOutput list" where
  "replyFromStore interestName storage =
    (case storage_find interestName storage of
       Some data \<Rightarrow> (True, [PutData data])
     | None \<Rightarrow> (False, []))"

section \<open>The fetcher\<close>

datatype fetcherError = DATA_HAS_NO_SEGMENT | SEGMENT_VERIFICATION_FAILED | INTEREST_TIMEOUT

datatype 'w fetcherOutput = ExpressInterest "'w interest" | OnComplete "byte list" | OnError fetcherError

type_synonym contentParts = "byte list list"

definition fetchFirstSegment :: "'w interest \<Rightarrow> 'w interest" where
  "fetchFirstSegment baseInterest = int_setMustBeFresh True (int_setChildSelector 1 (int_copy baseInterest))"

definition fetchNextSegment :: "'w interest \<Rightarrow> name \<Rightarrow> u64 \<Rightarrow> error + 'w interest" where
  "fetchNextSegment originalInterest dataName segment =
    bindE (fromSegment segment) (\<lambda>c.
      Inr (int_setName \<lparr>ver_value = getPrefix dataName (-1) @ [c], ver_changeCount = 1\<rparr>
            (int_setMustBeFresh False (int_setChildSelector 0 (int_copy originalInterest)))))"

definition endsWithSegmentNumber :: "name \<Rightarrow> bool" where
  "endsWithSegmentNumber name \<longleftrightarrow> length name \<ge> 1 \<and> isSegment (name ! (length name - 1))"

text \<open>
  The total size is kept in an \<open>int\<close>.  When it has become negative the vector constructor throws; when
  it has wrapped to a smaller number the copies run over the end of the vector.
\<close>

definition concat_parts :: "contentParts \<Rightarrow> error + byte list" where
  "concat_parts parts =
    (let totalSize = foldl (\<lambda>t part. t + of_nat (length part)) (0 :: 32 word) parts in
     if sint totalSize < 0 then Inl (Runtime_error ''std::length_error'')
     else if sint totalSize \<noteq> int (length (concat parts)) then Inl Undefined_behaviour
     else Inr (concat parts))"

definition onVerified :: "'w data \<Rightarrow> 'w interest \<Rightarrow> contentParts \<Rightarrow> error + (contentParts \<times> 'w fetcherOutput)" where
  "onVerified data originalInterest parts =
    (let name = data_getName data in
     if \<not> endsWithSegmentNumber name then Inr (parts, OnError DATA_HAS_NO_SEGMENT)
     else bindE (name_get name (-1)) (\<lambda>c.
       case toSegment c of
         Inl _ \<Rightarrow> Inr (parts, OnError DATA_HAS_NO_SEGMENT)
       | Inr currentSegment \<Rightarrow>
           let expectedSegmentNumber = of_nat (length parts) in
           if currentSegment \<noteq> expectedSegmentNumber then
             bindE (fetchNextSegment originalInterest name expectedSegmentNumber) (\<lambda>i. Inr (parts, ExpressInterest i))
           else
             let parts = parts @ [blob_bytes (d_content data)];
                 finalBlockId = mi_finalBlockId (cc_get (d_metaInfo data));
                 next_one = bindE (fetchNextSegment originalInterest name (expectedSegmentNumber + 1))
                   (\<lambda>i. Inr (parts, ExpressInterest i))
             in if blob_size (c_value finalBlockId) > 0 then
                  (case toSegment finalBlockId of
                     Inl _ \<Rightarrow> Inr (parts, OnError DATA_HAS_NO_SEGMENT)
                   | Inr finalSegmentNumber \<Rightarrow>
                       if currentSegment = finalSegmentNumber
                       then bindE (concat_parts parts) (\<lambda>content. Inr (parts, OnComplete content))
                       else next_one)
                else next_one))"

definition onSegmentReceived :: "('w data \<Rightarrow> bool) \<Rightarrow> 'w interest \<Rightarrow> 'w data \<Rightarrow> contentParts \<Rightarrow>
    error + (contentParts \<times> 'w fetcherOutput)" where
  "onSegmentReceived verifySegment originalInterest data parts =
    (if \<not> verifySegment data then Inr (parts, OnError SEGMENT_VERIFICATION_FAILED)
     else onVerified data originalInterest parts)"

definition fetcher_onTimeout :: "contentParts \<Rightarrow> contentParts \<times> 'w fetcherOutput" where
  "fetcher_onTimeout parts = (parts, OnError INTEREST_TIMEOUT)"

text \<open>
  The fetcher together with a producer that answers an interest by its name, or lets it time out.  The
  result is the final callback; None when the fuel does not reach it.
\<close>

fun fetch_run :: "(name \<Rightarrow> 'w data option) \<Rightarrow> ('w data \<Rightarrow> bool) \<Rightarrow> nat \<Rightarrow> 'w interest \<Rightarrow> contentParts \<Rightarrow>
    (error + 'w fetcherOutput) option" where
  "fetch_run serve verify 0 interest parts = None"
| "fetch_run serve verify (Suc fuel) interest parts =
    (case serve (int_getName interest) of
       None \<Rightarrow> Some (Inr (snd (fetcher_onTimeout parts)))
     | Some data \<Rightarrow>
         (case onSegmentReceived verify interest data parts of
            Inl e \<Rightarrow> Some (Inl e)
          | Inr (parts, ExpressInterest i) \<Rightarrow> fetch_run serve verify fuel i parts
          | Inr (parts, out) \<Rightarrow> Some (Inr out)))"

section \<open>Segment components\<close>

definition seg :: "nat \<Rightarrow> component" where
  "seg k = genericComponent (0 # nonNegativeIntegerBytes (of_nat k))"

lemma fromSegment_seg: "fromSegment (of_nat k) = Inr (seg k)"
  by (simp add: fromSegment_def seg_def fromNumberWithMarker_eq)

lemma toSegment_seg: "toSegment (seg k) = Inr (of_nat k)"
  by (simp add: toSegment_def lift_ndn_def toNumberWithMarker_def seg_def genericComponent_def blob_bytes_def
      be_number_nonNegativeIntegerBytes)

lemma isSegment_seg: "isSegment (seg k)" "blob_size (c_value (seg k)) > 0"
  by (simp_all add: isSegment_def seg_def genericComponent_def blob_size_def blob_bytes_def)

lemma isSegment_toSegment: "isSegment c \<Longrightarrow> \<exists>n. toSegment c = Inr n"
  by (cases "blob_bytes (c_value c)")
    (auto simp: isSegment_def toSegment_def lift_ndn_def toNumberWithMarker_def blob_size_def blob_bytes_def split: option.splits)

lemma seg_value_inj:
  assumes "blob_bytes (c_value (seg j)) = blob_bytes (c_value (seg k))" "j < 2 ^ 64" "k < 2 ^ 64"
  shows "j = k"
proof -
  have "toSegment (seg j) = toSegment (seg k)" using assms(1) by (simp add: toSegment_def toNumberWithMarker_def seg_def genericComponent_def)
  then have "(of_nat j :: u64) = of_nat k" by (simp add: toSegment_seg)
  then show ?thesis using assms(2,3) by (metis unat_of_nat_u64)
qed

section \<open>What a publication stores\<close>

definition chunk :: "byte list \<Rightarrow> nat \<Rightarrow> byte list" where
  "chunk content k = take maxPacketSize (drop (maxPacketSize * k) content)"

definition segment_entry :: "name \<Rightarrow> byte list \<Rightarrow> component \<Rightarrow> nat \<Rightarrow> name \<times> 'w data \<Rightarrow> bool" where
  "segment_entry P content final k x \<longleftrightarrow>
    (\<exists>digest. fst x = P @ [seg k, digest]) \<and> data_getName (snd x) = P @ [seg k] \<and>
    d_content (snd x) = Some (chunk content k) \<and> mi_finalBlockId (cc_get (d_metaInfo (snd x))) = final"

text \<open>
  A store that holds the first \<open>m\<close> segments of a content, and nothing else under the prefix \<open>B\<close>.
\<close>

definition stored_segments :: "name \<Rightarrow> name \<Rightarrow> byte list \<Rightarrow> component \<Rightarrow> nat \<Rightarrow> 'w storage \<Rightarrow> bool" where
  "stored_segments B P content final m st \<longleftrightarrow> nm_ok st \<and> name_match B P \<and>
    (\<forall>x \<in> set st. name_match B (fst x) \<longrightarrow> (\<exists>k < m. segment_entry P content final k x)) \<and>
    (\<forall>k < m. \<exists>x \<in> set st. segment_entry P content final k x)"

lemma om_assign_fresh:
  "\<forall>x \<in> set xs. f (fst x) \<noteq> f n \<Longrightarrow> set (om_assign f n v xs) = insert (n, v) (set xs)"
  by (induction xs) (auto split: if_splits)

lemma data_values_getName: "data_getName d = dv_name (data_get d)"
  by (simp add: data_getName_def data_get_def)

lemma data_getDefaultWireEncoding_values:
  "data_getDefaultWireEncoding d = (e, d') \<Longrightarrow> data_get d' = data_get d \<and> d_defaultFullName d' = d_defaultFullName d"
  by (auto simp: data_getDefaultWireEncoding_def Let_def data_getChangeCount_values data_getChangeCount_same split: if_splits)

lemma data_wireEncode_encodable:
  assumes "env_encodeData env w (data_get d) = Inr sb"
  shows "\<exists>b d'. data_wireEncode env w d = Inr (b, d')"
proof -
  obtain e d1 where d1: "data_getDefaultWireEncoding d = (e, d1)" by fastforce
  then have "env_encodeData env w (data_get d1) = Inr sb" using assms data_getDefaultWireEncoding_values by metis
  with d1 show ?thesis by (cases e) (auto simp: data_wireEncode_def)
qed

lemma data_getFullName_new:
  assumes "env_encodeData env (env_default env) (data_get d) = Inr sb" "\<forall>x. length (env_sha256 env x) = 32" "d_defaultFullName d = []"
  shows "\<exists>digest d'. data_getFullName env (env_default env) d = Inr (data_getName d @ [digest], d') \<and> data_get d' = data_get d"
proof -
  obtain e d1 where e: "data_getDefaultWireEncoding d = (e, d1)" by fastforce
  note d1 = data_getDefaultWireEncoding_values [OF e]
  obtain b d2 where b: "data_wireEncode env (env_default env) d1 = Inr (b, d2)"
    using data_wireEncode_encodable [of env "env_default env" d1 sb] assms(1) d1 by auto
  obtain digest where g: "fromImplicitSha256Digest (Some (env_sha256 env (sb_bytes b))) = Inr digest"
    using assms(2) by (simp add: fromImplicitSha256Digest_def blob_size_def)
  have n: "data_getName d1 = data_getName d" using d1 by (simp add: data_values_getName)
  have "data_get (d2\<lparr>d_defaultFullName := f\<rparr>) = data_get d" for f
    using data_wireEncode_values [OF b] d1 by (simp add: data_get_def)
  then show ?thesis
    using e b d1 assms(3) g n by (auto simp: data_getFullName_def Let_def)
qed

lemma segment_data_values:
  "dv_name (data_get (segment_data n bs f final)) = n" "dv_content (data_get (segment_data n bs f final)) = Some bs"
  "dv_metaInfo (data_get (segment_data n bs f final)) = MetaInfo0\<lparr>mi_freshnessPeriod := f, mi_finalBlockId := final\<rparr>"
  "d_defaultFullName (segment_data n bs f final) = []"
  by (simp_all add: segment_data_def data_get_def data_editMetaInfo_def data_setContent_def Data_def counting)

text \<open>Signing a packet changes the signature and the cached encoding only.\<close>

definition signed_as :: "'w data \<Rightarrow> 'w data \<Rightarrow> bool" where
  "signed_as d d' \<longleftrightarrow> dv_name (data_get d') = dv_name (data_get d) \<and> dv_metaInfo (data_get d') = dv_metaInfo (data_get d) \<and>
     dv_content (data_get d') = dv_content (data_get d) \<and> d_defaultFullName d' = d_defaultFullName d"

text \<open>Segment \<open>k\<close> of a publication can be signed, and encoded once it is signed.\<close>

definition segment_publishable :: "'w wire_env \<Rightarrow> ('w data \<Rightarrow> error + 'w data) \<Rightarrow> name \<Rightarrow> int \<Rightarrow> component \<Rightarrow> byte list \<Rightarrow> nat \<Rightarrow> bool" where
  "segment_publishable env sign P f final content k \<longleftrightarrow>
    (let segment = segment_data (P @ [seg k]) (chunk content k) f final in
     \<exists>d sb. sign segment = Inr d \<and> signed_as segment d \<and> env_encodeData env (env_default env) (data_get d) = Inr sb)"

lemma segment_publishable_data:
  assumes "segment_publishable env sign P f final content k"
  obtains d sb where "sign (segment_data (P @ [seg k]) (chunk content k) f final) = Inr d" "dv_name (data_get d) = P @ [seg k]"
    "dv_content (data_get d) = Some (chunk content k)" "mi_finalBlockId (dv_metaInfo (data_get d)) = final"
    "d_defaultFullName d = []" "env_encodeData env (env_default env) (data_get d) = Inr sb"
  using assms by (auto simp: segment_publishable_def signed_as_def segment_data_values Let_def)

text \<open>
  The wire format of the library encodes a segment when it can carry the name and the freshness period and the signer
  gives it a signature that it can carry.  The signer has to sign the packets whose name and meta information the format
  can carry, and no others.
\<close>

definition signs_packets :: "('w data \<Rightarrow> error + 'w data) \<Rightarrow> bool" where
  "signs_packets sign \<longleftrightarrow>
    (\<forall>d. name_wire_ok (dv_name (data_get d)) \<and> metaInfo_wire_ok (dv_metaInfo (data_get d)) \<longrightarrow>
      (\<exists>d' sig. sign d = Inr d' \<and> signed_as d d' \<and> dv_signature (data_get d') = Some sig \<and> signature_wire_ok sig))"

lemma genericComponent_wire_ok [simp]: "component_wire_ok (genericComponent bs)" "component_wire_ok (seg k)"
  by (simp_all add: component_wire_ok_def genericComponent_def seg_def)

lemma fromVersion_wire_ok: "fromVersion now = Inr version \<Longrightarrow> component_wire_ok version"
  by (auto simp: fromVersion_def fromNumberWithMarker_eq)

lemma tlv_publishable:
  assumes sign: "signs_packets sign" and P: "\<forall>c \<in> set P. component_wire_ok c" "length P < maxNameComponents" and f: "time_wire_ok f"
  shows "segment_publishable (tlv_env malformed sha256) sign P f final content k"
proof -
  let ?d = "segment_data (P @ [seg k]) (chunk content k) f final"
  have n: "name_wire_ok (dv_name (data_get ?d))" using P by (simp add: segment_data_values name_wire_ok_def)
  have m: "metaInfo_wire_ok (dv_metaInfo (data_get ?d))" using f by (simp add: segment_data_values metaInfo_wire_ok_def MetaInfo0_def)
  obtain d sig fs where d: "sign ?d = Inr d" "signed_as ?d d" "dv_signature (data_get d) = Some sig" "signature_info sig fs"
    using sign n m unfolding signs_packets_def signature_wire_ok_def by meson
  have "Tlv0_3_encodeData (data_get d) = Some (Inr (data_encoding (data_get d) fs))"
    by (rule Tlv0_3_encodeData_eq [OF _ _ d(3,4)]) (use n m d(2) in \<open>simp_all add: signed_as_def\<close>)
  then have "env_encodeData (tlv_env malformed sha256) () (data_get d) = Inr (data_encoding (data_get d) fs)"
    by (simp add: tlv_env_def returned_def)
  then show ?thesis using d(1,2) by (auto simp: segment_publishable_def Let_def)
qed

lemma name_match_longer: "name_match a b \<Longrightarrow> name_match a (b @ c)"
  by (auto simp: name_match_iff nth_append)

lemma name_match_key: "nkey a = nkey b \<Longrightarrow> name_match n a = name_match n b"
proof -
  have bytes: "map (\<lambda>c. blob_bytes (c_value c)) a = map (snd \<circ> snd) (nkey a)" for a by (simp add: key_def)
  assume "nkey a = nkey b"
  then show ?thesis unfolding name_match_iff bytes by (metis length_map)
qed

lemma nkey_segment: "nkey (P @ [seg j, a]) = nkey (P @ [seg k, b]) \<Longrightarrow> j < 2 ^ 64 \<Longrightarrow> k < 2 ^ 64 \<Longrightarrow> j = k"
  by (auto simp: key_def intro: seg_value_inj)

lemma publish_segment_ok:
  assumes sha: "\<forall>x. length (env_sha256 env x) = 32" and ok: "segment_publishable env sign P f final content m"
    and st: "stored_segments B P content final m (pu_storage p)" and m: "m < 2 ^ 64"
  shows "\<exists>p'. publish_segment env sign i P f final (of_nat m) (drop (maxPacketSize * m) content) p = (p', None) \<and>
    stored_segments B P content final (Suc m) (pu_storage p')"
proof -
  have name: "segment_name P (of_nat m) = Inr (P @ [seg m])" by (simp add: segment_name_def fromSegment_seg)
  let ?d = "segment_data (P @ [seg m]) (chunk content m) f final"
  obtain d1 sb where d1: "sign ?d = Inr d1" "dv_name (data_get d1) = P @ [seg m]" "dv_content (data_get d1) = Some (chunk content m)"
    "mi_finalBlockId (dv_metaInfo (data_get d1)) = final" "d_defaultFullName d1 = []"
    and sb: "env_encodeData env (env_default env) (data_get d1) = Inr sb"
    by (rule segment_publishable_data [OF ok])
  obtain digest d2 where d2: "data_getFullName env (env_default env) d1 = Inr (data_getName d1 @ [digest], d2)" "data_get d2 = data_get d1"
    using data_getFullName_new [OF sb sha d1(5)] by blast
  let ?full = "P @ [seg m, digest]"
  have ins: "storage_insert env d1 st = Inr (d2, nm_assign ?full (data_copy d2) st)" for st
    using d2(1) d1(2) by (simp add: storage_insert_def data_values_getName)
  have new: "segment_entry P content final m (?full, data_copy d2)"
    using d1 d2(2) data_copy_values [of d2] by (auto simp: segment_entry_def data_get_def data_getName_def)
  have match: "name_match B ?full" using st name_match_longer [of B P "[seg m, digest]"] by (simp add: stored_segments_def)
  have "nkey (fst x) \<noteq> nkey ?full" if x: "x \<in> set (pu_storage p)" for x
  proof
    assume same: "nkey (fst x) = nkey ?full"
    then have "name_match B (fst x)" using match name_match_key by metis
    then obtain k where "k < m" "segment_entry P content final k x" using st x by (auto simp: stored_segments_def)
    then show False using nkey_segment [of P k _ m digest] m same by (force simp: segment_entry_def)
  qed
  then have "set (nm_assign ?full (data_copy d2) (pu_storage p)) = insert (?full, data_copy d2) (set (pu_storage p))"
    by (intro om_assign_fresh) blast
  then have "stored_segments B P content final (Suc m) (nm_assign ?full (data_copy d2) (pu_storage p))"
    using st new unfolding stored_segments_def by (auto simp: om_ok_assign less_Suc_eq)
  then show ?thesis
    using name d1(1) ins by (auto simp: publish_segment_def chunk_def Let_def)
qed

text \<open>The number of segments the loop stores.\<close>

definition segment_count :: "byte list \<Rightarrow> nat" where
  "segment_count content = (if content = [] then 1 else Suc ((length content - 1) div maxPacketSize))"

lemma maxPacketSize_pos [simp]: "0 < maxPacketSize"
  by (simp add: maxPacketSize_def getMaxNdnPacketSize_def)

lemma publish_loop_ok:
  assumes sha: "\<forall>x. length (env_sha256 env x) = 32" and ok: "\<forall>k < segment_count content. segment_publishable env sign P f final content k"
    and len: "length content < 2 ^ 63"
  shows "\<lbrakk>stored_segments B P content final m (pu_storage p); m < segment_count content\<rbrakk> \<Longrightarrow>
    \<exists>p'. publish_loop env sign i P f final (of_nat m) (drop (maxPacketSize * m) content) p = (p', None) \<and>
      stored_segments B P content final (segment_count content) (pu_storage p')"
proof (induction "segment_count content - m" arbitrary: m p)
  case (Suc n)
  have small: "segment_count content < 2 ^ 64"
  proof -
    have "(length content - 1) div maxPacketSize < 2 ^ 63" by (rule le_less_trans [OF div_le_dividend]) (use len in simp)
    then show ?thesis by (simp add: segment_count_def)
  qed
  then have "m < 2 ^ 64" using Suc.prems(2) by linarith
  then obtain p1 where p1: "publish_segment env sign i P f final (of_nat m) (drop (maxPacketSize * m) content) p = (p1, None)"
    "stored_segments B P content final (Suc m) (pu_storage p1)"
    using publish_segment_ok [OF sha _ Suc.prems(1)] ok Suc.prems(2) by blast
  have more: "length (drop (maxPacketSize * m) content) > maxPacketSize \<longleftrightarrow> Suc m < segment_count content"
  proof (cases "content = []")
    case False
    have "length content > maxPacketSize * Suc m \<longleftrightarrow> maxPacketSize * Suc m \<le> length content - 1" using False by (cases content) auto
    also have "\<dots> \<longleftrightarrow> Suc m \<le> (length content - 1) div maxPacketSize"
      by (simp add: less_eq_div_iff_mult_less_eq mult.commute)
    finally show ?thesis using False by (auto simp: segment_count_def)
  qed (simp add: segment_count_def)
  show ?case
  proof (cases "Suc m < segment_count content")
    case True
    have "publish_loop env sign i P f final (of_nat m) (drop (maxPacketSize * m) content) p =
        publish_loop env sign i P f final (of_nat (Suc m)) (drop (maxPacketSize * Suc m) content) p1"
      using p1 more True by (subst publish_loop.simps) (simp add: add.commute)
    moreover have "\<exists>p'. publish_loop env sign i P f final (of_nat (Suc m)) (drop (maxPacketSize * Suc m) content) p1 = (p', None) \<and>
        stored_segments B P content final (segment_count content) (pu_storage p')"
      using Suc.hyps(1) [OF _ p1(2) True] Suc.hyps(2) by simp
    ultimately show ?thesis by simp
  next
    case False
    then have "Suc m = segment_count content" using Suc.prems(2) by simp
    moreover have "publish_loop env sign i P f final (of_nat m) (drop (maxPacketSize * m) content) p = (p1, None)"
      using p1(1) more False by (subst publish_loop.simps) simp
    ultimately show ?thesis using p1(2) by simp
  qed
qed simp

section \<open>Fetching what is stored\<close>

lemma chunks_concat: "concat (map (chunk content) [0..<m]) = take (maxPacketSize * m) content"
proof (induction m)
  case (Suc m)
  then show ?case by (simp add: chunk_def take_add add.commute [of maxPacketSize])
qed simp

lemma storage_find_entry:
  assumes "storage_find n st = Some d"
  shows "\<exists>full. (full, d) \<in> set st \<and> name_match n full"
  using assms by (induction st) (auto split: if_splits)

lemma storage_find_None: "storage_find n st = None \<longleftrightarrow> (\<forall>x \<in> set st. \<not> name_match n (fst x))"
  by (induction st) (auto split: if_splits)

lemma find_segment:
  assumes st: "stored_segments B P content final m st" and m: "m \<le> k \<Longrightarrow> k < 2 ^ 64" "m \<le> 2 ^ 64"
  shows "if k < m then \<exists>d full. storage_find (P @ [seg k]) st = Some d \<and> segment_entry P content final k (full, d)
    else storage_find (P @ [seg k]) st = None"
proof -
  have same: "j = k" if "segment_entry P content final j x" "name_match (P @ [seg k]) (fst x)" "j < 2 ^ 64" "k < 2 ^ 64" for j x
    using that by (auto simp: segment_entry_def name_match_iff intro: seg_value_inj)
  have base: "name_match B n" if "name_match (P @ [seg k]) n" for n
    using name_match_trans [OF name_match_longer that] st by (auto simp: stored_segments_def)
  show ?thesis
  proof (cases "k < m")
    case True
    then obtain x where x: "x \<in> set st" "segment_entry P content final k x" using st by (auto simp: stored_segments_def)
    then have "name_match (P @ [seg k]) (fst x)" by (auto simp: segment_entry_def name_match_iff)
    then obtain d where d: "storage_find (P @ [seg k]) st = Some d"
      using x(1) storage_find_None [of "P @ [seg k]" st] by fastforce
    then obtain full where full: "(full, d) \<in> set st" "name_match (P @ [seg k]) full" using storage_find_entry by blast
    then obtain j where "j < m" "segment_entry P content final j (full, d)"
      using st base [OF full(2)] by (fastforce simp: stored_segments_def)
    then show ?thesis using same [of j "(full, d)"] full(2) True m(2) d by auto
  next
    case False
    then have "k < 2 ^ 64" using m(1) by simp
    then have "\<not> name_match (P @ [seg k]) (fst x)" if "x \<in> set st" for x
      using st same [of _ x] base [of "fst x"] that False m(2) unfolding stored_segments_def by (metis order_less_le_trans)
    then have "storage_find (P @ [seg k]) st = None" by (simp only: storage_find_None) simp
    then show ?thesis using False by simp
  qed
qed

lemma getPrefix_snoc: "length P < 2 ^ 62 \<Longrightarrow> getPrefix (P @ [c]) (-1) = P"
  using getSubName_eq [of "P @ [c]" 0 "length P"] by (simp add: getPrefix_def)

lemma fetchNextSegment_seg:
  assumes "length P < 2 ^ 62"
  shows "\<exists>i'. fetchNextSegment i (P @ [seg j]) (of_nat k) = Inr i' \<and> int_getName i' = P @ [seg k]"
  using getPrefix_snoc [OF assms, of "seg j"]
  by (simp add: fetchNextSegment_def fromSegment_seg int_setName_def int_changed_def int_getName_def counting)

lemma totalSize_wraps: "foldl (\<lambda>t part. t + of_nat (length part)) t parts = t + (of_nat (length (concat parts)) :: 32 word)"
  by (induction parts arbitrary: t) simp_all

lemma concat_parts_short:
  assumes "length (concat parts) < 2 ^ 31"
  shows "concat_parts parts = Inr (concat parts)"
proof -
  have "sint (of_nat (length (concat parts)) :: 32 word) = int (length (concat parts))"
    using assms by (simp add: signed_of_nat signed_take_bit_int_eq_self)
  then show ?thesis by (simp add: concat_parts_def totalSize_wraps del: length_concat)
qed

text \<open>One answer: the expected segment is added, another one makes the fetcher ask for the expected one.\<close>

lemma onVerified_other:
  assumes "segment_entry P content final j (full, d)" "length P < 2 ^ 62" "j \<noteq> length parts" "j < 2 ^ 64" "length parts < 2 ^ 64"
  shows "\<exists>i'. onVerified d i parts = Inr (parts, ExpressInterest i') \<and> int_getName i' = P @ [seg (length parts)]"
proof -
  obtain i' where i': "fetchNextSegment i (P @ [seg j]) (of_nat (length parts)) = Inr i'" "int_getName i' = P @ [seg (length parts)]"
    using fetchNextSegment_seg [OF assms(2)] by blast
  have "(of_nat j :: u64) \<noteq> of_nat (length parts)" using assms(3-5) by (metis unat_of_nat_u64)
  then show ?thesis using assms(1) i'
    by (simp add: segment_entry_def onVerified_def endsWithSegmentNumber_def isSegment_seg name_get_def nth_append toSegment_seg)
qed

lemma onVerified_expected:
  assumes "segment_entry P content (seg q) (length parts) (full, d)" "length P < 2 ^ 62" "length parts < 2 ^ 64" "q < 2 ^ 64"
    and "length (concat parts @ chunk content (length parts)) < 2 ^ 31"
  shows "\<exists>i'. onVerified d i parts = (let parts' = parts @ [chunk content (length parts)] in
      if length parts = q then Inr (parts', OnComplete (concat parts')) else Inr (parts', ExpressInterest i')) \<and>
    int_getName i' = P @ [seg (Suc (length parts))]"
proof -
  obtain i' where i': "fetchNextSegment i (P @ [seg (length parts)]) (of_nat (Suc (length parts))) = Inr i'"
    "int_getName i' = P @ [seg (Suc (length parts))]"
    using fetchNextSegment_seg [OF assms(2)] by blast
  have "(of_nat (length parts) :: u64) = of_nat q \<longleftrightarrow> length parts = q" using assms(3,4) by (metis unat_of_nat_u64)
  then show ?thesis using assms(1,5) i'
    by (intro exI [of _ i'], cases "length parts = q")
      (simp_all add: segment_entry_def onVerified_def endsWithSegmentNumber_def isSegment_seg name_get_def nth_append toSegment_seg
        blob_bytes_def concat_parts_short add.commute Let_def)
qed

lemma fetch_loop:
  assumes st: "stored_segments B P content (seg q) m st" and P: "length P < 2 ^ 62" and verify: "\<forall>d. verify d"
    and m: "m < 2 ^ 64" "q < 2 ^ 64" and len: "length content < 2 ^ 31"
  shows "\<lbrakk>k < m; k \<le> q; storage_find (int_getName i) st = Some d; segment_entry P content (seg q) k (full, d)\<rbrakk> \<Longrightarrow>
    fetch_run (\<lambda>n. storage_find n st) verify (Suc (m - k)) i (map (chunk content) [0..<k]) =
      Some (Inr (if q < m then OnComplete (take (maxPacketSize * Suc q) content) else OnError INTEREST_TIMEOUT))"
proof (induction "m - k" arbitrary: k i d full)
  case (Suc n)
  let ?serve = "\<lambda>n. storage_find n st"
  note d = Suc.prems(3,4)
  let ?parts = "map (chunk content) [0..<k]"
  have parts: "concat (map (chunk content) [0..<Suc k]) = take (maxPacketSize * Suc k) content" by (rule chunks_concat)
  have short: "length (concat ?parts @ chunk content (length ?parts)) < 2 ^ 31"
    using arg_cong [OF parts, of length] len by simp
  obtain i' where i': "onVerified d i ?parts = (let parts' = ?parts @ [chunk content k] in
      if k = q then Inr (parts', OnComplete (concat parts')) else Inr (parts', ExpressInterest i'))" "int_getName i' = P @ [seg (Suc k)]"
    using onVerified_expected [OF _ P _ m(2) short, of "full" d i] d(2) Suc.prems(1) m(1) by auto
  show ?case
  proof (cases "k = q")
    case True
    then show ?thesis using i' d Suc.prems verify parts by (simp add: onSegmentReceived_def)
  next
    case False
    have step: "fetch_run ?serve verify (Suc (m - k)) i ?parts = fetch_run ?serve verify (m - k) i' (map (chunk content) [0..<Suc k])"
      using False i'(1) d(1) verify by (simp add: onSegmentReceived_def Let_def)
    show ?thesis
    proof (cases "Suc k < m")
      case True
      then have "Suc (m - Suc k) = m - k" by simp
      moreover obtain d' full' where "storage_find (int_getName i') st = Some d'" "segment_entry P content (seg q) (Suc k) (full', d')"
        using find_segment [OF st, of "Suc k"] True m(1) i'(2) by auto
      ultimately show ?thesis using step Suc.hyps(1) [OF _ True] Suc.hyps(2) Suc.prems(2) False by simp
    next
      case last: False
      then have "m = Suc k" using Suc.prems(1) by simp
      then have "storage_find (P @ [seg (Suc k)]) st = None" using find_segment [OF st, of "Suc k"] m(1) by auto
      moreover have "\<not> q < m" using \<open>m = Suc k\<close> Suc.prems(2) False by simp
      ultimately show ?thesis using step i'(2) \<open>m = Suc k\<close> by (simp add: fetcher_onTimeout_def)
    qed
  qed
qed simp

lemma fetchFirstSegment_name: "int_getName (fetchFirstSegment i) = int_getName i"
  using int_copy_name [of i]
  by (simp add: fetchFirstSegment_def int_setMustBeFresh_def int_setChildSelector_def int_changed_def int_getName_def)

text \<open>The last segment and the number in the final block identifier agree unless the length is a multiple.\<close>

lemma quotient_of_sum: "r < m \<Longrightarrow> (m * q + r) div m = (q :: nat)"
  by simp

lemma final_segment:
  assumes "content = [] \<or> length content mod maxPacketSize \<noteq> 0"
  shows "segment_count content = Suc (length content div maxPacketSize)"
    "take (maxPacketSize * Suc (length content div maxPacketSize)) content = content"
proof -
  let ?q = "length content div maxPacketSize" and ?r = "length content mod maxPacketSize"
  have eq: "length content = maxPacketSize * ?q + ?r" by simp
  have less: "length content \<le> maxPacketSize * Suc ?q"
    using eq mod_less_divisor [OF maxPacketSize_pos, of "length content"] by (simp only: mult_Suc_right)
  then show "take (maxPacketSize * Suc ?q) content = content" by simp
  show "segment_count content = Suc ?q"
  proof (cases "content = []")
    case False
    then have r: "0 < ?r" "?r < maxPacketSize" using assms by simp_all
    then have "(length content - 1) div maxPacketSize = (maxPacketSize * ?q + (?r - 1)) div maxPacketSize" using eq by (metis Nat.add_diff_assoc One_nat_def Suc_leI)
    also have "\<dots> = ?q" by (rule quotient_of_sum) (use r in linarith)
    finally have "(length content - 1) div maxPacketSize = ?q" .
    then show ?thesis using False by (simp add: segment_count_def)
  qed (simp add: segment_count_def)
qed

lemma final_segment_missing:
  assumes "content \<noteq> []" "length content mod maxPacketSize = 0"
  shows "segment_count content = length content div maxPacketSize"
proof -
  obtain q where q: "length content = maxPacketSize * q" using assms(2) by (metis mod_0_imp_dvd dvdE)
  then obtain p where p: "q = Suc p" using assms(1) by (cases q) auto
  have "length content - 1 = maxPacketSize * p + (maxPacketSize - 1)" using q p maxPacketSize_pos by (cases maxPacketSize) auto
  then have "(length content - 1) div maxPacketSize = p" by simp
  then show ?thesis using assms(1) q p by (simp add: segment_count_def)
qed

lemma segment_count_bound: "length content < 2 ^ 31 \<Longrightarrow> segment_count content < 2 ^ 64" "0 < segment_count content"
proof -
  assume "length content < 2 ^ 31"
  then have "(length content - 1) div maxPacketSize < 2 ^ 31" by (intro le_less_trans [OF div_le_dividend]) simp
  then show "segment_count content < 2 ^ 64" by (simp add: segment_count_def)
qed (simp add: segment_count_def)

text \<open>What is published under a prefix that matches nothing in the store.\<close>

lemma publish_stores:
  fixes content :: "byte list"
  defines "final \<equiv> seg (length content div maxPacketSize)"
  assumes sha: "\<forall>x. length (env_sha256 env x) = 32"
    and ok: "\<And>version. fromVersion now = Inr version \<Longrightarrow>
      \<forall>k < segment_count content. segment_publishable env sign (dataName @ [version]) freshnessPeriod final content k"
    and len: "length content < 2 ^ 31" and i: "interestName \<noteq> []" and match: "name_match B dataName"
    and st: "nm_ok st" "storage_find B st = None"
  obtains p version where "publish env sign now interestName dataName content freshnessPeriod st = (p, None)"
    "stored_segments B (dataName @ [version]) content final (segment_count content) (pu_storage p)"
    "fromVersion now = Inr version"
proof -
  obtain version where version: "fromVersion now = Inr version" by (auto simp: fromVersion_def fromNumberWithMarker_eq)
  obtain s where s: "(if isSegment (last interestName) then toSegment (last interestName) else Inr 0) = Inr s"
    using isSegment_toSegment by (cases "isSegment (last interestName)") auto
  have "stored_segments B (dataName @ [version]) content final 0 st"
    using st name_match_longer [OF match] by (simp add: stored_segments_def storage_find_None)
  then obtain p where p: "publish_loop env sign s (dataName @ [version]) freshnessPeriod final 0 content \<lparr>pu_storage = st, pu_outputs = []\<rparr> = (p, None)"
    "stored_segments B (dataName @ [version]) content final (segment_count content) (pu_storage p)"
    using publish_loop_ok [OF sha ok [OF version], of B 0 "\<lparr>pu_storage = st, pu_outputs = []\<rparr>" s]
      len segment_count_bound(2) by auto
  then show thesis
    using that version s i by (simp add: publish_def name_get_last fromSegment_seg final_def)
qed

lemma fetch_outcome:
  "(if length content div maxPacketSize < segment_count content
    then OnComplete (take (maxPacketSize * Suc (length content div maxPacketSize)) content) else OnError INTEREST_TIMEOUT) =
   (if content = [] \<or> length content mod maxPacketSize \<noteq> 0 then OnComplete content else OnError INTEREST_TIMEOUT)"
  using final_segment [of content] final_segment_missing [of content] by auto

lemma fetch_stored:
  fixes content :: "byte list"
  assumes st: "stored_segments (int_getName baseInterest) P content (seg (length content div maxPacketSize)) (segment_count content) st"
    and P: "length P < 2 ^ 62" and verify: "\<forall>d. verify d" and len: "length content < 2 ^ 31"
  shows "\<exists>fuel. fetch_run (\<lambda>n. storage_find n st) verify fuel (fetchFirstSegment baseInterest) [] =
    Some (Inr (if content = [] \<or> length content mod maxPacketSize \<noteq> 0 then OnComplete content else OnError INTEREST_TIMEOUT))"
proof -
  let ?q = "length content div maxPacketSize" and ?m = "segment_count content" and ?serve = "\<lambda>n. storage_find n st"
  have q: "?q < 2 ^ 64" by (rule le_less_trans [OF div_le_dividend]) (use len in simp)
  note m = segment_count_bound(1) [OF len] segment_count_bound(2) [of content]
  note loop = fetch_loop [OF st P verify m(1) q len, unfolded fetch_outcome]
  let ?i = "fetchFirstSegment baseInterest"
  have name: "int_getName ?i = int_getName baseInterest" by (rule fetchFirstSegment_name)
  obtain x where x: "x \<in> set st" "segment_entry P content (seg ?q) 0 x" using st m(2) by (auto simp: stored_segments_def)
  have "name_match (int_getName baseInterest) (P @ c)" for c using st name_match_longer by (simp add: stored_segments_def)
  then have "storage_find (int_getName ?i) st \<noteq> None"
    using x unfolding storage_find_None name segment_entry_def by fastforce
  then obtain d where d: "storage_find (int_getName ?i) st = Some d" by blast
  then obtain full j where j: "j < ?m" "segment_entry P content (seg ?q) j (full, d)"
    using storage_find_entry [OF d] st unfolding stored_segments_def name by fastforce
  show ?thesis
  proof (cases "j = 0")
    case True
    have "segment_entry P content (seg ?q) 0 (full, d)" using j(2) True by simp
    from loop [OF m(2) le0 d this] show ?thesis by (intro exI) (simp only: upt_0 list.map)
  next
    case False
    then obtain i' where i': "onVerified d ?i [] = Inr ([], ExpressInterest i')" "int_getName i' = P @ [seg 0]"
      using onVerified_other [OF j(2) P, of "[]" ?i] j(1) m by auto
    obtain d' full' where d': "storage_find (int_getName i') st = Some d'" "segment_entry P content (seg ?q) 0 (full', d')"
      using find_segment [OF st, of 0] m i'(2) by auto
    have "fetch_run ?serve verify (Suc (Suc ?m)) ?i [] = fetch_run ?serve verify (Suc ?m) i' []"
      using d i'(1) verify by (subst fetch_run.simps(2)) (simp add: onSegmentReceived_def del: fetch_run.simps)
    also have "\<dots> = fetch_run ?serve verify (Suc (?m - 0)) i' (map (chunk content) [0..<0])" by (simp del: fetch_run.simps)
    finally show ?thesis using loop [OF m(2) le0 d'] by metis
  qed
qed


definition segments_interest :: "unit interest" where
  "segments_interest = Interest True True \<lparr>ver_value = [genericComponent [97]], ver_changeCount = 0\<rparr>"

text \<open>A signer that attaches a digest signature.\<close>

definition digest_signer :: "'w data \<Rightarrow> error + 'w data" where
  "digest_signer d = Inr (data_setSignature \<lparr>ver_value = DigestSha256Signature (Some [9]) ValidityPeriod0, ver_changeCount = 0\<rparr> d)"

lemma digest_signer_ok: "signs_packets digest_signer"
proof -
  have "signature_wire_ok (DigestSha256Signature (Some [9]) ValidityPeriod0)"
    by (simp add: signature_wire_ok_def ValidityPeriod0_def period_wire_ok_def)
  then show ?thesis
    by (simp add: signs_packets_def signed_as_def digest_signer_def data_setSignature_def data_get_def counting)
qed

definition sample_sha256 :: "byte list \<Rightarrow> byte list" where
  "sample_sha256 _ = replicate 32 0"


end
