(* ===== verification/Actions.thy ===== *)
theory Actions
  imports Prelude
begin

text \<open>
  State with exceptions.  The security components run handlers that update shared objects and may throw; this
  theory has their sequencing and the rules by which the components' lemmas are proved.
\<close>

section \<open>Actions\<close>

text \<open>A handler reads and updates a state, and returns or throws; the state it leaves when it throws is kept.\<close>

type_synonym ('s, 'a) act = "'s \<Rightarrow> (error + 'a) \<times> 's"

definition bindS :: "('s, 'a) act \<Rightarrow> ('a \<Rightarrow> ('s, 'b) act) \<Rightarrow> ('s, 'b) act" where
  "bindS m f s = (case m s of (Inl e, s) \<Rightarrow> (Inl e, s) | (Inr x, s) \<Rightarrow> f x s)"

definition returnS :: "'a \<Rightarrow> ('s, 'a) act" where
  "returnS x s = (Inr x, s)"

definition throwS :: "error \<Rightarrow> ('s, 'a) act" where
  "throwS e s = (Inl e, s)"

definition liftS :: "error + 'a \<Rightarrow> ('s, 'a) act" where
  "liftS r s = (r, s)"

definition getS :: "('s \<Rightarrow> 'a) \<Rightarrow> ('s, 'a) act" where
  "getS f s = (Inr (f s), s)"

definition modifyS :: "('s \<Rightarrow> 's) \<Rightarrow> ('s, unit) act" where
  "modifyS f s = (Inr (), f s)"

section \<open>Reasoning\<close>

text \<open>
  \<open>wp m Q E s\<close>: run in \<open>s\<close>, the action returns with \<open>Q\<close> or throws with \<open>E\<close>.  The rules compute it over the
  structure of an action.
\<close>

definition wp :: "('s, 'a) act \<Rightarrow> ('a \<Rightarrow> 's \<Rightarrow> bool) \<Rightarrow> ('s \<Rightarrow> bool) \<Rightarrow> 's \<Rightarrow> bool" where
  "wp m Q E s = (case m s of (Inr x, s') \<Rightarrow> Q x s' | (Inl e, s') \<Rightarrow> E s')"

lemma wp_bindS [simp]: "wp (bindS m f) Q E = wp m (\<lambda>x. wp (f x) Q E) E"
  by (auto simp: wp_def bindS_def fun_eq_iff split: prod.splits sum.splits)

lemma wp_returnS [simp]: "wp (returnS x) Q E = Q x"
  by (simp add: wp_def returnS_def fun_eq_iff)

lemma wp_throwS [simp]: "wp (throwS e) Q E = E"
  by (simp add: wp_def throwS_def fun_eq_iff)

lemma wp_getS [simp]: "wp (getS g) Q E = (\<lambda>s. Q (g s) s)"
  by (simp add: wp_def getS_def fun_eq_iff)

lemma wp_modifyS [simp]: "wp (modifyS h) Q E = (\<lambda>s. Q () (h s))"
  by (simp add: wp_def modifyS_def fun_eq_iff)

lemma wp_liftS: "wp (liftS r) Q E s \<longleftrightarrow> (case r of Inl e \<Rightarrow> E s | Inr x \<Rightarrow> Q x s)"
  by (simp add: wp_def liftS_def)

lemma wp_liftS_I: "(\<And>x. r = Inr x \<Longrightarrow> Q x s) \<Longrightarrow> E s \<Longrightarrow> wp (liftS r) Q E s"
  by (cases r) (simp_all add: wp_liftS)

lemma wp_if: "wp (if b then m else n) Q E s = (if b then wp m Q E s else wp n Q E s)"
  by simp

lemma wp_mono:
  "wp m Q E s \<Longrightarrow> (\<And>x s'. Q x s' \<Longrightarrow> Q' x s') \<Longrightarrow> (\<And>s'. E s' \<Longrightarrow> E' s') \<Longrightarrow> wp m Q' E' s"
  by (auto simp: wp_def split: prod.splits sum.splits)

lemma wp_post: "wp m Q E s \<Longrightarrow> (\<And>x s'. Q x s' \<Longrightarrow> Q' x s') \<Longrightarrow> wp m Q' E s"
  by (rule wp_mono)

lemma wp_snd: "wp m (\<lambda>_. P) P s \<longleftrightarrow> P (snd (m s))"
  by (auto simp: wp_def split: prod.splits sum.splits)

lemma wp_trivial [simp]: "wp m (\<lambda>_ _. True) (\<lambda>_. True) s"
  by (simp add: wp_def split: prod.splits sum.splits)

lemma bindS_returnS [simp]: "bindS (returnS x) f = f x"
  by (simp add: bindS_def returnS_def fun_eq_iff)

lemma bindS_throwS [simp]: "bindS (throwS e) f = throwS e"
  by (simp add: bindS_def throwS_def fun_eq_iff)

lemma bindS_liftS [simp]: "bindS (liftS (Inr x)) f = f x" "bindS (liftS (Inl e)) f = throwS e"
  by (simp_all add: bindS_def throwS_def liftS_def fun_eq_iff)

lemma bindS_apply:
  "m s = (Inr x, s') \<Longrightarrow> bindS m f s = f x s'" "m s = (Inl e, s') \<Longrightarrow> bindS m f s = (Inl e, s')"
  by (simp_all add: bindS_def)

text \<open>An action that keeps a property of the state, whether it returns or throws.\<close>

definition keeps :: "('s \<Rightarrow> bool) \<Rightarrow> ('s, 'a) act \<Rightarrow> bool" where
  "keeps P m \<longleftrightarrow> (\<forall>s. P s \<longrightarrow> wp m (\<lambda>_. P) P s)"

lemma keepsI: "(\<And>s. P s \<Longrightarrow> wp m (\<lambda>_. P) P s) \<Longrightarrow> keeps P m"
  by (simp add: keeps_def)

lemma keepsD: "keeps P m \<Longrightarrow> P s \<Longrightarrow> P (snd (m s))"
  by (simp add: keeps_def wp_snd)

lemma keeps_wp: "keeps P m \<Longrightarrow> P s \<Longrightarrow> (\<And>x s'. P s' \<Longrightarrow> Q x s') \<Longrightarrow> wp m Q (\<lambda>_. True) s"
  by (auto simp: keeps_def intro: wp_mono [of m "\<lambda>_. P" P])

lemma keeps_bindS [intro]: "keeps P m \<Longrightarrow> (\<And>x. keeps P (f x)) \<Longrightarrow> keeps P (bindS m f)"
  by (auto simp: keeps_def elim!: wp_mono)

lemma keeps_simple [simp, intro]: "keeps P (returnS x)" "keeps P (throwS e)" "keeps P (liftS r)" "keeps P (getS g)"
  by (simp_all add: keeps_def wp_liftS split: sum.splits)

lemma keeps_modifyS: "(\<And>s. P s \<Longrightarrow> P (h s)) \<Longrightarrow> keeps P (modifyS h)"
  by (simp add: keeps_def)

lemma keeps_if [intro]: "(b \<Longrightarrow> keeps P m) \<Longrightarrow> (\<not> b \<Longrightarrow> keeps P n) \<Longrightarrow> keeps P (if b then m else n)"
  by simp

lemma keeps_cases [intro]:
  "keeps P m \<Longrightarrow> (\<And>x. keeps P (f x)) \<Longrightarrow> keeps P (case r of None \<Rightarrow> m | Some x \<Rightarrow> f x)"
  "(\<And>e. keeps P (g e)) \<Longrightarrow> (\<And>x. keeps P (f' x)) \<Longrightarrow> keeps P (case q of Inl e \<Rightarrow> g e | Inr x \<Rightarrow> f' x)"
  "(\<And>x y. keeps P (h x y)) \<Longrightarrow> keeps P (case z of (x, y) \<Rightarrow> h x y)"
  "keeps P m \<Longrightarrow> keeps P n \<Longrightarrow> keeps P (case b of True \<Rightarrow> m | False \<Rightarrow> n)"
  by (auto split: option.splits sum.splits prod.splits bool.splits)

end
