(* ===== verification/PSync.thy ===== *)
theory PSync
  imports PSync_State Iblt Segments Actions
begin

text \<open>
  PSync (\<open>src/sync/psync-producer-base.cpp\<close>, \<open>src/sync/full-psync2017.cpp\<close>).  A node keeps the names it knows, with
  their hashes in an invertible Bloom lookup table; its sync interests carry the table, and another node
  answers with the names that the table lacks.

  zlib, signing and the random delay and nonce are arguments.  Calls of the Face, of the segment fetcher and of the
  application are outputs.  A \<open>PendingEntryInfoFull\<close> is shared with a delayed call, so entries have addresses.
\<close>

section \<open>State\<close>

record pendingEntryInfoFull =
  pi_iblt :: iblt
  pi_isRemoved :: bool

datatype 'w psyncOutput =
    RegisterPrefix name
  | SendSyncInterestLater int
  | FetchSegments "'w interest"
  | Published "'w publisherOutput"
  | DelayedRemovePendingEntry int name nat
  | OnNamesUpdate "name list"

record 'w fullPSync =
  ps_iblt :: iblt
  ps_expectedNEntries :: nat
  ps_threshold :: nat
  ps_nameToHash :: "u32 name_map"
  ps_hashToName :: "(u32 \<times> name) list"
  ps_syncPrefix :: "name versioned"
  ps_syncReplyFreshnessPeriod :: int
  ps_syncInterestLifetime :: int
  ps_storage :: "'w storage"
  ps_entries :: "pendingEntryInfoFull list"
  ps_pendingEntries :: "nat name_map"
  ps_outstandingInterestName :: name
  ps_outputs :: "'w psyncOutput list"

record 'w psync_env =
  pe_wire :: "'w wire_env"
  pe_sign :: "'w data \<Rightarrow> error + 'w data"
  pe_zlibCompress :: "byte list \<Rightarrow> error + byte list"
  pe_zlibDecompress :: "byte list \<Rightarrow> error + byte list"
  pe_nowMilliseconds :: u64
  pe_defaultCanBePrefix :: bool
  pe_didSetDefaultCanBePrefix :: bool
  pe_renewalDelay :: int
  pe_nonceDraws :: "byte list list"
  pe_canAddToSyncData :: "(name \<Rightarrow> u32 set \<Rightarrow> bool) option"
  pe_canAddReceivedName :: "(name \<Rightarrow> bool) option"

type_synonym ('w, 'a) pact = "('w fullPSync, 'a) act"

definition FullPSync2017 :: "nat \<Rightarrow> name versioned \<Rightarrow> int \<Rightarrow> int \<Rightarrow> 'w fullPSync" where
  "FullPSync2017 expectedNEntries syncPrefix syncInterestLifetime syncReplyFreshnessPeriod =
    \<lparr>ps_iblt = InvertibleBloomLookupTable expectedNEntries, ps_expectedNEntries = expectedNEntries,
     ps_threshold = expectedNEntries div 2, ps_nameToHash = [], ps_hashToName = [], ps_syncPrefix = syncPrefix,
     ps_syncReplyFreshnessPeriod = syncReplyFreshnessPeriod, ps_syncInterestLifetime = syncInterestLifetime,
     ps_storage = [], ps_entries = [], ps_pendingEntries = [], ps_outstandingInterestName = [], ps_outputs = []\<rparr>"

definition ps_output :: "'w psyncOutput \<Rightarrow> ('w, unit) pact" where
  "ps_output out = modifyS (\<lambda>s. s\<lparr>ps_outputs := ps_outputs s @ [out]\<rparr>)"

section \<open>The tables of names\<close>

definition uri_hash :: "name \<Rightarrow> error + u32" where
  "uri_hash name = bindE (toUri False name) (\<lambda>uri. Inr (ndn_murmurHash3 N_HASHCHECK uri))"

definition insertIntoIblt :: "name \<Rightarrow> ('w, unit) pact" where
  "insertIntoIblt name =
    bindS (liftS (uri_hash name)) (\<lambda>newHash.
    bindS (modifyS (\<lambda>s. s\<lparr>ps_nameToHash := nm_assign name newHash (ps_nameToHash s),
                          ps_hashToName := om_assign id newHash name (ps_hashToName s)\<rparr>)) (\<lambda>_.
    bindS (getS ps_iblt) (\<lambda>t.
    bindS (liftS (iblt_insert newHash t)) (\<lambda>t. modifyS (\<lambda>s. s\<lparr>ps_iblt := t\<rparr>)))))"

definition removeFromIblt :: "name \<Rightarrow> ('w, unit) pact" where
  "removeFromIblt name =
    bindS (getS (\<lambda>s. nm_find name (ps_nameToHash s))) (\<lambda>hashEntry.
      case hashEntry of
        None \<Rightarrow> returnS ()
      | Some hash \<Rightarrow>
          bindS (modifyS (\<lambda>s. s\<lparr>ps_nameToHash := nm_erase name (ps_nameToHash s),
                                ps_hashToName := om_erase id hash (ps_hashToName s)\<rparr>)) (\<lambda>_.
          bindS (getS ps_iblt) (\<lambda>t.
          bindS (liftS (iblt_erase hash t)) (\<lambda>t. modifyS (\<lambda>s. s\<lparr>ps_iblt := t\<rparr>)))))"

definition hasName :: "name \<Rightarrow> 'w fullPSync \<Rightarrow> bool" where
  "hasName name s \<longleftrightarrow> nm_find name (ps_nameToHash s) \<noteq> None"

text \<open>\<open>hashToName_[hash]\<close>: a missing hash is inserted with an empty name.\<close>

definition nameOfHash :: "u32 \<Rightarrow> ('w, name) pact" where
  "nameOfHash hash =
    bindS (getS (\<lambda>s. om_find id hash (ps_hashToName s))) (\<lambda>found.
      case found of
        Some name \<Rightarrow> returnS name
      | None \<Rightarrow> bindS (modifyS (\<lambda>s. s\<lparr>ps_hashToName := om_assign id hash [] (ps_hashToName s)\<rparr>)) (\<lambda>_. returnS []))"

text \<open>The loop over the positive hashes, which a \<open>std::set\<close> iterates in increasing order.\<close>

fun collect_names :: "(name \<Rightarrow> bool) \<Rightarrow> u32 list \<Rightarrow> name list \<Rightarrow> ('w, name list) pact" where
  "collect_names canAdd [] content = returnS content"
| "collect_names canAdd (hash # hashes) content =
    bindS (nameOfHash hash) (\<lambda>name.
    bindS (getS (hasName name)) (\<lambda>has.
      collect_names canAdd hashes (if has \<and> canAdd name then content @ [name] else content)))"

section \<open>Sync interests\<close>

text \<open>\<open>Name::hash\<close>: \<open>int\<close> arithmetic, undefined when it overflows, on \<open>size_t\<close> hashes of the values.\<close>

definition blob_hash :: "blob \<Rightarrow> u64" where
  "blob_hash b = (case b of None \<Rightarrow> 0 | Some bytes \<Rightarrow> foldl (\<lambda>h x. 31 * h + ucast x) 1 bytes)"

definition int_range :: "int \<Rightarrow> bool" where
  "int_range i \<longleftrightarrow> - (2 ^ 31) \<le> i \<and> i < 2 ^ 31"

definition component_hash :: "component \<Rightarrow> error + u64" where
  "component_hash c =
    (if \<not> int_range (37 * typeCode c) then Inl Undefined_behaviour
     else Inr (of_int (37 * typeCode c) + blob_hash (c_value c)))"

fun name_hash_loop :: "u32 \<Rightarrow> name \<Rightarrow> error + u32" where
  "name_hash_loop hashCode [] = Inr hashCode"
| "name_hash_loop hashCode (c # cs) =
    (if \<not> int_range (37 * sint hashCode) then Inl Undefined_behaviour
     else bindE (component_hash c) (\<lambda>h. name_hash_loop (ucast (of_int (37 * sint hashCode) + h)) cs))"

definition name_hash :: "name \<Rightarrow> error + u64" where
  "name_hash n = bindE (name_hash_loop 0 n) (\<lambda>h. Inr (of_int (sint h)))"

definition refresh_nonce :: "byte list list \<Rightarrow> 'w interest \<Rightarrow> error + 'w interest" where
  "refresh_nonce draws i = (case refreshNonce draws i of None \<Rightarrow> Inl Never_returns | Some i \<Rightarrow> Inr i)"

definition sendSyncInterest :: "'w psync_env \<Rightarrow> ('w, unit) pact" where
  "sendSyncInterest env =
    bindS (getS (\<lambda>s. s)) (\<lambda>s.
    bindS (liftS (iblt_encode (pe_zlibCompress env) (ps_iblt s))) (\<lambda>encoding.
      let syncInterestName = ver_value (ps_syncPrefix s) @ [genericComponent encoding] in
      bindS (modifyS (\<lambda>s. s\<lparr>ps_outstandingInterestName := syncInterestName\<rparr>)) (\<lambda>_.
      bindS (ps_output (SendSyncInterestLater (pe_renewalDelay env))) (\<lambda>_.
      bindS (liftS (refresh_nonce (pe_nonceDraws env)
        (int_setNonce (Some (str ''0000''))
          (int_setInterestLifetime (ps_syncInterestLifetime s)
            (Interest (pe_defaultCanBePrefix env) (pe_didSetDefaultCanBePrefix env)
              \<lparr>ver_value = syncInterestName, ver_changeCount = ver_changeCount (ps_syncPrefix s) + 1\<rparr>))))) (\<lambda>syncInterest.
        ps_output (FetchSegments syncInterest))))))"

definition psync_initialize :: "'w psync_env \<Rightarrow> ('w, unit) pact" where
  "psync_initialize env =
    bindS (getS (\<lambda>s. ver_value (ps_syncPrefix s))) (\<lambda>prefix.
    bindS (ps_output (RegisterPrefix prefix)) (\<lambda>_. sendSyncInterest env))"

definition ps_publish :: "'w psync_env \<Rightarrow> name \<Rightarrow> name \<Rightarrow> byte list \<Rightarrow> ('w, unit) pact" where
  "ps_publish env interestName dataName content s =
    (case publish (pe_wire env) (pe_sign env) (pe_nowMilliseconds env) interestName dataName content
            (ps_syncReplyFreshnessPeriod s) (ps_storage s) of
       (p, err) \<Rightarrow>
         (case err of None \<Rightarrow> Inr () | Some e \<Rightarrow> Inl e,
          s\<lparr>ps_storage := pu_storage p, ps_outputs := ps_outputs s @ map Published (pu_outputs p)\<rparr>))"

definition sendSyncData :: "'w psync_env \<Rightarrow> name \<Rightarrow> byte list \<Rightarrow> ('w, unit) pact" where
  "sendSyncData env name content =
    bindS (getS (\<lambda>s. s)) (\<lambda>s.
    bindS (liftS (iblt_encode (pe_zlibCompress env) (ps_iblt s))) (\<lambda>encoding.
    bindS (liftS (name_hash [genericComponent encoding])) (\<lambda>hash.
    bindS (liftS (fromNumber hash GENERIC (-1))) (\<lambda>c.
      let dataName = name @ [c] in
      if name_equals (ps_outstandingInterestName s) name then
        bindS (modifyS (\<lambda>s. s\<lparr>ps_outstandingInterestName := []\<rparr>)) (\<lambda>_.
        bindS (ps_publish env name dataName content) (\<lambda>_. sendSyncInterest env))
      else ps_publish env name dataName content))))"

text \<open>The difference to another table, with the hashes that only we have and those that only the other has.\<close>

definition list_difference :: "iblt \<Rightarrow> iblt \<Rightarrow> error + (bool \<times> u32 set \<times> u32 set)" where
  "list_difference own other =
    bindE (iblt_difference own other) (\<lambda>difference.
      case listEntries difference of None \<Rightarrow> Inl Never_returns | Some r \<Rightarrow> r)"

definition cannot_decode :: "nat \<Rightarrow> bool \<Rightarrow> u32 set \<Rightarrow> u32 set \<Rightarrow> bool" where
  "cannot_decode threshold decoded positive negative \<longleftrightarrow>
    \<not> decoded \<and> (card positive + card negative \<ge> threshold \<or> card positive = 0 \<and> card negative = 0)"

text \<open>\<open>/<prefix>/IBLT\<close> from an interest of that form or \<open>/<prefix>/IBLT/<version>/<segment-no>\<close>.\<close>

definition sync_interest_name :: "name \<Rightarrow> name \<Rightarrow> name option" where
  "sync_interest_name prefixName n =
    (let nameWithoutSyncPrefix = getSubName n (int (length prefixName)) (of_nat (length n)) in
     if length nameWithoutSyncPrefix = 1 then Some n
     else if length nameWithoutSyncPrefix = 3 then Some (getPrefix n (-2))
     else None)"

definition answer_difference ::
    "'w psync_env \<Rightarrow> 'w interest \<Rightarrow> name \<Rightarrow> iblt \<Rightarrow> bool \<Rightarrow> u32 set \<Rightarrow> u32 set \<Rightarrow> ('w, unit) pact" where
  "answer_difference env interest interestName iblt decoded positive negative =
    bindS (getS (\<lambda>s. s)) (\<lambda>s.
      if cannot_decode (ps_threshold s) decoded positive negative then
        let content = map fst (ps_nameToHash s) in
        if content = [] then returnS ()
        else bindS (liftS (psync_wireEncode content)) (ps_publish env (int_getName interest) (int_getName interest))
      else
        bindS (collect_names (\<lambda>name. case pe_canAddToSyncData env of None \<Rightarrow> True | Some f \<Rightarrow> f name negative)
          (sorted_list_of_set positive) []) (\<lambda>content.
          if content \<noteq> [] then bindS (liftS (psync_wireEncode content)) (sendSyncData env interestName)
          else
            let entry = length (ps_entries s) in
            bindS (modifyS (\<lambda>s. s\<lparr>ps_entries := ps_entries s @ [\<lparr>pi_iblt = iblt, pi_isRemoved = False\<rparr>],
                                  ps_pendingEntries := nm_assign interestName entry (ps_pendingEntries s)\<rparr>)) (\<lambda>_.
              ps_output (DelayedRemovePendingEntry (i_interestLifetime interest) (int_getName interest) entry))))"

definition onSyncInterest :: "'w psync_env \<Rightarrow> name \<Rightarrow> 'w interest \<Rightarrow> ('w, unit) pact" where
  "onSyncInterest env prefixName interest =
    bindS (getS (\<lambda>s. s)) (\<lambda>s.
      case replyFromStore (int_getName interest) (ps_storage s) of
        (True, outs) \<Rightarrow> modifyS (\<lambda>s. s\<lparr>ps_outputs := ps_outputs s @ map Published outs\<rparr>)
      | (False, _) \<Rightarrow>
          (case sync_interest_name prefixName (int_getName interest) of
             None \<Rightarrow> returnS ()
           | Some interestName \<Rightarrow>
               bindS (liftS (name_get interestName (-1))) (\<lambda>ibltName.
                 case iblt_initialize (pe_zlibDecompress env) (blob_bytes (c_value ibltName))
                        (InvertibleBloomLookupTable (ps_expectedNEntries s)) of
                   Inl _ \<Rightarrow> returnS ()
                 | Inr iblt \<Rightarrow>
                     bindS (liftS (list_difference (ps_iblt s) iblt)) (\<lambda>(decoded, positive, negative).
                       answer_difference env interest interestName iblt decoded positive negative))))"

section \<open>Pending interests\<close>

definition remove_entry :: "name \<Rightarrow> nat \<Rightarrow> ('w, unit) pact" where
  "remove_entry name entry =
    modifyS (\<lambda>s. s\<lparr>ps_entries := (ps_entries s)[entry := (ps_entries s ! entry)\<lparr>pi_isRemoved := True\<rparr>],
                   ps_pendingEntries := nm_erase name (ps_pendingEntries s)\<rparr>)"

fun satisfy_loop :: "'w psync_env \<Rightarrow> (name \<times> nat) list \<Rightarrow> ('w, unit) pact" where
  "satisfy_loop env [] = returnS ()"
| "satisfy_loop env ((name, entry) # rest) =
    bindS (getS (\<lambda>s. s)) (\<lambda>s.
    bindS (liftS (list_difference (ps_iblt s) (pi_iblt (ps_entries s ! entry)))) (\<lambda>(decoded, positive, negative).
      if cannot_decode (ps_threshold s) decoded positive negative then
        bindS (remove_entry name entry) (\<lambda>_. satisfy_loop env rest)
      else
        bindS (collect_names (\<lambda>_. True) (sorted_list_of_set positive) []) (\<lambda>content.
          if content \<noteq> [] then
            bindS (liftS (psync_wireEncode content)) (\<lambda>encoding.
            bindS (sendSyncData env name encoding) (\<lambda>_.
            bindS (remove_entry name entry) (\<lambda>_. satisfy_loop env rest)))
          else satisfy_loop env rest)))"

definition ps_satisfyPendingInterests :: "'w psync_env \<Rightarrow> ('w, unit) pact" where
  "ps_satisfyPendingInterests env = bindS (getS ps_pendingEntries) (satisfy_loop env)"

definition publishName :: "'w psync_env \<Rightarrow> name \<Rightarrow> ('w, unit) pact" where
  "publishName env name =
    bindS (getS (hasName name)) (\<lambda>has.
      if has then returnS ()
      else bindS (insertIntoIblt name) (\<lambda>_. ps_satisfyPendingInterests env))"

definition deletePendingInterests :: "name \<Rightarrow> ('w, unit) pact" where
  "deletePendingInterests interestName =
    bindS (getS (\<lambda>s. nm_find interestName (ps_pendingEntries s))) (\<lambda>entry.
      case entry of None \<Rightarrow> returnS () | Some entry \<Rightarrow> remove_entry interestName entry)"

definition delayedRemovePendingEntry :: "name \<Rightarrow> nat \<Rightarrow> ('w, unit) pact" where
  "delayedRemovePendingEntry name entry =
    bindS (getS (\<lambda>s. pi_isRemoved (ps_entries s ! entry))) (\<lambda>isRemoved.
      if isRemoved then returnS () else remove_entry name entry)"

section \<open>Sync data\<close>

fun receive_names :: "'w psync_env \<Rightarrow> name list \<Rightarrow> name list \<Rightarrow> ('w, name list) pact" where
  "receive_names env [] names = returnS names"
| "receive_names env (contentName # content) names =
    bindS (getS (hasName contentName)) (\<lambda>has.
      if \<not> has \<and> (case pe_canAddReceivedName env of None \<Rightarrow> True | Some f \<Rightarrow> f contentName) then
        bindS (insertIntoIblt contentName) (\<lambda>_. receive_names env content (names @ [contentName]))
      else receive_names env content names)"

text \<open>Exceptions that the application's callback throws are logged.\<close>

definition onSyncData :: "'w psync_env \<Rightarrow> byte list \<Rightarrow> 'w interest \<Rightarrow> ('w, unit) pact" where
  "onSyncData env encodedContent interest =
    bindS (deletePendingInterests (int_getName interest)) (\<lambda>_.
    bindS (liftS (psync_wireDecode encodedContent)) (\<lambda>content.
    bindS (receive_names env content []) (\<lambda>names.
      if names \<noteq> [] then bindS (ps_output (OnNamesUpdate names)) (\<lambda>_. sendSyncInterest env)
      else returnS ())))"

section \<open>Runs\<close>

datatype 'w psync_op =
    PublishName name
  | RemoveName name
  | SyncInterest name "'w interest"
  | SyncData "byte list" "'w interest"
  | RenewSyncInterest
  | EntryTimeout name nat
  | SegmentTimeout name

fun psync_step :: "'w psync_env \<Rightarrow> 'w psync_op \<Rightarrow> ('w, unit) pact" where
  "psync_step env (PublishName name) = publishName env name"
| "psync_step env (RemoveName name) = removeFromIblt name"
| "psync_step env (SyncInterest prefixName interest) = onSyncInterest env prefixName interest"
| "psync_step env (SyncData encodedContent interest) = onSyncData env encodedContent interest"
| "psync_step env RenewSyncInterest = sendSyncInterest env"
| "psync_step env (EntryTimeout name entry) = delayedRemovePendingEntry name entry"
| "psync_step env (SegmentTimeout name) = modifyS (\<lambda>s. s\<lparr>ps_storage := storage_remove name (ps_storage s)\<rparr>)"

fun psync_run :: "('w psync_env \<times> 'w psync_op) list \<Rightarrow> 'w fullPSync \<Rightarrow> 'w fullPSync" where
  "psync_run [] s = s"
| "psync_run ((env, op) # ops) s = psync_run ops (snd (psync_step env op s))"

end
