(* ===== verification/PSync_Props.thy ===== *)
theory PSync_Props
  imports PSync
begin

text \<open>
  What PSync keeps and what it achieves: the lookup table always stands for exactly the names of the node, and one
  exchange of a sync interest and its answer brings a node up to date with another one.
\<close>

section \<open>The tables of a node\<close>

text \<open>Names that the tables can tell apart: none is empty, and hashes and keys do not collide.\<close>

definition distinct_names :: "name set \<Rightarrow> bool" where
  "distinct_names U \<longleftrightarrow> [] \<notin> U \<and> (\<forall>n \<in> U. \<exists>h. uri_hash n = Inr h) \<and> inj_on nkey U \<and> inj_on uri_hash U"

definition known_names :: "'w fullPSync \<Rightarrow> name set" where
  "known_names s = fst ` set (ps_nameToHash s)"

definition known_hashes :: "'w fullPSync \<Rightarrow> u32 set" where
  "known_hashes s = snd ` set (ps_nameToHash s)"

definition psync_tables :: "name set \<Rightarrow> 'w fullPSync \<Rightarrow> bool" where
  "psync_tables U s \<longleftrightarrow> nm_ok (ps_nameToHash s) \<and> om_ok id (ps_hashToName s) \<and>
    (\<forall>(n, h) \<in> set (ps_nameToHash s). n \<in> U \<and> uri_hash n = Inr h \<and> om_find id h (ps_hashToName s) = Some n) \<and>
    (\<forall>(h, n) \<in> set (ps_hashToName s). n = [] \<or> (n, h) \<in> set (ps_nameToHash s)) \<and>
    represents_keys (ps_iblt s) (known_hashes s) {} \<and>
    length (ps_iblt s) = length (InvertibleBloomLookupTable (ps_expectedNEntries s))"

lemma psync_tablesI:
  assumes "nm_ok (ps_nameToHash s)" "om_ok id (ps_hashToName s)"
    and "\<And>n h. (n, h) \<in> set (ps_nameToHash s) \<Longrightarrow> n \<in> U \<and> uri_hash n = Inr h \<and> om_find id h (ps_hashToName s) = Some n"
    and "\<And>h n. (h, n) \<in> set (ps_hashToName s) \<Longrightarrow> n = [] \<or> (n, h) \<in> set (ps_nameToHash s)"
    and "represents_keys (ps_iblt s) (known_hashes s) {}"
    and "length (ps_iblt s) = length (InvertibleBloomLookupTable (ps_expectedNEntries s))"
  shows "psync_tables U s"
  using assms unfolding psync_tables_def by blast

lemma psync_tables_entry:
  assumes "psync_tables U s" "(n, h) \<in> set (ps_nameToHash s)"
  shows "n \<in> U" "uri_hash n = Inr h" "om_find id h (ps_hashToName s) = Some n" "n \<in> known_names s" "h \<in> known_hashes s"
  using assms by (auto simp: psync_tables_def known_names_def known_hashes_def intro: rev_image_eqI)

lemma psync_tables_back:
  "psync_tables U s \<Longrightarrow> (h, n) \<in> set (ps_hashToName s) \<Longrightarrow> n = [] \<or> (n, h) \<in> set (ps_nameToHash s)"
  by (auto simp: psync_tables_def)

lemma distinct_names_inj:
  assumes "distinct_names U" "m \<in> U" "n \<in> U"
  shows "uri_hash m = uri_hash n \<longleftrightarrow> m = n" "nkey m = nkey n \<longleftrightarrow> m = n"
  using assms by (auto simp: distinct_names_def dest: inj_onD)

lemma hasName_iff:
  assumes "psync_tables U s" "inj_on nkey U" "n \<in> U"
  shows "hasName n s \<longleftrightarrow> n \<in> known_names s"
proof -
  have ok: "nm_ok (ps_nameToHash s)" and U: "\<forall>(m, h) \<in> set (ps_nameToHash s). m \<in> U"
    using assms(1) by (auto simp: psync_tables_def)
  have "hasName n s \<longleftrightarrow> (\<exists>m h. nkey m = nkey n \<and> (m, h) \<in> set (ps_nameToHash s))"
    by (auto simp: hasName_def om_find_entries [OF ok])
  also have "\<dots> \<longleftrightarrow> (\<exists>h. (n, h) \<in> set (ps_nameToHash s))"
    using U assms(2,3) by (fastforce dest: inj_onD)
  finally show ?thesis by (force simp: known_names_def)
qed

lemma om_assign_entry: "y \<in> set (om_assign f n v xs) \<Longrightarrow> y \<in> set xs \<or> snd y = v \<and> f (fst y) = f n"
  by (induction xs) (auto split: if_splits)

lemma om_erase_entries: "om_ok f xs \<Longrightarrow> set (om_erase f n xs) = {x \<in> set xs. f (fst x) \<noteq> f n}"
proof (induction xs)
  case (Cons x xs)
  then show ?case by (cases x) force
qed simp

text \<open>The handlers that leave the names alone.\<close>

definition psync_names :: "name set \<Rightarrow> name set \<Rightarrow> 'w fullPSync \<Rightarrow> bool" where
  "psync_names U K s \<longleftrightarrow> psync_tables U s \<and> known_names s = K"

lemma psync_names_other [simp]:
  "psync_names U K (s\<lparr>ps_storage := x\<rparr>) = psync_names U K s" "psync_names U K (s\<lparr>ps_outputs := o'\<rparr>) = psync_names U K s"
  "psync_names U K (s\<lparr>ps_entries := e\<rparr>) = psync_names U K s" "psync_names U K (s\<lparr>ps_pendingEntries := p\<rparr>) = psync_names U K s"
  "psync_names U K (s\<lparr>ps_outstandingInterestName := n\<rparr>) = psync_names U K s"
  by (simp_all add: psync_names_def psync_tables_def known_hashes_def known_names_def)

lemma ps_publish_keeps [intro]: "keeps (psync_names U K) (ps_publish env i n c)"
  by (rule keepsI) (auto simp: wp_def ps_publish_def split: prod.splits option.splits)

lemma ps_output_keeps [intro]: "keeps (psync_names U K) (ps_output out)"
  unfolding ps_output_def by (rule keeps_modifyS) simp

lemma sendSyncInterest_keeps [intro]: "keeps (psync_names U K) (sendSyncInterest env)"
  unfolding sendSyncInterest_def Let_def by (intro keeps_bindS keeps_simple ps_output_keeps keeps_modifyS) simp

lemma sendSyncData_keeps [intro]: "keeps (psync_names U K) (sendSyncData env n c)"
  unfolding sendSyncData_def Let_def
  by (intro keeps_bindS keeps_simple keeps_if ps_publish_keeps sendSyncInterest_keeps keeps_modifyS) simp

lemma remove_entry_keeps [intro]: "keeps (psync_names U K) (remove_entry n e)"
  unfolding remove_entry_def by (rule keeps_modifyS) simp

lemma nameOfHash_keeps [intro]: "keeps (psync_names U K) (nameOfHash h)"
proof -
  have "psync_names U K (s\<lparr>ps_hashToName := om_assign id h [] (ps_hashToName s)\<rparr>)"
    if "psync_names U K s" "om_find id h (ps_hashToName s) = None" for s :: "'a fullPSync"
  proof -
    have ok: "om_ok id (ps_hashToName s)" using that(1) by (simp add: psync_names_def psync_tables_def)
    have "h \<noteq> k" if "(n, k) \<in> set (ps_nameToHash s)" for n k
      using \<open>psync_names U K s\<close> that \<open>om_find id h (ps_hashToName s) = None\<close> by (fastforce simp: psync_names_def psync_tables_def)
    moreover have "x = (h, []) \<or> x \<in> set (ps_hashToName s)" if "x \<in> set (om_assign id h [] (ps_hashToName s))" for x
      using om_assign_entry [OF that] by (cases x) auto
    ultimately show ?thesis
      using that(1) by (fastforce simp: psync_names_def psync_tables_def known_names_def om_ok_assign om_find_assign [OF ok] known_hashes_def)
  qed
  then show ?thesis
    by (intro keepsI) (auto simp: nameOfHash_def split: option.splits)
qed

lemma collect_names_keeps [intro]: "keeps (psync_names U K) (collect_names canAdd hs content)"
  by (induction hs arbitrary: content) auto

lemma answer_difference_keeps [intro]: "keeps (psync_names U K) (answer_difference env interest n t decoded pos neg)"
  unfolding answer_difference_def Let_def
  by (intro keeps_bindS keeps_simple keeps_if ps_publish_keeps sendSyncData_keeps collect_names_keeps ps_output_keeps keeps_modifyS) simp

lemma onSyncInterest_keeps [intro]: "keeps (psync_names U K) (onSyncInterest env prefix interest)"
  unfolding onSyncInterest_def
  by (intro keeps_bindS keeps_simple keeps_cases answer_difference_keeps keeps_modifyS) simp

lemma satisfy_loop_keeps: "keeps (psync_names U K) (satisfy_loop env es)"
proof (induction es)
  case (Cons e es)
  obtain n k where e: "e = (n, k)" by (cases e)
  show ?case
    unfolding e satisfy_loop.simps
    by (intro keeps_bindS keeps_simple keeps_cases keeps_if remove_entry_keeps collect_names_keeps sendSyncData_keeps Cons.IH)
qed simp

lemma deletePendingInterests_keeps [intro]: "keeps (psync_names U K) (deletePendingInterests n)"
  unfolding deletePendingInterests_def by (intro keeps_bindS keeps_simple keeps_cases remove_entry_keeps)

lemma delayedRemovePendingEntry_keeps: "keeps (psync_names U K) (delayedRemovePendingEntry n e)"
  unfolding delayedRemovePendingEntry_def by auto

section \<open>Adding and removing names\<close>

text \<open>A new name is added to all three tables.\<close>

lemma insertIntoIblt_new:
  assumes s: "psync_tables U s" and U: "distinct_names U" "n \<in> U" and new: "n \<notin> known_names s"
  obtains s' where "insertIntoIblt n s = (Inr (), s')" "psync_tables U s'" "known_names s' = insert n (known_names s)"
    "ps_pendingEntries s' = ps_pendingEntries s"
proof -
  obtain h where h: "uri_hash n = Inr h" using U by (auto simp: distinct_names_def)
  note entry = psync_tables_entry [OF s] and inj = distinct_names_inj [OF U(1) _ U(2)]
  have fresh: "h \<noteq> k" if "(m, k) \<in> set (ps_nameToHash s)" for m k
    using entry [OF that] inj(1) [of m] new h by auto
  have ok: "nm_ok (ps_nameToHash s)" "om_ok id (ps_hashToName s)" "represents_keys (ps_iblt s) (known_hashes s) {}"
    using s by (simp_all add: psync_tables_def)
  obtain t where t: "iblt_insert h (ps_iblt s) = Inr t" "represents_keys t (insert h (known_hashes s)) {}"
    using represents_insert [OF ok(3), of h] fresh by (force simp: known_hashes_def)
  have len: "length t = length (ps_iblt s)"
    using t(1) ok(3) by (auto simp: iblt_insert_def iblt_update_loop represents_keys_def)
  have keys: "\<forall>x \<in> set (ps_nameToHash s). nkey (fst x) \<noteq> nkey n"
    using entry inj(2) new by (metis prod.collapse)
  have names: "set (nm_assign n h (ps_nameToHash s)) = insert (n, h) (set (ps_nameToHash s))"
    by (rule om_assign_fresh [OF keys])
  have hashes: "x = (h, n) \<or> x \<in> set (ps_hashToName s)" if "x \<in> set (om_assign id h n (ps_hashToName s))" for x
    using om_assign_entry [OF that] by (cases x) auto
  let ?s = "s\<lparr>ps_nameToHash := nm_assign n h (ps_nameToHash s), ps_hashToName := om_assign id h n (ps_hashToName s), ps_iblt := t\<rparr>"
  have run: "insertIntoIblt n s = (Inr (), ?s)"
    using h t(1) by (simp add: insertIntoIblt_def bindS_def liftS_def modifyS_def getS_def)
  have names': "known_names ?s = insert n (known_names s)" by (simp add: known_names_def names)
  have "known_hashes ?s = insert h (known_hashes s)" by (simp add: known_hashes_def names)
  moreover have "m \<in> U \<and> uri_hash m = Inr k \<and> om_find id k (om_assign id h n (ps_hashToName s)) = Some m"
    if "(m, k) \<in> set (nm_assign n h (ps_nameToHash s))" for m k
    using that entry [of m k] fresh [of m k] U(2) h by (auto simp: names om_find_assign [OF ok(2)])
  moreover have "m = [] \<or> (m, k) \<in> set (nm_assign n h (ps_nameToHash s))"
    if "(k, m) \<in> set (om_assign id h n (ps_hashToName s))" for m k
    using hashes [OF that] psync_tables_back [OF s] by (auto simp: names)
  moreover have "length (ps_iblt s) = length (InvertibleBloomLookupTable (ps_expectedNEntries s))" using s by (simp add: psync_tables_def)
  ultimately have "psync_tables U ?s"
    by (intro psync_tablesI) (simp_all add: ok t(2) len om_ok_assign)
  with run names' show thesis by (intro that [of ?s]) simp_all
qed

lemma removeFromIblt_names:
  assumes U: "distinct_names U" and s: "psync_tables U s" and n: "n \<in> U"
  shows "psync_names U (known_names s - {n}) (snd (removeFromIblt n s))"
proof -
  have "wp (removeFromIblt n) (\<lambda>_. psync_names U (known_names s - {n})) (psync_names U (known_names s - {n})) s"
  proof (cases "nm_find n (ps_nameToHash s)")
    case None
    then have "n \<notin> known_names s" using hasName_iff [OF s _ n] U by (auto simp: hasName_def distinct_names_def)
    then show ?thesis using s None by (simp add: removeFromIblt_def psync_names_def)
  next
    case (Some h)
    have ok: "nm_ok (ps_nameToHash s)" "om_ok id (ps_hashToName s)" "represents_keys (ps_iblt s) (known_hashes s) {}"
      using s by (simp_all add: psync_tables_def)
    obtain m where m: "nkey m = nkey n" "(m, h) \<in> set (ps_nameToHash s)" using Some om_find_entries [OF ok(1)] by blast
    have own: "k = h \<longleftrightarrow> nkey j = nkey n" if "(j, k) \<in> set (ps_nameToHash s)" for j k
    proof
      assume "k = h"
      then show "nkey j = nkey n"
        using psync_tables_entry [OF s that] psync_tables_entry [OF s m(2)] distinct_names_inj [OF U] m(1) by metis
    next
      assume "nkey j = nkey n"
      then have "j = m"
        using psync_tables_entry [OF s that] psync_tables_entry [OF s m(2)] distinct_names_inj [OF U] m(1) by metis
      then show "k = h" using psync_tables_entry [OF s that] psync_tables_entry [OF s m(2)] by simp
    qed
    obtain t where t: "iblt_erase h (ps_iblt s) = Inr t" "represents_keys t (known_hashes s - {h}) {}"
      using represents_erase [OF ok(3), of h] m(2) by (force simp: known_hashes_def)
    have len: "length t = length (ps_iblt s)"
      using t(1) ok(3) by (auto simp: iblt_erase_def iblt_update_loop represents_keys_def)
    let ?s = "s\<lparr>ps_nameToHash := nm_erase n (ps_nameToHash s), ps_hashToName := om_erase id h (ps_hashToName s), ps_iblt := t\<rparr>"
    have "known_hashes ?s = known_hashes s - {h}"
      using own by (force simp: known_hashes_def om_erase_entries [OF ok(1)])
    moreover have "n' \<in> U \<and> uri_hash n' = Inr k \<and> om_find id k (om_erase id h (ps_hashToName s)) = Some n'"
      if "(n', k) \<in> set (nm_erase n (ps_nameToHash s))" for n' k
      using that s own [of n' k] by (auto simp: psync_tables_def om_erase_entries [OF ok(1)] om_find_erase [OF ok(2)])
    moreover have "n' = [] \<or> (n', k) \<in> set (nm_erase n (ps_nameToHash s))"
      if "(k, n') \<in> set (om_erase id h (ps_hashToName s))" for n' k
      using that s own [of n' k] by (auto simp: psync_tables_def om_erase_entries [OF ok(1)] om_erase_entries [OF ok(2)])
    moreover have "length (ps_iblt s) = length (InvertibleBloomLookupTable (ps_expectedNEntries s))" using s by (simp add: psync_tables_def)
    ultimately have "psync_tables U ?s"
      by (intro psync_tablesI) (simp_all add: ok t(2) len om_ok_erase)
    moreover have "nkey j = nkey n \<longleftrightarrow> j = n" if "(j, k) \<in> set (ps_nameToHash s)" for j k
      using psync_tables_entry(1) [OF s that] distinct_names_inj(2) [OF U _ n] by blast
    then have "known_names ?s = known_names s - {n}" by (force simp: known_names_def om_erase_entries [OF ok(1)])
    ultimately show ?thesis using Some t(1) by (simp add: removeFromIblt_def wp_liftS psync_names_def)
  qed
  then show ?thesis by (simp only: wp_snd)
qed

definition accepts_name :: "'w psync_env \<Rightarrow> name \<Rightarrow> bool" where
  "accepts_name env n = (case pe_canAddReceivedName env of None \<Rightarrow> True | Some f \<Rightarrow> f n)"

lemma receive_names_ok:
  assumes U: "distinct_names U"
  shows "psync_tables U s \<Longrightarrow> set content \<subseteq> U \<Longrightarrow>
    \<exists>new s'. receive_names env content names s = (Inr (names @ new), s') \<and> psync_tables U s' \<and>
      known_names s' = known_names s \<union> {n \<in> set content. accepts_name env n} \<and>
      set new = {n \<in> set content. accepts_name env n} - known_names s"
proof (induction content arbitrary: s names)
  case Nil
  then show ?case by (simp add: returnS_def)
next
  case (Cons n content)
  have nU: "n \<in> U" and cU: "set content \<subseteq> U" using Cons.prems(2) by auto
  have has: "hasName n s \<longleftrightarrow> n \<in> known_names s"
    using hasName_iff [OF Cons.prems(1) _ nU] U by (simp add: distinct_names_def)
  show ?case
  proof (cases "n \<notin> known_names s \<and> accepts_name env n")
    case True
    obtain s1 where s1: "insertIntoIblt n s = (Inr (), s1)" "psync_tables U s1" "known_names s1 = insert n (known_names s)"
      using insertIntoIblt_new [OF Cons.prems(1) U nU] True by blast
    have "receive_names env (n # content) names s = receive_names env content (names @ [n]) s1"
      using True has s1(1) by (simp add: getS_def bindS_def accepts_name_def)
    moreover obtain new s' where "receive_names env content (names @ [n]) s1 = (Inr ((names @ [n]) @ new), s')" "psync_tables U s'"
      "known_names s' = known_names s1 \<union> {n \<in> set content. accepts_name env n}"
      "set new = {n \<in> set content. accepts_name env n} - known_names s1"
      using Cons.IH [OF s1(2) cU] by blast
    ultimately show ?thesis
      using s1(3) True by (intro exI [of _ "n # new"] exI [of _ s']) auto
  next
    case False
    have "receive_names env (n # content) names s = receive_names env content names s"
      using False has by (auto simp: getS_def bindS_def accepts_name_def)
    moreover obtain new s' where "receive_names env content names s = (Inr (names @ new), s')" "psync_tables U s'"
      "known_names s' = known_names s \<union> {n \<in> set content. accepts_name env n}"
      "set new = {n \<in> set content. accepts_name env n} - known_names s"
      using Cons.IH [OF Cons.prems(1) cU] by blast
    ultimately show ?thesis
      using False by (intro exI [of _ new] exI [of _ s']) auto
  qed
qed

text \<open>What an operation does to the set of names.\<close>

fun names_step :: "'w psync_env \<Rightarrow> 'w psync_op \<Rightarrow> name set \<Rightarrow> name set" where
  "names_step env (PublishName n) K = insert n K"
| "names_step env (RemoveName n) K = K - {n}"
| "names_step env (SyncData content interest) K =
    K \<union> (case psync_wireDecode content of Inl _ \<Rightarrow> {} | Inr ns \<Rightarrow> {n \<in> set ns. accepts_name env n})"
| "names_step env op K = K"

fun op_names :: "'w psync_op \<Rightarrow> name set" where
  "op_names (PublishName n) = {n}"
| "op_names (RemoveName n) = {n}"
| "op_names (SyncData content interest) = (case psync_wireDecode content of Inl _ \<Rightarrow> {} | Inr ns \<Rightarrow> set ns)"
| "op_names op = {}"

lemma publishName_names:
  assumes U: "distinct_names U" "n \<in> U" and s: "psync_tables U s"
  shows "psync_names U (insert n (known_names s)) (snd (publishName env n s))"
proof -
  have sat: "keeps (psync_names U K) (ps_satisfyPendingInterests env)" for K
    unfolding ps_satisfyPendingInterests_def by (intro keeps_bindS keeps_simple satisfy_loop_keeps)
  have has: "hasName n s \<longleftrightarrow> n \<in> known_names s" using hasName_iff [OF s] U by (simp add: distinct_names_def)
  show ?thesis
  proof (cases "n \<in> known_names s")
    case True
    then show ?thesis using has s by (auto simp: publishName_def getS_def bindS_def returnS_def psync_names_def)
  next
    case False
    then obtain s1 where "insertIntoIblt n s = (Inr (), s1)" "psync_names U (insert n (known_names s)) s1"
      using insertIntoIblt_new [OF s U] by (auto simp: psync_names_def)
    then show ?thesis using False has keepsD [OF sat] by (simp add: publishName_def getS_def bindS_def)
  qed
qed

lemma sync_data_received:
  assumes U: "distinct_names U" and s: "psync_tables U s" and ns: "psync_wireDecode content = Inr ns" "set ns \<subseteq> U"
  obtains new s' where "onSyncData env content interest s =
      (if new \<noteq> [] then bindS (ps_output (OnNamesUpdate new)) (\<lambda>_. sendSyncInterest env) else returnS ()) s'"
    "psync_names U (known_names s \<union> {n \<in> set ns. accepts_name env n}) s'"
    "set new = {n \<in> set ns. accepts_name env n} - known_names s"
proof -
  have "\<exists>s1. deletePendingInterests (int_getName interest) s = (Inr (), s1)"
    by (cases "nm_find (int_getName interest) (ps_pendingEntries s)")
      (simp_all add: deletePendingInterests_def remove_entry_def getS_def bindS_def returnS_def modifyS_def)
  then obtain s1 where s1: "deletePendingInterests (int_getName interest) s = (Inr (), s1)" by blast
  have "psync_names U (known_names s) s1"
    using keepsD [OF deletePendingInterests_keeps, of U "known_names s" s "int_getName interest"] s s1 by (simp add: psync_names_def)
  then obtain new s' where "receive_names env ns [] s1 = (Inr new, s')" "psync_names U (known_names s \<union> {n \<in> set ns. accepts_name env n}) s'"
    "set new = {n \<in> set ns. accepts_name env n} - known_names s"
    using receive_names_ok [OF U, of s1 ns env "[]"] ns(2) by (auto simp: psync_names_def)
  then show thesis using that s1 ns(1) by (simp add: onSyncData_def bindS_def liftS_def)
qed

lemma onSyncData_names:
  assumes U: "distinct_names U" and s: "psync_tables U s" and op: "op_names (SyncData content interest) \<subseteq> U"
  shows "psync_names U (names_step env (SyncData content interest) (known_names s)) (snd (onSyncData env content interest s))"
proof (cases "psync_wireDecode content")
  case (Inl e)
  have "onSyncData env content interest = bindS (deletePendingInterests (int_getName interest)) (\<lambda>_. throwS e)"
    by (simp add: onSyncData_def Inl)
  then have "keeps (psync_names U (known_names s)) (onSyncData env content interest)" by auto
  from keepsD [OF this, of s] show ?thesis using s Inl by (simp add: psync_names_def)
next
  case (Inr ns)
  have rest: "keeps (psync_names U K) (if new \<noteq> [] then bindS (ps_output (OnNamesUpdate new)) (\<lambda>_. sendSyncInterest env) else returnS ())" for new K
    by auto
  have ns: "set ns \<subseteq> U" using op Inr by simp
  obtain new s' where new: "onSyncData env content interest s =
      (if new \<noteq> [] then bindS (ps_output (OnNamesUpdate new)) (\<lambda>_. sendSyncInterest env) else returnS ()) s'"
    "psync_names U (known_names s \<union> {n \<in> set ns. accepts_name env n}) s'"
    "set new = {n \<in> set ns. accepts_name env n} - known_names s"
    by (rule sync_data_received [OF U s Inr ns])
  from keepsD [OF rest new(2), of new] show ?thesis unfolding new(1) by (simp only: names_step.simps Inr sum.case)
qed

lemma psync_step_names:
  assumes U: "distinct_names U" "op_names op \<subseteq> U" and s: "psync_tables U s"
  shows "psync_names U (names_step env op (known_names s)) (snd (psync_step env op s))"
proof -
  have s': "psync_names U (known_names s) s" using s by (simp add: psync_names_def)
  show ?thesis
  proof (cases op)
    case (SyncData content interest)
    then show ?thesis using onSyncData_names [OF U(1) s] U(2) by (simp only: psync_step.simps)
  qed (use U s s' keepsD [OF onSyncInterest_keeps] keepsD [OF delayedRemovePendingEntry_keeps] keepsD [OF sendSyncInterest_keeps] in
      \<open>auto simp: publishName_names removeFromIblt_names modifyS_def\<close>)
qed

lemma psync_run_names:
  assumes "distinct_names U"
  shows "psync_tables U s \<Longrightarrow> \<forall>x \<in> set ops. op_names (snd x) \<subseteq> U \<Longrightarrow>
    psync_names U (fold (\<lambda>(env, op). names_step env op) ops (known_names s)) (psync_run ops s)"
proof (induction ops arbitrary: s)
  case (Cons x ops)
  obtain env op where x: "x = (env, op)" by (cases x)
  have "psync_names U (names_step env op (known_names s)) (snd (psync_step env op s))"
    using psync_step_names [OF assms, of op s env] Cons.prems x by simp
  then show ?case using Cons x by (auto simp: psync_names_def)
qed (simp add: psync_names_def)

lemma FullPSync2017_tables:
  "0 < n \<Longrightarrow> psync_tables U (FullPSync2017 n prefix lifetime freshness) \<and> known_names (FullPSync2017 n prefix lifetime freshness) = {}"
  using represents_new [of n] by (simp add: psync_tables_def FullPSync2017_def known_hashes_def known_names_def)

text \<open>
  C12. A PSync node keeps a set of names.  Over any sequence of names published and removed, sync interests received,
  sync data received, timers and exceptions, the names that the node knows are exactly what the set operations
  give; its lookup table holds exactly the hashes of these names, and the two maps between names and hashes are
  inverse to each other.  The names that occur have different hashes, and none is empty.
\<close>

theorem psync_names_refine:
  fixes s :: "'w fullPSync"
  assumes "distinct_names U" "0 < n" "\<forall>x \<in> set ops. op_names (snd x) \<subseteq> U"
    and "s = psync_run ops (FullPSync2017 n prefix lifetime freshness)"
  shows "known_names s = fold (\<lambda>(env, op). names_step env op) ops {} \<and>
    represents_keys (ps_iblt s) (known_hashes s) {} \<and>
    (\<forall>m h. (m, h) \<in> set (ps_nameToHash s) \<longleftrightarrow> m \<in> known_names s \<and> uri_hash m = Inr h) \<and>
    (\<forall>m h. m \<noteq> [] \<longrightarrow> om_find id h (ps_hashToName s) = Some m \<longleftrightarrow> (m, h) \<in> set (ps_nameToHash s))"
proof -
  let ?s = "FullPSync2017 n prefix lifetime freshness :: 'w fullPSync"
  have "psync_tables U ?s" "known_names ?s = {}" using FullPSync2017_tables [OF assms(2)] by blast+
  then have "psync_names U (fold (\<lambda>(env, op). names_step env op) ops {}) s"
    using psync_run_names [OF assms(1) _ assms(3), of ?s] assms(4) by simp
  then have K: "known_names s = fold (\<lambda>(env, op). names_step env op) ops {}" and s: "psync_tables U s"
    by (simp_all add: psync_names_def)
  have ok: "om_ok id (ps_hashToName s)" "represents_keys (ps_iblt s) (known_hashes s) {}" using s by (simp_all add: psync_tables_def)
  have "(m, h) \<in> set (ps_nameToHash s) \<longleftrightarrow> m \<in> known_names s \<and> uri_hash m = Inr h" for m h
  proof
    assume "m \<in> known_names s \<and> uri_hash m = Inr h"
    then obtain k where k: "(m, k) \<in> set (ps_nameToHash s)" "uri_hash m = Inr h" by (auto simp: known_names_def)
    then show "(m, h) \<in> set (ps_nameToHash s)" using psync_tables_entry(2) [OF s k(1)] by simp
  qed (use psync_tables_entry [OF s] in blast)
  moreover have "om_find id h (ps_hashToName s) = Some m \<longleftrightarrow> (m, h) \<in> set (ps_nameToHash s)" if "m \<noteq> []" for m h
    using psync_tables_entry(3) [OF s, of m h] psync_tables_back [OF s, of h m] that by (auto simp: om_find_entries [OF ok(1)])
  ultimately show ?thesis using K ok(2) by blast
qed

end
