(* ===== verification/PSync_Exchange.thy ===== *)
theory PSync_Exchange
  imports PSync_Props
begin

text \<open>
  Two PSync nodes.  One sends its sync interest, the other answers it, the segment fetcher collects the answer, and
  the first node adds the names that it receives.
\<close>

section \<open>Fetching from a node\<close>

text \<open>The data packet that a call has put on the Face.\<close>

fun put_data :: "'w psyncOutput list \<Rightarrow> 'w data option" where
  "put_data [] = None"
| "put_data (Published (PutData d) # outs) = Some d"
| "put_data (out # outs) = put_data outs"

text \<open>
  The fetcher against a node that answers its interests.  The node starts with no outputs; what it has put on the Face
  after an interest is the answer, and when it has put nothing the interest times out.  An exception of the handler
  is logged by the node of the Face.
\<close>

fun sync_fetch :: "nat \<Rightarrow> 'w psync_env \<Rightarrow> name \<Rightarrow> 'w interest \<Rightarrow> contentParts \<Rightarrow> 'w fullPSync \<Rightarrow>
    ((error + 'w fetcherOutput) \<times> 'w fullPSync) option" where
  "sync_fetch 0 env prefix interest parts s = None"
| "sync_fetch (Suc fuel) env prefix interest parts s =
    (let s = snd (onSyncInterest env prefix interest (s\<lparr>ps_outputs := []\<rparr>)) in
     case put_data (ps_outputs s) of
       None \<Rightarrow> Some (Inr (snd (fetcher_onTimeout parts)), s)
     | Some data \<Rightarrow>
         (case onSegmentReceived (\<lambda>_. True) interest data parts of
            Inl e \<Rightarrow> Some (Inl e, s)
          | Inr (parts, ExpressInterest i) \<Rightarrow> sync_fetch fuel env prefix i parts s
          | Inr (parts, out) \<Rightarrow> Some (Inr out, s)))"

lemma stored_answer:
  assumes "storage_find (int_getName i) (ps_storage s) = Some d"
  shows "onSyncInterest env prefix i (s\<lparr>ps_outputs := []\<rparr>) = (Inr (), s\<lparr>ps_outputs := [Published (PutData d)]\<rparr>)"
  using assms by (simp add: onSyncInterest_def replyFromStore_def bindS_def getS_def modifyS_def)

lemma no_stored_answer:
  assumes "storage_find (int_getName i) (ps_storage s) = None" "int_getName i = P @ [c]" "length P = length prefix + 3" "length P < 2 ^ 62"
  shows "onSyncInterest env prefix i (s\<lparr>ps_outputs := []\<rparr>) = (Inr (), s\<lparr>ps_outputs := []\<rparr>)"
proof -
  have "length (getSubName (P @ [c]) (int (length prefix)) (of_nat (length (P @ [c])))) = 4"
    using assms(3,4) getSubName_eq [of "P @ [c]" "length prefix" "length (P @ [c])"] by simp
  then have "sync_interest_name prefix (int_getName i) = None" using assms(2) by (simp add: sync_interest_name_def Let_def)
  then show ?thesis using assms(1) by (simp add: onSyncInterest_def replyFromStore_def bindS_def getS_def returnS_def)
qed

lemma onVerified_next:
  assumes "onVerified d i parts = Inr (parts', ExpressInterest i')" "data_getName d = P @ [c]" "length P < 2 ^ 62"
  shows "\<exists>c'. int_getName i' = P @ [c']"
proof -
  have more: "fetchNextSegment i (P @ [c]) k = Inr i' \<Longrightarrow> \<exists>c'. int_getName i' = P @ [c']" for k
    using getPrefix_snoc [OF assms(3), of c]
    by (cases "fromSegment k") (auto simp: fetchNextSegment_def int_setName_def int_changed_def int_getName_def counting)
  have c: "name_get (P @ [c]) (- 1) = Inr c" using name_get_last [of "P @ [c]"] by simp
  show ?thesis
    using assms(1,2) more c
    by (cases "toSegment c"; cases "toSegment (mi_finalBlockId (cc_get (d_metaInfo d)))")
      (simp_all add: onVerified_def Let_def bindE_eq_Inr split: if_splits, blast+)
qed

lemma sync_fetch_stored:
  assumes st: "stored_segments B P content final m st" and P: "length P = length prefix + 3" "length P < 2 ^ 62"
  shows "\<lbrakk>int_getName i = P @ [c]; ps_storage s = st; fetch_run (\<lambda>n. storage_find n st) (\<lambda>_. True) fuel i parts = Some r\<rbrakk> \<Longrightarrow>
    \<exists>s'. sync_fetch fuel env prefix i parts s = Some (r, s')"
proof (induction fuel arbitrary: i c parts s)
  case (Suc fuel)
  show ?case
  proof (cases "storage_find (int_getName i) st")
    case None
    then show ?thesis
      using Suc.prems no_stored_answer [OF _ Suc.prems(1) P, of s env] by (auto simp: Let_def)
  next
    case (Some d)
    obtain full where full: "(full, d) \<in> set st" "name_match (P @ [c]) full" using storage_find_entry Some Suc.prems(1) by metis
    have "name_match B full" using name_match_trans [OF name_match_longer full(2)] st by (simp add: stored_segments_def)
    then obtain k where "data_getName d = P @ [seg k]" using st full(1) by (fastforce simp: stored_segments_def segment_entry_def)
    note more = onVerified_next [OF _ this P(2)]
    have answer: "onSyncInterest env prefix i (s\<lparr>ps_outputs := []\<rparr>) = (Inr (), s\<lparr>ps_outputs := [Published (PutData d)]\<rparr>)"
      using stored_answer Some Suc.prems(2) by blast
    show ?thesis
    proof (cases "\<exists>parts' i'. onVerified d i parts = Inr (parts', ExpressInterest i')")
      case True
      then obtain parts' i' where i': "onVerified d i parts = Inr (parts', ExpressInterest i')" by blast
      obtain c' where "int_getName i' = P @ [c']" using more [OF i'] by blast
      from Suc.IH [OF this, of "s\<lparr>ps_outputs := [Published (PutData d)]\<rparr>"] show ?thesis
        using Suc.prems Some i' answer by (simp add: onSegmentReceived_def Let_def)
    next
      case False
      then show ?thesis
        using Suc.prems Some answer by (auto simp: onSegmentReceived_def Let_def split: sum.splits prod.splits fetcherOutput.splits)
    qed
  qed
qed simp

section \<open>What a publication sends\<close>

lemma publish_loop_outputs:
  "\<exists>outs. pu_outputs (fst (publish_loop env sign i P f final k rest p)) = pu_outputs p @ outs"
proof (induction env sign i P f final k rest p rule: publish_loop.induct)
  case (1 env sign i P f final k rest p)
  have one: "\<exists>outs. pu_outputs (fst (publish_segment env sign i P f final k rest p)) = pu_outputs p @ outs"
    by (auto simp: publish_segment_def Let_def split: sum.splits prod.splits)
  show ?case
  proof (cases "publish_segment env sign i P f final k rest p")
    case (Pair p' e)
    then show ?thesis using one 1 by (subst publish_loop.simps) (auto split: option.splits)
  qed
qed

lemma publish_sends_first:
  fixes content :: "byte list"
  defines "final \<equiv> seg (length content div maxPacketSize)"
  assumes ok: "segment_publishable env sign (dataName @ [version]) f final content 0" and i: "interestName \<noteq> []" "\<not> isSegment (last interestName)"
    and p: "publish env sign now interestName dataName content f st = (p, None)" and version: "fromVersion now = Inr version"
  shows "\<exists>d outs. pu_outputs p = PutData d # outs \<and> (\<forall>x. segment_entry (dataName @ [version]) content final 0 ((dataName @ [version]) @ [seg 0, x], d))"
proof -
  let ?P = "dataName @ [version]" and ?p = "\<lparr>pu_storage = st, pu_outputs = []\<rparr>"
  let ?d = "segment_data (?P @ [seg 0]) (chunk content 0) f final"
  obtain d where d: "sign ?d = Inr d" "dv_name (data_get d) = ?P @ [seg 0]" "dv_content (data_get d) = Some (chunk content 0)"
    "mi_finalBlockId (dv_metaInfo (data_get d)) = final"
    by (rule segment_publishable_data [OF ok])
  have loop: "publish_loop env sign 0 ?P f final 0 content ?p = (p, None)"
    using p i version by (simp add: publish_def name_get_last fromSegment_seg final_def)
  have name: "segment_name ?P 0 = Inr (?P @ [seg 0])" using fromSegment_seg [of 0] by (simp add: segment_name_def)
  obtain p1 e1 where p1: "publish_segment env sign 0 ?P f final 0 content ?p = (p1, e1)" by fastforce
  then have first: "\<exists>outs. pu_outputs p1 = PutData d # outs"
    using d(1) name by (auto simp: publish_segment_def chunk_def Let_def split: sum.splits prod.splits)
  have "e1 = None" using loop p1 by (subst (asm) publish_loop.simps) (auto split: option.splits)
  then have "\<exists>outs. pu_outputs p = pu_outputs p1 @ outs"
    using loop p1 publish_loop_outputs [of env sign 0 ?P f final 1 "drop maxPacketSize content" p1]
    by (subst (asm) publish_loop.simps) (auto split: if_splits)
  then show ?thesis using first d by (auto simp: segment_entry_def data_getName_def data_get_def)
qed

section \<open>The answer to a sync interest\<close>

text \<open>An entry of a table whose count is zero is empty, so the encoding of the table loses nothing.\<close>

lemma count_sum: "he_count (\<Sum>k \<in> S. key_entry k) = of_nat (card S)"
proof -
  have "finite S" by simp
  then show ?thesis
    by (induction S rule: finite_induct) (simp_all add: zero_hashTableEntry_def plus_hashTableEntry_def add.commute)
qed

lemma unat_of_nat_u32: "unat (of_nat n :: u32) = take_bit 32 n"
  by (simp add: unsigned_of_nat)

lemma represents_zero_count:
  assumes t: "represents_keys t S {}" and small: "card S < 2 ^ 32" and e: "e \<in> set t" "he_count e = 0"
  shows "he_isEmpty e"
proof -
  obtain j where j: "j < length t" "e = t ! j" using e(1) by (auto simp: in_set_conv_nth)
  let ?K = "bucket_keys (length t div N_HASH) S j"
  have sum: "e = (\<Sum>k \<in> ?K. key_entry k)"
    using t j by (simp add: represents_keys_def bucket_total_def sum_share)
  have "card ?K < 2 ^ 32" using card_mono [of S ?K] small by (simp add: bucket_keys_def)
  moreover have "(of_nat (card ?K) :: u32) = 0" using e(2) sum count_sum by metis
  ultimately have "card ?K = 0" by (metis take_bit_nat_eq_self unat_0 unat_of_nat_u32)
  then have "?K = {}" by simp
  then show ?thesis using sum by (simp add: he_isEmpty_iff)
qed

text \<open>The names of a node with the given hashes, in the order of the hashes.\<close>

definition name_at :: "'w fullPSync \<Rightarrow> u32 \<Rightarrow> name" where
  "name_at s h = the (om_find id h (ps_hashToName s))"

definition names_of :: "'w fullPSync \<Rightarrow> u32 set \<Rightarrow> name list" where
  "names_of s hashes = map (name_at s) (sorted_list_of_set hashes)"

lemma known_hash:
  assumes "psync_tables U s" "h \<in> known_hashes s"
  obtains n where "(n, h) \<in> set (ps_nameToHash s)" "om_find id h (ps_hashToName s) = Some n"
  using assms psync_tables_entry(3) [OF assms(1)] by (fastforce simp: known_hashes_def)

lemma collect_names_known:
  assumes s: "psync_tables U s" and U: "distinct_names U"
  shows "set hs \<subseteq> known_hashes s \<Longrightarrow>
    collect_names canAdd hs content s = (Inr (content @ filter canAdd (map (name_at s) hs)), s)"
proof (induction hs arbitrary: content)
  case (Cons h hs)
  obtain n where n: "(n, h) \<in> set (ps_nameToHash s)" "om_find id h (ps_hashToName s) = Some n"
    using known_hash [OF s] Cons.prems by (metis list.set_intros(1) subsetD)
  have "hasName n s" using psync_tables_entry(1,4) [OF s n(1)] hasName_iff [OF s] U by (simp add: distinct_names_def)
  moreover have "nameOfHash h s = (Inr n, s)" using n(2) by (simp add: nameOfHash_def bindS_def getS_def returnS_def)
  moreover have "name_at s h = n" using n(2) by (simp add: name_at_def)
  ultimately show ?case using Cons by (simp add: bindS_def getS_def)
qed (simp add: returnS_def)

lemma names_of_set:
  assumes s: "psync_tables U s" and H: "H \<subseteq> known_hashes s"
  shows "set (names_of s H) = {n \<in> known_names s. \<exists>h \<in> H. uri_hash n = Inr h}"
proof -
  have "name_at s h \<in> known_names s \<and> uri_hash (name_at s h) = Inr h" if "h \<in> H" for h
    using known_hash [OF s] psync_tables_entry(2,4) [OF s] H that unfolding name_at_def by (metis option.sel subsetD)
  moreover have "n \<in> (name_at s) ` H" if n: "n \<in> known_names s" "h \<in> H" "uri_hash n = Inr h" for n h
  proof -
    obtain k where k: "(n, k) \<in> set (ps_nameToHash s)" using n(1) by (auto simp: known_names_def)
    then have "om_find id h (ps_hashToName s) = Some n" using psync_tables_entry(2,3) [OF s k] n(3) by simp
    then have "n = name_at s h" by (simp add: name_at_def)
    then show ?thesis using n(2) by simp
  qed
  ultimately show ?thesis by (auto simp: names_of_def)
qed

lemma name_hash_encoding: "\<exists>h. name_hash [genericComponent encoding] = Inr h"
  by (simp add: name_hash_def component_hash_def int_range_def genericComponent_def typeCode_def)

definition zlib_ok :: "(byte list \<Rightarrow> error + byte list) \<Rightarrow> (byte list \<Rightarrow> error + byte list) \<Rightarrow> bool" where
  "zlib_ok compress decompress \<longleftrightarrow> (\<forall>x. \<exists>y. compress x = Inr y \<and> decompress y = Inr x \<and> y \<noteq> [] \<and> hd y \<noteq> 0)"

lemma sendSyncInterest_effect:
  "ps_storage (snd (sendSyncInterest env s)) = ps_storage s \<and> (\<exists>outs. ps_outputs (snd (sendSyncInterest env s)) = ps_outputs s @ outs)"
  by (cases "iblt_encode (pe_zlibCompress env) (ps_iblt s)")
    (auto simp: sendSyncInterest_def Let_def bindS_def getS_def liftS_def modifyS_def throwS_def ps_output_def split: sum.splits)

text \<open>Whatever its outstanding interest is, a node publishes the content under the name with its table's hash.\<close>

lemma sendSyncData_publishes:
  assumes "\<forall>x. \<exists>y. pe_zlibCompress env x = Inr y"
    and p: "\<And>c. component_wire_ok c \<Longrightarrow> \<exists>p. publish (pe_wire env) (pe_sign env) (pe_nowMilliseconds env) name (name @ [c]) content
      (ps_syncReplyFreshnessPeriod s) (ps_storage s) = (p, None)"
  obtains c p outs where "component_wire_ok c" "publish (pe_wire env) (pe_sign env) (pe_nowMilliseconds env) name (name @ [c]) content
      (ps_syncReplyFreshnessPeriod s) (ps_storage s) = (p, None)"
    "ps_storage (snd (sendSyncData env name content s)) = pu_storage p"
    "ps_outputs (snd (sendSyncData env name content s)) = ps_outputs s @ map Published (pu_outputs p) @ outs"
proof -
  obtain enc where enc: "iblt_encode (pe_zlibCompress env) (ps_iblt s) = Inr enc" using assms(1) by (auto simp: iblt_encode_def)
  obtain h where h: "name_hash [genericComponent enc] = Inr h" using name_hash_encoding by blast
  obtain c where c: "fromNumber h GENERIC (- 1) = Inr c" by (auto simp: fromNumber_eq Component_def setType_def)
  then have c_ok: "component_wire_ok c" by (auto simp: fromNumber_eq Component_def setType_def component_wire_ok_def)
  obtain p where p: "publish (pe_wire env) (pe_sign env) (pe_nowMilliseconds env) name (name @ [c]) content
      (ps_syncReplyFreshnessPeriod s) (ps_storage s) = (p, None)" using p [OF c_ok] by blast
  show thesis
  proof (cases "name_equals (ps_outstandingInterestName s) name")
    case True
    let ?s = "s\<lparr>ps_outstandingInterestName := [], ps_storage := pu_storage p, ps_outputs := ps_outputs s @ map Published (pu_outputs p)\<rparr>"
    have "sendSyncData env name content s = sendSyncInterest env ?s"
      using True enc h c p by (simp add: sendSyncData_def ps_publish_def bindS_def getS_def liftS_def modifyS_def Let_def)
    then show ?thesis using that [OF c_ok p] sendSyncInterest_effect [of env ?s] by auto
  next
    case False
    then show ?thesis
      using that [OF c_ok p, of "[]"] enc h c p by (simp add: sendSyncData_def ps_publish_def bindS_def getS_def liftS_def Let_def)
  qed
qed

text \<open>
  What the publisher relies on: packets are encoded in the NDN-TLV format, digests have 32 bytes, and the signer signs
  the packets that the format can carry.
\<close>

definition publisher_ok :: "unit psync_env \<Rightarrow> bool" where
  "publisher_ok env \<longleftrightarrow>
    (\<exists>malformed sha256. pe_wire env = tlv_env malformed sha256 \<and> (\<forall>x. length (sha256 x) = 32)) \<and> signs_packets (pe_sign env)"

definition offered :: "'w psync_env \<Rightarrow> u32 set \<Rightarrow> name \<Rightarrow> bool" where
  "offered env negative n = (case pe_canAddToSyncData env of None \<Rightarrow> True | Some f \<Rightarrow> f n negative)"

lemma sync_interest_name_self:
  "length prefix < 2 ^ 61 \<Longrightarrow> sync_interest_name prefix (prefix @ [c]) = Some (prefix @ [c])"
  using getSubName_eq [of "prefix @ [c]" "length prefix" "length (prefix @ [c])"]
  by (simp add: sync_interest_name_def Let_def)

lemma put_data_first: "put_data (Published (PutData d) # outs) = Some d"
  by simp

lemma first_answer:
  fixes A :: "unit fullPSync"
  assumes A: "psync_tables U A" "distinct_names U" and N: "N = prefix @ [genericComponent encoding]" "int_getName i = N"
    and prefix: "\<forall>c \<in> set prefix. component_wire_ok c" "length prefix + 4 \<le> maxNameComponents" "time_wire_ok (ps_syncReplyFreshnessPeriod A)"
    and fresh: "nm_ok (ps_storage A)" "storage_find N (ps_storage A) = None"
    and env: "publisher_ok env" "zlib_ok (pe_zlibCompress env) (pe_zlibDecompress env)" "encoding \<noteq> []" "hd encoding \<noteq> 0"
    and t: "iblt_initialize (pe_zlibDecompress env) encoding (InvertibleBloomLookupTable (ps_expectedNEntries A)) = Inr t"
    and diff: "list_difference (ps_iblt A) t = Inr (True, pos, neg)" "pos \<subseteq> known_hashes A"
    and content: "content = filter (offered env neg) (names_of A pos)" "content \<noteq> []"
    and bytes: "psync_wireEncode content = Inr bytes" "length bytes < 2 ^ 31"
  obtains P d s1 where "s1 = snd (onSyncInterest env prefix i (A\<lparr>ps_outputs := []\<rparr>))" "put_data (ps_outputs s1) = Some d"
    "length P = length prefix + 3" "stored_segments N P bytes (seg (length bytes div maxPacketSize)) (segment_count bytes) (ps_storage s1)"
    "\<forall>x. segment_entry P bytes (seg (length bytes div maxPacketSize)) 0 (P @ [seg 0, x], d)"
proof -
  let ?A = "A\<lparr>ps_outputs := []\<rparr>" and ?q = "length bytes div maxPacketSize"
  obtain malformed sha256 where wire: "pe_wire env = tlv_env malformed sha256" and sha: "\<forall>x. length (env_sha256 (pe_wire env) x) = 32"
    and sign: "signs_packets (pe_sign env)"
    using env(1) by (auto simp: publisher_ok_def tlv_env_def)
  have N': "N \<noteq> []" "last N = genericComponent encoding" "\<not> isSegment (last N)"
    using N(1) env(3,4) by (simp_all add: isSegment_def genericComponent_def blob_bytes_def)
  let ?f = "ps_syncReplyFreshnessPeriod A"
  have ok: "segment_publishable (pe_wire env) (pe_sign env) ((N @ [c]) @ [version]) ?f (seg ?q) bytes k"
    if "component_wire_ok c" "fromVersion (pe_nowMilliseconds env) = Inr version" for c version k
    unfolding wire by (rule tlv_publishable [OF sign _ _ prefix(3)]) (use that prefix N(1) fromVersion_wire_ok in auto)
  have pub: "\<exists>p version. publish (pe_wire env) (pe_sign env) (pe_nowMilliseconds env) N (N @ [c]) bytes ?f (ps_storage A) = (p, None) \<and>
      stored_segments N ((N @ [c]) @ [version]) bytes (seg ?q) (segment_count bytes) (pu_storage p) \<and> fromVersion (pe_nowMilliseconds env) = Inr version" if "component_wire_ok c" for c
    by (rule publish_stores [OF sha _ bytes(2) N'(1) name_match_longer [OF name_match_refl] fresh]) (use ok [OF that] in blast)+
  have A': "psync_tables U ?A" using A(1) by (simp add: psync_tables_def known_hashes_def)
  have "collect_names (offered env neg) (sorted_list_of_set pos) [] ?A = (Inr content, ?A)"
    using collect_names_known [OF A' A(2), of "sorted_list_of_set pos" "offered env neg" "[]"] diff(2) content(1)
    by (simp add: names_of_def name_at_def [abs_def] known_hashes_def)
  moreover have "(\<lambda>n. case pe_canAddToSyncData env of None \<Rightarrow> True | Some f \<Rightarrow> f n neg) = offered env neg"
    by (simp add: offered_def fun_eq_iff)
  ultimately have answer: "answer_difference env i N t True pos neg ?A = sendSyncData env N bytes ?A"
    using content(2) bytes(1) by (simp add: answer_difference_def cannot_decode_def bindS_def getS_def liftS_def)
  have "sync_interest_name prefix N = Some N" using sync_interest_name_self [of prefix] N(1) prefix(2) by (simp add: maxNameComponents_def)
  then have run: "onSyncInterest env prefix i ?A = sendSyncData env N bytes ?A"
    using fresh(2) N(2) t diff(1) answer name_get_last [OF N'(1)] N'(2)
    by (simp add: onSyncInterest_def replyFromStore_def bindS_def getS_def liftS_def genericComponent_def blob_bytes_def)
  have "\<forall>x. \<exists>y. pe_zlibCompress env x = Inr y" using env(2) unfolding zlib_ok_def by blast
  moreover have "\<exists>p. publish (pe_wire env) (pe_sign env) (pe_nowMilliseconds env) N (N @ [c]) bytes
      (ps_syncReplyFreshnessPeriod ?A) (ps_storage ?A) = (p, None)" if "component_wire_ok c" for c using pub [OF that] by fastforce
  ultimately obtain c p outs where c: "component_wire_ok c" and p: "publish (pe_wire env) (pe_sign env) (pe_nowMilliseconds env) N (N @ [c]) bytes
      (ps_syncReplyFreshnessPeriod ?A) (ps_storage ?A) = (p, None)"
    "ps_storage (snd (sendSyncData env N bytes ?A)) = pu_storage p"
    "ps_outputs (snd (sendSyncData env N bytes ?A)) = ps_outputs ?A @ map Published (pu_outputs p) @ outs"
    by (rule sendSyncData_publishes)
  obtain version where version: "fromVersion (pe_nowMilliseconds env) = Inr version"
    and st: "stored_segments N ((N @ [c]) @ [version]) bytes (seg ?q) (segment_count bytes) (pu_storage p)"
    using pub [OF c] p(1) by auto
  obtain d outs' where d: "pu_outputs p = PutData d # outs'"
    "\<And>x. segment_entry ((N @ [c]) @ [version]) bytes (seg ?q) 0 (((N @ [c]) @ [version]) @ [seg 0, x], d)"
    using publish_sends_first [OF ok [OF c version] N'(1,3) _ version] p(1) by fastforce
  show thesis
    by (rule that [OF refl, of d "(N @ [c]) @ [version]"]) (use p(2,3) d st run N(1) in simp_all)
qed

text \<open>From the first answer on, the fetcher collects the whole content.\<close>

lemma sync_fetch_complete:
  fixes bytes :: "byte list"
  defines "q \<equiv> length bytes div maxPacketSize"
  assumes s1: "s1 = snd (onSyncInterest env prefix i (s\<lparr>ps_outputs := []\<rparr>))" "put_data (ps_outputs s1) = Some d"
    and P: "length P = length prefix + 3" "length P < 2 ^ 62" and st: "stored_segments N P bytes (seg q) (segment_count bytes) (ps_storage s1)"
    and d: "\<forall>x. segment_entry P bytes (seg q) 0 (P @ [seg 0, x], d)" and len: "length bytes < 2 ^ 31" "length bytes mod maxPacketSize \<noteq> 0"
  shows "\<exists>fuel s'. sync_fetch fuel env prefix i [] s = Some (Inr (OnComplete bytes), s')"
proof -
  have m: "segment_count bytes = Suc q" "take (maxPacketSize * Suc q) bytes = bytes" using final_segment [of bytes] len(2) by (simp_all add: q_def)
  have small: "segment_count bytes < 2 ^ 64" "q < 2 ^ 64" using segment_count_bound(1) [OF len(1)] m(1) by simp_all
  have chunk: "length (concat [] @ chunk bytes (length ([] :: byte list list))) < 2 ^ 31" using len(1) by (simp add: chunk_def)
  obtain i' where i': "onVerified d i [] = (if 0 = q then Inr ([chunk bytes 0], OnComplete (chunk bytes 0)) else Inr ([chunk bytes 0], ExpressInterest i'))"
    "int_getName i' = P @ [seg 1]"
    using onVerified_expected [OF _ P(2) _ small(2) chunk, of "P @ [seg 0, seg 0]" d i] d by (cases "q = 0") (auto simp: Let_def)
  have step: "sync_fetch (Suc fuel) env prefix i [] s =
      (if 0 = q then Some (Inr (OnComplete (chunk bytes 0)), s1) else sync_fetch fuel env prefix i' [chunk bytes 0] s1)" for fuel
    using s1 i'(1) by (simp add: onSegmentReceived_def Let_def)
  show ?thesis
  proof (cases "q = 0")
    case True
    then have "chunk bytes 0 = bytes" using m(2) by (simp add: chunk_def)
    then have "sync_fetch (Suc 0) env prefix i [] s = Some (Inr (OnComplete bytes), s1)" using step [of 0] True by (simp only: simp_thms if_True)
    then show ?thesis by blast
  next
    case False
    then have "1 < segment_count bytes" using m(1) by simp
    moreover obtain d' full' where "storage_find (int_getName i') (ps_storage s1) = Some d'" "segment_entry P bytes (seg q) 1 (full', d')"
      using find_segment [OF st, of 1] calculation small(1) i'(2) by auto
    ultimately have "fetch_run (\<lambda>n. storage_find n (ps_storage s1)) (\<lambda>_. True) (Suc (segment_count bytes - 1)) i' (map (chunk bytes) [0..<1]) =
        Some (Inr (OnComplete bytes))"
      using fetch_loop [OF st P(2) _ small len(1), of "\<lambda>_. True" 1 i' d' full'] False m by simp
    from sync_fetch_stored [OF st P i'(2) refl this]
    obtain s' where s': "sync_fetch (Suc (segment_count bytes - 1)) env prefix i' (map (chunk bytes) [0..<1]) s1 = Some (Inr (OnComplete bytes), s')" by blast
    have "sync_fetch (Suc (Suc (segment_count bytes - 1))) env prefix i [] s = Some (Inr (OnComplete bytes), s')"
      unfolding step using False s' by (simp del: sync_fetch.simps)
    then show ?thesis by blast
  qed
qed

section \<open>One exchange\<close>

lemma int_getNonce_name: "int_getNonce i = (n, i') \<Longrightarrow> int_getName i' = int_getName i"
  by (auto simp: int_getNonce_def Let_def int_getName_def int_getChangeCount_name split: if_splits)

lemma refresh_nonce_name:
  assumes "refresh_nonce draws i = Inr i'"
  shows "int_getName i' = int_getName i"
proof -
  obtain n j where j: "int_getNonce i = (n, j)" by fastforce
  have "int_getName i' = int_getName j"
    using assms j by (auto simp: refresh_nonce_def refreshNonce_def Let_def int_changed_def int_getName_def int_getChangeCount_name
        split: option.splits if_splits)
  then show ?thesis using int_getNonce_name [OF j] by simp
qed

lemma sendSyncInterest_sent:
  assumes "sendSyncInterest env s = (Inr (), s')"
  obtains encoding delay i where "iblt_encode (pe_zlibCompress env) (ps_iblt s) = Inr encoding"
    "int_getName i = ver_value (ps_syncPrefix s) @ [genericComponent encoding]"
    "s' = s\<lparr>ps_outstandingInterestName := int_getName i, ps_outputs := ps_outputs s @ [SendSyncInterestLater delay, FetchSegments i]\<rparr>"
proof -
  obtain encoding where enc: "iblt_encode (pe_zlibCompress env) (ps_iblt s) = Inr encoding"
    using assms by (cases "iblt_encode (pe_zlibCompress env) (ps_iblt s)") (auto simp: sendSyncInterest_def bindS_def getS_def liftS_def throwS_def)
  let ?n = "ver_value (ps_syncPrefix s) @ [genericComponent encoding]"
  let ?j = "int_setNonce (Some (str ''0000'')) (int_setInterestLifetime (ps_syncInterestLifetime s)
    (Interest (pe_defaultCanBePrefix env) (pe_didSetDefaultCanBePrefix env)
      \<lparr>ver_value = ?n, ver_changeCount = ver_changeCount (ps_syncPrefix s) + 1\<rparr>)) :: 'a interest"
  obtain i where i: "refresh_nonce (pe_nonceDraws env) ?j = Inr i"
    using assms enc by (cases "refresh_nonce (pe_nonceDraws env) ?j")
      (auto simp: sendSyncInterest_def bindS_def getS_def liftS_def throwS_def modifyS_def ps_output_def)
  have "int_getName ?j = ?n"
    by (simp add: int_setNonce_def int_setInterestLifetime_def int_changed_def int_getName_def int_getChangeCount_name
        Interest_def Let_def counting)
  then have name: "int_getName i = ?n" using refresh_nonce_name [OF i] by simp
  show thesis
    using assms enc i name
    by (intro that [OF enc name]) (auto simp: sendSyncInterest_def bindS_def getS_def liftS_def modifyS_def ps_output_def)
qed

text \<open>Which hashes of one node another node lacks.\<close>

lemma missing_names:
  fixes A B :: "'w fullPSync"
  assumes U: "distinct_names U" and A: "psync_tables U A" and B: "psync_tables U B"
  shows "{n \<in> known_names A. \<exists>h \<in> known_hashes A - known_hashes B. uri_hash n = Inr h} = known_names A - known_names B"
proof -
  have hash: "\<exists>h. uri_hash n = Inr h \<and> h \<in> known_hashes s" if "psync_tables U s" "n \<in> known_names s" for n and s :: "'w fullPSync"
    using psync_tables_entry [OF that(1)] that(2) by (force simp: known_names_def)
  have "n \<in> known_names B" if n: "n \<in> known_names A" "uri_hash n = Inr h" "h \<in> known_hashes B" for n h
  proof -
    obtain m where m: "(m, h) \<in> set (ps_nameToHash B)" using n(3) by (auto simp: known_hashes_def)
    have "n \<in> U" using psync_tables_entry(1) [OF A] n(1) by (auto simp: known_names_def)
    then have "m = n" using distinct_names_inj(1) [OF U] psync_tables_entry(1,2) [OF B m] n(2) by metis
    then show ?thesis using psync_tables_entry(4) [OF B m] by simp
  qed
  then show ?thesis using hash [OF A] hash [OF B] by fastforce
qed

lemma listed_difference:
  assumes A: "psync_tables U A" and B: "psync_tables U B" and n: "ps_expectedNEntries A = ps_expectedNEntries B"
    and cf: "collision_free (length (ps_iblt A) div N_HASH) (known_hashes A - known_hashes B) (known_hashes B - known_hashes A)"
    and listed: "list_difference (ps_iblt A) (ps_iblt B) = Inr (True, pos, neg)"
  shows "pos = known_hashes A - known_hashes B" "neg = known_hashes B - known_hashes A"
proof -
  have "length (ps_iblt A) = length (ps_iblt B)" using A B n by (simp add: psync_tables_def)
  from listEntries_difference [OF _ _ this cf] A B
  have "pos = known_hashes A - known_hashes B \<and> neg = known_hashes B - known_hashes A"
    using listed by (auto simp: psync_tables_def list_difference_def)
  then show "pos = known_hashes A - known_hashes B" "neg = known_hashes B - known_hashes A" by simp_all
qed

lemma received_outputs:
  assumes "onSyncData env content interest s =
      (if new \<noteq> [] then bindS (ps_output (OnNamesUpdate new)) (\<lambda>_. sendSyncInterest env) else returnS ()) s'" "new \<noteq> []"
  shows "OnNamesUpdate new \<in> set (ps_outputs (snd (onSyncData env content interest s)))"
proof -
  let ?s = "s'\<lparr>ps_outputs := ps_outputs s' @ [OnNamesUpdate new]\<rparr>"
  have "onSyncData env content interest s = sendSyncInterest env ?s"
    using assms by (simp add: ps_output_def bindS_def modifyS_def)
  then show ?thesis using sendSyncInterest_effect [of env ?s] by auto
qed


section \<open>Examples\<close>

definition name_f :: name where "name_f = [genericComponent [102]]"

definition name_d :: name where "name_d = [genericComponent [100]]"

definition sync_prefix :: "name versioned" where
  "sync_prefix = \<lparr>ver_value = [genericComponent [115]], ver_changeCount = 1\<rparr>"

text \<open>Compression that adds a header byte.\<close>

definition sample_psync_env :: "unit psync_env" where
  "sample_psync_env =
    \<lparr>pe_wire = tlv_env (\<lambda>_. 0) sample_sha256, pe_sign = digest_signer, pe_zlibCompress = (\<lambda>x. Inr (1 # x)),
     pe_zlibDecompress = (\<lambda>y. case y of [] \<Rightarrow> Inl (Runtime_error ''zlib'') | _ # x \<Rightarrow> Inr x),
     pe_nowMilliseconds = 1000, pe_defaultCanBePrefix = True, pe_didSetDefaultCanBePrefix = True,
     pe_renewalDelay = 500, pe_nonceDraws = [[1, 2, 3, 4]], pe_canAddToSyncData = None, pe_canAddReceivedName = None\<rparr>"

definition sample_node :: "name \<Rightarrow> unit fullPSync" where
  "sample_node n = psync_run [(sample_psync_env, PublishName n)] (FullPSync2017 4 sync_prefix 1000 1000)"

lemma sample_hashes_names: "uri_hash name_f = Inr 1658419682" "uri_hash name_d = Inr 1821196557"
  by code_simp+

lemma sample_names_distinct: "distinct_names {name_f, name_d}" "\<forall>n \<in> {name_f, name_d}. name_wire_ok n \<and> wire_name n = n"
proof -
  have "key (genericComponent [102]) \<noteq> key (genericComponent [100])" by code_simp
  then show "distinct_names {name_f, name_d}"
    by (auto simp: distinct_names_def sample_hashes_names) (simp_all add: name_f_def name_d_def)
  show "\<forall>n \<in> {name_f, name_d}. name_wire_ok n \<and> wire_name n = n"
    by (simp add: name_f_def name_d_def name_wire_ok_def component_wire_ok_def genericComponent_def maxNameComponents_def wire_name_def wire_component_def)
qed

lemma sample_node_tables:
  assumes "n \<in> {name_f, name_d}"
  shows "psync_tables {name_f, name_d} (sample_node n)" "known_names (sample_node n) = {n}"
proof -
  let ?s = "FullPSync2017 4 sync_prefix 1000 1000 :: unit fullPSync"
  have s: "psync_tables {name_f, name_d} ?s" "known_names ?s = {}" using FullPSync2017_tables [of 4] by fastforce+
  have "psync_names {name_f, name_d} {n} (sample_node n)"
    using psync_run_names [OF sample_names_distinct(1) s(1), of "[(sample_psync_env, PublishName n)]"] s(2) assms by (simp add: sample_node_def)
  then show "psync_tables {name_f, name_d} (sample_node n)" "known_names (sample_node n) = {n}" by (simp_all add: psync_names_def)
qed

lemma sample_node_hashes:
  "ps_nameToHash (sample_node name_f) = [(name_f, 1658419682)]" "ps_nameToHash (sample_node name_d) = [(name_d, 1821196557)]"
  "length (ps_iblt (sample_node name_f)) = 6"
  by code_simp+

lemma sample_nodes_differ:
  "list_difference (ps_iblt (sample_node name_f)) (ps_iblt (sample_node name_d)) = Inr (True, {1658419682}, {1821196557})"
  by code_simp

lemma sample_indexes_names:
  "entry_index 2 0 1658419682 = 0" "entry_index 2 1 1658419682 = 2" "entry_index 2 2 1658419682 = 4"
  "entry_index 2 0 1821196557 = 1" "entry_index 2 1 1821196557 = 3" "entry_index 2 2 1821196557 = 5"
  by code_simp+

lemma sample_collision:
  "collision_free 2 {1658419682} {1821196557}"
  by (rule disjoint_collision_free) (auto simp: holds_key_cases sample_indexes_names sample_indexes_names [unfolded One_nat_def])

lemma sample_reply:
  "filter (offered sample_psync_env {1821196557}) (names_of (sample_node name_f) {1658419682}) = [name_f]"
  "psync_wireEncode [name_f] = Inr [128, 5, 7, 3, 8, 1, 102]" "ps_storage (sample_node name_f) = []"
  by code_simp+


section \<open>A sync interest that stops a node\<close>

text \<open>The table that differs from an empty one by a key in a bucket to which it does not belong.\<close>

definition hostile_table :: iblt where
  "hostile_table = [0, - key_entry 1, 0, 0, 0, 0]"

lemma hostile_difference: "list_difference (InvertibleBloomLookupTable 4) hostile_table = Inl Never_returns"
proof -
  have "iblt_difference (InvertibleBloomLookupTable 4) hostile_table = Inr misplaced_table" by code_simp
  then show ?thesis using listEntries_can_loop by (simp add: list_difference_def)
qed

lemma hostile_encoding:
  assumes "zlib_ok compress decompress"
  shows "\<exists>encoding. iblt_initialize decompress encoding (InvertibleBloomLookupTable 4) = Inr hostile_table"
proof -
  obtain encoding where enc: "iblt_encode compress hostile_table = Inr encoding" using assms by (fastforce simp: zlib_ok_def iblt_encode_def)
  have z: "\<forall>x y. compress x = Inr y \<longrightarrow> decompress y = Inr x" using assms unfolding zlib_ok_def by (metis sum.inject(2))
  have count: "\<forall>e \<in> set hostile_table. he_count e = 0 \<longrightarrow> he_isEmpty e"
    by (simp add: hostile_table_def he_isEmpty_def zero_hashTableEntry_def)
  have "length hostile_table = length (InvertibleBloomLookupTable 4)"
    by (simp add: hostile_table_def InvertibleBloomLookupTable_def N_HASH_def Let_def)
  then show ?thesis using iblt_initialize_encoding [OF z enc count] by blast
qed

text \<open>
  C37. One sync interest stops a node.  There is a last component such that a new node with a table for four entries
  never returns from handling a sync interest with that component: the table in it has a key in a bucket to which the
  key does not belong, and listing the difference peels this key and puts it back for ever.
\<close>

theorem sync_interest_never_returns:
  assumes "zlib_ok (pe_zlibCompress env) (pe_zlibDecompress env)" "length (ver_value prefix) < 2 ^ 60"
  shows "\<exists>encoding. \<forall>i lifetime freshness. int_getName i = ver_value prefix @ [genericComponent encoding] \<longrightarrow>
    fst (onSyncInterest env (ver_value prefix) i (FullPSync2017 4 prefix lifetime freshness)) = Inl Never_returns"
proof -
  obtain encoding where t: "iblt_initialize (pe_zlibDecompress env) encoding (InvertibleBloomLookupTable 4) = Inr hostile_table"
    using hostile_encoding [OF assms(1)] by blast
  have "sync_interest_name (ver_value prefix) (ver_value prefix @ [c]) = Some (ver_value prefix @ [c])" for c
    using assms(2) by (intro sync_interest_name_self) simp
  then have "fst (onSyncInterest env (ver_value prefix) i (FullPSync2017 4 prefix lifetime freshness)) = Inl Never_returns"
    if "int_getName i = ver_value prefix @ [genericComponent encoding]" for i lifetime freshness
    using that t hostile_difference
    by (simp add: onSyncInterest_def FullPSync2017_def replyFromStore_def bindS_def getS_def liftS_def throwS_def name_get_last
        genericComponent_def blob_bytes_def)
  then show ?thesis by blast
qed

theorem sync_interest_never_returns_witness:
  "\<exists>encoding. fst (onSyncInterest sample_psync_env [genericComponent [115]]
      (Interest True True \<lparr>ver_value = [genericComponent [115], genericComponent encoding], ver_changeCount = 0\<rparr>)
      (FullPSync2017 4 sync_prefix 1000 1000)) = Inl Never_returns"
proof -
  have z: "zlib_ok (pe_zlibCompress sample_psync_env) (pe_zlibDecompress sample_psync_env)" by (simp add: zlib_ok_def sample_psync_env_def)
  have name: "int_getName (Interest True True \<lparr>ver_value = n, ver_changeCount = 0\<rparr> :: unit interest) = n" for n
    by (simp add: Interest_def int_getName_def counting)
  have "length (ver_value sync_prefix) < 2 ^ 60" by (simp add: sync_prefix_def)
  from sync_interest_never_returns [OF z this] show ?thesis
    using name by (fastforce simp: sync_prefix_def)
qed

section \<open>Timers of pending interests\<close>

definition empty_interest :: "name \<Rightarrow> unit interest" where
  "empty_interest suffix = Interest True True
    \<lparr>ver_value = [genericComponent [115], genericComponent (1 # concat (map entry_bytes (InvertibleBloomLookupTable 4)))] @ suffix,
     ver_changeCount = 0\<rparr>"

text \<open>
  A second sync interest with the same name replaces the pending entry of the first without marking it as removed, so
  the timer of the first entry removes the second one.
\<close>

lemma entry_timer_removes_new_entry:
  "let i = empty_interest []; ops = [SyncInterest [genericComponent [115]] i, SyncInterest [genericComponent [115]] i];
       s = psync_run (map (Pair sample_psync_env) ops) (FullPSync2017 4 sync_prefix 1000 1000);
       s' = psync_run [(sample_psync_env, EntryTimeout (int_getName i) 0)] s
   in ps_pendingEntries s = [(int_getName i, 1)] \<and> ps_pendingEntries s' = [] \<and> \<not> pi_isRemoved (ps_entries s' ! 1)"
  by code_simp

text \<open>
  The entry of a sync interest that carries a version and a segment is stored under the name without them, but its
  timer removes the full name, so the entry stays.
\<close>

lemma entry_timer_misses:
  "let i = empty_interest [genericComponent [253, 1], genericComponent [0, 0]];
       s = psync_run [(sample_psync_env, SyncInterest [genericComponent [115]] i)] (FullPSync2017 4 sync_prefix 1000 1000);
       s' = psync_run [(sample_psync_env, EntryTimeout (int_getName i) 0)] s
   in length (ps_pendingEntries s) = 1 \<and> ps_pendingEntries s' = ps_pendingEntries s \<and> pi_isRemoved (ps_entries s' ! 0)"
  by code_simp

theorem psync_names_refine_witness:
  "known_names (psync_run [(sample_psync_env, PublishName name_f), (sample_psync_env, PublishName name_d), (sample_psync_env, RemoveName name_f)]
     (FullPSync2017 4 sync_prefix 1000 1000)) = {name_d}"
proof -
  have "name_f \<noteq> name_d" by code_simp
  then show ?thesis
    using psync_names_refine [OF sample_names_distinct(1) _ _ refl, of 4 "[(sample_psync_env, PublishName name_f),
        (sample_psync_env, PublishName name_d), (sample_psync_env, RemoveName name_f)]" sync_prefix 1000 1000] by auto
qed

end
