(* ===== verification/Wire_Interest.thy ===== *)
theory Wire_Interest
  imports Wire_Data Interest_Packet
begin

text \<open>
  The TLV formats of interests: \<open>src/c/encoding/tlv/tlv-interest.c\<close>, in version 0.3 and in the older version 0.2, which
  the decoder falls back to; \<open>tlv-delegation-set.c\<close> for forwarding hints; the conversions \<open>Interest::get\<close> and \<open>set\<close>,
  \<open>Exclude::get\<close> and \<open>set\<close>; and \<open>Tlv0_3WireFormat::encodeInterest\<close>, \<open>decodeInterest\<close>, \<open>encodeDelegationSet\<close> and
  \<open>decodeDelegationSet\<close>.  The random bytes that complete a nonce are an argument, and so is the encoding of the deprecated
  link object.  A delegation set is encoded anew each time: the encoding it caches is not part of the model.
\<close>

section \<open>Delegation sets\<close>

definition encodeDelegationValue :: "delegation \<Rightarrow> writer" where
  "encodeDelegationValue delegation e =
    bindE (writeNonNegativeIntegerTlv 30 (of_int (fst delegation)) e) (encodeTlvName_only (snd delegation))"

definition encodeTlvDelegationSet_Delegation :: "delegation \<Rightarrow> writer" where
  "encodeTlvDelegationSet_Delegation delegation = writeNestedTlv 31 (encodeDelegationValue delegation) False"

text \<open>The loop of \<open>encodeDelegationSet\<close>: each delegation is encoded at the end of the output so far.\<close>

fun encodeDelegations :: "delegationSet \<Rightarrow> encoder \<Rightarrow> error + encoder" where
  "encodeDelegations [] e = Inr e"
| "encodeDelegations (dg # dgs) e =
    bindE (Name_getLite (snd dg)) (\<lambda>name.
      case encodeTlvDelegationSet_Delegation (fst dg, name) e of
        Inl err \<Rightarrow> Inl (Ndn err)
      | Inr e \<Rightarrow> encodeDelegations dgs e)"

definition Tlv0_3_encodeDelegationSet :: "delegationSet \<Rightarrow> error + blob" where
  "Tlv0_3_encodeDelegationSet dgs = bindE (encodeDelegations dgs (TlvEncoder 256)) (\<lambda>e. Inr (enc_finish e))"

definition decodeTlvDelegationSet_Delegation :: "decoder \<Rightarrow> (int \<times> lite_component list \<times> decoder) decoding" where
  "decodeTlvDelegationSet_Delegation d =
    bindO (Some (readNestedTlvsStart 31 d)) (\<lambda>(endOffset, d).
    bindO (Some (readNonNegativeIntegerTlv 30 d)) (\<lambda>(unsignedPreference, d).
    bindO (decodeTlvName maxNameComponents d) (\<lambda>(name, _, _, d).
    bindO (finishNestedTlvs d endOffset) (\<lambda>d.
      Some (Inr (sint (ucast unsignedPreference :: u32), name, d))))))"

definition decodeDelegation :: "byte list \<Rightarrow> (error + (delegation \<times> nat)) option" where
  "decodeDelegation inp =
    bindO (lift_decoding (decodeTlvDelegationSet_Delegation (dec_initialize inp))) (\<lambda>(preference, lcs, d).
    bindO (Some (Name_setLite inp lcs)) (\<lambda>name. Some (Inr ((preference, name), unat (dec_offset d)))))"

partial_function (option) decodeDelegations :: "byte list \<Rightarrow> nat \<Rightarrow> delegationSet \<Rightarrow> (error + delegationSet) option" where
  "decodeDelegations inp offset dgs =
    (if offset < length inp then
       (case decodeDelegation (drop offset inp) of
          None \<Rightarrow> None
        | Some r \<Rightarrow> (case r of
            Inl e \<Rightarrow> Some (Inl e)
          | Inr (dg, encodingLength) \<Rightarrow> decodeDelegations inp (offset + encodingLength) (dgs @ [dg])))
     else Some (Inr dgs))"

definition Tlv0_3_decodeDelegationSet :: "byte list \<Rightarrow> (error + delegationSet) option" where
  "Tlv0_3_decodeDelegationSet inp = decodeDelegations inp 0 []"

section \<open>Encoding interests\<close>

record lite_interest =
  li_name :: name
  li_minSuffixComponents :: int
  li_maxSuffixComponents :: int
  li_keyLocator :: keyLocator
  li_exclude :: exclude
  li_childSelector :: int
  li_mustBeFresh :: bool
  li_interestLifetimeMilliseconds :: rat
  li_nonce :: blob
  li_forwardingHintWireEncoding :: blob
  li_applicationParameters :: blob
  li_linkWireEncoding :: blob
  li_selectedDelegationIndex :: int

fun encodeExcludeValue :: "exclude \<Rightarrow> writer" where
  "encodeExcludeValue [] e = Inr e"
| "encodeExcludeValue (COMPONENT c # entries) e = bindE (encodeTlvNameComponent c e) (encodeExcludeValue entries)"
| "encodeExcludeValue (ANY # entries) e = bindE (writeTypeAndLength 19 0 e) (encodeExcludeValue entries)"

definition writeFlag :: "u32 \<Rightarrow> bool \<Rightarrow> writer" where
  "writeFlag type flag e = (if flag then writeTypeAndLength type 0 e else Inr e)"

definition encodeSelectorsValue :: "lite_interest \<Rightarrow> writer" where
  "encodeSelectorsValue i e =
    bindE (writeOptionalNonNegativeIntegerTlv 13 (li_minSuffixComponents i) e) (\<lambda>e.
    bindE (writeOptionalNonNegativeIntegerTlv 14 (li_maxSuffixComponents i) e) (\<lambda>e.
    bindE (writeNestedTlv 15 (encodeTlvKeyLocatorValue (li_keyLocator i)) True e) (\<lambda>e.
    bindE (if length (li_exclude i) > 0 then writeNestedTlv 16 (encodeExcludeValue (li_exclude i)) False e else Inr e) (\<lambda>e.
    bindE (writeOptionalNonNegativeIntegerTlv 17 (li_childSelector i) e) (\<lambda>e.
      writeFlag 18 (li_mustBeFresh i) e)))))"

text \<open>The nonce is four bytes: completed with random bytes or cut.\<close>

definition nonceBytes :: "(nat \<Rightarrow> ndn_Error + byte list) \<Rightarrow> blob \<Rightarrow> ndn_Error + byte list" where
  "nonceBytes generateRandomBytes nonce =
    (if blob_size nonce = 0 then generateRandomBytes 4
     else if blob_size nonce < 4 then bindE (generateRandomBytes (4 - blob_size nonce)) (\<lambda>r. Inr (blob_bytes nonce @ r))
     else Inr (take 4 (blob_bytes nonce)))"

definition writeNonce :: "(nat \<Rightarrow> ndn_Error + byte list) \<Rightarrow> blob \<Rightarrow> writer" where
  "writeNonce generateRandomBytes nonce e = bindE (nonceBytes generateRandomBytes nonce) (\<lambda>bs. writeBlobTlv 10 bs e)"

definition encodeInterestValueV02 ::
    "(nat \<Rightarrow> ndn_Error + byte list) \<Rightarrow> lite_interest \<Rightarrow> encoder \<Rightarrow> ndn_Error + (encoder \<times> nat \<times> nat)" where
  "encodeInterestValueV02 generateRandomBytes i e =
    bindE (encodeTlvName (li_name i) e) (\<lambda>(e, signedPortion).
    bindE (writeNestedTlv 9 (encodeSelectorsValue i) True e) (\<lambda>e.
    bindE (writeNonce generateRandomBytes (li_nonce i) e) (\<lambda>e.
    bindE (writeOptionalNonNegativeIntegerTlvFromDouble 12 (li_interestLifetimeMilliseconds i) e) (\<lambda>e.
    bindE (if blob_size (li_forwardingHintWireEncoding i) > 0 then
             if li_selectedDelegationIndex i \<ge> 0
             then Inl NDN_ERROR_An_Interest_may_not_have_a_selected_delegation_when_encoding_a_forwarding_hint
             else if li_linkWireEncoding i \<noteq> None
             then Inl NDN_ERROR_An_Interest_may_not_have_a_link_object_when_encoding_a_forwarding_hint
             else writeBlobTlv 30 (blob_bytes (li_forwardingHintWireEncoding i)) e
           else Inr e) (\<lambda>e.
    bindE (case li_linkWireEncoding i of None \<Rightarrow> Inr e | Some bs \<Rightarrow> writeArray bs e) (\<lambda>e.
    bindE (writeOptionalNonNegativeIntegerTlv 32 (li_selectedDelegationIndex i) e) (\<lambda>e.
      Inr (e, signedPortion))))))))"

text \<open>What follows the name in version 0.3.\<close>

definition encodeInterestRestV03 :: "(nat \<Rightarrow> ndn_Error + byte list) \<Rightarrow> lite_interest \<Rightarrow> writer" where
  "encodeInterestRestV03 generateRandomBytes i e =
    bindE (writeFlag 33 (li_maxSuffixComponents i \<noteq> 1) e) (\<lambda>e.
    bindE (writeFlag 18 (li_mustBeFresh i) e) (\<lambda>e.
    bindE (if blob_size (li_forwardingHintWireEncoding i) > 0
           then writeBlobTlv 30 (blob_bytes (li_forwardingHintWireEncoding i)) e else Inr e) (\<lambda>e.
    bindE (writeNonce generateRandomBytes (li_nonce i) e) (\<lambda>e.
    bindE (writeOptionalNonNegativeIntegerTlvFromDouble 12 (li_interestLifetimeMilliseconds i) e) (\<lambda>e.
      writeOptionalBlobTlv 36 (li_applicationParameters i) e)))))"

definition encodeInterestValueV03 ::
    "(nat \<Rightarrow> ndn_Error + byte list) \<Rightarrow> lite_interest \<Rightarrow> encoder \<Rightarrow> ndn_Error + (encoder \<times> nat \<times> nat)" where
  "encodeInterestValueV03 generateRandomBytes i e =
    bindE (encodeTlvName (li_name i) e) (\<lambda>(e, signedPortion).
    bindE (encodeInterestRestV03 generateRandomBytes i e) (\<lambda>e. Inr (e, signedPortion)))"

definition encodeTlvInterestV0_2 ::
    "(nat \<Rightarrow> ndn_Error + byte list) \<Rightarrow> lite_interest \<Rightarrow> encoder \<Rightarrow> ndn_Error + (encoder \<times> nat \<times> nat)" where
  "encodeTlvInterestV0_2 generateRandomBytes i = writeNestedTlvWith 5 (encodeInterestValueV02 generateRandomBytes i) False"

definition encodeTlvInterestV0_3 ::
    "(nat \<Rightarrow> ndn_Error + byte list) \<Rightarrow> lite_interest \<Rightarrow> encoder \<Rightarrow> ndn_Error + (encoder \<times> nat \<times> nat)" where
  "encodeTlvInterestV0_3 generateRandomBytes i = writeNestedTlvWith 5 (encodeInterestValueV03 generateRandomBytes i) False"

text \<open>\<open>Exclude::get\<close> and \<open>Interest::get\<close>; the nonce is the stored one, whether or not the interest has changed since it was set.\<close>

fun entry_get :: "excludeEntry \<Rightarrow> excludeEntry" where
  "entry_get ANY = ANY"
| "entry_get (COMPONENT c) = COMPONENT (component_get c)"

definition Exclude_getLite :: "exclude \<Rightarrow> error + exclude" where
  "Exclude_getLite entries =
    (if length entries > 100
     then Inl (Ndn NDN_ERROR_cannot_add_an_entry_past_the_maximum_number_of_entries_allowed_in_the_exclude)
     else Inr (map entry_get entries))"

definition Interest_getLite :: "blob \<Rightarrow> 'w interest \<Rightarrow> error + lite_interest" where
  "Interest_getLite linkWireEncoding i =
    bindE (Name_getLite (int_getName i)) (\<lambda>name.
    bindE (KeyLocator_getLite (cc_get (i_keyLocator i))) (\<lambda>keyLocator.
    bindE (Exclude_getLite (cc_get (i_exclude i))) (\<lambda>exclude.
    bindE (if length (cc_get (i_forwardingHint i)) > 0
           then Tlv0_3_encodeDelegationSet (cc_get (i_forwardingHint i)) else Inr None) (\<lambda>forwardingHint.
      Inr \<lparr>li_name = name, li_minSuffixComponents = i_minSuffixComponents i,
        li_maxSuffixComponents = i_maxSuffixComponents i, li_keyLocator = keyLocator, li_exclude = exclude,
        li_childSelector = i_childSelector i, li_mustBeFresh = i_mustBeFresh i,
        li_interestLifetimeMilliseconds = toMilliseconds (i_interestLifetime i), li_nonce = i_nonce i,
        li_forwardingHintWireEncoding = forwardingHint, li_applicationParameters = i_applicationParameters i,
        li_linkWireEncoding = linkWireEncoding, li_selectedDelegationIndex = i_selectedDelegationIndex i\<rparr>))))"

definition Tlv0_3_encodeInterest :: "(nat \<Rightarrow> ndn_Error + byte list) \<Rightarrow> blob \<Rightarrow> 'w interest \<Rightarrow> error + signedBlob" where
  "Tlv0_3_encodeInterest generateRandomBytes linkWireEncoding i =
    bindE (Interest_getLite linkWireEncoding i) (\<lambda>li.
      case encodeTlvInterestV0_3 generateRandomBytes li (TlvEncoder 256) of
        Inl e \<Rightarrow> Inl (Ndn e)
      | Inr (e, b, b') \<Rightarrow> Inr \<lparr>sb_bytes = blob_bytes (enc_finish e), sb_signedPortionBeginOffset = b, sb_signedPortionEndOffset = b'\<rparr>)"

section \<open>Decoding interests\<close>

datatype lite_entry = LITE_ANY | LITE_COMPONENT lite_component

record decoded_interest =
  di_name :: "lite_component list"
  di_minSuffixComponents :: int
  di_maxSuffixComponents :: int
  di_keyLocator :: lite_keyLocator
  di_exclude :: "lite_entry list"
  di_childSelector :: int
  di_mustBeFresh :: bool
  di_interestLifetimeMilliseconds :: rat
  di_nonce :: "slice option"
  di_forwardingHintWireEncoding :: "slice option"
  di_applicationParameters :: "slice option"
  di_linkWireEncoding :: "slice option"
  di_selectedDelegationIndex :: int

text \<open>The first argument is the room left in the array of entries.\<close>

fun decodeExclude_loop :: "nat \<Rightarrow> u64 \<Rightarrow> lite_entry list \<Rightarrow> decoder \<Rightarrow> ndn_Error + (lite_entry list \<times> decoder)" where
  "decodeExclude_loop room endOffset entries d =
    (if dec_offset d < endOffset then
       bindE (peekType 19 endOffset d) (\<lambda>gotAny.
       if gotAny then
         bindE (readBooleanTlv 19 endOffset d) (\<lambda>(_, d).
           case room of
             0 \<Rightarrow> Inl NDN_ERROR_cannot_add_an_entry_past_the_maximum_number_of_entries_allowed_in_the_exclude
           | Suc room \<Rightarrow> decodeExclude_loop room endOffset (entries @ [LITE_ANY]) d)
       else
         case room of
           0 \<Rightarrow> Inl NDN_ERROR_cannot_add_an_entry_past_the_maximum_number_of_entries_allowed_in_the_exclude
         | Suc room \<Rightarrow> bindE (decodeTlvNameComponent d) (\<lambda>(c, d).
             decodeExclude_loop room endOffset (entries @ [LITE_COMPONENT c]) d))
     else Inr (entries, d))"

declare decodeExclude_loop.simps [simp del]

definition decodeExclude :: "decoder \<Rightarrow> (lite_entry list \<times> decoder) decoding" where
  "decodeExclude d =
    bindO (Some (readNestedTlvsStart 16 d)) (\<lambda>(endOffset, d).
    bindO (Some (decodeExclude_loop 100 endOffset [] d)) (\<lambda>(entries, d).
    bindO (finishNestedTlvs d endOffset) (\<lambda>d. Some (Inr (entries, d)))))"

record decoded_selectors =
  ds_minSuffixComponents :: int
  ds_maxSuffixComponents :: int
  ds_keyLocator :: lite_keyLocator
  ds_exclude :: "lite_entry list"
  ds_childSelector :: int
  ds_mustBeFresh :: bool

definition decoded_Selectors0 :: decoded_selectors where
  "decoded_Selectors0 = \<lparr>ds_minSuffixComponents = -1, ds_maxSuffixComponents = -1, ds_keyLocator = lite_KeyLocator0,
     ds_exclude = [], ds_childSelector = -1, ds_mustBeFresh = False\<rparr>"

definition decodeSelectors :: "decoder \<Rightarrow> (decoded_selectors \<times> decoder) decoding" where
  "decodeSelectors d =
    bindO (Some (readNestedTlvsStart 9 d)) (\<lambda>(endOffset, d).
    bindO (Some (readOptionalNonNegativeIntegerTlv 13 endOffset d)) (\<lambda>(minSuffixComponents, d).
    bindO (Some (readOptionalNonNegativeIntegerTlv 14 endOffset d)) (\<lambda>(maxSuffixComponents, d).
    bindO (Some (peekType 15 endOffset d)) (\<lambda>gotKeyLocator.
    bindO (if gotKeyLocator then decodeTlvKeyLocator 15 d else Some (Inr (lite_KeyLocator0, d))) (\<lambda>(keyLocator, d).
    bindO (Some (peekType 16 endOffset d)) (\<lambda>gotExclude.
    bindO (if gotExclude then decodeExclude d else Some (Inr ([], d))) (\<lambda>(exclude, d).
    bindO (Some (readOptionalNonNegativeIntegerTlv 17 endOffset d)) (\<lambda>(childSelector, d).
    bindO (Some (readBooleanTlv 18 endOffset d)) (\<lambda>(mustBeFresh, d).
    bindO (finishNestedTlvs d endOffset) (\<lambda>d.
      Some (Inr (\<lparr>ds_minSuffixComponents = minSuffixComponents, ds_maxSuffixComponents = maxSuffixComponents,
        ds_keyLocator = keyLocator, ds_exclude = exclude, ds_childSelector = childSelector,
        ds_mustBeFresh = mustBeFresh\<rparr>, d))))))))))))"

definition decodeLink :: "u64 \<Rightarrow> decoder \<Rightarrow> ndn_Error + (slice option \<times> decoder)" where
  "decodeLink endOffset d =
    bindE (peekType 6 endOffset d) (\<lambda>gotLink.
      if gotLink then
        bindE (readNestedTlvsStart 6 d) (\<lambda>(linkEndOffset, d').
        bindE (getSlice (d'\<lparr>dec_offset := linkEndOffset\<rparr>) (dec_offset d) linkEndOffset) (\<lambda>s.
          Inr (Some s, d'\<lparr>dec_offset := linkEndOffset\<rparr>)))
      else Inr (None, d))"

definition decodeTlvInterestV02 :: "decoder \<Rightarrow> (decoded_interest \<times> u64 \<times> u64 \<times> decoder) decoding" where
  "decodeTlvInterestV02 d =
    bindO (Some (readNestedTlvsStart 5 d)) (\<lambda>(endOffset, d).
    bindO (decodeTlvName maxNameComponents d) (\<lambda>(name, b, b', d).
    bindO (Some (peekType 9 endOffset d)) (\<lambda>gotSelectors.
    bindO (if gotSelectors then decodeSelectors d else Some (Inr (decoded_Selectors0, d))) (\<lambda>(sel, d).
    bindO (Some (readBlobTlv 10 d)) (\<lambda>(nonce, d).
    bindO (Some (readOptionalNonNegativeIntegerTlvAsDouble 12 endOffset d)) (\<lambda>(lifetime, d).
    bindO (Some (readOptionalBlobTlv 30 endOffset d)) (\<lambda>(forwardingHint, d).
    bindO (Some (decodeLink endOffset d)) (\<lambda>(link, d).
    bindO (Some (readOptionalNonNegativeIntegerTlv 32 endOffset d)) (\<lambda>(selectedDelegationIndex, d).
    if selectedDelegationIndex \<ge> 0 \<and> link = None
    then Some (Inl NDN_ERROR_Interest_has_a_selected_delegation_but_no_link_object) else
    bindO (finishNestedTlvs d endOffset) (\<lambda>d.
      Some (Inr (\<lparr>di_name = name, di_minSuffixComponents = ds_minSuffixComponents sel,
        di_maxSuffixComponents = ds_maxSuffixComponents sel, di_keyLocator = ds_keyLocator sel, di_exclude = ds_exclude sel,
        di_childSelector = ds_childSelector sel, di_mustBeFresh = ds_mustBeFresh sel,
        di_interestLifetimeMilliseconds = lifetime, di_nonce = Some nonce, di_forwardingHintWireEncoding = forwardingHint,
        di_applicationParameters = None, di_linkWireEncoding = link,
        di_selectedDelegationIndex = selectedDelegationIndex\<rparr>, b, b', d))))))))))))"

definition decodeTlvInterestV03 :: "decoder \<Rightarrow> (decoded_interest \<times> u64 \<times> u64 \<times> decoder) decoding" where
  "decodeTlvInterestV03 d =
    bindO (Some (readNestedTlvsStart 5 d)) (\<lambda>(endOffset, d).
    bindO (decodeTlvName maxNameComponents d) (\<lambda>(name, b, b', d).
    bindO (Some (readBooleanTlv 33 endOffset d)) (\<lambda>(canBePrefix, d).
    bindO (Some (readBooleanTlv 18 endOffset d)) (\<lambda>(mustBeFresh, d).
    bindO (Some (readOptionalBlobTlv 30 endOffset d)) (\<lambda>(forwardingHint, d).
    bindO (Some (readOptionalBlobTlv 10 endOffset d)) (\<lambda>(nonce, d).
    bindO (Some (readOptionalNonNegativeIntegerTlvAsDouble 12 endOffset d)) (\<lambda>(lifetime, d).
    bindO (Some (readOptionalBlobTlv 34 endOffset d)) (\<lambda>(_, d).
    bindO (Some (readOptionalBlobTlv 36 endOffset d)) (\<lambda>(applicationParameters, d).
    bindO (finishNestedTlvs d endOffset) (\<lambda>d.
      Some (Inr (\<lparr>di_name = name, di_minSuffixComponents = -1, di_maxSuffixComponents = (if canBePrefix then -1 else 1),
        di_keyLocator = lite_KeyLocator0, di_exclude = [], di_childSelector = -1, di_mustBeFresh = mustBeFresh,
        di_interestLifetimeMilliseconds = lifetime, di_nonce = nonce, di_forwardingHintWireEncoding = forwardingHint,
        di_applicationParameters = applicationParameters, di_linkWireEncoding = None,
        di_selectedDelegationIndex = -1\<rparr>, b, b', d))))))))))))"

definition decodeTlvInterest :: "decoder \<Rightarrow> (decoded_interest \<times> u64 \<times> u64 \<times> decoder) decoding" where
  "decodeTlvInterest d =
    (case decodeTlvInterestV03 d of
       Some (Inl errorV03) \<Rightarrow>
         (case decodeTlvInterestV02 d of
            None \<Rightarrow> None | Some (Inl _) \<Rightarrow> Some (Inl errorV03) | Some (Inr r) \<Rightarrow> Some (Inr r))
     | r \<Rightarrow> r)"

fun Exclude_setLite :: "byte list \<Rightarrow> lite_entry list \<Rightarrow> error + exclude" where
  "Exclude_setLite inp [] = Inr []"
| "Exclude_setLite inp (LITE_ANY # entries) = bindE (Exclude_setLite inp entries) (\<lambda>es. Inr (ANY # es))"
| "Exclude_setLite inp (LITE_COMPONENT lc # entries) =
    bindE (Component_copy inp lc) (\<lambda>c. bindE (Exclude_setLite inp entries) (\<lambda>es. Inr (COMPONENT c # es)))"

text \<open>The forwarding hint, decoded from its bytes; \<open>Interest::set\<close> catches an exception and clears it.\<close>

definition decodeForwardingHint :: "blob \<Rightarrow> (error + delegationSet) option" where
  "decodeForwardingHint hint = (case hint of None \<Rightarrow> Some (Inr []) | Some bs \<Rightarrow> Tlv0_3_decodeDelegationSet bs)"

definition caughtForwardingHint :: "blob \<Rightarrow> (error + delegationSet) option" where
  "caughtForwardingHint hint =
    (case decodeForwardingHint hint of
       Some (Inl e) \<Rightarrow> (if e = Undefined_behaviour then Some (Inl e) else Some (Inr []))
     | r \<Rightarrow> r)"

definition Interest_setFields ::
    "'w \<Rightarrow> decoded_interest \<Rightarrow> name \<Rightarrow> keyLocator \<Rightarrow> exclude \<Rightarrow> int \<Rightarrow> blob \<Rightarrow> delegationSet \<Rightarrow> blob \<Rightarrow> blob \<Rightarrow> 'w interest \<Rightarrow> 'w interest" where
  "Interest_setFields wireFormat di name keyLocator exclude lifetime applicationParameters forwardingHint link nonce i =
    (let i = int_editName (\<lambda>_. name) i;
         i = int_setMinSuffixComponents (di_minSuffixComponents di) i;
         i = int_setMaxSuffixComponents (di_maxSuffixComponents di) i;
         i = i\<lparr>i_didSetCanBePrefix := True\<rparr>;
         i = int_editKeyLocator (\<lambda>_. keyLocator) i;
         i = int_editExclude (\<lambda>_. exclude) i;
         i = int_setChildSelector (di_childSelector di) i;
         i = i\<lparr>i_mustBeFresh := di_mustBeFresh di\<rparr>;
         i = int_setInterestLifetime lifetime i;
         i = i\<lparr>i_applicationParameters := applicationParameters\<rparr>;
         i = int_editForwardingHint (\<lambda>_. forwardingHint) i;
         i = (case link of None \<Rightarrow> int_unsetLink i | Some l \<Rightarrow> int_setLinkWireEncoding (Some l) (Some wireFormat) i);
         i = int_setSelectedDelegationIndex (di_selectedDelegationIndex di) i
     in i\<lparr>i_nonce := nonce\<rparr>)"

definition Interest_setLite :: "'w \<Rightarrow> byte list \<Rightarrow> decoded_interest \<Rightarrow> 'w interest \<Rightarrow> (error + 'w interest) option" where
  "Interest_setLite wireFormat inp di i =
    bindO (Some (Name_setLite inp (di_name di))) (\<lambda>name.
    bindO (Some (KeyLocator_setLite inp (di_keyLocator di))) (\<lambda>keyLocator.
    bindO (Some (Exclude_setLite inp (di_exclude di))) (\<lambda>exclude.
    bindO (Some (fromMilliseconds (di_interestLifetimeMilliseconds di))) (\<lambda>lifetime.
    bindO (Some (Blob_copyOptional inp (di_applicationParameters di))) (\<lambda>applicationParameters.
    bindO (Some (Blob_copyOptional inp (di_forwardingHintWireEncoding di))) (\<lambda>hintEncoding.
    bindO (caughtForwardingHint hintEncoding) (\<lambda>forwardingHint.
    bindO (Some (Blob_copyOptional inp (di_linkWireEncoding di))) (\<lambda>link.
    bindO (Some (Blob_copyOptional inp (di_nonce di))) (\<lambda>nonce.
      let i = int_getChangeCount (Interest_setFields wireFormat di name keyLocator exclude lifetime applicationParameters
                forwardingHint link nonce i)
      in Some (Inr (i\<lparr>i_getNonceChangeCount := i_changeCount i\<rparr>)))))))))))"

definition Tlv0_3_decodeInterest :: "'w \<Rightarrow> byte list \<Rightarrow> 'w interest \<Rightarrow> (error + ('w interest \<times> nat \<times> nat)) option" where
  "Tlv0_3_decodeInterest wireFormat inp i =
    bindO (lift_decoding (decodeTlvInterest (dec_initialize inp))) (\<lambda>(di, b, b', _).
    bindO (Some (Blob_copyOptional inp (di_forwardingHintWireEncoding di))) (\<lambda>hintEncoding.
    bindO (decodeForwardingHint hintEncoding) (\<lambda>_.
    bindO (Interest_setLite wireFormat inp di i) (\<lambda>i. Some (Inr (i, unat b, unat b'))))))"

section \<open>Delegation sets on the wire\<close>

definition delegation_fields :: "delegation \<Rightarrow> field list" where
  "delegation_fields dg = [(30, nonNegativeIntegerBytes (of_int (fst dg))), (ndn_Tlv_Name, name_bytes (snd dg))]"

definition delegation_field :: "delegation \<Rightarrow> field" where
  "delegation_field dg = (31, fields_bytes (delegation_fields dg))"

definition delegation_wire_ok :: "delegation \<Rightarrow> bool" where
  "delegation_wire_ok dg \<longleftrightarrow> - (2 ^ 31) \<le> fst dg \<and> fst dg < 2 ^ 31 \<and> name_wire_ok (snd dg)"

definition wire_delegation :: "delegation \<Rightarrow> delegation" where
  "wire_delegation dg = (fst dg, wire_name (snd dg))"

lemma delegation_writer:
  assumes "delegation_wire_ok dg"
  shows "tlv_writer (encodeTlvDelegationSet_Delegation dg) (fields_bytes [delegation_field dg])"
proof -
  have "tlv_writer (encodeTlvName_only (snd dg)) (fields_bytes [(ndn_Tlv_Name, name_bytes (snd dg))])"
    using name_writer [OF name_wire_ok_encodable] assms by (simp add: delegation_wire_ok_def)
  then have "tlv_writer (\<lambda>e. bindE (writeNonNegativeIntegerTlv 30 (of_int (fst dg)) e) (encodeTlvName_only (snd dg)))
      (fields_bytes (delegation_fields dg))"
    using fields_append_writer [OF integer_writer [of 30 "of_int (fst dg)"], of "encodeTlvName_only (snd dg)"] by (simp add: delegation_fields_def del: fields_bytes_simps)
  then have "tlv_writer (encodeDelegationValue dg) (fields_bytes (delegation_fields dg))"
    by (rule tlv_writer_cong) (simp add: encodeDelegationValue_def)
  then show ?thesis
    using nested_writer by (simp add: encodeTlvDelegationSet_Delegation_def delegation_field_def)
qed

lemma encodeDelegations_eq:
  assumes "\<forall>dg \<in> set dgs. delegation_wire_ok dg" and "enc_ready e" "enc_enableOutput e"
  shows "\<exists>e'. encodeDelegations dgs e = Inr e' \<and> appends e (fields_bytes (map delegation_field dgs)) e'"
  using assms
proof (induction dgs arbitrary: e)
  case Nil
  then show ?case by (simp add: appends_Nil enc_ready_def)
next
  case (Cons dg dgs)
  have ok: "delegation_wire_ok dg" using Cons.prems(1) by simp
  have ready: "enc_wf e" "enc_realloc e" using Cons.prems(2,3) by (simp_all add: enc_ready_def)
  obtain e1 where e1: "encodeTlvDelegationSet_Delegation dg e = Inr e1" "appends e (fields_bytes [delegation_field dg]) e1"
    using tlv_writer.write_enabled [OF delegation_writer [OF ok]] ready Cons.prems(3) by (auto simp: enc_fits_def)
  have "enc_ready e1" "enc_enableOutput e1" using e1(2) ready Cons.prems(3) appends_wf by (auto simp: enc_ready_def appends_def)
  then obtain e2 where e2: "encodeDelegations dgs e1 = Inr e2" "appends e1 (fields_bytes (map delegation_field dgs)) e2"
    using Cons.IH Cons.prems(1) by auto
  have "Name_getLite (snd dg) = Inr (snd dg)" using ok by (simp add: Name_getLite_ok delegation_wire_ok_def)
  then show ?case using e1 e2 appends_trans [OF e1(2) e2(2)] by (simp flip: fields_bytes_simps(3))
qed

lemma within_initial_fields:
  assumes "length (fields_bytes fs) < 2 ^ 63"
  shows "facing (dec_initialize (fields_bytes fs)) (of_nat (length (fields_bytes fs))) fs []"
  using assms by (simp add: facing_def dec_initialize_def dec_wf_def upcoming_def)

lemma sint_preference: "- (2 ^ 31) \<le> k \<Longrightarrow> k < 2 ^ 31 \<Longrightarrow> sint (ucast (of_int k :: u64) :: u32) = k"
proof -
  assume "- (2 ^ 31) \<le> k" "k < 2 ^ 31"
  moreover have "(ucast (of_int k :: u64) :: u32) = of_int k" by (rule bit_word_eqI) (simp add: bit_ucast_iff bit_word_of_int_iff)
  ultimately show ?thesis by (simp add: signed_of_int signed_take_bit_int_eq_self)
qed

lemma decodeDelegation_back:
  assumes ok: "delegation_wire_ok dg" and len: "length (fields_bytes (delegation_field dg # fs)) < 2 ^ 63"
  shows "decodeDelegation (fields_bytes (delegation_field dg # fs)) =
    Some (Inr (wire_delegation dg, length (fields_bytes [delegation_field dg])))"
proof -
  let ?inp = "fields_bytes (delegation_field dg # fs)"
  let ?d = "dec_initialize ?inp" and ?e = "of_nat (length ?inp) :: u64"
  have w: "facing ?d ?e ((31, fields_bytes (delegation_fields dg)) # fs) []"
    using within_initial_fields [OF len] by (simp add: delegation_field_def)
  obtain d1 e1 where start: "readNestedTlvsStart 31 ?d = Inr (e1, d1)" "took ?d d1 e1 (delegation_fields dg) (fields_bytes fs @ [])"
    and outer: "\<And>d2. took d1 d2 e1 [] (fields_bytes fs @ []) \<Longrightarrow> took ?d d2 ?e fs []"
    using within_readNestedTlvsStart [OF w] by auto
  obtain d2 where p: "readNonNegativeIntegerTlv 30 d1 = Inr (of_int (fst dg), d2)"
      "took d1 d2 e1 [(ndn_Tlv_Name, name_bytes (snd dg))] (fields_bytes fs @ [])"
    using within_readNonNegativeIntegerTlv [OF took_within [OF start(2), unfolded delegation_fields_def]] by blast
  obtain lcs b b' d3 where n: "decodeTlvName maxNameComponents d2 = Some (Inr (lcs, b, b', d3))"
      "Name_setLite (dec_input d2) lcs = Inr (wire_name (snd dg))" "took d2 d3 e1 [] (fields_bytes fs @ [])"
    using decodeTlvName_back [OF took_within [OF p(2)]] ok by (auto simp: delegation_wire_ok_def)
  have inp: "dec_input d2 = ?inp" using took_input [OF start(2)] took_input [OF p(2)] by (simp add: dec_initialize_def)
  have "took ?d d3 ?e fs []" by (rule outer [OF took_trans [OF p(2) n(3)]])
  then have "dec_offset d3 = of_nat (length (fields_bytes [delegation_field dg]))"
    by (simp add: took_def facing_def delegation_field_def algebra_simps)
  moreover have "length (fields_bytes [delegation_field dg]) < 2 ^ 64"
    using len by (simp add: delegation_field_def)
  ultimately have "unat (dec_offset d3) = length (fields_bytes [delegation_field dg])"
    by (simp add: unat_of_nat del: fields_bytes_simps)
  moreover have "sint (ucast (of_int (fst dg) :: u64) :: u32) = fst dg"
    using ok by (intro sint_preference) (simp_all add: delegation_wire_ok_def)
  ultimately show ?thesis
    using start(1) p(1) n(1,2) inp within_finish [OF took_within [OF n(3)]]
    by (simp add: decodeDelegation_def decodeTlvDelegationSet_Delegation_def lift_decoding_def wire_delegation_def del: fields_bytes_simps)
qed

lemma decodeDelegations_back:
  "\<lbrakk>\<forall>dg \<in> set dgs. delegation_wire_ok dg; drop off inp = fields_bytes (map delegation_field dgs); off \<le> length inp; length inp < 2 ^ 63\<rbrakk> \<Longrightarrow>
    decodeDelegations inp off acc = Some (Inr (acc @ map wire_delegation dgs))"
proof (induction dgs arbitrary: off acc)
  case Nil
  then show ?case by (simp add: decodeDelegations.simps [of inp])
next
  case (Cons dg dgs)
  let ?n = "length (fields_bytes [delegation_field dg])"
  have bytes: "drop off inp = fields_bytes [delegation_field dg] @ fields_bytes (map delegation_field dgs)"
    using Cons.prems(2) by (simp flip: fields_bytes_simps(3))
  have lens: "length inp - off = ?n + length (fields_bytes (map delegation_field dgs))"
    using arg_cong [OF bytes, of length] by simp
  have pos: "0 < ?n" using tlvBytes_nonempty by (simp add: delegation_field_def del: length_tlvBytes)
  have "length (drop off inp) < 2 ^ 63" using Cons.prems(4) by simp
  then have "length (fields_bytes (delegation_field dg # map delegation_field dgs)) < 2 ^ 63" using Cons.prems(2) by simp
  then have dg: "decodeDelegation (drop off inp) = Some (Inr (wire_delegation dg, ?n))"
    using decodeDelegation_back [of dg "map delegation_field dgs"] Cons.prems(1,2) by simp
  have "drop (off + ?n) inp = fields_bytes (map delegation_field dgs)"
    using arg_cong [OF bytes, of "drop ?n"] by (simp add: add.commute)
  then have "decodeDelegations inp (off + ?n) (acc @ [wire_delegation dg]) = Some (Inr ((acc @ [wire_delegation dg]) @ map wire_delegation dgs))"
    using Cons.IH [of "off + ?n"] Cons.prems lens pos by simp
  moreover have "off < length inp" using lens pos by linarith
  ultimately show ?case using dg by (subst decodeDelegations.simps) simp
qed

text \<open>A delegation set is decoded from its encoding, and the encoding is the sequence of the encodings of its delegations.\<close>

lemma delegationSet_wire:
  assumes "\<forall>dg \<in> set dgs. delegation_wire_ok dg" and "length (fields_bytes (map delegation_field dgs)) < 2 ^ 63"
  shows "Tlv0_3_encodeDelegationSet dgs = Inr (Some (fields_bytes (map delegation_field dgs)))"
    "Tlv0_3_decodeDelegationSet (fields_bytes (map delegation_field dgs)) = Some (Inr (map wire_delegation dgs))"
proof -
  have "enc_ready (TlvEncoder 256)" "enc_enableOutput (TlvEncoder 256)" by (simp_all add: enc_ready_def TlvEncoder_def enc_wf_def)
  then obtain e' where "encodeDelegations dgs (TlvEncoder 256) = Inr e'" "appends (TlvEncoder 256) (fields_bytes (map delegation_field dgs)) e'"
    using encodeDelegations_eq [OF assms(1)] by blast
  then show "Tlv0_3_encodeDelegationSet dgs = Inr (Some (fields_bytes (map delegation_field dgs)))"
    using appends_encoded by (force simp: Tlv0_3_encodeDelegationSet_def TlvEncoder_def encoded_def enc_finish_def)
  show "Tlv0_3_decodeDelegationSet (fields_bytes (map delegation_field dgs)) = Some (Inr (map wire_delegation dgs))"
    using decodeDelegations_back [of dgs 0 "fields_bytes (map delegation_field dgs)" "[]"] assms
    by (simp add: Tlv0_3_decodeDelegationSet_def)
qed

end
