(* ===== verification/Wire_Interest_Props.thy ===== *)
theory Wire_Interest_Props
  imports Wire_Interest
begin

text \<open>
  What the interest formats keep.  In version 0.3 an interest is its name, CanBePrefix, MustBeFresh, the forwarding hint,
  the nonce, the lifetime and the application parameters; the selectors of version 0.2 do not travel.
\<close>

section \<open>Version 0.3\<close>

definition hint_bytes :: "delegationSet \<Rightarrow> byte list option" where
  "hint_bytes dgs = (if dgs = [] then None else Some (fields_bytes (map delegation_field dgs)))"

definition parameter_bytes :: "blob \<Rightarrow> byte list option" where
  "parameter_bytes p = (if blob_size p > 0 then p else None)"

definition rest_fields :: "byte list \<Rightarrow> 'w interest \<Rightarrow> field list" where
  "rest_fields nonce i =
    flag_field 33 (int_getCanBePrefix i) @ flag_field 18 (i_mustBeFresh i) @ blob_field 30 (hint_bytes (cc_get (i_forwardingHint i))) @
    blob_field 10 (Some nonce) @ number_field 12 (time_number (i_interestLifetime i)) @ blob_field 36 (parameter_bytes (i_applicationParameters i))"

definition interest_fields :: "byte list \<Rightarrow> 'w interest \<Rightarrow> field list" where
  "interest_fields nonce i = (ndn_Tlv_Name, name_bytes (int_getName i)) # rest_fields nonce i"

text \<open>The limits of the Lite structures, and values the format can carry.\<close>

definition interest_wire_ok :: "'w interest \<Rightarrow> bool" where
  "interest_wire_ok i \<longleftrightarrow> name_wire_ok (int_getName i) \<and> length (kl_keyName (cc_get (i_keyLocator i))) \<le> maxNameComponents \<and>
    length (cc_get (i_exclude i)) \<le> 100 \<and> time_wire_ok (i_interestLifetime i) \<and>
    (\<forall>dg \<in> set (cc_get (i_forwardingHint i)). delegation_wire_ok dg)"

lemma flag_writer: "tlv_writer (writeFlag t b) (fields_bytes (flag_field t b))"
proof (cases b)
  case True
  have "tlv_writer (writeFlag t b) (typeAndLengthBytes t 0)"
    by (rule tlv_writer_cong [OF tl.tlv_writer_axioms]) (simp add: writeFlag_def True)
  then show ?thesis using True by (simp add: flag_field_def tlvBytes_def)
next
  case False
  have "tlv_writer (writeFlag t b) []" by (rule tlv_writer_cong [OF tlv_writer_Nil]) (simp add: writeFlag_def False)
  then show ?thesis using False by (simp add: flag_field_def)
qed

lemma writeOptionalBlobTlv_eq: "writeOptionalBlobTlv t b e = (if blob_size b > 0 then writeBlobTlv t (blob_bytes b) e else Inr e)"
  by (cases b) (simp_all add: writeOptionalBlobTlv_def)

lemma blob_field_writer:
  "tlv_writer (\<lambda>e. if blob_size b > 0 then writeBlobTlv t (blob_bytes b) e else Inr e) (fields_bytes (blob_field t (parameter_bytes b)))"
  using blob_writer [of t "blob_bytes b"] empty_writer by (cases b) (simp_all add: blob_field_def parameter_bytes_def)

lemma nonce_writer:
  "nonceBytes random n = Inr nonce \<Longrightarrow> tlv_writer (writeNonce random n) (fields_bytes (blob_field 10 (Some nonce)))"
  by (rule tlv_writer_cong [of "writeBlobTlv 10 nonce"]) (simp_all add: blob_field_def blob_writer [simplified] writeNonce_def)

lemma hint_parameter: "parameter_bytes (hint_bytes dgs) = hint_bytes dgs"
proof (cases dgs)
  case (Cons dg dgs')
  then have "fields_bytes (map delegation_field dgs) \<noteq> []"
    using tlvBytes_nonempty by (simp add: delegation_field_def)
  then show ?thesis by (simp add: hint_bytes_def parameter_bytes_def)
qed (simp add: hint_bytes_def parameter_bytes_def)

lemma rest_writer:
  assumes ok: "time_wire_ok (i_interestLifetime i)" and nonce: "nonceBytes random (i_nonce i) = Inr nonce"
    and li: "li_maxSuffixComponents li = i_maxSuffixComponents i" "li_mustBeFresh li = i_mustBeFresh i"
      "li_forwardingHintWireEncoding li = hint_bytes (cc_get (i_forwardingHint i))" "li_nonce li = i_nonce i"
      "li_interestLifetimeMilliseconds li = toMilliseconds (i_interestLifetime i)" "li_applicationParameters li = i_applicationParameters i"
  shows "tlv_writer (encodeInterestRestV03 random li) (fields_bytes (rest_fields nonce i))"
proof -
  let ?h = "hint_bytes (cc_get (i_forwardingHint i))" and ?p = "i_applicationParameters i"
  have "tlv_writer (\<lambda>e. bindE (writeFlag 33 (i_maxSuffixComponents i \<noteq> 1) e) (\<lambda>e. bindE (writeFlag 18 (i_mustBeFresh i) e) (\<lambda>e.
      bindE (if blob_size ?h > 0 then writeBlobTlv 30 (blob_bytes ?h) e else Inr e) (\<lambda>e. bindE (writeNonce random (i_nonce i) e) (\<lambda>e.
      bindE (writeOptionalNonNegativeIntegerTlvFromDouble 12 (toMilliseconds (i_interestLifetime i)) e)
        (\<lambda>e. if blob_size ?p > 0 then writeBlobTlv 36 (blob_bytes ?p) e else Inr e))))))
    (fields_bytes (flag_field 33 (i_maxSuffixComponents i \<noteq> 1) @ flag_field 18 (i_mustBeFresh i) @ blob_field 30 (parameter_bytes ?h) @
      blob_field 10 (Some nonce) @ number_field 12 (time_number (i_interestLifetime i)) @ blob_field 36 (parameter_bytes ?p)))"
    by (intro fields_append_writer flag_writer blob_field_writer nonce_writer time_writer ok nonce)
  then show ?thesis unfolding hint_parameter rest_fields_def int_getCanBePrefix_def
    by (rule tlv_writer_cong) (unfold encodeInterestRestV03_def li writeOptionalBlobTlv_eq, rule refl)
qed

lemma Blob_copyOptional_back:
  "(case v of None \<Rightarrow> s = None | Some bs \<Rightarrow> \<exists>sl. s = Some sl \<and> slice_bytes inp sl = Some bs) \<Longrightarrow> Blob_copyOptional inp s = Inr v"
  by (auto simp: Blob_copyOptional_def Blob_copy_def split: option.splits)

text \<open>The decoder of version 0.3 before the fields of an interest.\<close>

lemma decodeTlvInterestV03_back:
  assumes "facing d e [(5, fields_bytes fs)] rest"
    and fs: "fs = (ndn_Tlv_Name, name_bytes n) # flag_field 33 cbp @ flag_field 18 mbf @ blob_field 30 hint @
      blob_field 10 nonce @ number_field 12 (time_number lt) @ blob_field 36 params"
    and n: "name_wire_ok n" and time: "time_wire_ok lt"
    and b: "b = dec_offset d + of_nat (length (typeAndLengthBytes 5 (length (fields_bytes fs))))"
  shows "\<exists>lcs sh sn sp ms d'. decodeTlvInterestV03 d = Some (Inr (\<lparr>di_name = lcs, di_minSuffixComponents = -1,
        di_maxSuffixComponents = (if cbp then -1 else 1), di_keyLocator = lite_KeyLocator0, di_exclude = [],
        di_childSelector = -1, di_mustBeFresh = mbf, di_interestLifetimeMilliseconds = ms, di_nonce = sn,
        di_forwardingHintWireEncoding = sh, di_applicationParameters = sp, di_linkWireEncoding = None,
        di_selectedDelegationIndex = -1\<rparr>,
      b + of_nat (name_header n), b + of_nat (name_header n + length (name_bytes (butlast n))), d')) \<and>
    Name_setLite (dec_input d) lcs = Inr (wire_name n) \<and> fromMilliseconds ms = Inr (wire_time lt) \<and>
    Blob_copyOptional (dec_input d) sh = Inr hint \<and> Blob_copyOptional (dec_input d) sn = Inr nonce \<and>
    Blob_copyOptional (dec_input d) sp = Inr params"
proof -
  let ?f6 = "blob_field 36 params"
  let ?f5 = "number_field 12 (time_number lt) @ ?f6"
  let ?f4 = "blob_field 10 nonce @ ?f5"
  let ?f3 = "blob_field 30 hint @ ?f4"
  let ?f2 = "flag_field 18 mbf @ ?f3"
  let ?f1 = "flag_field 33 cbp @ ?f2"
  have nn: "next_not 33 ?f2" "next_not 18 ?f3" "next_not 30 ?f4" "next_not 10 ?f5" "next_not 12 ?f6" "next_not 34 ?f6" "next_not 36 []"
    by simp_all
  obtain d1 e1 where start: "readNestedTlvsStart 5 d = Inr (e1, d1)" "took d d1 e1 fs rest"
    using within_readNestedTlvsStart [OF assms(1)] by auto
  have up: "dec_wf d" "upcoming d = tlvBytes 5 (fields_bytes fs) @ rest" using assms(1) by (simp_all add: facing_def)
  have off: "dec_offset d1 = b"
    using start(1) tlv_upcoming(1) [OF up] by (auto simp: readNestedTlvsStart_def advance_def b)
  obtain lcs d2 where nm: "decodeTlvName maxNameComponents d1 = Some (Inr (lcs, dec_offset d1 + of_nat (name_header n),
      dec_offset d1 + of_nat (name_header n + length (name_bytes (butlast n))), d2))"
    "Name_setLite (dec_input d1) lcs = Inr (wire_name n)" "took d1 d2 e1 ?f1 rest"
    using decodeTlvName_back [OF took_within [OF start(2), unfolded fs] n] by blast
  obtain d3 where f1: "readBooleanTlv 33 e1 d2 = Inr (cbp, d3)" "took d2 d3 e1 ?f2 rest"
    using within_readFlag [OF took_within [OF nm(3)] nn(1)] by blast
  obtain d4 where f2: "readBooleanTlv 18 e1 d3 = Inr (mbf, d4)" "took d3 d4 e1 ?f3 rest"
    using within_readFlag [OF took_within [OF f1(2)] nn(2)] by blast
  obtain sh d5 where f3: "readOptionalBlobTlv 30 e1 d4 = Inr (sh, d5)" "took d4 d5 e1 ?f4 rest" "Blob_copyOptional (dec_input d4) sh = Inr hint"
    using within_readOptionalBlob [OF took_within [OF f2(2)] nn(3)] Blob_copyOptional_back by blast
  obtain sn d6 where f4: "readOptionalBlobTlv 10 e1 d5 = Inr (sn, d6)" "took d5 d6 e1 ?f5 rest" "Blob_copyOptional (dec_input d5) sn = Inr nonce"
    using within_readOptionalBlob [OF took_within [OF f3(2)] nn(4)] Blob_copyOptional_back by blast
  obtain ms d7 where f5: "readOptionalNonNegativeIntegerTlvAsDouble 12 e1 d6 = Inr (ms, d7)" "fromMilliseconds ms = Inr (wire_time lt)" "took d6 d7 e1 ?f6 rest"
    using within_time [OF took_within [OF f4(2)] nn(5) time] by blast
  obtain d8 where f6: "readOptionalBlobTlv 34 e1 d7 = Inr (None, d8)" "took d7 d8 e1 (?f6 @ []) rest"
    using within_readOptionalBlob [of d7 e1 34 None ?f6 rest, OF _ nn(6)] took_within [OF f5(3)] by (auto simp: blob_field_def [of 34])
  obtain sp d9 where f7: "readOptionalBlobTlv 36 e1 d8 = Inr (sp, d9)" "took d8 d9 e1 [] rest" "Blob_copyOptional (dec_input d8) sp = Inr params"
    using within_readOptionalBlob [OF took_within [OF f6(2)] nn(7)] Blob_copyOptional_back by blast
  have inp: "dec_input d1 = dec_input d" "dec_input d4 = dec_input d" "dec_input d5 = dec_input d" "dec_input d8 = dec_input d"
    using took_input [OF start(2)] took_input [OF nm(3)] took_input [OF f1(2)] took_input [OF f2(2)] took_input [OF f3(2)] took_input [OF f4(2)]
      took_input [OF f5(3)] took_input [OF f6(2)] by simp_all
  have "decodeTlvInterestV03 d = Some (Inr (\<lparr>di_name = lcs, di_minSuffixComponents = -1, di_maxSuffixComponents = (if cbp then -1 else 1),
        di_keyLocator = lite_KeyLocator0, di_exclude = [], di_childSelector = -1, di_mustBeFresh = mbf,
        di_interestLifetimeMilliseconds = ms, di_nonce = sn, di_forwardingHintWireEncoding = sh,
        di_applicationParameters = sp, di_linkWireEncoding = None, di_selectedDelegationIndex = -1\<rparr>,
      dec_offset d1 + of_nat (name_header n), dec_offset d1 + of_nat (name_header n + length (name_bytes (butlast n))), d9))"
    using start(1) nm(1) f1(1) f2(1) f3(1) f4(1) f5(1) f6(1) f7(1) within_finish [OF took_within [OF f7(2)]] by (simp add: decodeTlvInterestV03_def)
  then show ?thesis using off nm(2) f3(3) f4(3) f5(2) f7(3) inp by auto
qed

text \<open>The fields of an interest, and what the format makes of them.\<close>

record interest_values =
  iv_name :: name
  iv_minSuffixComponents :: int
  iv_maxSuffixComponents :: int
  iv_keyLocator :: keyLocator
  iv_exclude :: exclude
  iv_childSelector :: int
  iv_mustBeFresh :: bool
  iv_interestLifetime :: int
  iv_nonce :: blob
  iv_forwardingHint :: delegationSet
  iv_applicationParameters :: blob
  iv_selectedDelegationIndex :: int

definition interest_values :: "'w interest \<Rightarrow> interest_values" where
  "interest_values i =
    \<lparr>iv_name = int_getName i, iv_minSuffixComponents = i_minSuffixComponents i, iv_maxSuffixComponents = i_maxSuffixComponents i,
     iv_keyLocator = cc_get (i_keyLocator i), iv_exclude = cc_get (i_exclude i), iv_childSelector = i_childSelector i,
     iv_mustBeFresh = i_mustBeFresh i, iv_interestLifetime = i_interestLifetime i, iv_nonce = i_nonce i,
     iv_forwardingHint = cc_get (i_forwardingHint i), iv_applicationParameters = i_applicationParameters i,
     iv_selectedDelegationIndex = i_selectedDelegationIndex i\<rparr>"

definition wire_interest :: "byte list \<Rightarrow> 'w interest \<Rightarrow> interest_values" where
  "wire_interest nonce i =
    \<lparr>iv_name = wire_name (int_getName i), iv_minSuffixComponents = -1,
     iv_maxSuffixComponents = (if int_getCanBePrefix i then -1 else 1), iv_keyLocator = KeyLocator0, iv_exclude = [],
     iv_childSelector = -1, iv_mustBeFresh = i_mustBeFresh i, iv_interestLifetime = wire_time (i_interestLifetime i),
     iv_nonce = Some nonce, iv_forwardingHint = map wire_delegation (cc_get (i_forwardingHint i)),
     iv_applicationParameters = parameter_bytes (i_applicationParameters i), iv_selectedDelegationIndex = -1\<rparr>"

lemma int_getChangeCount_values: "interest_values (int_getChangeCount i) = interest_values i"
  by (simp add: interest_values_def int_getName_def int_getChangeCount_def int_changed_def case_prod_unfold Let_def counting)

lemma int_getChangeCount_settled: "i_changeCount (int_getChangeCount (int_getChangeCount i)) = i_changeCount (int_getChangeCount i)"
  by (simp add: int_getChangeCount_def int_changed_def case_prod_unfold Let_def counting)

lemma int_getChangeCount_cache:
  "int_getChangeCount (i\<lparr>i_defaultWireEncoding := e, i_defaultWireEncodingFormat := f\<rparr>) =
    (int_getChangeCount i)\<lparr>i_defaultWireEncoding := e, i_defaultWireEncodingFormat := f\<rparr>"
  "int_getChangeCount (i\<lparr>i_getDefaultWireEncodingChangeCount := c\<rparr>) = (int_getChangeCount i)\<lparr>i_getDefaultWireEncodingChangeCount := c\<rparr>"
  by (simp_all add: int_getChangeCount_def int_changed_def case_prod_unfold Let_def)

lemma int_setDefaultWireEncoding_values: "interest_values (int_setDefaultWireEncoding e f i) = interest_values i"
  by (simp add: int_setDefaultWireEncoding_def int_getChangeCount_cache Let_def)
    (simp add: interest_values_def int_getName_def int_getChangeCount_def int_changed_def case_prod_unfold Let_def counting)

text \<open>Where the nonce was set last, storing an encoding keeps it, and both are returned.\<close>

lemma int_setDefaultWireEncoding_settled:
  assumes "i_getNonceChangeCount i = i_changeCount i" "i_changeCount (int_getChangeCount i) = i_changeCount i"
  shows "fst (int_getNonce (int_setDefaultWireEncoding e f i)) = iv_nonce (interest_values i)"
    "fst (int_getDefaultWireEncoding (int_setDefaultWireEncoding e f i)) = e"
  using assms int_getChangeCount_settled [of i]
  by (simp_all add: int_getNonce_def int_getDefaultWireEncoding_def int_setDefaultWireEncoding_def int_getChangeCount_cache Let_def
      int_getChangeCount_same interest_values_def)

text \<open>What \<open>Interest::set\<close> leaves in the object: the values, and a nonce that counts as set.\<close>

lemma Interest_setLite_values:
  assumes "Name_setLite inp (di_name di) = Inr name" "KeyLocator_setLite inp (di_keyLocator di) = Inr keyLocator"
    "Exclude_setLite inp (di_exclude di) = Inr exclude" "fromMilliseconds (di_interestLifetimeMilliseconds di) = Inr lifetime"
    "Blob_copyOptional inp (di_applicationParameters di) = Inr params" "Blob_copyOptional inp (di_forwardingHintWireEncoding di) = Inr hint"
    "decodeForwardingHint hint = Some (Inr dgs)" "Blob_copyOptional inp (di_linkWireEncoding di) = Inr link"
    "Blob_copyOptional inp (di_nonce di) = Inr nonce"
  shows "\<exists>j :: 'w interest. Interest_setLite w inp di i = Some (Inr j) \<and> i_getNonceChangeCount j = i_changeCount j \<and>
    i_changeCount (int_getChangeCount j) = i_changeCount j \<and> interest_values j =
      \<lparr>iv_name = name, iv_minSuffixComponents = di_minSuffixComponents di, iv_maxSuffixComponents = di_maxSuffixComponents di,
       iv_keyLocator = keyLocator, iv_exclude = exclude, iv_childSelector = di_childSelector di, iv_mustBeFresh = di_mustBeFresh di,
       iv_interestLifetime = lifetime, iv_nonce = nonce, iv_forwardingHint = dgs, iv_applicationParameters = params,
       iv_selectedDelegationIndex = di_selectedDelegationIndex di\<rparr>"
proof -
  let ?k = "Interest_setFields w di name keyLocator exclude lifetime params dgs link nonce i"
  have k: "Interest_setLite w inp di i = Some (Inr ((int_getChangeCount ?k)\<lparr>i_getNonceChangeCount := i_changeCount (int_getChangeCount ?k)\<rparr>))"
    using assms by (simp add: Interest_setLite_def caughtForwardingHint_def Let_def)
  have v: "interest_values ?k =
      \<lparr>iv_name = name, iv_minSuffixComponents = di_minSuffixComponents di, iv_maxSuffixComponents = di_maxSuffixComponents di,
       iv_keyLocator = keyLocator, iv_exclude = exclude, iv_childSelector = di_childSelector di, iv_mustBeFresh = di_mustBeFresh di,
       iv_interestLifetime = lifetime, iv_nonce = nonce, iv_forwardingHint = dgs, iv_applicationParameters = params,
       iv_selectedDelegationIndex = di_selectedDelegationIndex di\<rparr>"
    by (cases link) (simp_all add: Interest_setFields_def interest_values_def interest_step_defs int_getName_def counting)
  have vals: "interest_values (k\<lparr>i_getNonceChangeCount := c\<rparr>) = interest_values k" for k :: "'w interest" and c
    by (simp add: interest_values_def int_getName_def)
  have count: "i_changeCount (int_getChangeCount (k\<lparr>i_getNonceChangeCount := c\<rparr>)) = i_changeCount (int_getChangeCount k)" for k :: "'w interest" and c
    by (simp add: int_getChangeCount_def int_changed_def case_prod_unfold Let_def)
  show ?thesis using k v by (simp add: Let_def vals int_getChangeCount_values count int_getChangeCount_settled)
qed

lemma Interest_getLite_ok:
  assumes "interest_wire_ok i" and "length (fields_bytes (map delegation_field (cc_get (i_forwardingHint i)))) < 2 ^ 63"
  shows "Interest_getLite link i = Inr \<lparr>li_name = int_getName i, li_minSuffixComponents = i_minSuffixComponents i,
    li_maxSuffixComponents = i_maxSuffixComponents i,
    li_keyLocator = (cc_get (i_keyLocator i))\<lparr>kl_keyName := map component_get (kl_keyName (cc_get (i_keyLocator i)))\<rparr>,
    li_exclude = map entry_get (cc_get (i_exclude i)), li_childSelector = i_childSelector i, li_mustBeFresh = i_mustBeFresh i,
    li_interestLifetimeMilliseconds = toMilliseconds (i_interestLifetime i), li_nonce = i_nonce i,
    li_forwardingHintWireEncoding = hint_bytes (cc_get (i_forwardingHint i)), li_applicationParameters = i_applicationParameters i,
    li_linkWireEncoding = link, li_selectedDelegationIndex = i_selectedDelegationIndex i\<rparr>"
  using assms delegationSet_wire(1)
  by (auto simp: Interest_getLite_def interest_wire_ok_def map_component_get name_wire_ok_length Name_getLite_def KeyLocator_getLite_def Exclude_getLite_def hint_bytes_def)

definition interest_encoding :: "byte list \<Rightarrow> 'w interest \<Rightarrow> signedBlob" where
  "interest_encoding nonce i =
    (let v = fields_bytes (interest_fields nonce i);
         b = length (typeAndLengthBytes 5 (length v)) + name_header (int_getName i)
     in \<lparr>sb_bytes = tlvBytes 5 v, sb_signedPortionBeginOffset = b,
         sb_signedPortionEndOffset = b + length (name_bytes (butlast (int_getName i)))\<rparr>)"

lemma Tlv0_3_encodeInterest_eq:
  assumes ok: "interest_wire_ok i" and nonce: "nonceBytes random (i_nonce i) = Inr nonce"
    and len: "length (fields_bytes (map delegation_field (cc_get (i_forwardingHint i)))) < 2 ^ 63"
  shows "Tlv0_3_encodeInterest random link i = Inr (interest_encoding nonce i)"
proof -
  let ?n = "int_getName i" and ?v = "fields_bytes (interest_fields nonce i)"
  obtain li where li: "Interest_getLite link i = Inr li" "li_name li = ?n" "li_maxSuffixComponents li = i_maxSuffixComponents i"
      "li_mustBeFresh li = i_mustBeFresh i" "li_forwardingHintWireEncoding li = hint_bytes (cc_get (i_forwardingHint i))" "li_nonce li = i_nonce i"
      "li_interestLifetimeMilliseconds li = toMilliseconds (i_interestLifetime i)" "li_applicationParameters li = i_applicationParameters i"
    using Interest_getLite_ok [OF ok len] by fastforce
  have r: "tlv_writer (encodeInterestRestV03 random li) (fields_bytes (rest_fields nonce i))"
    using ok by (intro rest_writer nonce li(3-)) (simp add: interest_wire_ok_def)
  have n: "tlv_writer (encodeTlvName_only ?n) (fields_bytes [(ndn_Tlv_Name, name_bytes ?n)])"
    using name_writer [OF name_wire_ok_encodable] ok by (simp add: interest_wire_ok_def)
  let ?w = "\<lambda>e. bindE (encodeTlvName_only ?n e) (encodeInterestRestV03 random li)"
  have w: "tlv_writer ?w ?v" using fields_append_writer [OF n r] by (simp add: interest_fields_def)
  let ?g = "\<lambda>k. (k + name_header ?n, k + name_header ?n + length (name_bytes (butlast ?n)))"
  have f: "encodeInterestValueV03 random li e = bindE (?w e) (\<lambda>e'. Inr (e', ?g (enc_offset e)))" for e
    by (cases "encodeTlvName_only ?n e") (simp_all add: encodeInterestValueV03_def encodeTlvName_eq li(2))
  have e: "enc_enableOutput (TlvEncoder 256)" "enc_ready (TlvEncoder 256)" by (simp_all add: enc_ready_def TlvEncoder_def enc_wf_def)
  obtain e' where e': "writeNestedTlvWith 5 (encodeInterestValueV03 random li) False (TlvEncoder 256) =
      Inr (e', ?g (enc_offset (TlvEncoder 256) + length (typeAndLengthBytes 5 (length ?v))))" "writeNestedTlv 5 ?w False (TlvEncoder 256) = Inr e'"
    using writeNestedTlvWith_eq [OF w f e] by blast
  have "enc_finish e' = Some (tlvBytes 5 ?v)"
    using tlv_writer.write_fresh [OF tlv_writer_nested [OF w, of 5 False], of 256] e'(2) by simp
  then show ?thesis using li(1) e'(1)
    by (simp add: Tlv0_3_encodeInterest_def encodeTlvInterestV0_3_def interest_encoding_def Let_def TlvEncoder_def)
qed

lemma hint_fields_length:
  "length (fields_bytes (map delegation_field (cc_get (i_forwardingHint i)))) \<le> length (fields_bytes (interest_fields nonce i))"
proof (cases "cc_get (i_forwardingHint i) = []")
  case False
  then show ?thesis by (simp add: interest_fields_def rest_fields_def hint_bytes_def blob_field_def sizeOfBlobTlv_def)
qed simp

lemma Tlv0_3_decodeInterest_back:
  assumes ok: "interest_wire_ok i" and len: "length (sb_bytes (interest_encoding nonce i)) < 2 ^ 63"
  defines "sb \<equiv> interest_encoding nonce i"
  shows "\<exists>j'. Tlv0_3_decodeInterest w (sb_bytes sb) j = Some (Inr (j', sb_signedPortionBeginOffset sb, sb_signedPortionEndOffset sb)) \<and>
    i_getNonceChangeCount j' = i_changeCount j' \<and> i_changeCount (int_getChangeCount j') = i_changeCount j' \<and>
    interest_values j' = wire_interest nonce i"
proof -
  let ?n = "int_getName i" and ?dgs = "cc_get (i_forwardingHint i)" and ?v = "fields_bytes (interest_fields nonce i)"
  let ?bytes = "tlvBytes 5 ?v"
  let ?b = "length (typeAndLengthBytes 5 (length ?v))"
  have bytes: "sb_bytes sb = ?bytes" by (simp add: sb_def interest_encoding_def Let_def)
  have len': "length ?bytes < 2 ^ 63" using len bytes by (simp add: sb_def)
  have n: "name_wire_ok ?n" and time: "time_wire_ok (i_interestLifetime i)" and dgs: "\<forall>dg \<in> set ?dgs. delegation_wire_ok dg"
    using ok by (simp_all add: interest_wire_ok_def)
  have w: "facing (dec_initialize ?bytes) (of_nat (length ?bytes)) [(5, ?v)] []" by (rule within_initial [OF len'])
  have fs: "interest_fields nonce i = (ndn_Tlv_Name, name_bytes ?n) # flag_field 33 (int_getCanBePrefix i) @ flag_field 18 (i_mustBeFresh i) @
      blob_field 30 (hint_bytes ?dgs) @ blob_field 10 (Some nonce) @ number_field 12 (time_number (i_interestLifetime i)) @
      blob_field 36 (parameter_bytes (i_applicationParameters i))"
    by (simp add: interest_fields_def rest_fields_def)
  let ?start = "dec_offset (dec_initialize ?bytes) + of_nat ?b :: u64"
  let ?di = "\<lambda>lcs sh sn sp ms. \<lparr>di_name = lcs, di_minSuffixComponents = -1,
        di_maxSuffixComponents = (if int_getCanBePrefix i then -1 else 1), di_keyLocator = lite_KeyLocator0, di_exclude = [],
        di_childSelector = -1, di_mustBeFresh = i_mustBeFresh i, di_interestLifetimeMilliseconds = ms, di_nonce = sn,
        di_forwardingHintWireEncoding = sh, di_applicationParameters = sp, di_linkWireEncoding = None, di_selectedDelegationIndex = -1\<rparr>"
  obtain lcs sh sn sp ms d' where di0: "decodeTlvInterestV03 (dec_initialize ?bytes) = Some (Inr (?di lcs sh sn sp ms,
      ?start + of_nat (name_header ?n), ?start + of_nat (name_header ?n + length (name_bytes (butlast ?n))), d'))"
    and copies0: "Name_setLite (dec_input (dec_initialize ?bytes)) lcs = Inr (wire_name ?n)" "fromMilliseconds ms = Inr (wire_time (i_interestLifetime i))"
      "Blob_copyOptional (dec_input (dec_initialize ?bytes)) sh = Inr (hint_bytes ?dgs)" "Blob_copyOptional (dec_input (dec_initialize ?bytes)) sn = Inr (Some nonce)"
      "Blob_copyOptional (dec_input (dec_initialize ?bytes)) sp = Inr (parameter_bytes (i_applicationParameters i))"
    using decodeTlvInterestV03_back [OF w fs n time refl] by blast
  have init: "dec_input (dec_initialize ?bytes) = ?bytes" "dec_offset (dec_initialize ?bytes) = 0" by (simp_all add: dec_initialize_def)
  have di: "decodeTlvInterestV03 (dec_initialize ?bytes) = Some (Inr (?di lcs sh sn sp ms, of_nat (?b + name_header ?n),
      of_nat (?b + name_header ?n + length (name_bytes (butlast ?n))), d'))"
    using di0 by (simp add: init add.assoc)
  note copies = copies0 [unfolded init]
  have hint: "decodeForwardingHint (hint_bytes ?dgs) = Some (Inr (map wire_delegation ?dgs))"
  proof (cases "?dgs = []")
    case False
    have "length (fields_bytes (map delegation_field ?dgs)) < 2 ^ 63" using len' hint_fields_length [of i nonce] by (simp add: tlvBytes_def [of 5] del: length_tlvBytes)
    then show ?thesis using delegationSet_wire(2) [OF dgs] False by (simp add: decodeForwardingHint_def hint_bytes_def)
  qed (simp add: decodeForwardingHint_def hint_bytes_def)
  have nokey: "KeyLocator_setLite ?bytes lite_KeyLocator0 = Inr KeyLocator0"
    by (simp add: KeyLocator_setLite_def lite_KeyLocator0_def KeyLocator0_def Blob_copyOptional_def)
  obtain j' where j': "Interest_setLite w ?bytes (?di lcs sh sn sp ms) j = Some (Inr j')" "i_getNonceChangeCount j' = i_changeCount j'"
      "i_changeCount (int_getChangeCount j') = i_changeCount j'" "interest_values j' = wire_interest nonce i"
    using Interest_setLite_values [of ?bytes "?di lcs sh sn sp ms" "wire_name ?n" KeyLocator0 "[]" "wire_time (i_interestLifetime i)"
        "parameter_bytes (i_applicationParameters i)" "hint_bytes ?dgs" "map wire_delegation ?dgs" None "Some nonce" w j] copies hint nokey
    by (auto simp: wire_interest_def Blob_copyOptional_def)
  have "length (name_bytes (butlast ?n)) \<le> length (name_bytes ?n)" by (cases ?n rule: rev_cases) simp_all
  then have "name_header ?n + length (name_bytes (butlast ?n)) \<le> length ?v"
    by (simp add: fs name_header_def tlvBytes_def del: length_tlvBytes)
  then have "?b + name_header ?n + length (name_bytes (butlast ?n)) < 2 ^ 63" using len' by (simp add: tlvBytes_def [of 5] del: length_tlvBytes)
  then have "unat (of_nat (?b + name_header ?n) :: u64) = ?b + name_header ?n"
    "unat (of_nat (?b + name_header ?n + length (name_bytes (butlast ?n))) :: u64) = ?b + name_header ?n + length (name_bytes (butlast ?n))"
    by (intro unat_of_nat_u64, simp)+
  then show ?thesis using di j' copies(3) hint
    by (simp add: Tlv0_3_decodeInterest_def decodeTlvInterest_def lift_decoding_def sb_def interest_encoding_def Let_def del: of_nat_add)
qed

lemma signedBlob_eta:
  "\<lparr>sb_bytes = sb_bytes sb, sb_signedPortionBeginOffset = sb_signedPortionBeginOffset sb, sb_signedPortionEndOffset = sb_signedPortionEndOffset sb\<rparr> = sb"
  by simp

text \<open>
  C6. Round trip of interests in version 0.3 of the format.  An interest whose fields the format can carry (with 32 bytes
  in every parameters digest of its names) is encoded, with the nonce completed to four bytes by the random generator, and wireDecode of the bytes makes any interest
  object equal to it in all that version 0.3 keeps: the name, CanBePrefix, MustBeFresh, the forwarding hint, the lifetime in whole
  milliseconds and non-empty application parameters.  The selectors of version 0.2 are reset, getNonce returns the nonce on
  the wire, and the decoded interest caches the encoding with the signed portion where the encoder put it.
\<close>

theorem interest_packet_roundtrip:
  fixes i j :: "unit interest"
  assumes "interest_wire_ok i" and "nonceBytes random (i_nonce i) = Inr nonce"
    and "length (fields_bytes (interest_fields nonce i)) < 2 ^ 62"
  shows "\<exists>sb j'. Tlv0_3_encodeInterest random link i = Inr sb \<and>
    int_wireDecode () (\<lambda>_ bytes k. returned (Tlv0_3_decodeInterest () bytes k)) () (sb_bytes sb) j = Inr j' \<and>
    interest_values j' = wire_interest nonce i \<and> fst (int_getNonce j') = Some nonce \<and> fst (int_getDefaultWireEncoding j') = Some sb"
proof -
  let ?sb = "interest_encoding nonce i"
  have len: "length (sb_bytes ?sb) < 2 ^ 63"
    using assms(3) by (simp add: interest_encoding_def Let_def sizeOfBlobTlv_def sizeOfVarNumber_def)
  have "length (fields_bytes (map delegation_field (cc_get (i_forwardingHint i)))) < 2 ^ 63"
    using assms(3) hint_fields_length [of i nonce] by simp
  then have enc: "Tlv0_3_encodeInterest random link i = Inr ?sb" by (rule Tlv0_3_encodeInterest_eq [OF assms(1,2)])
  obtain k where k: "Tlv0_3_decodeInterest () (sb_bytes ?sb) j = Some (Inr (k, sb_signedPortionBeginOffset ?sb, sb_signedPortionEndOffset ?sb))"
      "i_getNonceChangeCount k = i_changeCount k" "i_changeCount (int_getChangeCount k) = i_changeCount k"
      "interest_values k = wire_interest nonce i"
    using Tlv0_3_decodeInterest_back [OF assms(1) len, of "()" j] by (elim exE conjE)
  let ?j = "int_setDefaultWireEncoding (Some ?sb) (Some ()) k"
  have dec: "int_wireDecode () (\<lambda>_ bytes k. returned (Tlv0_3_decodeInterest () bytes k)) () (sb_bytes ?sb) j = Inr ?j"
    using k(1) by (simp add: int_wireDecode_def returned_def signedBlob_eta)
  have vals: "interest_values ?j = wire_interest nonce i"
    using k(4) by (simp add: int_setDefaultWireEncoding_values)
  have nonce: "iv_nonce (interest_values k) = Some nonce" using k(4) by (simp add: wire_interest_def)
  show ?thesis using int_setDefaultWireEncoding_settled [OF k(2,3), of "Some ?sb" "Some ()"] nonce
    by (intro exI [of _ ?sb] exI [of _ ?j] conjI enc dec vals) simp_all
qed

definition sample_interest :: "unit interest" where
  "sample_interest = int_setNonce (Some [1, 2]) (int_setMustBeFresh True (int_setForwardingHint \<lparr>ver_value = [(10, [genericComponent [98]])], ver_changeCount = 0\<rparr>
    (Interest True True \<lparr>ver_value = [genericComponent [97]], ver_changeCount = 0\<rparr>)))"

lemma sample_interest_values:
  "interest_values sample_interest = \<lparr>iv_name = [genericComponent [97]], iv_minSuffixComponents = -1, iv_maxSuffixComponents = -1,
     iv_keyLocator = KeyLocator0, iv_exclude = [], iv_childSelector = -1, iv_mustBeFresh = True, iv_interestLifetime = -1000000,
     iv_nonce = Some [1, 2], iv_forwardingHint = [(10, [genericComponent [98]])], iv_applicationParameters = None, iv_selectedDelegationIndex = -1\<rparr>"
  by (simp add: sample_interest_def int_setNonce_def int_getChangeCount_def interest_step_defs interest_values_def int_getName_def Interest_def
      case_prod_unfold Let_def counting)

theorem interest_packet_roundtrip_witness:
  "\<exists>sb j'. Tlv0_3_encodeInterest (\<lambda>n. Inr (replicate n 7)) None sample_interest = Inr sb \<and>
    int_wireDecode () (\<lambda>_ bytes k. returned (Tlv0_3_decodeInterest () bytes k)) () (sb_bytes sb) (Interest True True \<lparr>ver_value = [], ver_changeCount = 0\<rparr>) = Inr j' \<and>
    fst (int_getNonce j') = Some [1, 2, 7, 7] \<and> iv_forwardingHint (interest_values j') = [(10, [genericComponent [98]])]"
proof -
  note v = sample_interest_values [unfolded interest_values_def, simplified]
  have ok: "interest_wire_ok sample_interest"
    using v by (simp add: interest_wire_ok_def name_wire_ok_def component_wire_ok_def genericComponent_def maxNameComponents_def KeyLocator0_def
        time_wire_ok_def delegation_wire_ok_def)
  have nonce: "nonceBytes (\<lambda>n. Inr (replicate n 7)) (i_nonce sample_interest) = Inr [1, 2, 7, 7]"
    using v by (simp add: nonceBytes_def eval_nat_numeral)
  have len: "length (fields_bytes (interest_fields [1, 2, 7, 7] sample_interest)) < 2 ^ 62"
    using v by (simp add: interest_fields_def rest_fields_def hint_bytes_def blob_field_def flag_field_def number_field_def time_number_def
        parameter_bytes_def int_getCanBePrefix_def delegation_field_def delegation_fields_def genericComponent_def sizeOfBlobTlv_def
        sizeOfVarNumber_def sizeOfNonNegativeInteger_def)
  have "iv_forwardingHint (wire_interest [1, 2, 7, 7] sample_interest) = [(10, [genericComponent [98]])]"
    using v by (simp add: wire_interest_def wire_delegation_def wire_name_def wire_component_def genericComponent_def)
  then show ?thesis using interest_packet_roundtrip [OF ok nonce len, of None "Interest True True \<lparr>ver_value = [], ver_changeCount = 0\<rparr>"]
    by (elim exE conjE) (intro exI conjI, assumption+, simp)
qed

text \<open>
  The encoder takes the stored nonce and does not ask \<open>getNonce\<close>: an interest that was changed after its nonce was set, whose nonce
  counts as cleared, is sent with the old nonce as long as \<open>getNonce\<close> has not been called.
\<close>

lemma interest_encodes_cleared_nonce:
  fixes nonce :: "byte list" and i :: "'w interest"
  defines "changed \<equiv> \<lambda>i. int_setMustBeFresh True (int_setNonce (Some nonce) i)"
  assumes "interest_wire_ok (changed i)" and "length nonce = 4"
    and "length (fields_bytes (map delegation_field (cc_get (i_forwardingHint (changed i))))) < 2 ^ 63"
  shows "fst (int_getNonce (changed i)) = None \<and> Tlv0_3_encodeInterest random link (changed i) = Inr (interest_encoding nonce (changed i))"
proof -
  let ?i = "i\<lparr>i_nonce := Some nonce\<rparr>"
  have "i_nonce (changed i) = Some nonce"
    by (simp add: changed_def int_setNonce_def interest_step_defs int_getChangeCount_same Let_def)
  then have nonce: "nonceBytes random (i_nonce (changed i)) = Inr nonce" using assms(3) by (simp add: nonceBytes_def)
  have "int_pending (changed i) = 0"
    by (simp add: changed_def int_setNonce_def interest_step_defs Let_def int_pending_def int_getChangeCount_def case_prod_unfold counting)
  then have "i_changeCount (int_getChangeCount (changed i)) = i_changeCount (changed i)" by (simp add: it.count_notice)
  moreover have "i_getNonceChangeCount (changed i) + 1 = i_changeCount (changed i)"
    by (simp add: changed_def int_setNonce_def interest_step_defs Let_def int_getChangeCount_same)
  ultimately have "fst (int_getNonce (changed i)) = None"
    by (simp add: int_getNonce_def Let_def int_getChangeCount_same) (metis add_cancel_left_right one_neq_zero)
  then show ?thesis using Tlv0_3_encodeInterest_eq [OF assms(2) nonce assms(4)] by simp
qed

end
