(* ===== verification/Element_Reader.thy ===== *)
theory Element_Reader
  imports "HOL-Library.Sublist" Tlv_Decoder
begin

text \<open>
  The element reader, which cuts the bytes that arrive from a transport in pieces of any size into TLV elements
  (\<open>src/c/encoding/element-reader.c\<close>), and the structure decoder it scans with (\<open>src/c/encoding/tlv/tlv-structure-decoder.c\<close>).
  Sizes are natural numbers: the code only adds a size to an offset after it has checked that the sum stays within the input.
  The calls of the listener are outputs; \<open>throws\<close> says for which elements the listener throws an exception.
\<close>

section \<open>The structure decoder\<close>

datatype sd_state = READ_TYPE | READ_TYPE_BYTES | READ_LENGTH | READ_LENGTH_BYTES | READ_VALUE_BYTES

record structure_decoder =
  sd_gotElementEnd :: bool
  sd_offset :: nat
  sd_state :: sd_state
  sd_headerLength :: nat
  sd_useHeaderBuffer :: bool
  sd_headerBuffer :: "byte list"
  sd_nBytesToRead :: nat
  sd_firstOctet :: byte

definition sd_reset :: "structure_decoder \<Rightarrow> structure_decoder" where
  "sd_reset sd = sd\<lparr>sd_gotElementEnd := False, sd_offset := 0, sd_state := READ_TYPE, sd_headerLength := 0,
     sd_useHeaderBuffer := False, sd_nBytesToRead := 0\<rparr>"

text \<open>The number of bytes that follow a first octet of 253, 254 or 255.\<close>

definition extendedBytes :: "byte \<Rightarrow> nat" where
  "extendedBytes firstOctet = (if firstOctet = 253 then 2 else if firstOctet = 254 then 4 else 8)"

text \<open>
  One turn of the loop of \<open>findElementEnd\<close>: the left result leaves the function, with an error or without; the right one goes on.
  The offset of the local decoder advances by the bytes it has read.
\<close>

type_synonym scan_result = "structure_decoder \<times> ndn_Error option"

definition gotLength :: "nat \<Rightarrow> structure_decoder \<Rightarrow> scan_result + structure_decoder" where
  "gotLength n sd =
    (if n = 0 then Inl (sd\<lparr>sd_nBytesToRead := n, sd_gotElementEnd := True\<rparr>, None)
     else Inr (sd\<lparr>sd_nBytesToRead := n, sd_state := READ_VALUE_BYTES\<rparr>))"

definition readLengthBytes :: "byte list \<Rightarrow> structure_decoder \<Rightarrow> scan_result + structure_decoder" where
  "readLengthBytes inp sd =
    (let nRemainingBytes = length inp - sd_offset sd in
     if \<not> sd_useHeaderBuffer sd \<and> nRemainingBytes \<ge> sd_nBytesToRead sd then
       let decoder = (dec_initialize inp)\<lparr>dec_offset := of_nat (sd_offset sd)\<rparr> in
       case readExtendedVarNumber (sd_firstOctet sd) decoder of
         Inl e \<Rightarrow> Inl (sd, Some e)
       | Inr (lengthVarNumber, decoder') \<Rightarrow>
           gotLength (unat lengthVarNumber) (sd\<lparr>sd_offset := sd_offset sd + unat (dec_offset decoder' - dec_offset decoder)\<rparr>)
     else
       let sd = sd\<lparr>sd_useHeaderBuffer := True\<rparr>;
           nNeededBytes = sd_nBytesToRead sd - sd_headerLength sd
       in if nNeededBytes > nRemainingBytes then
            if sd_headerLength sd + nRemainingBytes > 8
            then Inl (sd, Some NDN_ERROR_cannot_store_more_header_bytes_than_the_size_of_headerBuffer)
            else Inl (sd\<lparr>sd_headerBuffer := write_at (sd_headerBuffer sd) (sd_headerLength sd) (drop (sd_offset sd) inp),
                   sd_offset := sd_offset sd + nRemainingBytes, sd_headerLength := sd_headerLength sd + nRemainingBytes\<rparr>, None)
          else if sd_headerLength sd + nNeededBytes > 8
          then Inl (sd, Some NDN_ERROR_cannot_store_more_header_bytes_than_the_size_of_headerBuffer)
          else
            let sd = sd\<lparr>sd_headerBuffer := write_at (sd_headerBuffer sd) (sd_headerLength sd) (take nNeededBytes (drop (sd_offset sd) inp)),
                        sd_offset := sd_offset sd + nNeededBytes\<rparr>
            in case readExtendedVarNumber (sd_firstOctet sd) (dec_initialize (sd_headerBuffer sd)) of
                 Inl e \<Rightarrow> Inl (sd, Some e)
               | Inr (lengthVarNumber, _) \<Rightarrow> gotLength (unat lengthVarNumber) sd)"

definition findElementEnd_step :: "byte list \<Rightarrow> structure_decoder \<Rightarrow> scan_result + structure_decoder" where
  "findElementEnd_step inp sd =
    (if sd_offset sd \<ge> length inp then Inl (sd, None)
     else
       let nRemainingBytes = length inp - sd_offset sd;
           firstOctet = inp ! sd_offset sd
       in case sd_state sd of
            READ_TYPE \<Rightarrow>
              (let sd = sd\<lparr>sd_offset := sd_offset sd + 1\<rparr> in
               Inr (if firstOctet < 253 then sd\<lparr>sd_state := READ_LENGTH\<rparr>
                    else sd\<lparr>sd_nBytesToRead := extendedBytes firstOctet, sd_state := READ_TYPE_BYTES\<rparr>))
          | READ_TYPE_BYTES \<Rightarrow>
              if nRemainingBytes < sd_nBytesToRead sd
              then Inl (sd\<lparr>sd_offset := sd_offset sd + nRemainingBytes, sd_nBytesToRead := sd_nBytesToRead sd - nRemainingBytes\<rparr>, None)
              else Inr (sd\<lparr>sd_offset := sd_offset sd + sd_nBytesToRead sd, sd_state := READ_LENGTH\<rparr>)
          | READ_LENGTH \<Rightarrow>
              (let sd = sd\<lparr>sd_offset := sd_offset sd + 1\<rparr> in
               if firstOctet < 253 then gotLength (unat firstOctet) sd
               else Inr (sd\<lparr>sd_nBytesToRead := extendedBytes firstOctet, sd_firstOctet := firstOctet, sd_state := READ_LENGTH_BYTES\<rparr>))
          | READ_LENGTH_BYTES \<Rightarrow> readLengthBytes inp sd
          | READ_VALUE_BYTES \<Rightarrow>
              if nRemainingBytes < sd_nBytesToRead sd
              then Inl (sd\<lparr>sd_offset := sd_offset sd + nRemainingBytes, sd_nBytesToRead := sd_nBytesToRead sd - nRemainingBytes\<rparr>, None)
              else Inl (sd\<lparr>sd_offset := sd_offset sd + sd_nBytesToRead sd, sd_gotElementEnd := True\<rparr>, None))"

fun state_rank :: "sd_state \<Rightarrow> nat" where
  "state_rank READ_TYPE = 4"
| "state_rank READ_TYPE_BYTES = 3"
| "state_rank READ_LENGTH = 2"
| "state_rank READ_LENGTH_BYTES = 1"
| "state_rank READ_VALUE_BYTES = 0"

lemma readLengthBytes_state: "readLengthBytes inp sd = Inr sd' \<Longrightarrow> sd_state sd' = READ_VALUE_BYTES"
  by (auto simp: readLengthBytes_def gotLength_def Let_def split: if_splits sum.splits)

lemma findElementEnd_step_rank: "findElementEnd_step inp sd = Inr sd' \<Longrightarrow> state_rank (sd_state sd') < state_rank (sd_state sd)"
  by (auto simp: findElementEnd_step_def gotLength_def Let_def dest: readLengthBytes_state split: if_splits sd_state.splits)

function findElementEnd_loop :: "byte list \<Rightarrow> structure_decoder \<Rightarrow> scan_result" where
  "findElementEnd_loop inp sd =
    (case findElementEnd_step inp sd of Inl r \<Rightarrow> r | Inr sd' \<Rightarrow> findElementEnd_loop inp sd')"
  by auto
termination
  by (relation "measure (\<lambda>(inp, sd). state_rank (sd_state sd))") (auto dest: findElementEnd_step_rank)

declare findElementEnd_loop.simps [simp del]

definition findElementEnd :: "byte list \<Rightarrow> structure_decoder \<Rightarrow> scan_result" where
  "findElementEnd inp sd = (if sd_gotElementEnd sd then (sd, None) else findElementEnd_loop inp sd)"

text \<open>The scan never goes back, and from the start of an element it needs at least one byte.\<close>

lemma readLengthBytes_offset: "readLengthBytes inp sd = r \<Longrightarrow> sd_offset sd \<le> sd_offset (case r of Inl (sd', _) \<Rightarrow> sd' | Inr sd' \<Rightarrow> sd')"
  by (auto simp: readLengthBytes_def gotLength_def Let_def split: if_splits sum.splits)

lemma findElementEnd_step_offset:
  "sd_offset sd \<le> sd_offset (case findElementEnd_step inp sd of Inl (sd', _) \<Rightarrow> sd' | Inr sd' \<Rightarrow> sd')"
  using readLengthBytes_offset [OF refl, of sd inp]
  by (auto simp: findElementEnd_step_def gotLength_def Let_def split: sd_state.splits)

lemma findElementEnd_loop_offset: "sd_offset sd \<le> sd_offset (fst (findElementEnd_loop inp sd))"
proof (induction inp sd rule: findElementEnd_loop.induct)
  case (1 inp sd)
  show ?case
    using findElementEnd_step_offset [of sd inp] 1
    by (subst findElementEnd_loop.simps) (force split: sum.splits)
qed

definition sd_fresh :: "structure_decoder \<Rightarrow> bool" where
  "sd_fresh sd \<longleftrightarrow> \<not> sd_gotElementEnd sd \<and> sd_state sd = READ_TYPE"

lemma findElementEnd_loop_end: "sd_gotElementEnd (fst (findElementEnd_loop [] sd)) = sd_gotElementEnd sd"
  by (simp add: findElementEnd_loop.simps [of "[]"] findElementEnd_step_def)

lemma findElementEnd_fresh:
  assumes "sd_fresh sd" "findElementEnd inp sd = (sd', e)" "sd_gotElementEnd sd'"
  shows "0 < sd_offset sd'"
proof (cases "sd_offset sd \<ge> length inp")
  case True
  then show ?thesis using assms by (simp add: findElementEnd_def findElementEnd_loop.simps [of inp] findElementEnd_step_def sd_fresh_def)
next
  case False
  then obtain sd1 where "findElementEnd_step inp sd = Inr sd1" "0 < sd_offset sd1"
    using assms(1) by (auto simp: findElementEnd_step_def sd_fresh_def Let_def)
  then show ?thesis
    using assms findElementEnd_loop_offset [of sd1 inp] by (simp add: findElementEnd_def findElementEnd_loop.simps [of inp sd] sd_fresh_def)
qed

section \<open>The element reader\<close>

record dynamicArray =
  da_array :: "byte list"
  da_realloc :: bool

definition da_ensureLength :: "nat \<Rightarrow> dynamicArray \<Rightarrow> ndn_Error + dynamicArray" where
  "da_ensureLength len a =
    (if length (da_array a) \<ge> len then Inr a
     else if \<not> da_realloc a then Inl NDN_ERROR_DynamicUInt8Array_realloc_function_pointer_not_supplied
     else
       let newLength = length (da_array a) * 2;
           newLength = (if len > newLength then len else newLength)
       in Inr (a\<lparr>da_array := da_array a @ replicate (newLength - length (da_array a)) 0\<rparr>))"

definition da_copy :: "byte list \<Rightarrow> nat \<Rightarrow> dynamicArray \<Rightarrow> ndn_Error + dynamicArray" where
  "da_copy bs offset a =
    bindE (da_ensureLength (length bs + offset) a) (\<lambda>a. Inr (a\<lparr>da_array := write_at (da_array a) offset bs\<rparr>))"

record element_reader =
  er_hasListener :: bool
  er_readRawPackets :: bool
  er_decoder :: structure_decoder
  er_usePartialData :: bool
  er_gotPartialDataError :: bool
  er_partialData :: dynamicArray
  er_partialDataLength :: nat

definition er_initialize :: "bool \<Rightarrow> dynamicArray \<Rightarrow> bool \<Rightarrow> element_reader \<Rightarrow> element_reader" where
  "er_initialize hasListener buffer readRawPackets er =
    er\<lparr>er_hasListener := hasListener, er_readRawPackets := readRawPackets, er_decoder := sd_reset (er_decoder er),
       er_partialData := buffer, er_usePartialData := False\<rparr>"

definition er_reset :: "bool \<Rightarrow> element_reader \<Rightarrow> element_reader" where
  "er_reset hasListener er =
    er\<lparr>er_hasListener := hasListener, er_decoder := sd_reset (er_decoder er), er_usePartialData := False\<rparr>"

definition MAX_NDN_PACKET_SIZE :: nat where
  "MAX_NDN_PACKET_SIZE = 8800"

datatype er_result = ER_success | ER_error ndn_Error | ER_thrown

type_synonym er_outcome = "element_reader \<times> byte list list \<times> er_result"

text \<open>
  One turn of the loop of \<open>onReceivedData\<close>.  The left result returns from the function; the right one has the elements
  reported so far and goes on with the rest of the data.
\<close>

definition er_report :: "(byte list \<Rightarrow> bool) \<Rightarrow> byte list option \<Rightarrow> byte list \<Rightarrow> element_reader \<Rightarrow>
    er_outcome + (byte list list \<times> byte list \<times> element_reader)" where
  "er_report throws element data er =
    (let er = er\<lparr>er_decoder := sd_reset (er_decoder er)\<rparr>;
         elements = (case element of None \<Rightarrow> [] | Some el \<Rightarrow> [el])
     in if list_ex throws elements then Inl (er, elements, ER_thrown)
        else if data = [] then Inl (er, elements, ER_success)
        else Inr (elements, data, er))"

definition er_save :: "byte list \<Rightarrow> element_reader \<Rightarrow> er_outcome" where
  "er_save data er =
    (let er = (if er_usePartialData er then er
               else er\<lparr>er_usePartialData := True, er_gotPartialDataError := False, er_partialDataLength := 0\<rparr>)
     in if er_gotPartialDataError er then (er, [], ER_success)
        else if er_partialDataLength er + length data > MAX_NDN_PACKET_SIZE then
          (er\<lparr>er_usePartialData := False, er_decoder := sd_reset (er_decoder er)\<rparr>, [],
           ER_error NDN_ERROR_ElementReader_The_incoming_packet_exceeds_the_maximum_limit)
        else case da_copy data (er_partialDataLength er) (er_partialData er) of
               Inl e \<Rightarrow> (er\<lparr>er_gotPartialDataError := True\<rparr>, [], ER_error e)
             | Inr a \<Rightarrow> (er\<lparr>er_partialData := a, er_partialDataLength := er_partialDataLength er + length data\<rparr>, [], ER_success))"

definition er_step :: "(byte list \<Rightarrow> bool) \<Rightarrow> byte list \<Rightarrow> element_reader \<Rightarrow> er_outcome + (byte list list \<times> byte list \<times> element_reader)" where
  "er_step throws data er =
    (if \<not> er_usePartialData er \<and> data = [] then Inl (er, [], ER_success)
     else
       let (sd, err) = findElementEnd data ((er_decoder er)\<lparr>sd_offset := 0\<rparr>);
           er = er\<lparr>er_decoder := sd\<rparr>;
           offset = sd_offset sd
       in case err of
            Some e \<Rightarrow> Inl (er\<lparr>er_usePartialData := False, er_decoder := sd_reset sd\<rparr>, [], ER_error e)
          | None \<Rightarrow>
              if sd_gotElementEnd sd then
                if \<not> er_hasListener er then Inl (er, [], ER_error NDN_ERROR_ElementReader_ElementListener_is_not_specified)
                else if er_usePartialData er then
                  if er_gotPartialDataError er then er_report throws None (drop offset data) (er\<lparr>er_usePartialData := False\<rparr>)
                  else case da_copy (take offset data) (er_partialDataLength er) (er_partialData er) of
                         Inl e \<Rightarrow> Inl (er, [], ER_error e)
                       | Inr a \<Rightarrow>
                           let len = er_partialDataLength er + offset in
                           er_report throws (Some (take len (da_array a))) (drop offset data)
                             (er\<lparr>er_partialData := a, er_partialDataLength := len, er_usePartialData := False\<rparr>)
                else er_report throws (Some (take offset data)) (drop offset data) er
              else Inl (er_save data er))"

lemma er_report_fresh: "er_report throws el data er = Inr (outs, data', er') \<Longrightarrow> data' = data \<and> data \<noteq> [] \<and> sd_fresh (er_decoder er')"
  by (auto simp: er_report_def Let_def sd_reset_def sd_fresh_def split: if_splits)

lemma er_step_shrinks:
  assumes "er_step throws data er = Inr (outs, data', er')"
  shows "sd_fresh (er_decoder er') \<and> (length data' < length data \<or> length data' = length data \<and> \<not> sd_fresh (er_decoder er))"
proof -
  obtain sd err where f: "findElementEnd data ((er_decoder er)\<lparr>sd_offset := 0\<rparr>) = (sd, err)" by fastforce
  have data': "data' = drop (sd_offset sd) data" "data' \<noteq> []" "sd_fresh (er_decoder er')" "sd_gotElementEnd sd"
    using assms f by (auto simp: er_step_def Let_def dest!: er_report_fresh split: if_splits option.splits sum.splits)
  have "0 < sd_offset sd" if "sd_fresh (er_decoder er)"
    using that findElementEnd_fresh [OF _ f] data'(4) by (simp add: sd_fresh_def)
  then show ?thesis using data' by (cases "sd_offset sd") auto
qed

function onReceivedData_loop :: "(byte list \<Rightarrow> bool) \<Rightarrow> byte list \<Rightarrow> element_reader \<Rightarrow> er_outcome" where
  "onReceivedData_loop throws data er =
    (case er_step throws data er of
       Inl r \<Rightarrow> r
     | Inr (outs, data', er') \<Rightarrow>
         let (er'', outs', res) = onReceivedData_loop throws data' er' in (er'', outs @ outs', res))"
  by auto
termination
  by (relation "measures [\<lambda>(throws, data, er). length data, \<lambda>(throws, data, er). if sd_fresh (er_decoder er) then 0 else 1]")
    (auto dest: er_step_shrinks)

declare onReceivedData_loop.simps [simp del]

definition onReceivedData :: "(byte list \<Rightarrow> bool) \<Rightarrow> byte list \<Rightarrow> element_reader \<Rightarrow> er_outcome" where
  "onReceivedData throws data er =
    (if er_readRawPackets er then
       if data \<noteq> [] then
         if \<not> er_hasListener er then (er, [], ER_error NDN_ERROR_ElementReader_ElementListener_is_not_specified)
         else (er, [data], if throws data then ER_thrown else ER_success)
       else (er, [], ER_success)
     else onReceivedData_loop throws data er)"

section \<open>The scan, one byte at a time\<close>

text \<open>
  The reference for the scan: a machine that takes one byte after the other.  Reading a piece of input is running it over the bytes,
  so how the input is cut does not matter to it.
\<close>

datatype scan = Scan_type | Scan_typeBytes nat | Scan_length | Scan_lengthBytes byte "byte list" | Scan_value nat | Scan_end

definition scan_length :: "nat \<Rightarrow> scan" where
  "scan_length n = (if n = 0 then Scan_end else Scan_value n)"

fun scan_byte :: "scan \<Rightarrow> byte \<Rightarrow> scan" where
  "scan_byte Scan_type b = (if b < 253 then Scan_length else Scan_typeBytes (extendedBytes b))"
| "scan_byte (Scan_typeBytes n) b = (if n \<le> 1 then Scan_length else Scan_typeBytes (n - 1))"
| "scan_byte Scan_length b = (if b < 253 then scan_length (unat b) else Scan_lengthBytes b [])"
| "scan_byte (Scan_lengthBytes f bs) b =
    (if extendedBytes f \<le> length bs + 1 then scan_length (unat (be_number (bs @ [b]))) else Scan_lengthBytes f (bs @ [b]))"
| "scan_byte (Scan_value n) b = (if n \<le> 1 then Scan_end else Scan_value (n - 1))"
| "scan_byte Scan_end b = Scan_end"

text \<open>The state after the bytes up to the end of the element, and the bytes after it.\<close>

fun scan_bytes :: "scan \<Rightarrow> byte list \<Rightarrow> scan \<times> byte list" where
  "scan_bytes s [] = (s, [])"
| "scan_bytes s (b # bs) = (if s = Scan_end then (s, b # bs) else scan_bytes (scan_byte s b) bs)"

lemma scan_bytes_end [simp]: "scan_bytes Scan_end bs = (Scan_end, bs)"
  by (cases bs) simp_all

lemma scan_bytes_append:
  "scan_bytes s (xs @ ys) = (let (s', rest) = scan_bytes s xs in if s' = Scan_end then (s', rest @ ys) else scan_bytes s' ys)"
  by (induction s xs rule: scan_bytes.induct) simp_all

lemma scan_typeBytes:
  "0 < n \<Longrightarrow> scan_bytes (Scan_typeBytes n) bs = (if length bs < n then (Scan_typeBytes (n - length bs), []) else scan_bytes Scan_length (drop n bs))"
proof (induction bs arbitrary: n)
  case (Cons b bs)
  then show ?case by (cases "n = 1") (auto simp: drop_Cons')
qed simp

lemma scan_value:
  "0 < n \<Longrightarrow> scan_bytes (Scan_value n) bs = (if length bs < n then (Scan_value (n - length bs), []) else (Scan_end, drop n bs))"
proof (induction bs arbitrary: n)
  case (Cons b bs)
  then show ?case by (cases "n = 1") (auto simp: drop_Cons')
qed simp

lemma scan_lengthBytes:
  "length acc < extendedBytes f \<Longrightarrow> scan_bytes (Scan_lengthBytes f acc) bs =
    (if length acc + length bs < extendedBytes f then (Scan_lengthBytes f (acc @ bs), [])
     else scan_bytes (scan_length (unat (be_number (acc @ take (extendedBytes f - length acc) bs)))) (drop (extendedBytes f - length acc) bs))"
proof (induction bs arbitrary: acc)
  case (Cons b bs)
  show ?case
  proof (cases "extendedBytes f \<le> length acc + 1")
    case True
    then have "extendedBytes f - length acc = 1" using Cons.prems by simp
    then show ?thesis using True Cons.prems by simp
  next
    case False
    then have "extendedBytes f - length acc = Suc (extendedBytes f - length (acc @ [b]))" using Cons.prems by simp
    then show ?thesis using False Cons.IH [of "acc @ [b]"] by simp
  qed
qed simp

text \<open>The state of the structure decoder as a state of the machine.\<close>

definition sd_scan :: "structure_decoder \<Rightarrow> scan" where
  "sd_scan sd =
    (if sd_gotElementEnd sd then Scan_end
     else case sd_state sd of
            READ_TYPE \<Rightarrow> Scan_type
          | READ_TYPE_BYTES \<Rightarrow> Scan_typeBytes (sd_nBytesToRead sd)
          | READ_LENGTH \<Rightarrow> Scan_length
          | READ_LENGTH_BYTES \<Rightarrow> Scan_lengthBytes (sd_firstOctet sd) (take (sd_headerLength sd) (sd_headerBuffer sd))
          | READ_VALUE_BYTES \<Rightarrow> Scan_value (sd_nBytesToRead sd))"

definition sd_wf :: "structure_decoder \<Rightarrow> bool" where
  "sd_wf sd \<longleftrightarrow> length (sd_headerBuffer sd) = 8 \<and>
    (sd_state sd \<in> {READ_TYPE, READ_TYPE_BYTES, READ_LENGTH} \<longrightarrow> \<not> sd_useHeaderBuffer sd) \<and>
    (\<not> sd_useHeaderBuffer sd \<longrightarrow> sd_headerLength sd = 0) \<and>
    (sd_state sd \<in> {READ_TYPE_BYTES, READ_VALUE_BYTES} \<longrightarrow> \<not> sd_gotElementEnd sd \<longrightarrow> 0 < sd_nBytesToRead sd) \<and>
    (sd_state sd = READ_LENGTH_BYTES \<longrightarrow> \<not> sd_gotElementEnd sd \<longrightarrow>
       sd_nBytesToRead sd = extendedBytes (sd_firstOctet sd) \<and> sd_headerLength sd < extendedBytes (sd_firstOctet sd))"

lemma extendedBytes_bounds: "0 < extendedBytes f" "extendedBytes f \<le> 8"
  by (simp_all add: extendedBytes_def)

lemma readExtendedVarNumber_bytes:
  assumes "unat (dec_offset d) + extendedBytes f \<le> length (dec_input d)" and "length (dec_input d) < 2 ^ 63"
  shows "readExtendedVarNumber f d = Inr (be_number (take (extendedBytes f) (upcoming d)), d\<lparr>dec_offset := dec_offset d + of_nat (extendedBytes f)\<rparr>)"
proof -
  have "\<not> dec_offset d + of_nat (extendedBytes f) > inputLength d"
    using assms by (simp add: inputLength_def word_less_nat_alt unat_word_ariths(1) extendedBytes_def)
  then show ?thesis by (cases "f = 253"; cases "f = 254") (simp_all add: readExtendedVarNumber_def extendedBytes_def)
qed

definition step_scans :: "byte list \<Rightarrow> structure_decoder \<Rightarrow> scan_result + structure_decoder \<Rightarrow> bool" where
  "step_scans inp sd r \<longleftrightarrow>
    (case r of
       Inl (sd', e) \<Rightarrow> e = None \<and> sd_wf sd' \<and> sd_offset sd' \<le> length inp \<and> (sd_gotElementEnd sd' \<or> sd_offset sd' = length inp) \<and>
         scan_bytes (sd_scan sd) (drop (sd_offset sd) inp) = (sd_scan sd', drop (sd_offset sd') inp)
     | Inr sd' \<Rightarrow> sd_wf sd' \<and> \<not> sd_gotElementEnd sd' \<and> sd_offset sd' \<le> length inp \<and>
         scan_bytes (sd_scan sd) (drop (sd_offset sd) inp) = scan_bytes (sd_scan sd') (drop (sd_offset sd') inp))"

lemma gotLength_scans:
  assumes "sd_wf sd1" "\<not> sd_gotElementEnd sd1" "sd_offset sd1 \<le> length inp"
    and "scan_bytes (sd_scan sd) (drop (sd_offset sd) inp) = scan_bytes (scan_length n) (drop (sd_offset sd1) inp)"
  shows "step_scans inp sd (gotLength n sd1)"
  using assms by (auto simp: step_scans_def gotLength_def scan_length_def sd_wf_def sd_scan_def)

lemma readLengthBytes_scans:
  assumes "sd_wf sd" "\<not> sd_gotElementEnd sd" "sd_offset sd < length inp" "length inp < 2 ^ 63" "sd_state sd = READ_LENGTH_BYTES"
  shows "step_scans inp sd (readLengthBytes inp sd)"
proof -
  let ?f = "sd_firstOctet sd" and ?k = "sd_headerLength sd" and ?bs = "drop (sd_offset sd) inp"
  let ?n = "extendedBytes ?f" and ?acc = "take (sd_headerLength sd) (sd_headerBuffer sd)"
  have wf: "sd_nBytesToRead sd = ?n" "?k < ?n" "length (sd_headerBuffer sd) = 8" "\<not> sd_useHeaderBuffer sd \<Longrightarrow> ?k = 0" "?n \<le> 8"
    using assms extendedBytes_bounds by (simp_all add: sd_wf_def)
  have acc: "length ?acc = ?k" using wf by simp
  have scan: "scan_bytes (sd_scan sd) ?bs = (if ?k + length ?bs < ?n then (Scan_lengthBytes ?f (?acc @ ?bs), [])
      else scan_bytes (scan_length (unat (be_number (?acc @ take (?n - ?k) ?bs)))) (drop (?n - ?k) ?bs))"
    using scan_lengthBytes [of ?acc ?f ?bs, unfolded acc, OF wf(2)] assms(2,5) by (simp add: sd_scan_def del: length_drop drop_drop)
  show ?thesis
  proof (cases "\<not> sd_useHeaderBuffer sd \<and> length inp - sd_offset sd \<ge> sd_nBytesToRead sd")
    case True
    let ?d = "(dec_initialize inp)\<lparr>dec_offset := of_nat (sd_offset sd)\<rparr>"
    have le: "sd_offset sd + ?n \<le> length inp" using True wf(1) assms(3) by linarith
    have "unat (of_nat (sd_offset sd) :: u64) = sd_offset sd" using assms(3,4) by (simp add: unat_of_nat)
    then have r: "readExtendedVarNumber ?f ?d = Inr (be_number (take ?n ?bs), ?d\<lparr>dec_offset := of_nat (sd_offset sd) + of_nat ?n\<rparr>)"
      using readExtendedVarNumber_bytes [of ?d ?f] assms(4) le by (simp add: dec_initialize_def upcoming_def)
    have n: "unat (of_nat ?n :: u64) = ?n" using wf(5) by (simp add: unat_of_nat)
    have "readLengthBytes inp sd = gotLength (unat (be_number (take ?n ?bs))) (sd\<lparr>sd_offset := sd_offset sd + ?n\<rparr>)"
      using True r n by (simp add: readLengthBytes_def Let_def)
    moreover have "step_scans inp sd (gotLength (unat (be_number (take ?n ?bs))) (sd\<lparr>sd_offset := sd_offset sd + ?n\<rparr>))"
      using scan True wf assms by (intro gotLength_scans) (auto simp: sd_wf_def add.commute)
    ultimately show ?thesis by simp
  next
    case False
    let ?need = "?n - ?k"
    show ?thesis
    proof (cases "?need > length ?bs")
      case True
      have fits: "\<not> ?k + (length inp - sd_offset sd) > 8" using True wf(2,5) by simp
      have "readLengthBytes inp sd = Inl (sd\<lparr>sd_useHeaderBuffer := True, sd_headerBuffer := write_at (sd_headerBuffer sd) ?k ?bs,
          sd_offset := length inp, sd_headerLength := ?k + length ?bs\<rparr>, None)"
        unfolding readLengthBytes_def Let_def if_not_P [OF False] using fits wf(1) True assms(3) by simp
      moreover have "?k + length ?bs < ?n" using True by simp
      moreover have "take (?k + length ?bs) (write_at (sd_headerBuffer sd) ?k ?bs) = ?acc @ ?bs"
        using take_write_at [of ?k ?bs "sd_headerBuffer sd"] True wf by simp
      ultimately show ?thesis using scan wf assms by (simp add: step_scans_def sd_wf_def sd_scan_def)
    next
      case need: False
      let ?hb = "write_at (sd_headerBuffer sd) ?k (take ?need ?bs)"
      let ?sd = "sd\<lparr>sd_useHeaderBuffer := True, sd_headerBuffer := ?hb, sd_offset := sd_offset sd + ?need\<rparr>"
      have hb: "length ?hb = 8" "take ?n ?hb = ?acc @ take ?need ?bs"
        using need wf take_write_at [of ?k "take ?need ?bs" "sd_headerBuffer sd"] by simp_all
      have "readExtendedVarNumber ?f (dec_initialize ?hb) = Inr (be_number (?acc @ take ?need ?bs), (dec_initialize ?hb)\<lparr>dec_offset := of_nat ?n\<rparr>)"
        using readExtendedVarNumber_bytes [of "dec_initialize ?hb" ?f] hb wf by (simp add: dec_initialize_def upcoming_def)
      then have "readLengthBytes inp sd = gotLength (unat (be_number (?acc @ take ?need ?bs))) ?sd"
        unfolding readLengthBytes_def Let_def if_not_P [OF False] using need wf(1,2,5) by simp
      moreover have "step_scans inp sd (gotLength (unat (be_number (?acc @ take ?need ?bs))) ?sd)"
        using scan need wf assms hb(1) by (intro gotLength_scans) (auto simp: sd_wf_def add.commute)
      ultimately show ?thesis by simp
    qed
  qed
qed

lemma findElementEnd_step_scans:
  assumes "sd_wf sd" "\<not> sd_gotElementEnd sd" "sd_offset sd \<le> length inp" "length inp < 2 ^ 63"
  shows "step_scans inp sd (findElementEnd_step inp sd)"
proof (cases "sd_offset sd < length inp")
  case False
  then show ?thesis using assms by (simp add: findElementEnd_step_def step_scans_def)
next
  case True
  let ?b = "inp ! sd_offset sd" and ?bs = "drop (sd_offset sd) inp"
  have bs: "?bs = ?b # drop (Suc (sd_offset sd)) inp" using True by (simp add: Cons_nth_drop_Suc)
  show ?thesis
  proof (cases "sd_state sd")
    case READ_TYPE
    then show ?thesis using True assms bs extendedBytes_bounds(1)
      by (simp add: findElementEnd_step_def step_scans_def sd_scan_def sd_wf_def Let_def)
  next
    case READ_TYPE_BYTES
    then show ?thesis using True assms scan_typeBytes [of "sd_nBytesToRead sd" ?bs]
      by (auto simp: findElementEnd_step_def step_scans_def sd_scan_def sd_wf_def Let_def add.commute)
  next
    case READ_LENGTH
    have "step_scans inp sd (gotLength (unat ?b) (sd\<lparr>sd_offset := sd_offset sd + 1\<rparr>))" if "?b < 253"
      using True assms bs READ_LENGTH that by (intro gotLength_scans) (simp_all add: sd_wf_def sd_scan_def)
    then show ?thesis using True assms bs READ_LENGTH extendedBytes_bounds(1)
      by (simp add: findElementEnd_step_def Let_def) (simp add: step_scans_def sd_scan_def sd_wf_def)
  next
    case READ_LENGTH_BYTES
    then show ?thesis using True readLengthBytes_scans [OF assms(1,2) True assms(4)] by (simp add: findElementEnd_step_def)
  next
    case READ_VALUE_BYTES
    then show ?thesis using True assms scan_value [of "sd_nBytesToRead sd" ?bs]
      by (auto simp: findElementEnd_step_def step_scans_def sd_scan_def sd_wf_def Let_def add.commute)
  qed
qed

lemma findElementEnd_loop_scans:
  assumes "sd_wf sd" "\<not> sd_gotElementEnd sd" "sd_offset sd \<le> length inp" "length inp < 2 ^ 63"
  shows "step_scans inp sd (Inl (findElementEnd_loop inp sd))"
  using assms
proof (induction inp sd rule: findElementEnd_loop.induct)
  case (1 inp sd)
  note step = findElementEnd_step_scans [OF "1.prems"]
  show ?case
  proof (cases "findElementEnd_step inp sd")
    case (Inl r)
    then show ?thesis using step by (simp add: findElementEnd_loop.simps [of inp sd])
  next
    case (Inr sd')
    have "sd_wf sd'" "\<not> sd_gotElementEnd sd'" "sd_offset sd' \<le> length inp"
        "scan_bytes (sd_scan sd) (drop (sd_offset sd) inp) = scan_bytes (sd_scan sd') (drop (sd_offset sd') inp)"
      using step Inr by (simp_all add: step_scans_def)
    then show ?thesis using "1.IH" [OF Inr] "1.prems"(4) Inr by (simp add: findElementEnd_loop.simps [of inp sd] step_scans_def)
  qed
qed

text \<open>Scanning an input is running the machine over its bytes.\<close>

lemma findElementEnd_scans:
  assumes "sd_wf sd" "\<not> sd_gotElementEnd sd" "sd_offset sd = 0" "length inp < 2 ^ 63"
  shows "\<exists>sd'. findElementEnd inp sd = (sd', None) \<and> sd_wf sd' \<and> sd_offset sd' \<le> length inp \<and>
    (sd_gotElementEnd sd' \<or> sd_offset sd' = length inp) \<and> scan_bytes (sd_scan sd) inp = (sd_scan sd', drop (sd_offset sd') inp)"
  using findElementEnd_loop_scans [OF assms(1,2) _ assms(4)] assms(2,3)
  by (auto simp: findElementEnd_def step_scans_def split: prod.splits)

section \<open>What the reader reports\<close>

text \<open>
  The reference for the reader: the bytes of the element in progress, and the elements that are complete, one byte after the other.
\<close>

definition read_byte :: "byte \<Rightarrow> byte list \<times> byte list list \<Rightarrow> byte list \<times> byte list list" where
  "read_byte b s =
    (let part = fst s @ [b]
     in if fst (scan_bytes Scan_type part) = Scan_end then ([], snd s @ [part]) else (part, snd s))"

definition read_stream :: "byte list \<Rightarrow> byte list \<Rightarrow> byte list \<times> byte list list" where
  "read_stream part bs = fold read_byte bs (part, [])"

lemma read_byte_outputs: "fold read_byte bs (part, els @ els') = (fst (fold read_byte bs (part, els')), els @ snd (fold read_byte bs (part, els')))"
proof (induction bs arbitrary: part els')
  case (Cons b bs)
  then show ?case by (simp add: read_byte_def Let_def)
qed simp

lemma read_stream_Nil [simp]: "read_stream part [] = (part, [])"
  by (simp add: read_stream_def)

lemma read_stream_append:
  "read_stream part (xs @ ys) = (fst (read_stream (fst (read_stream part xs)) ys), snd (read_stream part xs) @ snd (read_stream (fst (read_stream part xs)) ys))"
proof -
  obtain p els where "fold read_byte xs (part, []) = (p, els)" by fastforce
  then show ?thesis using read_byte_outputs [of ys p els "[]"] by (simp add: read_stream_def)
qed

definition partial :: "byte list \<Rightarrow> bool" where
  "partial part \<longleftrightarrow> fst (scan_bytes Scan_type part) \<noteq> Scan_end"

lemma scan_bytes_rest: "fst (scan_bytes s bs) \<noteq> Scan_end \<Longrightarrow> snd (scan_bytes s bs) = []"
  by (induction s bs rule: scan_bytes.induct) (auto split: if_splits)

lemma scan_bytes_suffix: "\<exists>used. bs = used @ snd (scan_bytes s bs)"
proof (induction s bs rule: scan_bytes.induct)
  case (2 s b bs)
  then show ?case by (cases "s = Scan_end") (auto intro: exI [of _ "[]"] exI [of _ "b # _"])
qed simp

text \<open>How the reference goes over a piece of input: to the end of the element in progress and on, or to the end of the piece.\<close>

lemma read_stream_cut:
  assumes "scan_bytes Scan_type part = (s, [])" "s \<noteq> Scan_end" "scan_bytes s bs = (s', rest)"
  shows "read_stream part bs =
    (if s' = Scan_end then let (p, els) = read_stream [] rest in (p, (part @ take (length bs - length rest) bs) # els) else (part @ bs, []))"
  using assms
proof (induction bs arbitrary: part s)
  case (Cons b bs)
  have part': "scan_bytes Scan_type (part @ [b]) = (scan_byte s b, [])"
    using Cons.prems(1,2) by (simp add: scan_bytes_append)
  show ?case
  proof (cases "scan_byte s b = Scan_end")
    case True
    then have "s' = Scan_end" "rest = bs" using Cons.prems by simp_all
    moreover have "read_stream part (b # bs) = (fst (read_stream [] bs), (part @ [b]) # snd (read_stream [] bs))"
      using part' True read_byte_outputs [of bs "[]" "[part @ [b]]" "[]"] by (simp add: read_stream_def read_byte_def)
    ultimately show ?thesis by (simp add: case_prod_unfold Let_def)
  next
    case False
    have scan: "scan_bytes (scan_byte s b) bs = (s', rest)" using Cons.prems by simp
    then obtain used where used: "bs = used @ rest" using scan_bytes_suffix [of bs "scan_byte s b"] by auto
    have "read_stream part (b # bs) = read_stream (part @ [b]) bs"
      using part' False by (simp add: read_stream_def read_byte_def)
    also have "\<dots> = (if s' = Scan_end then let (p, els) = read_stream [] rest in (p, ((part @ [b]) @ take (length bs - length rest) bs) # els)
        else ((part @ [b]) @ bs, []))"
      by (rule Cons.IH [OF part' False scan])
    finally show ?thesis using used by (simp add: Suc_diff_le)
  qed
qed simp

text \<open>The state of a reader that is in the middle of an element.\<close>

definition er_inv :: "byte list \<Rightarrow> element_reader \<Rightarrow> bool" where
  "er_inv part er \<longleftrightarrow> er_hasListener er \<and> \<not> er_readRawPackets er \<and> da_realloc (er_partialData er) \<and> sd_wf (er_decoder er) \<and>
    \<not> sd_gotElementEnd (er_decoder er) \<and> scan_bytes Scan_type part = (sd_scan (er_decoder er), []) \<and>
    (er_usePartialData er \<longleftrightarrow> part \<noteq> []) \<and>
    (part \<noteq> [] \<longrightarrow> \<not> er_gotPartialDataError er \<and> er_partialDataLength er = length part \<and>
       length part \<le> length (da_array (er_partialData er)) \<and> take (length part) (da_array (er_partialData er)) = part)"

lemma sd_scan_running: "\<not> sd_gotElementEnd sd \<Longrightarrow> sd_scan sd \<noteq> Scan_end"
  by (simp add: sd_scan_def split: sd_state.split)

lemma da_copy_realloc:
  assumes "da_realloc a" "k \<le> length (da_array a)"
  shows "\<exists>a'. da_copy bs k a = Inr a' \<and> da_realloc a' \<and> k + length bs \<le> length (da_array a') \<and> take (k + length bs) (da_array a') = take k (da_array a) @ bs"
proof -
  have "\<exists>a1. da_ensureLength (length bs + k) a = Inr a1 \<and> da_realloc a1 \<and> k + length bs \<le> length (da_array a1) \<and> take k (da_array a1) = take k (da_array a)"
    using assms by (cases "length bs + k \<le> length (da_array a)") (simp_all add: da_ensureLength_def Let_def)
  then obtain a1 where "da_ensureLength (length bs + k) a = Inr a1" "da_realloc a1" "k + length bs \<le> length (da_array a1)" "take k (da_array a1) = take k (da_array a)"
    by blast
  then show ?thesis by (simp add: da_copy_def)
qed

lemma sd_reset_wf: "length (sd_headerBuffer sd) = 8 \<Longrightarrow> sd_wf (sd_reset sd) \<and> \<not> sd_gotElementEnd (sd_reset sd) \<and> sd_scan (sd_reset sd) = Scan_type"
  by (simp add: sd_wf_def sd_reset_def sd_scan_def)

lemma er_report_continues:
  assumes "\<not> throws el" "length (sd_headerBuffer (er_decoder er)) = 8" "er_hasListener er" "\<not> er_readRawPackets er"
    "da_realloc (er_partialData er)" "\<not> er_usePartialData er"
  shows "\<exists>er'. er_inv [] er' \<and> er_report throws (Some el) data er = (if data = [] then Inl (er', [el], ER_success) else Inr ([el], data, er'))"
  using assms sd_reset_wf [OF assms(2)] by (simp add: er_report_def Let_def er_inv_def)

lemma er_save_continues:
  assumes "er_hasListener er" "\<not> er_readRawPackets er" "da_realloc (er_partialData er)" "sd_wf (er_decoder er)" "\<not> sd_gotElementEnd (er_decoder er)"
    "scan_bytes Scan_type (part @ data) = (sd_scan (er_decoder er), [])" "er_usePartialData er \<longleftrightarrow> part \<noteq> []"
    and part: "part \<noteq> [] \<longrightarrow> \<not> er_gotPartialDataError er \<and> er_partialDataLength er = length part \<and>
       length part \<le> length (da_array (er_partialData er)) \<and> take (length part) (da_array (er_partialData er)) = part"
    and "part @ data \<noteq> []" "length (part @ data) \<le> MAX_NDN_PACKET_SIZE"
  shows "\<exists>er'. er_save data er = (er', [], ER_success) \<and> er_inv (part @ data) er'"
proof -
  define er1 where "er1 = (if er_usePartialData er then er else er\<lparr>er_usePartialData := True, er_gotPartialDataError := False, er_partialDataLength := 0\<rparr>)"
  have er: "er_usePartialData er1" "\<not> er_gotPartialDataError er1" "er_partialDataLength er1 = length part" "er_partialData er1 = er_partialData er"
      "er_decoder er1 = er_decoder er" "er_hasListener er1" "\<not> er_readRawPackets er1"
      "length part \<le> length (da_array (er_partialData er))" "take (length part) (da_array (er_partialData er)) = part"
    using assms(1,2,7) part by (auto simp: er1_def)
  obtain a where a: "da_copy data (length part) (er_partialData er) = Inr a" "da_realloc a" "length part + length data \<le> length (da_array a)"
      "take (length part + length data) (da_array a) = part @ data"
    using da_copy_realloc [OF assms(3) er(8), of data] er(9) by auto
  have "er_save data er = (er1\<lparr>er_partialData := a, er_partialDataLength := length part + length data\<rparr>, [], ER_success)"
    unfolding er_save_def er1_def [symmetric] Let_def using er a(1) assms(10) by simp
  then show ?thesis using er a assms(4-6,9) by (simp add: er_inv_def)
qed

text \<open>One call of \<open>onReceivedData\<close> does what the reference does with its bytes.\<close>

lemma onReceivedData_loop_refines:
  assumes "er_inv part er" "length data < 2 ^ 63" "\<forall>el \<in> set (snd (read_stream part data)). \<not> throws el"
    "length (fst (read_stream part data)) \<le> MAX_NDN_PACKET_SIZE"
  shows "\<exists>er'. onReceivedData_loop throws data er = (er', snd (read_stream part data), ER_success) \<and> er_inv (fst (read_stream part data)) er'"
  using assms
proof (induction throws data er arbitrary: part rule: onReceivedData_loop.induct)
  case (1 throws data er)
  note inv = "1.prems"(1) [unfolded er_inv_def]
  show ?case
  proof (cases "part = [] \<and> data = []")
    case True
    then have "er_step throws data er = Inl (er, [], ER_success)" using inv by (simp add: er_step_def)
    then show ?thesis using True "1.prems"(1) by (simp add: onReceivedData_loop.simps [of throws])
  next
    case False
    let ?sd0 = "(er_decoder er)\<lparr>sd_offset := 0\<rparr>"
    have sd0: "sd_scan ?sd0 = sd_scan (er_decoder er)" "sd_wf ?sd0 = sd_wf (er_decoder er)" "sd_gotElementEnd ?sd0 = sd_gotElementEnd (er_decoder er)"
      by (simp_all add: sd_wf_def sd_scan_def split: sd_state.split)
    obtain sd where sd: "findElementEnd data ?sd0 = (sd, None)" "sd_wf sd" "sd_offset sd \<le> length data" "sd_gotElementEnd sd \<or> sd_offset sd = length data"
        "scan_bytes (sd_scan (er_decoder er)) data = (sd_scan sd, drop (sd_offset sd) data)"
      using findElementEnd_scans [of ?sd0, OF _ _ _ "1.prems"(2)] sd0 inv by auto
    have part: "scan_bytes Scan_type part = (sd_scan (er_decoder er), [])" "sd_scan (er_decoder er) \<noteq> Scan_end"
      using inv sd_scan_running by simp_all
    let ?el = "part @ take (sd_offset sd) data" and ?rest = "drop (sd_offset sd) data"
    have cut: "read_stream part data = (if sd_scan sd = Scan_end then let (p, els) = read_stream [] ?rest in (p, ?el # els) else (part @ data, []))"
      using read_stream_cut [OF part sd(5)] sd(3) by simp
    let ?er = "er\<lparr>er_decoder := sd\<rparr>"
    show ?thesis
    proof (cases "sd_gotElementEnd sd")
      case False
      then have off: "sd_offset sd = length data" and run: "sd_scan sd \<noteq> Scan_end" using sd(4) sd_scan_running by auto
      have "scan_bytes Scan_type (part @ data) = (sd_scan sd, [])"
        using part sd(5) off by (simp add: scan_bytes_append)
      moreover have "part @ data \<noteq> []" using \<open>\<not> (part = [] \<and> data = [])\<close> by simp
      moreover have "length (part @ data) \<le> MAX_NDN_PACKET_SIZE" using "1.prems"(4) cut run by simp
      ultimately obtain er' where er': "er_save data ?er = (er', [], ER_success)" "er_inv (part @ data) er'"
        using er_save_continues [of ?er part data] inv sd(2) False by auto
      moreover have "er_step throws data er = Inl (er_save data ?er)"
        using \<open>\<not> (part = [] \<and> data = [])\<close> inv sd(1) False by (auto simp: er_step_def)
      ultimately show ?thesis using cut run by (simp add: onReceivedData_loop.simps [of throws])
    next
      case True
      then have fin: "sd_scan sd = Scan_end" by (simp add: sd_scan_def)
      obtain p els where rest: "read_stream [] ?rest = (p, els)" by fastforce
      have stream: "read_stream part data = (p, ?el # els)" using cut fin rest by simp
      have throws: "\<not> throws ?el" using "1.prems"(3) stream by simp
      have hb: "length (sd_headerBuffer sd) = 8" using sd(2) by (simp add: sd_wf_def)
      have "\<exists>er'. er_inv [] er' \<and> er_step throws data er = (if ?rest = [] then Inl (er', [?el], ER_success) else Inr ([?el], ?rest, er'))"
      proof (cases "part = []")
        case True
        then have "er_step throws data er = er_report throws (Some ?el) ?rest ?er"
          using inv sd(1) \<open>sd_gotElementEnd sd\<close> False by (simp add: er_step_def Let_def)
        then show ?thesis using er_report_continues [of throws ?el ?er ?rest] throws hb inv True by simp
      next
        case part: False
        obtain a where a: "da_copy (take (sd_offset sd) data) (length part) (er_partialData er) = Inr a" "da_realloc a"
            "take (length part + sd_offset sd) (da_array a) = ?el"
          using da_copy_realloc [of "er_partialData er" "length part" "take (sd_offset sd) data"] inv part sd(3) by auto
        let ?er1 = "?er\<lparr>er_partialData := a, er_partialDataLength := length part + sd_offset sd, er_usePartialData := False\<rparr>"
        have "er_step throws data er = er_report throws (Some ?el) ?rest ?er1"
          using inv sd(1) \<open>sd_gotElementEnd sd\<close> part a by (simp add: er_step_def Let_def)
        then show ?thesis using er_report_continues [of throws ?el ?er1 ?rest] throws hb inv a(2) by simp
      qed
      then obtain er1 where er1: "er_inv [] er1" "er_step throws data er = (if ?rest = [] then Inl (er1, [?el], ER_success) else Inr ([?el], ?rest, er1))" by blast
      show ?thesis
      proof (cases "?rest = []")
        case True
        then have "p = []" "els = []" using rest by simp_all
        then show ?thesis using er1 True stream by (simp add: onReceivedData_loop.simps [of throws])
      next
        case more: False
        then have step: "er_step throws data er = Inr ([?el], ?rest, er1)" using er1(2) by simp
        have "length ?rest < 2 ^ 63" using "1.prems"(2) by simp
        then obtain er' where "onReceivedData_loop throws ?rest er1 = (er', els, ER_success)" "er_inv p er'"
          using "1.IH" [OF step refl refl er1(1)] "1.prems"(3,4) stream rest by auto
        then show ?thesis using step stream by (simp add: onReceivedData_loop.simps [of throws data])
      qed
    qed
  qed
qed

section \<open>Streams of encoded packets\<close>

text \<open>The calls of a transport that receives the pieces one after the other.\<close>

fun receive_all :: "(byte list \<Rightarrow> bool) \<Rightarrow> byte list list \<Rightarrow> element_reader \<Rightarrow> element_reader \<times> byte list list \<times> er_result list" where
  "receive_all throws [] er = (er, [], [])"
| "receive_all throws (data # pieces) er =
    (let (er', els, res) = onReceivedData throws data er;
         (er'', els', ress) = receive_all throws pieces er'
     in (er'', els @ els', res # ress))"

lemma receive_all_refines:
  assumes "er_inv part er" "\<forall>p \<in> set pieces. length p < 2 ^ 63" "\<forall>el \<in> set (snd (read_stream part (concat pieces))). \<not> throws el"
    "\<forall>bs. prefix bs (concat pieces) \<longrightarrow> length (fst (read_stream part bs)) \<le> MAX_NDN_PACKET_SIZE"
  shows "\<exists>er'. receive_all throws pieces er = (er', snd (read_stream part (concat pieces)), replicate (length pieces) ER_success) \<and>
    er_inv (fst (read_stream part (concat pieces))) er'"
  using assms
proof (induction pieces arbitrary: part er)
  case (Cons data pieces)
  let ?p = "fst (read_stream part data)"
  have split: "read_stream part (data @ concat pieces) = (fst (read_stream ?p (concat pieces)), snd (read_stream part data) @ snd (read_stream ?p (concat pieces)))"
    by (rule read_stream_append)
  have "\<forall>el \<in> set (snd (read_stream part data)). \<not> throws el" using Cons.prems(3) split by simp
  moreover have "length ?p \<le> MAX_NDN_PACKET_SIZE" using Cons.prems(4) by simp
  ultimately obtain er1 where er1: "onReceivedData throws data er = (er1, snd (read_stream part data), ER_success)" "er_inv ?p er1"
    using onReceivedData_loop_refines [OF Cons.prems(1), of data throws] Cons.prems(1,2) by (auto simp: onReceivedData_def er_inv_def)
  have "length (fst (read_stream ?p bs)) \<le> MAX_NDN_PACKET_SIZE" if "prefix bs (concat pieces)" for bs
  proof -
    have "prefix (data @ bs) (concat (data # pieces))" using that by simp
    then have "length (fst (read_stream part (data @ bs))) \<le> MAX_NDN_PACKET_SIZE" using Cons.prems(4) by blast
    then show ?thesis by (simp add: read_stream_append)
  qed
  then obtain er2 where "receive_all throws pieces er1 = (er2, snd (read_stream ?p (concat pieces)), replicate (length pieces) ER_success)"
      "er_inv (fst (read_stream ?p (concat pieces))) er2"
    using Cons.IH [OF er1(2)] Cons.prems(2,3) split by auto
  then show ?case using er1(1) split by simp
qed (simp add: er_inv_def)

text \<open>The scan of an encoded TLV ends with its last byte.\<close>

lemma scan_varNumber:
  "scan_bytes Scan_type (varNumberBytes v @ rest) = scan_bytes Scan_length rest \<and>
   scan_bytes Scan_length (varNumberBytes v @ rest) = scan_bytes (scan_length (unat v)) rest"
proof -
  note simps = varNumberBytes_def scan_typeBytes scan_lengthBytes extendedBytes_def be_number_be_bytes
  consider "v < 253" | "\<not> v < 253" "v \<le> 0xffff" | "\<not> v < 253" "\<not> v \<le> 0xffff" "v \<le> 0xffffffff" | "\<not> v < 253" "\<not> v \<le> 0xffff" "\<not> v \<le> 0xffffffff"
    by blast
  then show ?thesis
  proof cases
    case 1
    then have v: "v < 256" by (simp add: word_less_nat_alt)
    then have "(ucast v :: byte) < 253" using 1 ucast_byte_small(2) [OF v] by (simp add: word_less_nat_alt)
    then show ?thesis using 1 ucast_byte_small(2) [OF v] by (simp add: varNumberBytes_def)
  next
    case 2
    then have "v < 65536" by (simp add: word_less_nat_alt word_le_nat_alt)
    then show ?thesis using 2 by (simp add: simps del: be_bytes.simps)
  next
    case 3
    then have "v < 4294967296" by (simp add: word_less_nat_alt word_le_nat_alt)
    then show ?thesis using 3 by (simp add: simps del: be_bytes.simps)
  next
    case 4
    then show ?thesis by (simp add: simps del: be_bytes.simps)
  qed
qed

lemma scan_tlvBytes:
  assumes "length v < 2 ^ 64"
  shows "scan_bytes Scan_type (tlvBytes t v @ rest) = (Scan_end, rest)"
proof -
  have "unat (of_nat (length v) :: u64) = length v" using assms by (simp add: unat_of_nat)
  then show ?thesis using scan_value [of "length v" "v @ rest"] by (simp add: tlvBytes_def typeAndLengthBytes_def scan_varNumber scan_length_def)
qed

text \<open>Encoded packets, one after the other, are read back, and a part of them leaves at most a proper part of a packet unfinished.\<close>

definition packet :: "byte list \<Rightarrow> bool" where
  "packet bs \<longleftrightarrow> fst (scan_bytes Scan_type bs) = Scan_end \<and> snd (scan_bytes Scan_type bs) = []"

lemma packet_tlvBytes: "length v < 2 ^ 64 \<Longrightarrow> packet (tlvBytes t v)"
  using scan_tlvBytes [of v t "[]"] by (simp add: packet_def)

lemma read_stream_packet:
  assumes "packet p"
  shows "read_stream [] (p @ rest) = (fst (read_stream [] rest), p # snd (read_stream [] rest))"
  using read_stream_cut [of "[]" Scan_type "p @ rest" Scan_end rest] assms
  by (cases "scan_bytes Scan_type p") (simp add: packet_def scan_bytes_append case_prod_unfold Let_def)

lemma read_stream_packets: "\<forall>p \<in> set ps. packet p \<Longrightarrow> read_stream [] (concat ps) = ([], ps)"
  by (induction ps) (simp_all add: read_stream_packet)

lemma read_stream_part:
  assumes "packet p" "prefix bs p" "bs \<noteq> p"
  shows "read_stream [] bs = (bs, [])"
proof -
  obtain zs where zs: "p = bs @ zs" "zs \<noteq> []" using assms(2,3) by (auto elim: prefixE)
  have "fst (scan_bytes Scan_type bs) \<noteq> Scan_end"
    using assms(1) zs by (cases "scan_bytes Scan_type bs") (auto simp: packet_def scan_bytes_append)
  then show ?thesis using read_stream_cut [of "[]" Scan_type bs "fst (scan_bytes Scan_type bs)" "snd (scan_bytes Scan_type bs)"] by simp
qed

lemma read_stream_prefix:
  assumes "\<forall>p \<in> set ps. packet p \<and> length p \<le> n" "prefix bs (concat ps)"
  shows "length (fst (read_stream [] bs)) \<le> n"
  using assms
proof (induction ps arbitrary: bs)
  case (Cons p ps)
  show ?case
  proof (cases "prefix p bs")
    case True
    then obtain zs where zs: "bs = p @ zs" by (auto elim: prefixE)
    then have "prefix zs (concat ps)" using Cons.prems(2) by simp
    then show ?thesis using Cons zs by (simp add: read_stream_packet)
  next
    case False
    then have "prefix bs p" "bs \<noteq> p" using Cons.prems(2) by (auto simp: prefix_append)
    then show ?thesis using read_stream_part [of p bs] Cons.prems(1) prefix_length_le [of bs p] by auto
  qed
qed simp

text \<open>A reader with a listener and a buffer that can grow.\<close>

definition er_ready :: "dynamicArray \<Rightarrow> element_reader \<Rightarrow> bool" where
  "er_ready buffer er \<longleftrightarrow> da_realloc buffer \<and> length (sd_headerBuffer (er_decoder er)) = 8"

lemma er_initialize_inv: "er_ready buffer er \<Longrightarrow> er_inv [] (er_initialize True buffer False er)"
  using sd_reset_wf [of "er_decoder er"] by (simp add: er_ready_def er_initialize_def er_inv_def)

lemma receive_packets:
  assumes "er_ready buffer er" "concat pieces = concat packets" "\<forall>p \<in> set packets. packet p \<and> length p \<le> MAX_NDN_PACKET_SIZE"
    "\<forall>p \<in> set pieces. length p < 2 ^ 63" "\<forall>p \<in> set packets. \<not> throws p"
  shows "\<exists>er'. receive_all throws pieces (er_initialize True buffer False er) = (er', packets, replicate (length pieces) ER_success) \<and> er_inv [] er'"
proof -
  have stream: "read_stream [] (concat pieces) = ([], packets)" using read_stream_packets [of packets] assms(2,3) by simp
  moreover have "\<forall>bs. prefix bs (concat pieces) \<longrightarrow> length (fst (read_stream [] bs)) \<le> MAX_NDN_PACKET_SIZE"
    using read_stream_prefix [OF assms(3)] assms(2) by simp
  ultimately show ?thesis
    using receive_all_refines [OF er_initialize_inv [OF assms(1)] assms(4), of throws] assms(5) by simp
qed

text \<open>
  C7. The element reader does not depend on how the transport cuts the stream.  Any number of encoded packets of at most 8800
  bytes, cut into pieces anywhere, also in the middle of a type or a length, come out of the reader one by one and unchanged, every call
  returns without an error, and at the end the reader is ready for the next packet.
\<close>

theorem element_reader_stream:
  assumes "er_ready buffer er" and "concat pieces = concat (map (\<lambda>(t, v). tlvBytes t v) tlvs)"
    and "\<forall>(t, v) \<in> set tlvs. length (tlvBytes t v) \<le> MAX_NDN_PACKET_SIZE" and "\<forall>p \<in> set pieces. length p < 2 ^ 63"
  shows "\<exists>er'. receive_all (\<lambda>_. False) pieces (er_initialize True buffer False er) =
      (er', map (\<lambda>(t, v). tlvBytes t v) tlvs, replicate (length pieces) ER_success) \<and>
    \<not> er_usePartialData er' \<and> sd_fresh (er_decoder er')"
proof -
  have "packet (tlvBytes t v) \<and> length (tlvBytes t v) \<le> MAX_NDN_PACKET_SIZE" if "(t, v) \<in> set tlvs" for t v
  proof -
    have "length (tlvBytes t v) \<le> MAX_NDN_PACKET_SIZE" using that assms(3) by blast
    moreover from this have "length v < 2 ^ 64" by (simp add: tlvBytes_def MAX_NDN_PACKET_SIZE_def del: length_tlvBytes)
    ultimately show ?thesis using packet_tlvBytes by blast
  qed
  then have "\<forall>p \<in> set (map (\<lambda>(t, v). tlvBytes t v) tlvs). packet p \<and> length p \<le> MAX_NDN_PACKET_SIZE" by auto
  then obtain er' where er': "receive_all (\<lambda>_. False) pieces (er_initialize True buffer False er) =
      (er', map (\<lambda>(t, v). tlvBytes t v) tlvs, replicate (length pieces) ER_success)" "er_inv [] er'"
    using receive_packets [OF assms(1,2) _ assms(4), of "\<lambda>_. False"] by blast
  moreover have "\<not> er_usePartialData er'" "sd_fresh (er_decoder er')"
    using er'(2) by (auto simp: er_inv_def sd_fresh_def sd_scan_def split: sd_state.splits)
  ultimately show ?thesis by blast
qed

definition sample_reader :: element_reader where
  "sample_reader = \<lparr>er_hasListener = False, er_readRawPackets = False,
     er_decoder = \<lparr>sd_gotElementEnd = False, sd_offset = 0, sd_state = READ_TYPE, sd_headerLength = 0, sd_useHeaderBuffer = False,
       sd_headerBuffer = replicate 8 0, sd_nBytesToRead = 0, sd_firstOctet = 0\<rparr>,
     er_usePartialData = False, er_gotPartialDataError = False, er_partialData = \<lparr>da_array = [], da_realloc = False\<rparr>, er_partialDataLength = 0\<rparr>"

theorem element_reader_stream_witness:
  "\<exists>er'. receive_all (\<lambda>_. False) [[5], [2, 1], [], [7, 6, 0]] (er_initialize True \<lparr>da_array = [], da_realloc = True\<rparr> False sample_reader) =
    (er', [[5, 2, 1, 7], [6, 0]], [ER_success, ER_success, ER_success, ER_success]) \<and> \<not> er_usePartialData er'"
proof -
  let ?pieces = "[[5], [2, 1], [], [7, 6, 0]] :: byte list list" and ?tlvs = "[(5, [1, 7]), (6, [])] :: (u32 \<times> byte list) list"
  have ready: "er_ready \<lparr>da_array = [], da_realloc = True\<rparr> sample_reader" by (simp add: er_ready_def sample_reader_def)
  have bytes: "map (\<lambda>(t, v). tlvBytes t v) ?tlvs = [[5, 2, 1, 7], [6, 0]]"
    by (simp add: tlvBytes_def typeAndLengthBytes_def varNumberBytes_def)
  have concat: "concat ?pieces = concat (map (\<lambda>(t, v). tlvBytes t v) ?tlvs)" unfolding bytes by simp
  have sizes: "\<forall>(t, v) \<in> set ?tlvs. length (tlvBytes t v) \<le> MAX_NDN_PACKET_SIZE"
    using bytes by (simp add: MAX_NDN_PACKET_SIZE_def del: length_tlvBytes)
  have pieces: "\<forall>p \<in> set ?pieces. length p < 2 ^ 63" by simp
  have four: "replicate (length ?pieces) ER_success = [ER_success, ER_success, ER_success, ER_success]" by simp
  show ?thesis using element_reader_stream [OF ready concat sizes pieces] unfolding bytes four by blast
qed

text \<open>
  When the listener throws an exception for an element, the rest of the piece is lost: here the element \<open>[6, 0]\<close> and the first byte of
  the next one, so that the following piece is read from the middle of an element.
\<close>

lemma element_reader_exception_drops:
  "snd (receive_all (\<lambda>el. el = [5, 0]) [[5, 0, 6, 0, 6], [1, 9]] (er_initialize True \<lparr>da_array = [], da_realloc = True\<rparr> False sample_reader)) =
    ([[5, 0]], [ER_thrown, ER_success])"
  by code_simp

text \<open>
  When an element is complete but does not fit a buffer that cannot grow, \<open>onReceivedData\<close> returns the error without resetting
  the structure decoder, and the next call reports the part that was saved, without its last bytes, as an element.
\<close>

lemma element_reader_reports_part:
  "fst (snd (receive_all (\<lambda>_. False) [[5, 2, 1], [7], [6, 0]] (er_initialize True \<lparr>da_array = [0, 0, 0], da_realloc = False\<rparr> False sample_reader))) =
    [[5, 2, 1], [6, 0]]"
  by code_simp

end
