(* ===== verification/Certificates.thy ===== *)
theory Certificates
  imports Wire_Interest Actions
begin

text \<open>
  Certificates (\<open>security/v2/certificate-v2.cpp\<close>), validity periods and the helpers that verify
  signatures (\<open>security/verification-helpers.cpp\<close>).

  The public-key operations are OpenSSL's; they, the wire format in use and the decoder of X.509 content
  are the fields of \<open>sec_env\<close>.  Times are in nanoseconds since 1970, as \<open>system_clock\<close> counts them.
\<close>

section \<open>X.509 content\<close>

record x509CertificateInfo =
  xi_signedEncoding :: signedBlob
  xi_serialNumber :: "byte list"
  xi_issuerName :: name
  xi_validityPeriod :: validityPeriod
  xi_subjectName :: name
  xi_publicKey :: "byte list"
  xi_signatureValue :: "byte list"
  xi_crlDistributionUri :: "byte list"

definition X509_COMPONENT :: component where
  "X509_COMPONENT = genericComponent (str ''x509'')"

definition isEncapsulatedX509 :: "name \<Rightarrow> bool" where
  "isEncapsulatedX509 n \<longleftrightarrow> length n = 2 \<and> component_equals (n ! 0) X509_COMPONENT"

section \<open>The environment\<close>

datatype keyType = KEY_TYPE_RSA | KEY_TYPE_EC

text \<open>
  \<open>se_keyType\<close> is the key type that the \<open>PublicKey\<close> constructor finds, none when it throws
  \<open>UnrecognizedKeyFormatException\<close>; the two verifiers return an error code or whether the signature of the
  buffer is the key's; \<open>se_x509\<close> is the \<open>X509CertificateInfo\<close> constructor, none when it throws.
\<close>

record 'w sec_env =
  se_wire :: "'w wire_env"
  se_encodeInterest :: "'w \<Rightarrow> 'w interest \<Rightarrow> error + signedBlob"
  se_decodeSignatureInfoAndValue :: "byte list \<Rightarrow> byte list \<Rightarrow> error + signature"
  se_keyType :: "byte list \<Rightarrow> keyType option"
  se_verifySha256WithRsaSignature :: "byte list \<Rightarrow> byte list \<Rightarrow> byte list \<Rightarrow> ndn_Error + bool"
  se_verifySha256WithEcdsaSignature :: "byte list \<Rightarrow> byte list \<Rightarrow> byte list \<Rightarrow> ndn_Error + bool"
  se_x509 :: "byte list \<Rightarrow> x509CertificateInfo option"

text \<open>The decoding of a signed interest's last two components in the default wire format.\<close>

definition Tlv0_3_decodeSignatureInfoAndValue ::
    "(byte list \<Rightarrow> int) \<Rightarrow> byte list \<Rightarrow> byte list \<Rightarrow> (error + signature) option" where
  "Tlv0_3_decodeSignatureInfoAndValue malformed signatureInfo signatureValue =
    bindO (lift_decoding (decodeTlvSignatureInfo malformed \<lparr>dec_input = signatureInfo, dec_offset = 0\<rparr>)) (\<lambda>(lite, _).
    bindO (Some (lift_ndn (readBlobTlv 23 \<lparr>dec_input = signatureValue, dec_offset = 0\<rparr>))) (\<lambda>(v, _).
      Some (bindE (Blob_copy signatureValue v) (signature_of_lite signatureInfo lite))))"

section \<open>Validity at a time\<close>

text \<open>
  A count of milliseconds becomes a time through a cast to 64 bits.  Outside their range C++ does not define
  the result; on x86-64 it is the least value, which is what \<open>getNotAfter\<close> then returns, and what it returns
  when there is no period (\<open>-DBL_MAX\<close>).
\<close>

definition fromMillisecondsSince1970 :: "int \<Rightarrow> int" where
  "fromMillisecondsSince1970 ms =
    (if - (2 ^ 63) \<le> ms * 1000000 \<and> ms * 1000000 < 2 ^ 63 then ms * 1000000 else - (2 ^ 63))"

definition vp_getNotAfter :: "validityPeriod \<Rightarrow> int" where
  "vp_getNotAfter v =
    (case vp_period v of None \<Rightarrow> - (2 ^ 63) | Some (_, notAfter) \<Rightarrow> fromMillisecondsSince1970 notAfter)"

text \<open>The clock is rounded to milliseconds and then up to a second.\<close>

definition ValidityPeriod_isValid :: "int \<Rightarrow> validityPeriod \<Rightarrow> bool" where
  "ValidityPeriod_isValid now v = vp_isValidNow ((now + 500000) div 1000000) v"

section \<open>Certificates\<close>

record 'w certificateV2 =
  crt_data :: "'w data"
  crt_x509Info :: "x509CertificateInfo option"

text \<open>A \<open>Data\<close> reference that may refer to a \<open>CertificateV2\<close>, as the dynamic casts distinguish.\<close>

datatype 'w data_ref = Plain "'w data" | Certificate "'w certificateV2"

definition crt_name :: "'w certificateV2 \<Rightarrow> name" where
  "crt_name c = data_getName (crt_data c)"

definition crt_signature :: "'w certificateV2 \<Rightarrow> signature option" where
  "crt_signature c = sp_get (d_signature (crt_data c))"

definition KEY_COMPONENT :: component where
  "KEY_COMPONENT = genericComponent (str ''KEY'')"

definition isValidName :: "name \<Rightarrow> bool" where
  "isValidName certificateName =
    (if isEncapsulatedX509 certificateName then True
     else length certificateName \<ge> 4 \<and>
          (case name_get certificateName (-4) of Inl _ \<Rightarrow> False | Inr c \<Rightarrow> component_equals c KEY_COMPONENT))"

definition checkFormat :: "'w certificateV2 \<Rightarrow> error + unit" where
  "checkFormat c =
    (if \<not> isValidName (crt_name c)
     then Inl (Runtime_error ''The Data Name does not follow the certificate naming convention'')
     else if mi_type (cc_get (d_metaInfo (crt_data c))) \<noteq> CONTENT_KEY
     then Inl (Runtime_error ''The Data ContentType is not KEY'')
     else if mi_freshnessPeriod (cc_get (d_metaInfo (crt_data c))) < 0
     then Inl (Runtime_error ''The Data FreshnessPeriod is not set'')
     else if blob_size (d_content (crt_data c)) = 0
     then Inl (Runtime_error ''The Data Content is empty'')
     else Inr ())"

fun isDigestSha256Signature :: "signature option \<Rightarrow> bool" where
  "isDigestSha256Signature (Some (DigestSha256Signature _ _)) = True"
| "isDigestSha256Signature _ = False"

text \<open>The constructor from a \<open>Data\<close>; an X.509 certificate is found in the content under a digest signature.\<close>

definition decodeX509 :: "'w sec_env \<Rightarrow> 'w data \<Rightarrow> x509CertificateInfo option" where
  "decodeX509 env d =
    (if isDigestSha256Signature (sp_get (d_signature d)) then se_x509 env (blob_bytes (d_content d)) else None)"

fun CertificateV2_of :: "'w sec_env \<Rightarrow> 'w data_ref \<Rightarrow> error + 'w certificateV2" where
  "CertificateV2_of env (Certificate c) =
    (let c' = \<lparr>crt_data = data_copy (crt_data c), crt_x509Info = crt_x509Info c\<rparr>
     in bindE (checkFormat c') (\<lambda>_. Inr c'))"
| "CertificateV2_of env (Plain d) =
    (let d = data_copy d; c' = \<lparr>crt_data = d, crt_x509Info = decodeX509 env d\<rparr>
     in bindE (checkFormat c') (\<lambda>_. Inr c'))"

text \<open>The implicit copy constructor.\<close>

definition crt_copy :: "'w certificateV2 \<Rightarrow> 'w certificateV2" where
  "crt_copy c = \<lparr>crt_data = data_copy (crt_data c), crt_x509Info = crt_x509Info c\<rparr>"

subsection \<open>Names\<close>

definition crt_component :: "int \<Rightarrow> name \<Rightarrow> error + component" where
  "crt_component offset n =
    (if length n < 4
     then Inl (Runtime_error ''The certificate has an encapsulated X.509 name, not an NDN cert name'')
     else name_get n offset)"

definition crt_prefix :: "int \<Rightarrow> name \<Rightarrow> error + name" where
  "crt_prefix offset n =
    (if length n < 4
     then Inl (Runtime_error ''The certificate has an encapsulated X.509 name, not an NDN cert name'')
     else Inr (getPrefix n offset))"

definition getKeyName :: "'w certificateV2 \<Rightarrow> error + name" where
  "getKeyName c = crt_prefix (-2) (crt_name c)"

definition getIdentity :: "'w certificateV2 \<Rightarrow> error + name" where
  "getIdentity c = crt_prefix (-4) (crt_name c)"

definition getKeyId :: "'w certificateV2 \<Rightarrow> error + component" where
  "getKeyId c = crt_component (-3) (crt_name c)"

definition getIssuerId :: "'w certificateV2 \<Rightarrow> error + component" where
  "getIssuerId c = crt_component (-2) (crt_name c)"

definition extractIdentityFromCertName :: "name \<Rightarrow> error + name" where
  "extractIdentityFromCertName certificateName =
    (if \<not> isValidName certificateName
     then Inl (Invalid_argument ''Certificate name does not follow the naming conventions'')
     else Inr (getPrefix certificateName (-4)))"

definition extractKeyNameFromCertName :: "name \<Rightarrow> error + name" where
  "extractKeyNameFromCertName certificateName =
    (if \<not> isValidName certificateName
     then Inl (Invalid_argument ''Certificate name does not follow the naming conventions'')
     else Inr (getPrefix certificateName (-2)))"

subsection \<open>Contents\<close>

definition getPublicKey :: "'w certificateV2 \<Rightarrow> error + byte list" where
  "getPublicKey c =
    (case crt_x509Info c of Some x \<Rightarrow> Inr (xi_publicKey x)
     | None \<Rightarrow>
         if blob_size (d_content (crt_data c)) = 0
         then Inl (Runtime_error ''The public key is not set (the Data content is empty)'')
         else Inr (blob_bytes (d_content (crt_data c))))"

definition getValidityPeriod :: "'w certificateV2 \<Rightarrow> error + validityPeriod" where
  "getValidityPeriod c =
    (case crt_x509Info c of Some x \<Rightarrow> Inr (xi_validityPeriod x)
     | None \<Rightarrow>
         if \<not> vp_canGetFromSignature (crt_signature c)
         then Inl (Invalid_argument ''The SignatureInfo does not have a ValidityPeriod'')
         else vp_getFromSignature (crt_signature c))"

definition crt_isValid :: "int \<Rightarrow> 'w certificateV2 \<Rightarrow> error + bool" where
  "crt_isValid now c = bindE (getValidityPeriod c) (\<lambda>v. Inr (ValidityPeriod_isValid now v))"

definition hasIssuerName :: "'w certificateV2 \<Rightarrow> error + bool" where
  "hasIssuerName c =
    (case crt_x509Info c of Some _ \<Rightarrow> Inr True
     | None \<Rightarrow>
         if kl_canGetFromSignature (crt_signature c)
         then bindE (kl_getFromSignature (crt_signature c)) (\<lambda>k. Inr (kl_type k = KEYNAME))
         else Inr False)"

definition getIssuerName :: "'w certificateV2 \<Rightarrow> error + name" where
  "getIssuerName c =
    (case crt_x509Info c of Some x \<Rightarrow> Inr (xi_issuerName x)
     | None \<Rightarrow> bindE (kl_getFromSignature (crt_signature c)) (\<lambda>k. Inr (kl_keyName k)))"

text \<open>The encoding whose signed portion is signed; none when the packet cannot be encoded.\<close>

definition getSignedEncoding :: "'w sec_env \<Rightarrow> 'w certificateV2 \<Rightarrow> signedBlob option" where
  "getSignedEncoding env c =
    (case crt_x509Info c of Some x \<Rightarrow> Some (xi_signedEncoding x)
     | None \<Rightarrow>
         (case data_wireEncode (se_wire env) (env_default (se_wire env)) (crt_data c) of
            Inl _ \<Rightarrow> None | Inr (encoding, _) \<Rightarrow> Some encoding))"

definition getSignatureValue :: "'w certificateV2 \<Rightarrow> error + byte list" where
  "getSignatureValue c =
    (case crt_x509Info c of Some x \<Rightarrow> Inr (xi_signatureValue x)
     | None \<Rightarrow> (case crt_signature c of None \<Rightarrow> Inl Undefined_behaviour
                | Some s \<Rightarrow> Inr (blob_bytes (signature_value s))))"

definition getX509SerialNumber :: "'w certificateV2 \<Rightarrow> byte list" where
  "getX509SerialNumber c = (case crt_x509Info c of Some x \<Rightarrow> xi_serialNumber x | None \<Rightarrow> [])"

subsection \<open>Decoding\<close>

definition signedBuf :: "signedBlob \<Rightarrow> byte list" where
  "signedBuf e = take (sb_signedPortionEndOffset e - sb_signedPortionBeginOffset e)
     (drop (sb_signedPortionBeginOffset e) (sb_bytes e))"

text \<open>A DER sequence is wrapped in a Data packet with a digest signature before it is decoded.\<close>

definition encapsulateX509 :: "'w sec_env \<Rightarrow> byte list \<Rightarrow> error + byte list" where
  "encapsulateX509 env input =
    (case se_x509 env input of
       None \<Rightarrow> Inl (Runtime_error ''DerDecodingException'')
     | Some x509Info \<Rightarrow>
         let wire = se_wire env;
             d = Data \<lparr>ver_value = xi_subjectName x509Info, ver_changeCount = 0\<rparr>;
             d = data_setContent (Some input) d;
             d = data_editMetaInfo (\<lambda>m. m\<lparr>mi_type := CONTENT_KEY\<rparr>) d;
             d = data_editMetaInfo (\<lambda>m. m\<lparr>mi_freshnessPeriod := 3600000000000\<rparr>) d;
             d = data_setSignature \<lparr>ver_value = DigestSha256Signature None ValidityPeriod0, ver_changeCount = 0\<rparr> d
         in bindE (data_wireEncode wire (env_default wire) d) (\<lambda>(encoding, d).
            bindE (data_wireEncode wire (env_default wire)
                     (data_editSignature
                        (\<lambda>_. DigestSha256Signature (Some (env_sha256 wire (signedBuf encoding))) ValidityPeriod0) d))
              (\<lambda>(encoding, _). Inr (sb_bytes encoding))))"

definition crt_wireDecode :: "'w sec_env \<Rightarrow> byte list \<Rightarrow> 'w certificateV2 \<Rightarrow> error + 'w certificateV2" where
  "crt_wireDecode env inputIn c =
    bindE (if length inputIn \<ge> 1 \<and> inputIn ! 0 = 0x30 then encapsulateX509 env inputIn else Inr inputIn) (\<lambda>input.
    bindE (data_wireDecode (se_wire env) (env_default (se_wire env)) input (crt_data c)) (\<lambda>d.
      let c = \<lparr>crt_data = d,
                crt_x509Info = (case decodeX509 env d of None \<Rightarrow> crt_x509Info c | Some x \<Rightarrow> Some x)\<rparr>
      in bindE (checkFormat c) (\<lambda>_. Inr c)))"

section \<open>Verifying signatures\<close>

text \<open>
  \<open>verifySignature\<close> on an encoded key, which maps an unrecognised key and a failing library call to false.
  SHA-256 is the only value of \<open>DigestAlgorithm\<close>.
\<close>

definition verifySignature :: "'w sec_env \<Rightarrow> byte list \<Rightarrow> byte list \<Rightarrow> byte list \<Rightarrow> bool" where
  "verifySignature env buffer signature publicKeyDer =
    (case se_keyType env publicKeyDer of
       None \<Rightarrow> False
     | Some KEY_TYPE_RSA \<Rightarrow>
         (case se_verifySha256WithRsaSignature env signature buffer publicKeyDer of Inl _ \<Rightarrow> False | Inr verified \<Rightarrow> verified)
     | Some KEY_TYPE_EC \<Rightarrow>
         (case se_verifySha256WithEcdsaSignature env signature buffer publicKeyDer of Inl _ \<Rightarrow> False | Inr verified \<Rightarrow> verified))"

text \<open>The bytes that a packet's signature covers and its signature value; none where the helpers return false.\<close>

fun signed_parts :: "'w sec_env \<Rightarrow> 'w data_ref \<Rightarrow> error + (byte list \<times> byte list) option" where
  "signed_parts env (Certificate c) =
    (case getSignedEncoding env c of
       None \<Rightarrow> Inr None
     | Some encoding \<Rightarrow> bindE (getSignatureValue c) (\<lambda>v. Inr (Some (signedBuf encoding, v))))"
| "signed_parts env (Plain d) =
    (case data_wireEncode (se_wire env) (env_default (se_wire env)) d of
       Inl _ \<Rightarrow> Inr None
     | Inr (encoding, _) \<Rightarrow>
         (case sp_get (d_signature d) of None \<Rightarrow> Inl Undefined_behaviour
          | Some s \<Rightarrow> Inr (Some (signedBuf encoding, blob_bytes (signature_value s)))))"

definition verifyDataSignature :: "'w sec_env \<Rightarrow> 'w data_ref \<Rightarrow> 'w certificateV2 \<Rightarrow> error + bool" where
  "verifyDataSignature env data certificate =
    bindE (getPublicKey certificate) (\<lambda>publicKeyDer.
      if se_keyType env publicKeyDer = None then Inr False
      else
        bindE (signed_parts env data) (\<lambda>parts.
          case parts of None \<Rightarrow> Inr False
          | Some (buffer, signature) \<Rightarrow> Inr (verifySignature env buffer signature publicKeyDer)))"

definition extractSignature :: "'w sec_env \<Rightarrow> 'w interest \<Rightarrow> signature option" where
  "extractSignature env interest =
    (let n = int_getName interest in
     if length n < 2 then None
     else
       case bindE (name_get n (-2)) (\<lambda>a. bindE (name_get n (-1)) (\<lambda>b.
         se_decodeSignatureInfoAndValue env (blob_bytes (c_value a)) (blob_bytes (c_value b)))) of
         Inl _ \<Rightarrow> None | Inr signature \<Rightarrow> Some signature)"

definition interest_encoding :: "'w sec_env \<Rightarrow> 'w interest \<Rightarrow> signedBlob option" where
  "interest_encoding env interest =
    (case int_wireEncode (env_default (se_wire env)) (se_encodeInterest env) (env_default (se_wire env)) interest of
       Inl _ \<Rightarrow> None | Inr (encoding, _) \<Rightarrow> Some encoding)"

definition verifyInterestSignature :: "'w sec_env \<Rightarrow> 'w interest \<Rightarrow> 'w certificateV2 \<Rightarrow> error + bool" where
  "verifyInterestSignature env interest certificate =
    bindE (getPublicKey certificate) (\<lambda>publicKeyDer.
      if se_keyType env publicKeyDer = None then Inr False
      else
        case extractSignature env interest of None \<Rightarrow> Inr False
        | Some signature \<Rightarrow>
            (case interest_encoding env interest of None \<Rightarrow> Inr False
             | Some encoding \<Rightarrow>
                 Inr (verifySignature env (signedBuf encoding) (blob_bytes (signature_value signature)) publicKeyDer)))"

definition verifyDigest :: "'w sec_env \<Rightarrow> byte list \<Rightarrow> byte list \<Rightarrow> bool" where
  "verifyDigest env buffer digest \<longleftrightarrow> length digest = 32 \<and> env_sha256 (se_wire env) buffer = digest"

definition verifyDataDigest :: "'w sec_env \<Rightarrow> 'w data \<Rightarrow> error + bool" where
  "verifyDataDigest env d =
    (case data_wireEncode (se_wire env) (env_default (se_wire env)) d of
       Inl _ \<Rightarrow> Inr False
     | Inr (encoding, _) \<Rightarrow>
         (case sp_get (d_signature d) of None \<Rightarrow> Inl Undefined_behaviour
          | Some s \<Rightarrow> Inr (verifyDigest env (signedBuf encoding) (blob_bytes (signature_value s)))))"

definition verifyInterestDigest :: "'w sec_env \<Rightarrow> 'w interest \<Rightarrow> bool" where
  "verifyInterestDigest env interest =
    (case extractSignature env interest of None \<Rightarrow> False
     | Some signature \<Rightarrow>
         (case interest_encoding env interest of None \<Rightarrow> False
          | Some encoding \<Rightarrow> verifyDigest env (signedBuf encoding) (blob_bytes (signature_value signature))))"

section \<open>Certificate names\<close>

lemma getPrefix_negative:
  assumes "0 < k" "k \<le> length n" "length n < 2 ^ 63"
  shows "getPrefix n (- int k) = take (length n - k) n"
  using getSubName_getPrefix [OF assms(3,2), of 0] assms(1) by auto

lemma getPrefix_beyond:
  assumes "length n < k" "k < 2 ^ 31"
  shows "getPrefix n (- int k) = n"
proof -
  define j where "j = 2 ^ 64 - (k - length n)"
  have j: "j < 2 ^ 64" "length n \<le> j" "length n < 2 ^ 64" using assms by (auto simp: j_def)
  have "(of_nat j :: u64) = of_nat (2 ^ 64) - of_nat (k - length n)"
    unfolding j_def using assms by (intro of_nat_diff) simp
  then have w: "of_nat (length n) + of_int (- int k) = (of_nat j :: u64)"
    using assms(1) by (simp add: of_nat_diff)
  have u: "unat (of_nat j :: u64) = j" "unat (of_nat (length n) :: u64) = length n"
    using j(1,3) by (simp_all add: take_bit_nat_eq_self)
  then have "min (of_nat j) (of_nat (length n)) = (of_nat (length n) :: u64)"
    using j(2) by (simp add: min_def word_le_nat_alt)
  moreover have "getPrefix n (- int k) = getSubName n 0 (of_nat j)"
    using assms(1) unfolding getPrefix_def w by simp
  ultimately show ?thesis
    using u(2) by (simp add: getSubName_def map_nth)
qed

text \<open>A certificate name ends with KEY, the key identifier, the issuer and the version.\<close>

lemma certificate_name_parts:
  assumes "isValidName n" "\<not> isEncapsulatedX509 n" "length n < 2 ^ 63"
  shows "\<exists>identity key keyId issuer version.
    n = identity @ [key, keyId, issuer, version] \<and> component_equals key KEY_COMPONENT \<and>
    extractIdentityFromCertName n = Inr identity \<and>
    extractKeyNameFromCertName n = Inr (identity @ [key, keyId])"
proof -
  let ?p = "take (length n - 4) n"
  have l: "length n \<ge> 4" and k: "component_equals (n ! (length n - 4)) KEY_COMPONENT"
    using assms(1,2) by (auto simp: isValidName_def name_get_def split: if_splits)
  have "length (drop (length n - 4) n) = Suc (Suc (Suc (Suc 0)))" using l by simp
  then obtain a b c d where d: "drop (length n - 4) n = [a, b, c, d]"
    by (auto simp only: length_Suc_conv length_0_conv)
  then have n: "n = ?p @ [a, b, c, d]" by (metis append_take_drop_id)
  have "n ! (length n - 4) = a" using d l by (metis hd_drop_conv_nth diff_less less_le_trans list.sel(1) zero_less_numeral)
  moreover have "take (length n - 2) n = ?p @ [a, b]"
    using l by (subst n) (simp add: take_Cons')
  ultimately have "n = ?p @ [a, b, c, d] \<and> component_equals a KEY_COMPONENT \<and>
    extractIdentityFromCertName n = Inr ?p \<and> extractKeyNameFromCertName n = Inr (?p @ [a, b])"
    using n k l assms getPrefix_negative [of 4 n] getPrefix_negative [of 2 n]
    by (simp add: extractIdentityFromCertName_def extractKeyNameFromCertName_def)
  then show ?thesis by blast
qed

end
