(* ===== verification/Certificate_Storage.thy ===== *)
theory Certificate_Storage
  imports Certificates Name_Map
begin

text \<open>
  The stores of the validator: the certificate cache (\<open>security/v2/certificate-cache-v2.cpp\<close>), the cache of
  revocation lists (\<open>x509-crl-cache.cpp\<close>), the trust anchors (\<open>trust-anchor-container.cpp\<close> and
  \<open>trust-anchor-group.cpp\<close>) and the storage that holds them (\<open>certificate-storage.cpp\<close>).

  Each operation reads the clock, which is the argument \<open>now\<close>, in nanoseconds.  Looking up refreshes the
  stores first, so a lookup is an action on its store.  Times are unbounded integers: a time in the validity of a
  certificate is cut to the 64 bits of the clock, and the lifetimes that are added to the clock, one hour, five minutes or
  a refresh period, do not leave them before the year 2262.
\<close>

section \<open>The certificate cache\<close>

definition time_point_max :: int where
  "time_point_max = 2 ^ 63 - 1"

record 'w cacheEntry =
  ent_certificate :: "'w certificateV2"
  ent_removalTime :: int

record 'w certificateCache =
  cch_certificatesByName :: "'w cacheEntry name_map"
  cch_nextRefreshTime :: int
  cch_maxLifetime :: int
  cch_nowOffset :: int

definition CertificateCacheV2 :: "int \<Rightarrow> 'w certificateCache" where
  "CertificateCacheV2 maxLifetime =
    \<lparr>cch_certificatesByName = [], cch_nextRefreshTime = time_point_max, cch_maxLifetime = maxLifetime, cch_nowOffset = 0\<rparr>"

definition cch_insert :: "int \<Rightarrow> 'w certificateV2 \<Rightarrow> ('w certificateCache, unit) act" where
  "cch_insert now certificate =
    bindS (liftS (getValidityPeriod certificate)) (\<lambda>v.
      modifyS (\<lambda>c.
        let notAfterTime = vp_getNotAfter v; now = now + cch_nowOffset c in
        if notAfterTime < now then c
        else
          let removalTime = min notAfterTime (now + cch_maxLifetime c);
              certificateCopy = crt_copy certificate
          in c\<lparr>cch_nextRefreshTime := (if removalTime < cch_nextRefreshTime c then removalTime else cch_nextRefreshTime c),
               cch_certificatesByName := nm_assign (crt_name certificateCopy)
                 \<lparr>ent_certificate = certificateCopy, ent_removalTime = removalTime\<rparr> (cch_certificatesByName c)\<rparr>))"

text \<open>The loop of \<open>refresh\<close>: the earliest removal time of what stays, and the names to erase.\<close>

fun refresh_loop :: "int \<Rightarrow> (name \<times> int) list \<Rightarrow> int \<times> name list \<Rightarrow> int \<times> name list" where
  "refresh_loop now [] (nextRefreshTime, namesToErase) = (nextRefreshTime, namesToErase)"
| "refresh_loop now ((n, removalTime) # es) (nextRefreshTime, namesToErase) =
    refresh_loop now es
      (if removalTime \<le> now then (nextRefreshTime, namesToErase @ [n])
       else (min nextRefreshTime removalTime, namesToErase))"

definition cch_refresh :: "int \<Rightarrow> 'w certificateCache \<Rightarrow> 'w certificateCache" where
  "cch_refresh now c =
    (let now = now + cch_nowOffset c in
     if now < cch_nextRefreshTime c then c
     else
       let (nextRefreshTime, namesToErase) =
             refresh_loop now (map (\<lambda>(n, e). (n, ent_removalTime e)) (cch_certificatesByName c)) (time_point_max, [])
       in c\<lparr>cch_nextRefreshTime := nextRefreshTime,
            cch_certificatesByName := fold nm_erase namesToErase (cch_certificatesByName c)\<rparr>)"

text \<open>\<open>std::map::lower_bound\<close> and the entries from there on.\<close>

definition nm_from :: "name \<Rightarrow> 'v name_map \<Rightarrow> 'v name_map" where
  "nm_from n m = dropWhile (\<lambda>(k, _). nkey k < nkey n) m"

definition find_name :: "name \<Rightarrow> (name \<times> 'w certificateV2) list \<Rightarrow> 'w certificateV2 option" where
  "find_name certificatePrefix m =
    (case nm_from certificatePrefix m of
       [] \<Rightarrow> None
     | (_, c) # _ \<Rightarrow> if name_match certificatePrefix (crt_name c) then Some c else None)"

text \<open>Matching an interest against a stored certificate; the encoding that the packet may cache is not a change of it.\<close>

definition crt_matches :: "'w sec_env \<Rightarrow> 'w interest \<Rightarrow> 'w certificateV2 \<Rightarrow> error + bool" where
  "crt_matches env interest c =
    bindE (matchesData (se_wire env) (env_default (se_wire env)) interest (crt_data c)) (\<lambda>(b, _). Inr b)"

fun find_loop :: "'w sec_env \<Rightarrow> 'w interest \<Rightarrow> (name \<times> 'w certificateV2) list \<Rightarrow> error + 'w certificateV2 option" where
  "find_loop env interest [] = Inr None"
| "find_loop env interest ((_, c) # es) =
    (if \<not> name_match (int_getName interest) (crt_name c) then Inr None
     else bindE (crt_matches env interest c) (\<lambda>b. if b then Inr (Some c) else find_loop env interest es))"

definition find_interest :: "'w sec_env \<Rightarrow> 'w interest \<Rightarrow> (name \<times> 'w certificateV2) list \<Rightarrow> error + 'w certificateV2 option" where
  "find_interest env interest m = find_loop env interest (nm_from (int_getName interest) m)"

definition cch_certificates :: "'w certificateCache \<Rightarrow> (name \<times> 'w certificateV2) list" where
  "cch_certificates c = map (\<lambda>(n, e). (n, ent_certificate e)) (cch_certificatesByName c)"

definition cch_find :: "int \<Rightarrow> name \<Rightarrow> ('w certificateCache, 'w certificateV2 option) act" where
  "cch_find now certificatePrefix c =
    (let c = cch_refresh now c in (Inr (find_name certificatePrefix (cch_certificates c)), c))"

definition cch_findInterest :: "'w sec_env \<Rightarrow> int \<Rightarrow> 'w interest \<Rightarrow> ('w certificateCache, 'w certificateV2 option) act" where
  "cch_findInterest env now interest c =
    (let c = cch_refresh now c in (find_interest env interest (cch_certificates c), c))"

definition cch_deleteCertificate :: "name \<Rightarrow> 'w certificateCache \<Rightarrow> 'w certificateCache" where
  "cch_deleteCertificate certificateName c =
    c\<lparr>cch_certificatesByName := nm_erase certificateName (cch_certificatesByName c)\<rparr>"

definition cch_clear :: "'w certificateCache \<Rightarrow> 'w certificateCache" where
  "cch_clear c = c\<lparr>cch_certificatesByName := [], cch_nextRefreshTime := time_point_max\<rparr>"

section \<open>The cache of revocation lists\<close>

record x509CrlInfo =
  crl_issuerName :: name
  crl_thisUpdate :: int
  crl_nextUpdate :: int
  crl_revokedCertificates :: "(byte list \<times> int) list"

record x509CrlCache =
  crc_crlsByName :: "(x509CrlInfo \<times> int) name_map"
  crc_nextRefreshTime :: int

definition X509CrlCache :: x509CrlCache where
  "X509CrlCache = \<lparr>crc_crlsByName = [], crc_nextRefreshTime = time_point_max\<rparr>"

definition crc_refresh :: "int \<Rightarrow> x509CrlCache \<Rightarrow> x509CrlCache" where
  "crc_refresh now c =
    (if now < crc_nextRefreshTime c then c
     else
       let (nextRefreshTime, issuerNamesToErase) =
             refresh_loop now (map (\<lambda>(n, e). (n, snd e)) (crc_crlsByName c)) (time_point_max, [])
       in c\<lparr>crc_nextRefreshTime := nextRefreshTime,
            crc_crlsByName := fold nm_erase issuerNamesToErase (crc_crlsByName c)\<rparr>)"

definition crc_find :: "int \<Rightarrow> name \<Rightarrow> x509CrlCache \<Rightarrow> x509CrlInfo option \<times> x509CrlCache" where
  "crc_find now issuerName c =
    (let c = crc_refresh now c in (map_option fst (nm_find issuerName (crc_crlsByName c)), c))"

definition crc_insert :: "int \<Rightarrow> x509CrlInfo \<Rightarrow> x509CrlCache \<Rightarrow> bool \<times> x509CrlCache" where
  "crc_insert now crlInfo c =
    (if now < crl_thisUpdate crlInfo then (False, c)
     else if crl_nextUpdate crlInfo < now then (False, c)
     else
       let (otherCrlInfo, c) = crc_find now (crl_issuerName crlInfo) c in
       if (case otherCrlInfo of None \<Rightarrow> False | Some other \<Rightarrow> crl_thisUpdate other > crl_thisUpdate crlInfo)
       then (False, c)
       else
         (True, c\<lparr>crc_nextRefreshTime :=
                    (if crl_nextUpdate crlInfo < crc_nextRefreshTime c then crl_nextUpdate crlInfo
                     else crc_nextRefreshTime c),
                  crc_crlsByName := nm_assign (crl_issuerName crlInfo) (crlInfo, crl_nextUpdate crlInfo)
                    (crc_crlsByName c)\<rparr>))"

definition crc_clear :: "x509CrlCache \<Rightarrow> x509CrlCache" where
  "crc_clear c = c\<lparr>crc_crlsByName := [], crc_nextRefreshTime := time_point_max\<rparr>"

section \<open>Trust anchors\<close>

text \<open>\<open>std::set<Name>\<close>.\<close>

type_synonym name_set = "unit name_map"

record dynamicGroup =
  dyn_isDirectory :: bool
  dyn_path :: "byte list"
  dyn_refreshPeriod :: int
  dyn_expireTime :: int

text \<open>A group is a \<open>DynamicTrustAnchorGroup\<close> when it has a path, a \<open>StaticTrustAnchorGroup\<close> otherwise.\<close>

record trustAnchorGroup =
  tg_id :: "byte list"
  tg_anchorNames :: name_set
  tg_dynamic :: "dynamicGroup option"

type_synonym 'w anchors = "'w certificateV2 name_map"

record 'w trustAnchorContainer =
  tac_groups :: "(byte list \<times> trustAnchorGroup) list"
  tac_anchors :: "'w anchors"

text \<open>
  The file system: the certificate that \<open>readCertificate\<close> finds in a file, and the regular files of a
  directory, none when it cannot be opened.
\<close>

record 'w files =
  fs_readCertificate :: "byte list \<Rightarrow> 'w certificateV2 option"
  fs_directory :: "byte list \<Rightarrow> byte list list option"

definition anchors_add :: "'w certificateV2 \<Rightarrow> 'w anchors \<Rightarrow> 'w anchors" where
  "anchors_add certificate anchors =
    (let certificateCopy = crt_copy certificate in nm_assign (crt_name certificateCopy) certificateCopy anchors)"

definition anchors_remove :: "name \<Rightarrow> 'w anchors \<Rightarrow> 'w anchors" where
  "anchors_remove certificateName anchors = nm_erase certificateName anchors"

definition static_add ::
    "int \<Rightarrow> 'w certificateV2 \<Rightarrow> trustAnchorGroup \<times> 'w anchors \<Rightarrow> error + trustAnchorGroup \<times> 'w anchors" where
  "static_add now certificate = (\<lambda>(g, anchors).
    if nm_find (crt_name certificate) (tg_anchorNames g) \<noteq> None then Inr (g, anchors)
    else bindE (crt_isValid now certificate) (\<lambda>valid.
      if \<not> valid then Inr (g, anchors)
      else Inr (g\<lparr>tg_anchorNames := nm_assign (crt_name certificate) () (tg_anchorNames g)\<rparr>,
                anchors_add certificate anchors)))"

definition static_remove :: "name \<Rightarrow> trustAnchorGroup \<times> 'w anchors \<Rightarrow> trustAnchorGroup \<times> 'w anchors" where
  "static_remove certificateName = (\<lambda>(g, anchors).
    (g\<lparr>tg_anchorNames := nm_erase certificateName (tg_anchorNames g)\<rparr>, anchors_remove certificateName anchors))"

text \<open>The state of a reload: the group's names, the anchors and the old names that were not seen again.\<close>

type_synonym 'w reload = "name_set \<times> 'w anchors \<times> name_set"

definition loadCertificate :: "'w files \<Rightarrow> int \<Rightarrow> byte list \<Rightarrow> ('w reload, unit) act" where
  "loadCertificate fs now file = (\<lambda>(anchorNames, anchors, oldAnchorNames).
    case fs_readCertificate fs file of
      None \<Rightarrow> (Inr (), anchorNames, anchors, oldAnchorNames)
    | Some certificate \<Rightarrow>
        (case crt_isValid now certificate of
           Inl e \<Rightarrow> (Inl e, anchorNames, anchors, oldAnchorNames)
         | Inr valid \<Rightarrow>
             (Inr (),
              if \<not> valid then (anchorNames, anchors, oldAnchorNames)
              else if nm_find (crt_name certificate) anchorNames = None
              then (nm_assign (crt_name certificate) () anchorNames, anchors_add certificate anchors, oldAnchorNames)
              else (anchorNames, anchors, nm_erase (crt_name certificate) oldAnchorNames))))"

fun load_files :: "'w files \<Rightarrow> int \<Rightarrow> byte list list \<Rightarrow> ('w reload, unit) act" where
  "load_files fs now [] = returnS ()"
| "load_files fs now (f # fs') = bindS (loadCertificate fs now f) (\<lambda>_. load_files fs now fs')"

definition dynamic_refresh ::
    "'w files \<Rightarrow> int \<Rightarrow> dynamicGroup \<Rightarrow> (trustAnchorGroup \<times> 'w anchors, unit) act" where
  "dynamic_refresh fs now dyn = (\<lambda>(g, anchors).
    if dyn_expireTime dyn > now then (Inr (), g, anchors)
    else
      let g = g\<lparr>tg_dynamic := Some (dyn\<lparr>dyn_expireTime := now + dyn_refreshPeriod dyn\<rparr>)\<rparr>;
          files = (if \<not> dyn_isDirectory dyn then [dyn_path dyn]
                   else case fs_directory fs (dyn_path dyn) of None \<Rightarrow> [] | Some files \<Rightarrow> files)
      in case load_files fs now files (tg_anchorNames g, anchors, tg_anchorNames g) of
           (Inl e, anchorNames, anchors, _) \<Rightarrow> (Inl e, g\<lparr>tg_anchorNames := anchorNames\<rparr>, anchors)
         | (Inr _, anchorNames, anchors, oldAnchorNames) \<Rightarrow>
             (Inr (), g\<lparr>tg_anchorNames := fold (\<lambda>(n, _). nm_erase n) oldAnchorNames anchorNames\<rparr>,
              fold (\<lambda>(n, _). anchors_remove n) oldAnchorNames anchors))"

definition group_refresh :: "'w files \<Rightarrow> int \<Rightarrow> (trustAnchorGroup \<times> 'w anchors, unit) act" where
  "group_refresh fs now = (\<lambda>(g, anchors).
    case tg_dynamic g of None \<Rightarrow> (Inr (), g, anchors) | Some dyn \<Rightarrow> dynamic_refresh fs now dyn (g, anchors))"

fun refresh_groups ::
    "'w files \<Rightarrow> int \<Rightarrow> (byte list \<times> trustAnchorGroup) list \<Rightarrow> 'w anchors \<Rightarrow>
     (error + unit) \<times> (byte list \<times> trustAnchorGroup) list \<times> 'w anchors" where
  "refresh_groups fs now [] anchors = (Inr (), [], anchors)"
| "refresh_groups fs now ((i, g) # gs) anchors =
    (case group_refresh fs now (g, anchors) of
       (Inl e, g, anchors) \<Rightarrow> (Inl e, (i, g) # gs, anchors)
     | (Inr _, g, anchors) \<Rightarrow>
         (case refresh_groups fs now gs anchors of (r, gs, anchors) \<Rightarrow> (r, (i, g) # gs, anchors)))"

definition tac_refresh :: "'w files \<Rightarrow> int \<Rightarrow> ('w trustAnchorContainer, unit) act" where
  "tac_refresh fs now c =
    (case refresh_groups fs now (tac_groups c) (tac_anchors c) of
       (r, groups, anchors) \<Rightarrow> (r, c\<lparr>tac_groups := groups, tac_anchors := anchors\<rparr>))"

definition TrustAnchorContainer :: "'w trustAnchorContainer" where
  "TrustAnchorContainer = \<lparr>tac_groups = [], tac_anchors = []\<rparr>"

abbreviation group_find :: "byte list \<Rightarrow> (byte list \<times> trustAnchorGroup) list \<Rightarrow> trustAnchorGroup option" where
  "group_find \<equiv> om_find (\<lambda>i. i)"

abbreviation group_assign :: "byte list \<Rightarrow> trustAnchorGroup \<Rightarrow> (byte list \<times> trustAnchorGroup) list \<Rightarrow> (byte list \<times> trustAnchorGroup) list" where
  "group_assign \<equiv> om_assign (\<lambda>i. i)"

definition tac_insert :: "int \<Rightarrow> byte list \<Rightarrow> 'w certificateV2 \<Rightarrow> ('w trustAnchorContainer, unit) act" where
  "tac_insert now groupId certificate c =
    (let grp = (case group_find groupId (tac_groups c) of
                    None \<Rightarrow> \<lparr>tg_id = groupId, tg_anchorNames = [], tg_dynamic = None\<rparr> | Some grp \<Rightarrow> grp);
         c = c\<lparr>tac_groups := group_assign groupId grp (tac_groups c)\<rparr>
     in if tg_dynamic grp \<noteq> None
        then (Inl (Runtime_error ''Cannot add a static anchor to the non-static anchor group''), c)
        else case static_add now certificate (grp, tac_anchors c) of
          Inl e \<Rightarrow> (Inl e, c)
        | Inr (grp, anchors) \<Rightarrow>
            (Inr (), c\<lparr>tac_groups := group_assign groupId grp (tac_groups c), tac_anchors := anchors\<rparr>))"

text \<open>
  The dynamic group loads its anchors in its constructor, before it is in the map of groups: the right side of
  \<open>groups_[groupId] = ...\<close> is evaluated first, as C++17 prescribes, so a constructor that throws leaves no group.
\<close>

definition tac_insertDynamic ::
    "'w files \<Rightarrow> int \<Rightarrow> byte list \<Rightarrow> byte list \<Rightarrow> int \<Rightarrow> bool \<Rightarrow> ('w trustAnchorContainer, unit) act" where
  "tac_insertDynamic fs now groupId path refreshPeriod isDirectory c =
    (if group_find groupId (tac_groups c) \<noteq> None
     then (Inl (Runtime_error ''Cannot create the dynamic group, because the group already exists''), c)
     else if refreshPeriod \<le> 0
     then (Inl (Runtime_error ''Refresh period for the dynamic group must be positive''), c)
     else
       let dyn = \<lparr>dyn_isDirectory = isDirectory, dyn_path = path, dyn_refreshPeriod = refreshPeriod, dyn_expireTime = 0\<rparr>
       in case dynamic_refresh fs now dyn (\<lparr>tg_id = groupId, tg_anchorNames = [], tg_dynamic = Some dyn\<rparr>, tac_anchors c) of
            (Inl e, _, anchors) \<Rightarrow> (Inl e, c\<lparr>tac_anchors := anchors\<rparr>)
          | (Inr _, grp, anchors) \<Rightarrow>
              (Inr (), c\<lparr>tac_groups := group_assign groupId grp (tac_groups c), tac_anchors := anchors\<rparr>))"

definition tac_clear :: "'w trustAnchorContainer \<Rightarrow> 'w trustAnchorContainer" where
  "tac_clear c = c\<lparr>tac_groups := [], tac_anchors := []\<rparr>"

definition tac_find :: "'w files \<Rightarrow> int \<Rightarrow> name \<Rightarrow> ('w trustAnchorContainer, 'w certificateV2 option) act" where
  "tac_find fs now keyName =
    bindS (tac_refresh fs now) (\<lambda>_. getS (\<lambda>c. find_name keyName (tac_anchors c)))"

definition tac_findInterest ::
    "'w sec_env \<Rightarrow> 'w files \<Rightarrow> int \<Rightarrow> 'w interest \<Rightarrow> ('w trustAnchorContainer, 'w certificateV2 option) act" where
  "tac_findInterest env fs now interest =
    bindS (tac_refresh fs now) (\<lambda>_. \<lambda>c. (find_interest env interest (tac_anchors c), c))"

definition tac_getGroup :: "byte list \<Rightarrow> 'w trustAnchorContainer \<Rightarrow> error + trustAnchorGroup" where
  "tac_getGroup groupId c =
    (case group_find groupId (tac_groups c) of
       None \<Rightarrow> Inl (Runtime_error ''Trust anchor group does not exist'') | Some grp \<Rightarrow> Inr grp)"

section \<open>The storage\<close>

record 'w certificateStorage =
  cst_trustAnchors :: "'w trustAnchorContainer"
  cst_verifiedCertificateCache :: "'w certificateCache"
  cst_unverifiedCertificateCache :: "'w certificateCache"
  cst_verifiedCrlCache :: x509CrlCache

definition CertificateStorage :: "'w certificateStorage" where
  "CertificateStorage =
    \<lparr>cst_trustAnchors = TrustAnchorContainer,
     cst_verifiedCertificateCache = CertificateCacheV2 3600000000000,
     cst_unverifiedCertificateCache = CertificateCacheV2 300000000000,
     cst_verifiedCrlCache = X509CrlCache\<rparr>"

text \<open>An action on a part of the storage.\<close>

definition on_trustAnchors :: "('w trustAnchorContainer, 'a) act \<Rightarrow> ('w certificateStorage, 'a) act" where
  "on_trustAnchors m s = (case m (cst_trustAnchors s) of (r, c) \<Rightarrow> (r, s\<lparr>cst_trustAnchors := c\<rparr>))"

definition on_verified :: "('w certificateCache, 'a) act \<Rightarrow> ('w certificateStorage, 'a) act" where
  "on_verified m s =
    (case m (cst_verifiedCertificateCache s) of (r, c) \<Rightarrow> (r, s\<lparr>cst_verifiedCertificateCache := c\<rparr>))"

definition on_unverified :: "('w certificateCache, 'a) act \<Rightarrow> ('w certificateStorage, 'a) act" where
  "on_unverified m s =
    (case m (cst_unverifiedCertificateCache s) of (r, c) \<Rightarrow> (r, s\<lparr>cst_unverifiedCertificateCache := c\<rparr>))"

definition findTrustedCertificate ::
    "'w sec_env \<Rightarrow> 'w files \<Rightarrow> int \<Rightarrow> 'w interest \<Rightarrow> ('w certificateStorage, 'w certificateV2 option) act" where
  "findTrustedCertificate env fs now interestForCertificate =
    bindS (on_trustAnchors (tac_findInterest env fs now interestForCertificate)) (\<lambda>certificate.
      if certificate \<noteq> None then returnS certificate
      else on_verified (cch_findInterest env now interestForCertificate))"

definition isCertificateKnown :: "'w files \<Rightarrow> int \<Rightarrow> name \<Rightarrow> ('w certificateStorage, bool) act" where
  "isCertificateKnown fs now certificatePrefix =
    bindS (on_trustAnchors (tac_find fs now certificatePrefix)) (\<lambda>a.
      if a \<noteq> None then returnS True
      else bindS (on_verified (cch_find now certificatePrefix)) (\<lambda>v.
        if v \<noteq> None then returnS True
        else bindS (on_unverified (cch_find now certificatePrefix)) (\<lambda>u. returnS (u \<noteq> None))))"

definition findRevokedCertificate ::
    "int \<Rightarrow> name \<Rightarrow> byte list \<Rightarrow> ('w certificateStorage, (byte list \<times> int) option) act" where
  "findRevokedCertificate now issuerName serialNumber s =
    (if length serialNumber = 0 then (Inr None, s)
     else
       let (crlInfo, crls) = crc_find now issuerName (cst_verifiedCrlCache s) in
       (Inr (case crlInfo of None \<Rightarrow> None
             | Some crlInfo \<Rightarrow> find (\<lambda>(serial, _). serial = serialNumber) (crl_revokedCertificates crlInfo)),
        s\<lparr>cst_verifiedCrlCache := crls\<rparr>))"

definition cacheVerifiedCertificate :: "int \<Rightarrow> 'w certificateV2 \<Rightarrow> ('w certificateStorage, bool) act" where
  "cacheVerifiedCertificate now certificate =
    bindS (liftS (getIssuerName certificate)) (\<lambda>issuerName.
    bindS (findRevokedCertificate now issuerName (getX509SerialNumber certificate)) (\<lambda>revoked.
      if revoked \<noteq> None then returnS False
      else bindS (on_verified (cch_insert now certificate)) (\<lambda>_. returnS True)))"

definition cacheUnverifiedCertificate :: "int \<Rightarrow> 'w certificateV2 \<Rightarrow> ('w certificateStorage, unit) act" where
  "cacheUnverifiedCertificate now certificate = on_unverified (cch_insert now certificate)"

text \<open>The loop that collects the names of the cached certificates that the new list revokes.\<close>

fun revoked_loop ::
    "int \<Rightarrow> name \<Rightarrow> 'w cacheEntry name_map \<Rightarrow> ('w certificateStorage, name list) act" where
  "revoked_loop now crlIssuer [] = returnS []"
| "revoked_loop now crlIssuer ((_, e) # es) =
    bindS (liftS (getIssuerName (ent_certificate e))) (\<lambda>issuerName.
      if \<not> name_equals issuerName crlIssuer then revoked_loop now crlIssuer es
      else
        bindS (findRevokedCertificate now issuerName (getX509SerialNumber (ent_certificate e))) (\<lambda>revoked.
        bindS (revoked_loop now crlIssuer es) (\<lambda>certificatesToRemove.
          returnS (if revoked \<noteq> None then crt_name (ent_certificate e) # certificatesToRemove
                   else certificatesToRemove))))"

definition cacheVerifiedCrl :: "int \<Rightarrow> x509CrlInfo \<Rightarrow> ('w certificateStorage, unit) act" where
  "cacheVerifiedCrl now crlInfo s =
    (case crc_insert now crlInfo (cst_verifiedCrlCache s) of
       (False, crls) \<Rightarrow> (Inr (), s\<lparr>cst_verifiedCrlCache := crls\<rparr>)
     | (True, crls) \<Rightarrow>
         bindS (revoked_loop now (crl_issuerName crlInfo) (cch_certificatesByName (cst_verifiedCertificateCache s)))
           (\<lambda>certificatesToRemove. on_verified (modifyS (fold cch_deleteCertificate certificatesToRemove)))
           (s\<lparr>cst_verifiedCrlCache := crls\<rparr>))"

definition loadAnchor :: "int \<Rightarrow> byte list \<Rightarrow> 'w certificateV2 \<Rightarrow> ('w certificateStorage, unit) act" where
  "loadAnchor now groupId certificate = on_trustAnchors (tac_insert now groupId certificate)"

definition loadAnchors ::
    "'w files \<Rightarrow> int \<Rightarrow> byte list \<Rightarrow> byte list \<Rightarrow> int \<Rightarrow> bool \<Rightarrow> ('w certificateStorage, unit) act" where
  "loadAnchors fs now groupId path refreshPeriod isDirectory =
    on_trustAnchors (tac_insertDynamic fs now groupId path refreshPeriod isDirectory)"

definition resetAnchors :: "'w certificateStorage \<Rightarrow> 'w certificateStorage" where
  "resetAnchors s = s\<lparr>cst_trustAnchors := tac_clear (cst_trustAnchors s)\<rparr>"

definition resetVerifiedCertificates :: "'w certificateStorage \<Rightarrow> 'w certificateStorage" where
  "resetVerifiedCertificates s = s\<lparr>cst_verifiedCertificateCache := cch_clear (cst_verifiedCertificateCache s)\<rparr>"

definition setCacheNowOffset :: "int \<Rightarrow> 'w certificateStorage \<Rightarrow> 'w certificateStorage" where
  "setCacheNowOffset nowOffset s =
    s\<lparr>cst_verifiedCertificateCache := (cst_verifiedCertificateCache s)\<lparr>cch_nowOffset := nowOffset\<rparr>,
      cst_unverifiedCertificateCache := (cst_unverifiedCertificateCache s)\<lparr>cch_nowOffset := nowOffset\<rparr>\<rparr>"

section \<open>Copies\<close>

lemma crt_copy_same [simp]:
  "crt_name (crt_copy c) = crt_name c" "crt_signature (crt_copy c) = crt_signature c"
  "crt_x509Info (crt_copy c) = crt_x509Info c" "d_content (crt_data (crt_copy c)) = d_content (crt_data c)"
  using data_copy_values [of "crt_data c"]
  by (simp_all add: crt_copy_def crt_name_def crt_signature_def data_get_def data_getName_def)

lemma getValidityPeriod_copy [simp]: "getValidityPeriod (crt_copy c) = getValidityPeriod c"
  by (cases "crt_x509Info c") (simp_all add: getValidityPeriod_def)

section \<open>Ordered maps as sets of entries\<close>

lemma om_assign_subset: "set (om_assign f n v m) \<subseteq> set m \<union> {(k, v) | k. f k = f n}"
  by (induction m) (auto split: if_splits)

lemma om_erase_fold_subset: "set (fold (om_erase f) ns m) \<subseteq> set m"
  using om_erase_subset by (induction ns arbitrary: m) fastforce+

lemma om_ok_erase_fold: "om_ok f m \<Longrightarrow> om_ok f (fold (om_erase f) ns m)"
  by (induction ns arbitrary: m) (simp_all add: om_ok_erase)

lemma om_erase_filter: "om_ok f m \<Longrightarrow> om_erase f n m = filter (\<lambda>x. f (fst x) \<noteq> f n) m"
proof (induction m)
  case (Cons x m)
  have "filter (\<lambda>x. f (fst x) \<noteq> f n) m = m" if "f (fst x) = f n"
    using Cons.prems that by (intro filter_True) force
  then show ?case using Cons by (cases x) auto
qed simp

lemma om_erase_fold_filter: "om_ok f m \<Longrightarrow> fold (om_erase f) ns m = filter (\<lambda>x. f (fst x) \<notin> f ` set ns) m"
proof (induction ns arbitrary: m)
  case (Cons n ns)
  have "om_ok f (filter (\<lambda>x. f (fst x) \<noteq> f n) m)" using om_ok_erase [OF Cons.prems, of n] by (simp add: om_erase_filter Cons.prems)
  then show ?case using Cons by (simp add: om_erase_filter)
qed simp

lemma nm_from_eq: "nm_from n m = dropWhile (\<lambda>x. nkey (fst x) < nkey n) m"
  by (simp add: nm_from_def case_prod_unfold)

lemma nm_from_subset: "set (nm_from n m) \<subseteq> set m"
  by (auto simp: nm_from_def dest: set_dropWhileD)

lemma find_name_Some: "find_name n m = Some c \<Longrightarrow> c \<in> snd ` set m \<and> name_match n (crt_name c)"
proof -
  assume c: "find_name n m = Some c"
  then obtain k c' es where f: "nm_from n m = (k, c') # es"
    by (cases "nm_from n m") (auto simp: find_name_def)
  then have "(k, c') \<in> set m" using nm_from_subset [of n m] by simp
  then show ?thesis using c f by (force simp: find_name_def split: if_splits)
qed

lemma find_loop_Some:
  "find_loop env i m = Inr (Some c) \<Longrightarrow>
    c \<in> snd ` set m \<and> name_match (int_getName i) (crt_name c) \<and> crt_matches env i c = Inr True"
proof (induction env i m rule: find_loop.induct)
  case (2 env i u c' es)
  then show ?case by (auto simp: bindE_eq_Inr split: if_splits)
qed simp

lemma find_interest_Some:
  "find_interest env i m = Inr (Some c) \<Longrightarrow>
    c \<in> snd ` set m \<and> name_match (int_getName i) (crt_name c) \<and> crt_matches env i c = Inr True"
  using find_loop_Some [of env i _ c] nm_from_subset [of _ m] by (fastforce simp: find_interest_def)

section \<open>The invariant of the certificate cache\<close>

text \<open>
  Entries are ordered by name and keyed by their certificate's name, leave the cache no later than their
  certificate expires, and the next refresh is due before any of them leaves.
\<close>

definition entry_ok :: "name \<times> 'w cacheEntry \<Rightarrow> bool" where
  "entry_ok = (\<lambda>(n, e). nkey n = nkey (crt_name (ent_certificate e)) \<and>
    (\<exists>v. getValidityPeriod (ent_certificate e) = Inr v \<and> ent_removalTime e \<le> vp_getNotAfter v))"

definition cch_inv :: "'w certificateCache \<Rightarrow> bool" where
  "cch_inv c \<longleftrightarrow> nm_ok (cch_certificatesByName c) \<and>
    (\<forall>x \<in> set (cch_certificatesByName c). entry_ok x \<and> cch_nextRefreshTime c \<le> ent_removalTime (snd x))"

lemma cch_inv_initial: "cch_inv (CertificateCacheV2 maxLifetime)"
  by (simp add: cch_inv_def CertificateCacheV2_def)

lemma refresh_loop_eq:
  "refresh_loop now es (t, ns) =
    (fold (\<lambda>(_, r) t. min t r) (filter (\<lambda>(_, r). now < r) es) t, ns @ map fst (filter (\<lambda>(_, r). r \<le> now) es))"
  by (induction es arbitrary: t ns) auto

lemma fold_min_le: "fold (\<lambda>(_, r) t. min t r) es (t :: int) \<le> t \<and> (\<forall>x \<in> set es. fold (\<lambda>(_, r) t. min t r) es t \<le> snd x)"
proof (induction es arbitrary: t)
  case (Cons x es)
  obtain a r where x: "x = (a, r)" by fastforce
  show ?case using Cons [of "min t r"] by (auto simp: x)
qed simp

text \<open>A refresh that runs drops exactly the entries whose time has come.\<close>

lemma cch_refresh_entries:
  assumes "cch_inv c"
  shows "cch_certificatesByName (cch_refresh now c) =
      filter (\<lambda>(n, e). now + cch_nowOffset c < ent_removalTime e) (cch_certificatesByName c)"
    and "cch_inv (cch_refresh now c)" and "cch_nowOffset (cch_refresh now c) = cch_nowOffset c"
proof -
  let ?now = "now + cch_nowOffset c" and ?m = "cch_certificatesByName c"
  let ?live = "filter (\<lambda>(n, e). ?now < ent_removalTime e) ?m"
  have ok: "nm_ok ?m" and e: "\<And>x. x \<in> set ?m \<Longrightarrow> entry_ok x \<and> cch_nextRefreshTime c \<le> ent_removalTime (snd x)"
    using assms by (auto simp: cch_inv_def)
  show same: "cch_nowOffset (cch_refresh now c) = cch_nowOffset c"
    by (simp add: cch_refresh_def Let_def split: prod.splits)
  have "cch_certificatesByName (cch_refresh now c) = ?live \<and> cch_inv (cch_refresh now c)"
  proof (cases "?now < cch_nextRefreshTime c")
    case True
    then have "filter (\<lambda>(n, e). ?now < ent_removalTime e) ?m = ?m"
      using e by (force simp: filter_id_conv)
    then show ?thesis using True assms by (simp add: cch_refresh_def)
  next
    case False
    let ?es = "map (\<lambda>(n, e). (n, ent_removalTime e)) ?m"
    obtain t ns where r: "refresh_loop ?now ?es (time_point_max, []) = (t, ns)" by fastforce
    have ns: "set ns = fst ` {x \<in> set ?m. ent_removalTime (snd x) \<le> ?now}"
      using r by (force simp: refresh_loop_eq)
    have "nkey (fst x) \<notin> nkey ` set ns \<longleftrightarrow> ?now < ent_removalTime (snd x)" if "x \<in> set ?m" for x
    proof -
      have "y = x" if "y \<in> set ?m" "nkey (fst y) = nkey (fst x)" for y
        using ok \<open>x \<in> set ?m\<close> that unfolding om_ok_def
        by (metis (no_types, lifting) distinct_map inj_onD strict_sorted_iff)
      then show ?thesis using that ns by (force simp: not_less)
    qed
    then have f: "fold nm_erase ns ?m = ?live"
      using ok by (simp add: om_erase_fold_filter case_prod_unfold cong: filter_cong)
    have "t \<le> ent_removalTime (snd x)" if "x \<in> set ?live" for x
      using r that fold_min_le [of "filter (\<lambda>(_, r). ?now < r) ?es" time_point_max]
      by (force simp: refresh_loop_eq)
    moreover have "nm_ok ?live" using om_ok_erase_fold [OF ok, of ns] by (simp add: f)
    ultimately show ?thesis
      using False r f e by (auto simp: cch_refresh_def cch_inv_def)
  qed
  then show "cch_certificatesByName (cch_refresh now c) = ?live" "cch_inv (cch_refresh now c)" by simp_all
qed

lemma cch_inv_insert: "cch_inv c \<Longrightarrow> cch_inv (snd (cch_insert now certificate c))"
proof (cases "getValidityPeriod certificate")
  case (Inr v)
  assume c: "cch_inv c"
  let ?t = "min (vp_getNotAfter v) (now + cch_nowOffset c + cch_maxLifetime c)"
  let ?e = "\<lparr>ent_certificate = crt_copy certificate, ent_removalTime = ?t\<rparr>"
  let ?m = "nm_assign (crt_name certificate) ?e (cch_certificatesByName c)"
  have "nm_ok ?m" using c by (simp add: cch_inv_def om_ok_assign)
  moreover have "entry_ok x \<and> (if ?t < cch_nextRefreshTime c then ?t else cch_nextRefreshTime c) \<le> ent_removalTime (snd x)"
    if "x \<in> set ?m" for x
  proof -
    have "x \<in> set (cch_certificatesByName c) \<or> nkey (fst x) = nkey (crt_name certificate) \<and> snd x = ?e"
      using that om_assign_subset [of nkey "crt_name certificate" ?e "cch_certificatesByName c"] by force
    then show ?thesis using c Inr unfolding cch_inv_def entry_ok_def by (force simp: case_prod_unfold)
  qed
  ultimately show ?thesis
    using c Inr by (simp add: cch_insert_def liftS_def bindS_def modifyS_def Let_def cch_inv_def)
qed (simp add: cch_insert_def throwS_def)

lemma cch_inv_delete: "cch_inv c \<Longrightarrow> cch_inv (cch_deleteCertificate n c)"
  using om_erase_subset [of nkey n "cch_certificatesByName c"]
  by (auto simp: cch_inv_def cch_deleteCertificate_def om_ok_erase)

text \<open>Everything that happens to a cache; both lookups act on it through the refresh.\<close>

datatype 'w cache_change = CacheInsert int "'w certificateV2" | CacheFind int | CacheDelete name | CacheClear | CacheNowOffset int

fun change_cache :: "'w cache_change \<Rightarrow> 'w certificateCache \<Rightarrow> 'w certificateCache" where
  "change_cache (CacheInsert now certificate) c = snd (cch_insert now certificate c)"
| "change_cache (CacheFind now) c = cch_refresh now c"
| "change_cache (CacheDelete n) c = cch_deleteCertificate n c"
| "change_cache CacheClear c = cch_clear c"
| "change_cache (CacheNowOffset offset) c = c\<lparr>cch_nowOffset := offset\<rparr>"

lemma cch_inv_changes: "cch_inv c \<Longrightarrow> cch_inv (fold change_cache changes c)"
proof (induction changes arbitrary: c)
  case (Cons x changes)
  then have "cch_inv (change_cache x c)"
    by (cases x) (auto simp: cch_inv_insert cch_refresh_entries(2) cch_inv_delete, auto simp: cch_inv_def cch_clear_def)
  then show ?case by (simp add: Cons.IH)
qed simp

section \<open>Lookups find the first match\<close>

text \<open>In the order of names, those with a given prefix are neighbours.\<close>

lemma list_prefix_between: "(p :: 'a::linorder list) \<le> a \<Longrightarrow> a \<le> p @ r \<Longrightarrow> \<exists>r'. a = p @ r'"
proof (induction p arbitrary: a)
  case (Cons x p)
  then obtain y a' where a: "a = y # a'" by (cases a) auto
  then show ?case using Cons by auto
qed simp

lemma list_le_append: "(p :: 'a::linorder list) \<le> p @ r"
  by (induction p) auto

lemma dropWhile_prefix:
  assumes "sorted_wrt (<) (map f xs)" "\<And>x. x \<in> set xs \<Longrightarrow> P x \<longleftrightarrow> (\<exists>r. f x = (p :: 'a::linorder list) @ r)"
  shows "takeWhile P (dropWhile (\<lambda>x. f x < p) xs) = filter P xs"
  using assms
proof (induction xs)
  case (Cons x xs)
  have rest: "takeWhile P (dropWhile (\<lambda>x. f x < p) xs) = filter P xs" using Cons by simp
  show ?case
  proof (cases "f x < p")
    case True
    then have "\<not> P x" using Cons.prems(2) [of x] list_le_append [of p] by (auto simp: not_le [symmetric])
    then show ?thesis using True rest by simp
  next
    case False
    then have ge: "p \<le> f y" if "y \<in> set xs" for y using Cons.prems(1) that by (auto intro: order.strict_implies_order less_le_trans)
    show ?thesis
    proof (cases "P x")
      case True
      have "dropWhile (\<lambda>x. f x < p) xs = xs" using ge by (cases xs) (auto simp: not_less)
      then show ?thesis using True False rest by simp
    next
      case nP: False
      have "\<not> P y" if y: "y \<in> set xs" for y
      proof
        assume "P y"
        then obtain r where "f y = p @ r" using Cons.prems(2) [of y] y by auto
        moreover have "f x < f y" using Cons.prems(1) y by simp
        ultimately have "\<exists>r'. f x = p @ r'" using False list_prefix_between [of p "f x" r] by (simp add: not_less)
        then show False using nP Cons.prems(2) [of x] by simp
      qed
      then show ?thesis using False nP by simp
    qed
  qed
qed simp

lemma find_loop_eq:
  assumes "\<And>x. x \<in> set m \<Longrightarrow> crt_matches env i (snd x) = Inr (f (snd x))"
  shows "find_loop env i m =
    Inr (find f (map snd (takeWhile (\<lambda>x. name_match (int_getName i) (crt_name (snd x))) m)))"
  using assms
proof (induction m)
  case (Cons x m)
  have "crt_matches env i (snd x) = Inr (f (snd x))" using Cons.prems by simp
  moreover have "find_loop env i m =
    Inr (find f (map snd (takeWhile (\<lambda>x. name_match (int_getName i) (crt_name (snd x))) m)))"
    using Cons by simp
  ultimately show ?case by (cases x) simp
qed simp

definition live_certificates :: "int \<Rightarrow> 'w certificateCache \<Rightarrow> 'w certificateV2 list" where
  "live_certificates now c =
    map (\<lambda>(n, e). ent_certificate e)
      (filter (\<lambda>(n, e). now + cch_nowOffset c < ent_removalTime e) (cch_certificatesByName c))"

lemma live_certificates_valid:
  assumes "cch_inv c" "k \<in> set (live_certificates now c)"
  shows "\<exists>v. getValidityPeriod k = Inr v \<and> now + cch_nowOffset c < vp_getNotAfter v"
proof -
  obtain n e where e: "(n, e) \<in> set (cch_certificatesByName c)" "now + cch_nowOffset c < ent_removalTime e" "k = ent_certificate e"
    using assms(2) by (auto simp: live_certificates_def)
  then have "entry_ok (n, e)" using assms(1) by (simp add: cch_inv_def)
  then show ?thesis using e(2,3) by (force simp: entry_ok_def)
qed

lemma cch_findInterest_live:
  assumes inv: "cch_inv c"
    and types: "\<And>k. k \<in> set (live_certificates now c) \<Longrightarrow> name_match (int_getName i) (crt_name k) \<longleftrightarrow>
      (\<exists>r. nkey (crt_name k) = nkey (int_getName i) @ r)"
    and total: "\<And>k. k \<in> set (live_certificates now c) \<Longrightarrow> crt_matches env i k = Inr (f k)"
  shows "fst (cch_findInterest env now i c) =
    Inr (find f (filter (\<lambda>k. name_match (int_getName i) (crt_name k)) (live_certificates now c)))"
proof -
  let ?es = "filter (\<lambda>(n, e). now + cch_nowOffset c < ent_removalTime e) (cch_certificatesByName c)"
  let ?xs = "map (\<lambda>(n, e). (n, ent_certificate e)) ?es"
  let ?P = "\<lambda>x. name_match (int_getName i) (crt_name (snd x))"
  have live: "live_certificates now c = map snd ?xs" by (simp add: live_certificates_def case_prod_unfold)
  have in_live: "snd x \<in> set (live_certificates now c)" if "x \<in> set ?xs" for x
    unfolding live using that by (simp only: set_map image_eqI)
  have entry: "cch_certificates (cch_refresh now c) = ?xs"
    using cch_refresh_entries(1) [OF inv, of now] by (simp add: cch_certificates_def)
  have key: "nkey (fst x) = nkey (crt_name (snd x))" if "x \<in> set ?xs" for x
    using inv that by (auto simp: cch_inv_def entry_ok_def)
  have "sorted_wrt (<) (map (\<lambda>x. nkey (fst x)) ?xs)"
    using cch_refresh_entries(2) [OF inv, of now]
    by (simp add: cch_inv_def om_ok_def cch_refresh_entries(1) [OF inv] case_prod_unfold o_def)
  then have near: "takeWhile ?P (nm_from (int_getName i) ?xs) = filter ?P ?xs"
    unfolding nm_from_eq by (rule dropWhile_prefix) (simp only: key types in_live)
  have "find_loop env i (nm_from (int_getName i) ?xs) =
      Inr (find f (map snd (takeWhile ?P (nm_from (int_getName i) ?xs))))"
  proof (rule find_loop_eq)
    fix x assume "x \<in> set (nm_from (int_getName i) ?xs)"
    then have "x \<in> set ?xs" using nm_from_subset [of "int_getName i" ?xs] by blast
    then show "crt_matches env i (snd x) = Inr (f (snd x))" by (rule total [OF in_live])
  qed
  then show ?thesis
    unfolding cch_findInterest_def find_interest_def Let_def entry near fst_conv live
    by (simp only: filter_map o_def)
qed

end
