(* ===== verification/Validator.thy ===== *)
theory Validator
  imports Certificate_Storage
begin

text \<open>
  The validator (\<open>security/v2/validator.cpp\<close>), the validation states (\<open>validation-state.cpp\<close>), the policies
  (\<open>validation-policy.cpp\<close> and the files of the accept-all, simple-hierarchy and command-interest policies)
  and the certificate fetchers.

  A \<open>ValidationState\<close> is shared by the callbacks of one validation; here the validator holds the states by
  number, so several validations can be under way at once.  The application's callbacks are recorded in the
  order they are called.  The interests that a fetcher expresses are recorded until the face answers them.
  A \<open>ValidationError\<close> is its code; its message is not modelled.
\<close>

section \<open>State\<close>

datatype validationError =
    INVALID_SIGNATURE | NO_SIGNATURE | CANNOT_RETRIEVE_CERTIFICATE | EXPIRED_CERTIFICATE | LOOP_DETECTED
  | MALFORMED_CERTIFICATE | EXCEEDED_DEPTH_LIMIT | INVALID_KEY_LOCATOR | POLICY_ERROR | REVOKED
  | IMPLEMENTATION_ERROR

datatype 'w original = OriginalData "'w data_ref" | OriginalInterest "'w interest"

text \<open>
  \<open>vs_outcome\<close> is \<open>hasOutcome_\<close> with \<open>outcome_\<close>.  \<open>vs_newRecords\<close> are the success callbacks that
  command-interest policies add, each for the policy at that nesting level.
\<close>

record 'w validationState =
  vs_original :: "'w original"
  vs_certificateChain :: "'w certificateV2 list"
  vs_seenCertificateNames :: name_set
  vs_outcome :: "bool option"
  vs_newRecords :: "(nat \<times> name \<times> int) list"

record 'w certificateRequest =
  rq_interest :: "'w interest"
  rq_nRetriesLeft :: int

text \<open>An interest for a certificate: the request, its validation, and how many times the certificate is cached.\<close>

record 'w pendingFetch =
  pf_request :: "'w certificateRequest"
  pf_state :: nat
  pf_wrapped :: nat

record lastTimestampRecord =
  ltr_keyName :: name
  ltr_timestamp :: int
  ltr_lastRefreshed :: int

record commandInterestOptions =
  cio_gracePeriod :: int
  cio_maxRecords :: int
  cio_recordLifetime :: int

datatype validationPolicy =
    AcceptAll
  | SimpleHierarchy
  | CommandInterest commandInterestOptions "lastTimestampRecord list" validationPolicy

datatype certificateFetcher = FetcherOffline | FetcherFromNetwork

datatype validationCallback = Succeeded nat | Failed nat validationError

record 'w validator =
  v_storage :: "'w certificateStorage"
  v_policy :: validationPolicy
  v_certificateFetcher :: certificateFetcher
  v_maxDepth :: nat
  v_states :: "'w validationState list"
  v_pending :: "'w pendingFetch list"
  v_callbacks :: "validationCallback list"

definition Validator :: "validationPolicy \<Rightarrow> certificateFetcher \<Rightarrow> 'w validator" where
  "Validator policy certificateFetcher =
    \<lparr>v_storage = CertificateStorage, v_policy = policy, v_certificateFetcher = certificateFetcher,
     v_maxDepth = 25, v_states = [], v_pending = [], v_callbacks = []\<rparr>"

definition setMaxDepth :: "nat \<Rightarrow> 'w validator \<Rightarrow> 'w validator" where
  "setMaxDepth maxDepth v = v\<lparr>v_maxDepth := maxDepth\<rparr>"

text \<open>
  What a handler is given: the libraries and the wire format, the file system, the class's default for
  CanBePrefix, and the clock.
\<close>

record 'w validator_env =
  ve_sec :: "'w sec_env"
  ve_files :: "'w files"
  ve_defaultCanBePrefix :: bool
  ve_now :: int

type_synonym ('w, 'a) vact = "('w validator, 'a) act"

definition on_storage :: "('w certificateStorage, 'a) act \<Rightarrow> ('w, 'a) vact" where
  "on_storage m v = (case m (v_storage v) of (r, s) \<Rightarrow> (r, v\<lparr>v_storage := s\<rparr>))"

definition get_state :: "nat \<Rightarrow> ('w validationState \<Rightarrow> 'a) \<Rightarrow> ('w, 'a) vact" where
  "get_state i f = getS (\<lambda>v. f (v_states v ! i))"

definition modify_state :: "nat \<Rightarrow> ('w validationState \<Rightarrow> 'w validationState) \<Rightarrow> ('w, unit) vact" where
  "modify_state i f = modifyS (\<lambda>v. v\<lparr>v_states := (v_states v)[i := f (v_states v ! i)]\<rparr>)"

definition callback :: "validationCallback \<Rightarrow> ('w, unit) vact" where
  "callback c = modifyS (\<lambda>v. v\<lparr>v_callbacks := v_callbacks v @ [c]\<rparr>)"

section \<open>Validation states\<close>

definition isOutcomeFailed :: "'w validationState \<Rightarrow> bool" where
  "isOutcomeFailed s \<longleftrightarrow> vs_outcome s = Some False"

definition setOutcome :: "nat \<Rightarrow> bool \<Rightarrow> ('w, unit) vact" where
  "setOutcome i outcome =
    bindS (get_state i vs_outcome) (\<lambda>old.
      if old \<noteq> None then throwS (Runtime_error ''The ValidationState already has an outcome'')
      else modify_state i (\<lambda>s. s\<lparr>vs_outcome := Some outcome\<rparr>))"

definition vs_fail :: "nat \<Rightarrow> validationError \<Rightarrow> ('w, unit) vact" where
  "vs_fail i error = bindS (callback (Failed i error)) (\<lambda>_. setOutcome i False)"

definition getDepth :: "'w validationState \<Rightarrow> nat" where
  "getDepth s = length (vs_certificateChain s)"

text \<open>Whether the name was seen before; the name is recorded.\<close>

definition hasSeenCertificateName :: "nat \<Rightarrow> name \<Rightarrow> ('w, bool) vact" where
  "hasSeenCertificateName i certificateName =
    bindS (get_state i (\<lambda>s. nm_find certificateName (vs_seenCertificateNames s) \<noteq> None)) (\<lambda>seen.
    bindS (modify_state i (\<lambda>s. s\<lparr>vs_seenCertificateNames := nm_assign certificateName () (vs_seenCertificateNames s)\<rparr>))
      (\<lambda>_. returnS seen))"

definition addCertificate :: "nat \<Rightarrow> 'w certificateV2 \<Rightarrow> ('w, unit) vact" where
  "addCertificate i certificate =
    modify_state i (\<lambda>s. s\<lparr>vs_certificateChain := crt_copy certificate # vs_certificateChain s\<rparr>)"

text \<open>
  The loop of \<open>verifyCertificateChain\<close>: the certificate that signs the original packet, or the part of the
  chain before the first bad signature.
\<close>

fun chain_loop ::
    "'w sec_env \<Rightarrow> 'w certificateV2 \<Rightarrow> 'w certificateV2 list \<Rightarrow> 'w certificateV2 list \<Rightarrow>
     error + ('w certificateV2 list + 'w certificateV2)" where
  "chain_loop env validatedCertificate verified [] = Inr (Inr validatedCertificate)"
| "chain_loop env validatedCertificate verified (certificateToValidate # chain) =
    bindE (verifyDataSignature env (Certificate certificateToValidate) validatedCertificate) (\<lambda>ok.
      if \<not> ok then Inr (Inl verified)
      else chain_loop env certificateToValidate (verified @ [certificateToValidate]) chain)"

definition verifyCertificateChain ::
    "'w validator_env \<Rightarrow> nat \<Rightarrow> 'w certificateV2 \<Rightarrow> ('w, 'w certificateV2 option) vact" where
  "verifyCertificateChain env i trustedCertificate =
    bindS (get_state i vs_certificateChain) (\<lambda>chain.
    bindS (liftS (chain_loop (ve_sec env) trustedCertificate [] chain)) (\<lambda>r.
      case r of
        Inr validatedCertificate \<Rightarrow> returnS (Some validatedCertificate)
      | Inl verified \<Rightarrow>
          bindS (vs_fail i INVALID_SIGNATURE) (\<lambda>_.
          bindS (modify_state i (\<lambda>s. s\<lparr>vs_certificateChain := verified\<rparr>)) (\<lambda>_. returnS None))))"

section \<open>The records of the command-interest policy\<close>

fun findByKeyName_from :: "int \<Rightarrow> name \<Rightarrow> lastTimestampRecord list \<Rightarrow> int" where
  "findByKeyName_from i keyName [] = -1"
| "findByKeyName_from i keyName (r # rs) =
    (if name_equals (ltr_keyName r) keyName then i else findByKeyName_from (i + 1) keyName rs)"

definition findByKeyName :: "name \<Rightarrow> lastTimestampRecord list \<Rightarrow> int" where
  "findByKeyName keyName container = findByKeyName_from 0 keyName container"

definition insertNewRecord :: "int \<Rightarrow> name \<Rightarrow> int \<Rightarrow> lastTimestampRecord list \<Rightarrow> lastTimestampRecord list" where
  "insertNewRecord now keyName timestamp container =
    (let newRecord = \<lparr>ltr_keyName = keyName, ltr_timestamp = timestamp, ltr_lastRefreshed = now\<rparr>;
         index = findByKeyName keyName container;
         container = (if index \<ge> 0 then take (nat index) container @ drop (Suc (nat index)) container else container)
     in container @ [newRecord])"

text \<open>Records are dropped from the front while the first is too old or there are too many.\<close>

fun cleanUp :: "commandInterestOptions \<Rightarrow> int \<Rightarrow> lastTimestampRecord list \<Rightarrow> lastTimestampRecord list" where
  "cleanUp options now [] = []"
| "cleanUp options now (r # rs) =
    (if ltr_lastRefreshed r \<le> now - cio_recordLifetime options \<or>
        cio_maxRecords options \<ge> 0 \<and> int (length (r # rs)) > cio_maxRecords options
     then cleanUp options now rs else r # rs)"

fun insert_record_at :: "int \<Rightarrow> nat \<Rightarrow> name \<Rightarrow> int \<Rightarrow> validationPolicy \<Rightarrow> validationPolicy" where
  "insert_record_at now 0 keyName timestamp (CommandInterest options container inner) =
    CommandInterest options (insertNewRecord now keyName timestamp container) inner"
| "insert_record_at now (Suc level) keyName timestamp (CommandInterest options container inner) =
    CommandInterest options container (insert_record_at now level keyName timestamp inner)"
| "insert_record_at now level keyName timestamp policy = policy"

section \<open>Outcomes\<close>

text \<open>The success callbacks: the application's and, for an interest, those that the policy has added.\<close>

definition call_success :: "'w validator_env \<Rightarrow> nat \<Rightarrow> ('w, unit) vact" where
  "call_success env i =
    bindS (callback (Succeeded i)) (\<lambda>_.
    bindS (get_state i vs_newRecords) (\<lambda>newRecords.
      modifyS (\<lambda>v. v\<lparr>v_policy :=
        fold (\<lambda>(level, keyName, timestamp). insert_record_at (ve_now env) level keyName timestamp)
          newRecords (v_policy v)\<rparr>)))"

definition bypassValidation :: "'w validator_env \<Rightarrow> nat \<Rightarrow> ('w, unit) vact" where
  "bypassValidation env i = bindS (call_success env i) (\<lambda>_. setOutcome i True)"

definition isRevoked :: "'w validator_env \<Rightarrow> 'w certificateV2 \<Rightarrow> ('w, bool) vact" where
  "isRevoked env c =
    bindS (liftS (getIssuerName c)) (\<lambda>issuerName.
    bindS (on_storage (findRevokedCertificate (ve_now env) issuerName (getX509SerialNumber c))) (\<lambda>revoked.
      returnS (revoked \<noteq> None)))"

definition verifyOriginalPacket :: "'w validator_env \<Rightarrow> nat \<Rightarrow> 'w certificateV2 \<Rightarrow> ('w, unit) vact" where
  "verifyOriginalPacket env i trustedCertificate =
    bindS (get_state i vs_original) (\<lambda>original.
    case original of
      OriginalData data \<Rightarrow>
        bindS (liftS (verifyDataSignature (ve_sec env) data trustedCertificate)) (\<lambda>ok.
          if \<not> ok then vs_fail i INVALID_SIGNATURE
          else
            bindS (case data of Plain _ \<Rightarrow> returnS False | Certificate c \<Rightarrow> isRevoked env c) (\<lambda>revoked.
              if revoked then vs_fail i REVOKED
              else bindS (call_success env i) (\<lambda>_. setOutcome i True)))
    | OriginalInterest interest \<Rightarrow>
        bindS (liftS (verifyInterestSignature (ve_sec env) interest trustedCertificate)) (\<lambda>ok.
          if \<not> ok then vs_fail i INVALID_SIGNATURE
          else bindS (call_success env i) (\<lambda>_. setOutcome i True)))"

section \<open>Policies\<close>

text \<open>Where the source has called \<open>fail\<close> it returns an empty name; the callers look at the outcome.\<close>

definition getKeyLocatorNameFromSignature :: "nat \<Rightarrow> signature option \<Rightarrow> ('w, name) vact" where
  "getKeyLocatorNameFromSignature i signature =
    (if \<not> kl_canGetFromSignature signature then bindS (vs_fail i INVALID_KEY_LOCATOR) (\<lambda>_. returnS [])
     else
       bindS (liftS (kl_getFromSignature signature)) (\<lambda>keyLocator.
         if kl_type keyLocator \<noteq> KEYNAME then bindS (vs_fail i INVALID_KEY_LOCATOR) (\<lambda>_. returnS [])
         else returnS (kl_keyName keyLocator)))"

fun getKeyLocatorName :: "nat \<Rightarrow> 'w data_ref \<Rightarrow> ('w, name) vact" where
  "getKeyLocatorName i (Certificate c) =
    bindS (liftS (hasIssuerName c)) (\<lambda>has.
      if \<not> has then bindS (vs_fail i INVALID_KEY_LOCATOR) (\<lambda>_. returnS []) else liftS (getIssuerName c))"
| "getKeyLocatorName i (Plain d) = getKeyLocatorNameFromSignature i (sp_get (d_signature d))"

definition getKeyLocatorName_interest :: "'w sec_env \<Rightarrow> nat \<Rightarrow> 'w interest \<Rightarrow> ('w, name) vact" where
  "getKeyLocatorName_interest env i interest =
    (let n = int_getName interest in
     if length n < 2 then bindS (vs_fail i INVALID_KEY_LOCATOR) (\<lambda>_. returnS [])
     else
       case extractSignature env interest of
         None \<Rightarrow> bindS (vs_fail i INVALID_KEY_LOCATOR) (\<lambda>_. returnS [])
       | Some signatureInfo \<Rightarrow> getKeyLocatorNameFromSignature i (Some signatureInfo))"

text \<open>What a policy decides: it has failed the validation, or continues it with a request or without one.\<close>

datatype 'w decision = PolicyFailed | Continue "'w certificateRequest option"

definition CertificateRequest :: "'w validator_env \<Rightarrow> name \<Rightarrow> 'w certificateRequest" where
  "CertificateRequest env keyName =
    \<lparr>rq_interest = Interest (ve_defaultCanBePrefix env) False \<lparr>ver_value = keyName, ver_changeCount = 0\<rparr>,
     rq_nRetriesLeft = 3\<rparr>"

definition data_ref_name :: "'w data_ref \<Rightarrow> name" where
  "data_ref_name r = (case r of Plain d \<Rightarrow> data_getName d | Certificate c \<Rightarrow> crt_name c)"

definition hierarchy_decision :: "'w validator_env \<Rightarrow> nat \<Rightarrow> name \<Rightarrow> name \<Rightarrow> ('w, 'w decision) vact" where
  "hierarchy_decision env i keyLocatorName packetName =
    bindS (get_state i isOutcomeFailed) (\<lambda>failed.
      if failed then returnS PolicyFailed
      else if name_match (getPrefix keyLocatorName (-2)) packetName
      then returnS (Continue (Some (CertificateRequest env keyLocatorName)))
      else bindS (vs_fail i INVALID_KEY_LOCATOR) (\<lambda>_. returnS PolicyFailed))"

fun checkPolicy_data :: "'w validator_env \<Rightarrow> validationPolicy \<Rightarrow> nat \<Rightarrow> 'w data_ref \<Rightarrow> ('w, 'w decision) vact" where
  "checkPolicy_data env AcceptAll i data = returnS (Continue None)"
| "checkPolicy_data env SimpleHierarchy i data =
    bindS (getKeyLocatorName i data) (\<lambda>keyLocatorName. hierarchy_decision env i keyLocatorName (data_ref_name data))"
| "checkPolicy_data env (CommandInterest options container inner) i data = checkPolicy_data env inner i data"

text \<open>The container of the policy at a level is cleaned up before it is searched.\<close>

fun update_records ::
    "nat \<Rightarrow> (lastTimestampRecord list \<Rightarrow> lastTimestampRecord list) \<Rightarrow> validationPolicy \<Rightarrow> validationPolicy" where
  "update_records 0 f (CommandInterest options container inner) = CommandInterest options (f container) inner"
| "update_records (Suc level) f (CommandInterest options container inner) =
    CommandInterest options container (update_records level f inner)"
| "update_records level f policy = policy"

definition checkTimestamp ::
    "'w validator_env \<Rightarrow> commandInterestOptions \<Rightarrow> nat \<Rightarrow> lastTimestampRecord list \<Rightarrow> nat \<Rightarrow> name \<Rightarrow> int \<Rightarrow>
     ('w, bool) vact" where
  "checkTimestamp env options level container i keyName timestamp =
    (let container = cleanUp options (ve_now env) container; now = ve_now env; index = findByKeyName keyName container in
     bindS (modifyS (\<lambda>v. v\<lparr>v_policy := update_records level (\<lambda>_. container) (v_policy v)\<rparr>)) (\<lambda>_.
       if timestamp < now - cio_gracePeriod options \<or> timestamp > now + cio_gracePeriod options
       then bindS (vs_fail i POLICY_ERROR) (\<lambda>_. returnS False)
       else if index \<ge> 0 \<and> timestamp \<le> ltr_timestamp (container ! nat index)
       then bindS (vs_fail i POLICY_ERROR) (\<lambda>_. returnS False)
       else
         bindS (modify_state i (\<lambda>s. s\<lparr>vs_newRecords := vs_newRecords s @ [(level, keyName, timestamp)]\<rparr>)) (\<lambda>_.
           returnS True)))"

text \<open>The key locator name and the timestamp of a command interest, none when the validation has failed.\<close>

definition parseCommandInterest ::
    "'w validator_env \<Rightarrow> nat \<Rightarrow> 'w interest \<Rightarrow> ('w, (name \<times> int) option) vact" where
  "parseCommandInterest env i interest =
    (let n = int_getName interest in
     if length n < 4 then bindS (vs_fail i POLICY_ERROR) (\<lambda>_. returnS None)
     else
       bindS (liftS (name_get n (-4))) (\<lambda>c.
       bindS (getKeyLocatorName_interest (ve_sec env) i interest) (\<lambda>keyLocatorName.
       bindS (get_state i isOutcomeFailed) (\<lambda>failed.
         returnS (if failed then None
                  else Some (keyLocatorName, fromMillisecondsSince1970 (uint (toNumber c))))))))"

fun checkPolicy_interest ::
    "'w validator_env \<Rightarrow> nat \<Rightarrow> validationPolicy \<Rightarrow> nat \<Rightarrow> 'w interest \<Rightarrow> ('w, 'w decision) vact" where
  "checkPolicy_interest env level AcceptAll i interest = returnS (Continue None)"
| "checkPolicy_interest env level SimpleHierarchy i interest =
    bindS (getKeyLocatorName_interest (ve_sec env) i interest) (\<lambda>keyLocatorName.
      hierarchy_decision env i keyLocatorName (int_getName interest))"
| "checkPolicy_interest env level (CommandInterest options container inner) i interest =
    bindS (parseCommandInterest env i interest) (\<lambda>parsed.
      case parsed of None \<Rightarrow> returnS PolicyFailed
      | Some (keyName, timestamp) \<Rightarrow>
          bindS (checkTimestamp env options level container i keyName timestamp) (\<lambda>ok.
            if \<not> ok then returnS PolicyFailed
            else checkPolicy_interest env (Suc level) inner i interest))"

definition ValidationPolicyCommandInterest :: "validationPolicy \<Rightarrow> commandInterestOptions \<Rightarrow> validationPolicy" where
  "ValidationPolicyCommandInterest innerPolicy options =
    CommandInterest (if cio_gracePeriod options < 0 then options\<lparr>cio_gracePeriod := 0\<rparr> else options) [] innerPolicy"

section \<open>Fetching\<close>

text \<open>
  \<open>doFetch\<close> of the two fetchers.  The continuation that the network fetcher keeps caches the certificate as
  unverified before it continues; when \<open>fetch\<close> is called again for a retry, it wraps that continuation once more.
\<close>

definition doFetch :: "nat \<Rightarrow> nat \<Rightarrow> 'w certificateRequest \<Rightarrow> ('w, unit) vact" where
  "doFetch wrapped i request =
    bindS (getS v_certificateFetcher) (\<lambda>fetcher.
      case fetcher of
        FetcherOffline \<Rightarrow> vs_fail i CANNOT_RETRIEVE_CERTIFICATE
      | FetcherFromNetwork \<Rightarrow>
          modifyS (\<lambda>v. v\<lparr>v_pending := v_pending v @ [\<lparr>pf_request = request, pf_state = i, pf_wrapped = wrapped\<rparr>]\<rparr>))"

text \<open>\<open>continueFetch\<close>, as many times as it is wrapped around the continuation.\<close>

fun continueFetch :: "'w validator_env \<Rightarrow> nat \<Rightarrow> 'w certificateV2 \<Rightarrow> ('w, unit) vact" where
  "continueFetch env 0 certificate = returnS ()"
| "continueFetch env (Suc wrapped) certificate =
    bindS (on_storage (cacheUnverifiedCertificate (ve_now env) certificate)) (\<lambda>_.
      continueFetch env wrapped certificate)"

text \<open>
  \<open>fetch\<close> returns the certificate that it passes on at once, none when it has failed or waits for the network.
\<close>

definition fetch :: "'w validator_env \<Rightarrow> nat \<Rightarrow> nat \<Rightarrow> 'w certificateRequest \<Rightarrow> ('w, 'w certificateV2 option) vact" where
  "fetch env wrapped i request =
    bindS (on_storage (on_unverified (cch_findInterest (ve_sec env) (ve_now env) (rq_interest request)))) (\<lambda>certificate.
      case certificate of
        Some certificate \<Rightarrow> bindS (continueFetch env wrapped certificate) (\<lambda>_. returnS (Some certificate))
      | None \<Rightarrow> bindS (doFetch (Suc wrapped) i request) (\<lambda>_. returnS None))"

section \<open>The validator\<close>

text \<open>\<open>validateCertificate\<close> and its continuation: the request that it makes, none when it has failed.\<close>

definition validateCertificate ::
    "'w validator_env \<Rightarrow> nat \<Rightarrow> 'w certificateV2 \<Rightarrow> ('w, 'w certificateRequest option) vact" where
  "validateCertificate env i certificate =
    bindS (liftS (crt_isValid (ve_now env) certificate)) (\<lambda>valid.
      if \<not> valid then bindS (vs_fail i EXPIRED_CERTIFICATE) (\<lambda>_. returnS None)
      else
        bindS (getS v_policy) (\<lambda>policy.
        bindS (checkPolicy_data env policy i (Certificate certificate)) (\<lambda>decision.
          case decision of
            PolicyFailed \<Rightarrow> returnS None
          | Continue None \<Rightarrow> bindS (vs_fail i POLICY_ERROR) (\<lambda>_. returnS None)
          | Continue (Some request) \<Rightarrow>
              bindS (addCertificate i certificate) (\<lambda>_. returnS (Some request)))))"

fun cache_chain :: "'w validator_env \<Rightarrow> 'w certificateV2 list \<Rightarrow> ('w, bool) vact" where
  "cache_chain env [] = returnS True"
| "cache_chain env (c # chain) =
    bindS (on_storage (cacheVerifiedCertificate (ve_now env) c)) (\<lambda>ok.
      if \<not> ok then returnS False else cache_chain env chain)"

text \<open>A trusted certificate is found: the chain and the original packet are verified.\<close>

definition verify_from :: "'w validator_env \<Rightarrow> nat \<Rightarrow> 'w certificateV2 \<Rightarrow> ('w, unit) vact" where
  "verify_from env i trusted =
    bindS (verifyCertificateChain env i trusted) (\<lambda>certificate.
      case certificate of None \<Rightarrow> returnS ()
      | Some certificate \<Rightarrow>
          bindS (get_state i vs_certificateChain) (\<lambda>chain.
          bindS (cache_chain env chain) (\<lambda>ok.
            if \<not> ok then vs_fail i REVOKED else verifyOriginalPacket env i certificate)))"

text \<open>
  \<open>requestCertificate\<close> up to the next request: none when the validation has ended or waits for the network.
\<close>

definition requestCertificate_once ::
    "'w validator_env \<Rightarrow> nat \<Rightarrow> 'w certificateRequest \<Rightarrow> ('w, 'w certificateRequest option) vact" where
  "requestCertificate_once env i request =
    bindS (getS v_maxDepth) (\<lambda>maxDepth.
    bindS (get_state i getDepth) (\<lambda>depth.
      if depth \<ge> maxDepth then bindS (vs_fail i EXCEEDED_DEPTH_LIMIT) (\<lambda>_. returnS None)
      else
        bindS (hasSeenCertificateName i (int_getName (rq_interest request))) (\<lambda>seen.
          if seen then bindS (vs_fail i LOOP_DETECTED) (\<lambda>_. returnS None)
          else
            bindS (on_storage (findTrustedCertificate (ve_sec env) (ve_files env) (ve_now env) (rq_interest request)))
              (\<lambda>trusted.
                case trusted of
                  Some trusted \<Rightarrow> bindS (verify_from env i trusted) (\<lambda>_. returnS None)
                | None \<Rightarrow>
                    bindS (fetch env 0 i request) (\<lambda>certificate.
                      case certificate of None \<Rightarrow> returnS None
                      | Some certificate \<Rightarrow> validateCertificate env i certificate)))))"

text \<open>
  The recursion of \<open>requestCertificate\<close>, \<open>fetch\<close> and \<open>validateCertificate\<close>.  Each round adds a certificate to
  the chain, so one round more than what is left of the maximum depth is always enough.
\<close>

fun requestCertificate_rounds ::
    "nat \<Rightarrow> 'w validator_env \<Rightarrow> nat \<Rightarrow> 'w certificateRequest \<Rightarrow> ('w, unit) vact" where
  "requestCertificate_rounds 0 env i request = throwS Undefined_behaviour"
| "requestCertificate_rounds (Suc k) env i request =
    bindS (requestCertificate_once env i request) (\<lambda>r.
      case r of None \<Rightarrow> returnS () | Some request \<Rightarrow> requestCertificate_rounds k env i request)"

definition requestCertificate :: "'w validator_env \<Rightarrow> nat \<Rightarrow> 'w certificateRequest \<Rightarrow> ('w, unit) vact" where
  "requestCertificate env i request =
    bindS (getS v_maxDepth) (\<lambda>maxDepth.
    bindS (get_state i getDepth) (\<lambda>depth.
      requestCertificate_rounds (Suc (maxDepth - depth)) env i request))"

definition continueValidate :: "'w validator_env \<Rightarrow> nat \<Rightarrow> 'w certificateRequest option \<Rightarrow> ('w, unit) vact" where
  "continueValidate env i request =
    (case request of None \<Rightarrow> bypassValidation env i | Some request \<Rightarrow> requestCertificate env i request)"

definition decided :: "'w validator_env \<Rightarrow> nat \<Rightarrow> 'w decision \<Rightarrow> ('w, unit) vact" where
  "decided env i decision =
    (case decision of PolicyFailed \<Rightarrow> returnS () | Continue request \<Rightarrow> continueValidate env i request)"

definition ValidationState :: "'w original \<Rightarrow> 'w validationState" where
  "ValidationState original =
    \<lparr>vs_original = original, vs_certificateChain = [], vs_seenCertificateNames = [], vs_outcome = None,
     vs_newRecords = []\<rparr>"

definition new_state :: "'w original \<Rightarrow> ('w, nat) vact" where
  "new_state original =
    bindS (getS (\<lambda>v. length (v_states v))) (\<lambda>i.
    bindS (modifyS (\<lambda>v. v\<lparr>v_states := v_states v @ [ValidationState original]\<rparr>)) (\<lambda>_. returnS i))"

text \<open>The state keeps a copy of the packet, which is a \<open>CertificateV2\<close> when the packet is one.\<close>

fun original_copy :: "'w sec_env \<Rightarrow> 'w data_ref \<Rightarrow> error + 'w data_ref" where
  "original_copy env (Plain d) = Inr (Plain (data_copy d))"
| "original_copy env (Certificate c) = bindE (CertificateV2_of env (Certificate c)) (\<lambda>c. Inr (Certificate c))"

definition validate_data :: "'w validator_env \<Rightarrow> 'w data_ref \<Rightarrow> ('w, unit) vact" where
  "validate_data env data =
    bindS (liftS (original_copy (ve_sec env) data)) (\<lambda>data_copy.
    bindS (new_state (OriginalData data_copy)) (\<lambda>i.
    bindS (getS v_policy) (\<lambda>policy.
    bindS (checkPolicy_data env policy i data) (decided env i))))"

definition validate_interest :: "'w validator_env \<Rightarrow> 'w interest \<Rightarrow> ('w, unit) vact" where
  "validate_interest env interest =
    bindS (new_state (OriginalInterest (int_copy interest))) (\<lambda>i.
    bindS (getS v_policy) (\<lambda>policy.
    bindS (checkPolicy_interest env 0 policy i interest) (decided env i)))"

section \<open>Answers from the network\<close>

text \<open>The certificate goes through \<open>validateCertificate\<close>, which may request the next one.\<close>

definition continue_with :: "'w validator_env \<Rightarrow> nat \<Rightarrow> 'w certificateV2 \<Rightarrow> ('w, unit) vact" where
  "continue_with env i certificate =
    bindS (validateCertificate env i certificate) (\<lambda>r.
      case r of None \<Rightarrow> returnS () | Some request \<Rightarrow> requestCertificate env i request)"

definition fetcher_onData :: "'w validator_env \<Rightarrow> 'w pendingFetch \<Rightarrow> 'w data \<Rightarrow> ('w, unit) vact" where
  "fetcher_onData env p data =
    (case CertificateV2_of (ve_sec env) (Plain data) of
       Inl _ \<Rightarrow> vs_fail (pf_state p) MALFORMED_CERTIFICATE
     | Inr certificate \<Rightarrow>
         bindS (continueFetch env (pf_wrapped p) certificate) (\<lambda>_. continue_with env (pf_state p) certificate))"

text \<open>\<open>onTimeout\<close> and \<open>onNetworkNack\<close> do the same.\<close>

definition fetcher_retry :: "'w validator_env \<Rightarrow> 'w pendingFetch \<Rightarrow> ('w, unit) vact" where
  "fetcher_retry env p =
    (let request = (pf_request p)\<lparr>rq_nRetriesLeft := rq_nRetriesLeft (pf_request p) - 1\<rparr> in
     if rq_nRetriesLeft request \<ge> 0 then
       bindS (fetch env (pf_wrapped p) (pf_state p) request) (\<lambda>certificate.
         case certificate of None \<Rightarrow> returnS ()
         | Some certificate \<Rightarrow> continue_with env (pf_state p) certificate)
     else vs_fail (pf_state p) CANNOT_RETRIEVE_CERTIFICATE)"

section \<open>Runs\<close>

text \<open>
  What can happen to a validator.  The face answers an expressed interest once, with a Data packet that matches
  the interest, a network nack or a timeout.  A packet from the wire has no cached full name or its own.
\<close>

datatype 'w validator_op =
    ValidateData "'w data_ref"
  | ValidateInterest "'w interest"
  | AnswerData nat "'w data"
  | AnswerNack nat
  | AnswerTimeout nat
  | LoadAnchor "byte list" "'w certificateV2"
  | LoadAnchors "byte list" "byte list" int bool
  | ResetAnchors
  | ResetVerifiedCertificates
  | CacheVerifiedCrl x509CrlInfo

definition take_pending :: "nat \<Rightarrow> ('w pendingFetch \<Rightarrow> ('w, unit) vact) \<Rightarrow> ('w, unit) vact" where
  "take_pending k f =
    bindS (getS v_pending) (\<lambda>pending.
      if k < length pending then
        bindS (modifyS (\<lambda>v. v\<lparr>v_pending := take k pending @ drop (Suc k) pending\<rparr>)) (\<lambda>_. f (pending ! k))
      else returnS ())"

definition wire_packet :: "'w data \<Rightarrow> bool" where
  "wire_packet d \<longleftrightarrow> length (d_defaultFullName d) = 0 \<or>
    length (d_defaultFullName d) = Suc (length (data_getName d)) \<and> butlast (d_defaultFullName d) = data_getName d"

definition answers :: "'w validator_env \<Rightarrow> 'w pendingFetch \<Rightarrow> 'w data \<Rightarrow> bool" where
  "answers env p data =
    (case matchesData (se_wire (ve_sec env)) (env_default (se_wire (ve_sec env))) (rq_interest (pf_request p)) data of
       Inl _ \<Rightarrow> False | Inr (b, _) \<Rightarrow> b \<and> wire_packet data)"

fun validator_step :: "'w validator_env \<Rightarrow> 'w validator_op \<Rightarrow> ('w, unit) vact" where
  "validator_step env (ValidateData data) = validate_data env data"
| "validator_step env (ValidateInterest interest) = validate_interest env interest"
| "validator_step env (AnswerData k data) = (\<lambda>v.
    if k < length (v_pending v) \<and> answers env (v_pending v ! k) data
    then take_pending k (\<lambda>p. fetcher_onData env p data) v else (Inr (), v))"
| "validator_step env (AnswerNack k) = take_pending k (fetcher_retry env)"
| "validator_step env (AnswerTimeout k) = take_pending k (fetcher_retry env)"
| "validator_step env (LoadAnchor groupId certificate) = on_storage (loadAnchor (ve_now env) groupId certificate)"
| "validator_step env (LoadAnchors groupId path refreshPeriod isDirectory) =
    on_storage (loadAnchors (ve_files env) (ve_now env) groupId path refreshPeriod isDirectory)"
| "validator_step env ResetAnchors = on_storage (modifyS resetAnchors)"
| "validator_step env ResetVerifiedCertificates = on_storage (modifyS resetVerifiedCertificates)"
| "validator_step env (CacheVerifiedCrl crlInfo) = on_storage (cacheVerifiedCrl (ve_now env) crlInfo)"

text \<open>
  A run: each operation has its clock reading and its view of the file system; an exception ends the operation
  and is logged by the caller.
\<close>

fun validator_run :: "('w validator_env \<times> 'w validator_op) list \<Rightarrow> 'w validator \<Rightarrow> 'w validator" where
  "validator_run [] v = v"
| "validator_run ((env, op) # ops) v = validator_run ops (snd (validator_step env op v))"

end
