(* ===== verification/Storage_Props.thy ===== *)
theory Storage_Props
  imports Certificate_Storage
begin

text \<open>
  What the validator relies on: the stores only hand out certificates that were put into them, an expired
  certificate is never found, and lookups find the first match in the order of names.
\<close>

section \<open>Certificates for examples\<close>

text \<open>A wire format and a signature scheme for evaluating examples: a signature is valid when it equals the key.\<close>

definition sample_sec :: "unit sec_env" where
  "sample_sec =
    \<lparr>se_wire = sample_env,
     se_encodeInterest = (\<lambda>_ i. Inr \<lparr>sb_bytes = [], sb_signedPortionBeginOffset = 0, sb_signedPortionEndOffset = 0\<rparr>),
     se_decodeSignatureInfoAndValue = (\<lambda>a b. Inr (Sha256WithRsaSignature KeyLocator0 (Some b) ValidityPeriod0)),
     se_keyType = (\<lambda>_. Some KEY_TYPE_RSA),
     se_verifySha256WithRsaSignature = (\<lambda>signature buffer key. Inr (signature = key)),
     se_verifySha256WithEcdsaSignature = (\<lambda>signature buffer key. Inr False),
     se_x509 = (\<lambda>_. None)\<rparr>"

definition comp :: "string \<Rightarrow> component" where
  "comp s = genericComponent (str s)"

definition certificate_data :: "name \<Rightarrow> signature \<Rightarrow> byte list \<Rightarrow> unit data" where
  "certificate_data n signature keyBits =
    data_editMetaInfo (\<lambda>m. m\<lparr>mi_type := CONTENT_KEY, mi_freshnessPeriod := 1\<rparr>)
      (data_setContent (Some keyBits)
        (data_setSignature \<lparr>ver_value = signature, ver_changeCount = 0\<rparr>
          (Data \<lparr>ver_value = n, ver_changeCount = 0\<rparr>)))"

definition rsa_signature :: "name \<Rightarrow> byte list \<Rightarrow> int \<times> int \<Rightarrow> signature" where
  "rsa_signature issuer bits period =
    Sha256WithRsaSignature \<lparr>kl_type = KEYNAME, kl_keyData = None, kl_keyName = issuer\<rparr> (Some bits)
      \<lparr>vp_period = Some period\<rparr>"

definition sample_certificate :: "name \<Rightarrow> name \<Rightarrow> byte list \<Rightarrow> int \<Rightarrow> byte list \<Rightarrow> unit certificateV2" where
  "sample_certificate n issuer bits notAfter keyBits =
    \<lparr>crt_data = certificate_data n (rsa_signature issuer bits (0, notAfter)) keyBits, crt_x509Info = None\<rparr>"

section \<open>The certificate cache\<close>

text \<open>
  C23. After any sequence of insertions, lookups, deletions, clearings and clock offsets, looking up an interest
  in the certificate cache returns what a linear search returns: the first certificate in the order of names
  whose name the interest's name is a prefix of and which matches the interest, among the certificates whose
  time in the cache is not over; and each of those has a validity period that ends after the time of the lookup.
  That the period has begun is not promised: the cache does not look at its beginning.
  (The search starts at the lower bound and stops at the first name without the prefix; prefixes are compared
  by component values, so the first hypothesis says that the components' types agree too, and the second that
  matching does not throw.)
\<close>

theorem certificate_cache_lookup:
  assumes c: "c = fold change_cache changes (CertificateCacheV2 maxLifetime)"
    and types: "\<And>k. k \<in> set (live_certificates now c) \<Longrightarrow> name_match (int_getName i) (crt_name k) \<longleftrightarrow>
      (\<exists>r. nkey (crt_name k) = nkey (int_getName i) @ r)"
    and total: "\<And>k. k \<in> set (live_certificates now c) \<Longrightarrow> crt_matches env i k = Inr (f k)"
  shows "fst (cch_findInterest env now i c) =
      Inr (find f (filter (\<lambda>k. name_match (int_getName i) (crt_name k)) (live_certificates now c))) \<and>
    (\<forall>k \<in> set (live_certificates now c). \<exists>v. getValidityPeriod k = Inr v \<and> now + cch_nowOffset c < vp_getNotAfter v)"
proof -
  have inv: "cch_inv c" unfolding c by (intro cch_inv_changes cch_inv_initial)
  show ?thesis
    using cch_findInterest_live [OF inv types total] live_certificates_valid [OF inv] by blast
qed

definition old_certificate :: "unit certificateV2" where
  "old_certificate = sample_certificate [comp ''a'', KEY_COMPONENT, comp ''1'', comp ''i'', comp ''v''] [] [] 1000 [1]"

definition new_certificate :: "unit certificateV2" where
  "new_certificate = sample_certificate [comp ''a'', KEY_COMPONENT, comp ''2'', comp ''i'', comp ''v''] [] [] 900000 [2]"

definition certificate_interest :: "name \<Rightarrow> unit interest" where
  "certificate_interest n = Interest True False \<lparr>ver_value = n, ver_changeCount = 0\<rparr>"

definition sample_changes :: "unit cache_change list" where
  "sample_changes = [CacheInsert 0 new_certificate, CacheInsert 0 old_certificate]"

theorem certificate_cache_lookup_witness:
  "fst (cch_findInterest sample_sec 2000000000 (certificate_interest [comp ''a''])
     (fold change_cache sample_changes (CertificateCacheV2 3600000000000))) = Inr (Some (crt_copy new_certificate))"
proof -
  let ?c = "fold change_cache sample_changes (CertificateCacheV2 3600000000000)"
  have live: "live_certificates 2000000000 ?c = [crt_copy new_certificate]" by code_simp
  have m: "crt_matches sample_sec (certificate_interest [comp ''a'']) (crt_copy new_certificate) = Inr True" by code_simp
  have t: "nkey (crt_name (crt_copy new_certificate)) = nkey (int_getName (certificate_interest [comp ''a''])) @
    nkey [KEY_COMPONENT, comp ''2'', comp ''i'', comp ''v'']" by code_simp
  have p: "name_match (int_getName (certificate_interest [comp ''a''])) (crt_name (crt_copy new_certificate))" by code_simp
  show ?thesis
    using certificate_cache_lookup [OF refl, of 2000000000 sample_changes 3600000000000
        "certificate_interest [comp ''a'']" sample_sec "\<lambda>_. True"] live m t p
    by auto
qed

section \<open>What the stores hold\<close>

definition anchors_all :: "('w certificateV2 \<Rightarrow> bool) \<Rightarrow> 'w anchors \<Rightarrow> bool" where
  "anchors_all T m \<longleftrightarrow> (\<forall>x \<in> set m. T (snd x))"

definition cache_all :: "('w certificateV2 \<Rightarrow> bool) \<Rightarrow> 'w certificateCache \<Rightarrow> bool" where
  "cache_all T c \<longleftrightarrow> (\<forall>x \<in> set (cch_certificatesByName c). T (ent_certificate (snd x)))"

text \<open>
  The paths of the dynamic groups, each with the flag that says whether it is a directory, and the files that these
  groups read.
\<close>

type_synonym anchor_path = "byte list \<times> bool"

definition groups_in :: "anchor_path set \<Rightarrow> (byte list \<times> trustAnchorGroup) list \<Rightarrow> bool" where
  "groups_in G gs \<longleftrightarrow>
    (\<forall>x \<in> set gs. \<forall>dyn. tg_dynamic (snd x) = Some dyn \<longrightarrow> (dyn_path dyn, dyn_isDirectory dyn) \<in> G)"

definition group_files :: "'w files \<Rightarrow> anchor_path set \<Rightarrow> byte list set" where
  "group_files fs G = {path. (path, False) \<in> G} \<union>
    {file. \<exists>path files. (path, True) \<in> G \<and> fs_directory fs path = Some files \<and> file \<in> set files}"

text \<open>All anchors and verified certificates have the property, and the groups have the given paths.\<close>

definition storage_all :: "anchor_path set \<Rightarrow> ('w certificateV2 \<Rightarrow> bool) \<Rightarrow> 'w certificateStorage \<Rightarrow> bool" where
  "storage_all G T s \<longleftrightarrow> anchors_all T (tac_anchors (cst_trustAnchors s)) \<and> cache_all T (cst_verifiedCertificateCache s) \<and>
    groups_in G (tac_groups (cst_trustAnchors s))"

text \<open>A property of certificates that copies have too, and the certificates that a file holds and that are valid.\<close>

definition copy_closed :: "('w certificateV2 \<Rightarrow> bool) \<Rightarrow> bool" where
  "copy_closed T \<longleftrightarrow> (\<forall>c. T c \<longrightarrow> T (crt_copy c))"

definition file_certificates :: "'w files \<Rightarrow> int \<Rightarrow> byte list set \<Rightarrow> 'w certificateV2 set" where
  "file_certificates fs now files =
    {c. \<exists>file \<in> files. fs_readCertificate fs file = Some c \<and> crt_isValid now c = Inr True}"

definition files_all :: "('w certificateV2 \<Rightarrow> bool) \<Rightarrow> 'w files \<Rightarrow> int \<Rightarrow> byte list set \<Rightarrow> bool" where
  "files_all T fs now files \<longleftrightarrow> (\<forall>c \<in> file_certificates fs now files. T c)"

lemma files_allD:
  "files_all T fs now files \<Longrightarrow> file \<in> files \<Longrightarrow> fs_readCertificate fs file = Some c \<Longrightarrow> crt_isValid now c = Inr True \<Longrightarrow> T c"
  by (auto simp: files_all_def file_certificates_def)

lemma files_all_mono: "files_all T fs now files \<Longrightarrow> files' \<subseteq> files \<Longrightarrow> files_all T fs now files'"
  by (auto simp: files_all_def file_certificates_def)

lemma anchors_all_add: "copy_closed T \<Longrightarrow> T c \<Longrightarrow> anchors_all T m \<Longrightarrow> anchors_all T (anchors_add c m)"
  using om_assign_subset [of nkey "crt_name c" "crt_copy c" m]
  by (fastforce simp: anchors_all_def anchors_add_def copy_closed_def)

lemma anchors_all_remove: "anchors_all T m \<Longrightarrow> anchors_all T (anchors_remove n m)"
  using om_erase_subset [of nkey n m] by (auto simp: anchors_all_def anchors_remove_def)

lemma loadCertificate_anchors:
  assumes "copy_closed T" "files_all T fs now {file}" "anchors_all T m"
  shows "anchors_all T (fst (snd (snd (loadCertificate fs now file (names, m, old)))))"
  using assms(3) anchors_all_add [OF assms(1) files_allD [OF assms(2)]]
  by (auto simp: loadCertificate_def split: option.splits sum.splits)

lemma load_files_anchors:
  assumes "copy_closed T" "files_all T fs now (set files)" "anchors_all T m"
  shows "anchors_all T (fst (snd (snd (load_files fs now files (names, m, old)))))"
  using assms(2,3)
proof (induction files arbitrary: names m old)
  case (Cons f files)
  obtain r names' m' old' where l: "loadCertificate fs now f (names, m, old) = (r, names', m', old')" by (metis surj_pair)
  then have "anchors_all T m'" 
    using loadCertificate_anchors [OF assms(1) files_all_mono [OF Cons.prems(1)] Cons.prems(2), of f names old] by simp
  moreover have "files_all T fs now (set files)" by (rule files_all_mono [OF Cons.prems(1)]) auto
  ultimately show ?case using Cons.IH l by (cases r) (simp_all add: bindS_def)
qed (simp add: returnS_def)

text \<open>Refreshing a group keeps its path.\<close>

lemma dynamic_refresh_anchors:
  assumes "copy_closed T" "anchors_all T m" and fs: "files_all T fs now (group_files fs G)" "(dyn_path dyn, dyn_isDirectory dyn) \<in> G"
  shows "anchors_all T (snd (snd (dynamic_refresh fs now dyn (g, m))))"
proof -
  have fold: "anchors_all T (fold (\<lambda>(n, _). anchors_remove n) ns m)" if "anchors_all T m" for ns m
    using that by (induction ns arbitrary: m) (auto simp: anchors_all_remove)
  define files where "files = (if \<not> dyn_isDirectory dyn then [dyn_path dyn]
    else case fs_directory fs (dyn_path dyn) of None \<Rightarrow> [] | Some files \<Rightarrow> files)"
  have "set files \<subseteq> group_files fs G"
    using fs(2) by (cases "dyn_isDirectory dyn") (auto simp: files_def group_files_def split: option.splits)
  then have all: "files_all T fs now (set files)" by (rule files_all_mono [OF fs(1)])
  obtain r names' m' old' where l: "load_files fs now files (tg_anchorNames g, m, tg_anchorNames g) = (r, names', m', old')"
    by (metis surj_pair)
  then have "anchors_all T m'" using load_files_anchors [OF assms(1) all assms(2), of "tg_anchorNames g" "tg_anchorNames g"] by simp
  then show ?thesis
    using assms(2) l fold [of m' old']
    by (cases r) (simp_all add: dynamic_refresh_def Let_def files_def [symmetric])
qed

lemma dynamic_refresh_path:
  assumes "tg_dynamic g = Some dyn" "tg_dynamic (fst (snd (dynamic_refresh fs now dyn (g, m)))) = Some dyn'"
  shows "dyn_path dyn' = dyn_path dyn \<and> dyn_isDirectory dyn' = dyn_isDirectory dyn"
proof -
  define files where "files = (if \<not> dyn_isDirectory dyn then [dyn_path dyn]
    else case fs_directory fs (dyn_path dyn) of None \<Rightarrow> [] | Some files \<Rightarrow> files)"
  obtain r names' m' old' where l: "load_files fs now files (tg_anchorNames g, m, tg_anchorNames g) = (r, names', m', old')"
    by (metis surj_pair)
  show ?thesis
  proof (cases "dyn_expireTime dyn > now")
    case True
    then show ?thesis using assms by (simp add: dynamic_refresh_def)
  next
    case False
    then have "tg_dynamic (fst (snd (dynamic_refresh fs now dyn (g, m)))) = Some (dyn\<lparr>dyn_expireTime := now + dyn_refreshPeriod dyn\<rparr>)"
      using l by (cases r) (simp_all add: dynamic_refresh_def Let_def files_def [symmetric])
    then show ?thesis using assms(2) by auto
  qed
qed

lemma group_refresh_all:
  assumes "copy_closed T" "anchors_all T m" "files_all T fs now (group_files fs G)" "groups_in G [(i, g)]"
    and r: "group_refresh fs now (g, m) = (r, g', m')"
  shows "anchors_all T m' \<and> groups_in G [(i, g')]"
proof (cases "tg_dynamic g")
  case None
  then show ?thesis using assms by (simp add: group_refresh_def)
next
  case (Some dyn)
  then have d: "dynamic_refresh fs now dyn (g, m) = (r, g', m')" and G: "(dyn_path dyn, dyn_isDirectory dyn) \<in> G"
    using r assms(4) by (simp_all add: group_refresh_def groups_in_def)
  have "anchors_all T m'" using dynamic_refresh_anchors [OF assms(1-3) G, of g] unfolding d by simp
  moreover have "(dyn_path dyn', dyn_isDirectory dyn') \<in> G" if "tg_dynamic g' = Some dyn'" for dyn'
    using dynamic_refresh_path [OF Some, of fs now m dyn'] that G unfolding d by simp
  ultimately show ?thesis by (simp add: groups_in_def)
qed

lemma refresh_groups_all:
  assumes "copy_closed T" "files_all T fs now (group_files fs G)"
  shows "\<lbrakk>anchors_all T m; groups_in G gs; refresh_groups fs now gs m = (r, gs', m')\<rbrakk> \<Longrightarrow> anchors_all T m' \<and> groups_in G gs'"
proof (induction gs arbitrary: m r gs' m')
  case (Cons x gs)
  obtain i g where x: "x = (i, g)" by fastforce
  obtain q g1 m1 where q: "group_refresh fs now (g, m) = (q, g1, m1)" by (metis surj_pair)
  have G: "groups_in G [(i, g)]" "groups_in G gs" using Cons.prems(2) x by (simp_all add: groups_in_def)
  have one: "anchors_all T m1 \<and> groups_in G [(i, g1)]" by (rule group_refresh_all [OF assms(1) Cons.prems(1) assms(2) G(1) q])
  show ?case
  proof (cases q)
    case (Inl e)
    then show ?thesis using Cons.prems(3) one G(2) q x by (auto simp: groups_in_def)
  next
    case (Inr u)
    obtain r1 gs1 m2 where r1: "refresh_groups fs now gs m1 = (r1, gs1, m2)" by (metis surj_pair)
    then have "anchors_all T m2 \<and> groups_in G gs1" using Cons.IH one G(2) by blast
    then show ?thesis using Cons.prems(3) one q x Inr r1 by (auto simp: groups_in_def)
  qed
qed simp

lemma tac_refresh_all:
  assumes "copy_closed T" "files_all T fs now (group_files fs G)" "anchors_all T (tac_anchors c)" "groups_in G (tac_groups c)"
  shows "anchors_all T (tac_anchors (snd (tac_refresh fs now c))) \<and> groups_in G (tac_groups (snd (tac_refresh fs now c)))"
proof -
  obtain r gs m where r: "refresh_groups fs now (tac_groups c) (tac_anchors c) = (r, gs, m)" by (metis surj_pair)
  then show ?thesis using refresh_groups_all [OF assms r] by (simp add: tac_refresh_def)
qed

lemma cache_all_refresh: "cache_all T c \<Longrightarrow> cache_all T (cch_refresh now c)"
  using om_erase_fold_subset [of nkey _ "cch_certificatesByName c"]
  by (fastforce simp: cache_all_def cch_refresh_def Let_def split: prod.splits)

lemma cache_all_insert: "copy_closed T \<Longrightarrow> T k \<Longrightarrow> cache_all T c \<Longrightarrow> cache_all T (snd (cch_insert now k c))"
proof (cases "getValidityPeriod k")
  case (Inr v)
  assume T: "copy_closed T" "T k" "cache_all T c"
  have "T (ent_certificate (snd x))"
    if "x \<in> set (nm_assign (crt_name k) \<lparr>ent_certificate = crt_copy k, ent_removalTime = t\<rparr> (cch_certificatesByName c))" for x t
    using that T om_assign_subset [of nkey "crt_name k" "\<lparr>ent_certificate = crt_copy k, ent_removalTime = t\<rparr>" "cch_certificatesByName c"]
    by (fastforce simp: cache_all_def copy_closed_def)
  then show ?thesis
    using T(3) Inr by (simp add: cch_insert_def modifyS_def Let_def cache_all_def)
qed (simp add: cch_insert_def throwS_def)

lemma cache_all_delete: "cache_all T c \<Longrightarrow> cache_all T (cch_deleteCertificate n c)"
  using om_erase_subset [of nkey n "cch_certificatesByName c"] by (auto simp: cache_all_def cch_deleteCertificate_def)

subsection \<open>The storage's actions\<close>

lemma wp_on_trustAnchors:
  "wp m (\<lambda>x c. Q x (s\<lparr>cst_trustAnchors := c\<rparr>)) (\<lambda>c. E (s\<lparr>cst_trustAnchors := c\<rparr>)) (cst_trustAnchors s) \<Longrightarrow>
    wp (on_trustAnchors m) Q E s"
  by (auto simp: wp_def on_trustAnchors_def split: prod.splits sum.splits)

lemma wp_on_verified:
  "wp m (\<lambda>x c. Q x (s\<lparr>cst_verifiedCertificateCache := c\<rparr>)) (\<lambda>c. E (s\<lparr>cst_verifiedCertificateCache := c\<rparr>))
    (cst_verifiedCertificateCache s) \<Longrightarrow> wp (on_verified m) Q E s"
  by (auto simp: wp_def on_verified_def split: prod.splits sum.splits)

lemma on_unverified_storage:
  "wp m (\<lambda>x _. R x) (\<lambda>_. True) (cst_unverifiedCertificateCache s) \<Longrightarrow> storage_all G T s \<Longrightarrow>
    wp (on_unverified m) (\<lambda>x s'. R x \<and> storage_all G T s') (storage_all G T) s"
  by (auto simp: wp_def on_unverified_def storage_all_def split: prod.splits sum.splits)

lemma cch_findInterest_wp:
  "wp (cch_findInterest env now i) (\<lambda>r _. \<forall>k. r = Some k \<longrightarrow> name_match (int_getName i) (crt_name k)) (\<lambda>_. True) c"
  using find_interest_Some [of env i "cch_certificates (cch_refresh now c)"]
  by (auto simp: wp_def cch_findInterest_def Let_def split: prod.splits sum.splits)

lemma findTrustedCertificate_wp:
  assumes "copy_closed T" "files_all T fs now (group_files fs G)" "storage_all G T s"
  shows "wp (findTrustedCertificate env fs now i)
    (\<lambda>r s'. storage_all G T s' \<and> (\<forall>k. r = Some k \<longrightarrow> T k \<and> name_match (int_getName i) (crt_name k)))
    (storage_all G T) s"
proof -
  have cache: "wp (on_verified (cch_findInterest env now i))
    (\<lambda>r s'. storage_all G T s' \<and> (\<forall>k. r = Some k \<longrightarrow> T k \<and> name_match (int_getName i) (crt_name k)))
    (storage_all G T) s'" if "storage_all G T s'" for s'
  proof (rule wp_on_verified)
    let ?c = "cch_refresh now (cst_verifiedCertificateCache s')"
    have "cache_all T ?c" using that cache_all_refresh by (auto simp: storage_all_def)
    moreover have "T k \<and> name_match (int_getName i) (crt_name k)"
      if "find_interest env i (cch_certificates ?c) = Inr (Some k)" for k
      using find_interest_Some [OF that] calculation by (auto simp: cch_certificates_def cache_all_def)
    ultimately show "wp (cch_findInterest env now i)
      (\<lambda>r c. storage_all G T (s'\<lparr>cst_verifiedCertificateCache := c\<rparr>) \<and>
        (\<forall>k. r = Some k \<longrightarrow> T k \<and> name_match (int_getName i) (crt_name k)))
      (\<lambda>c. storage_all G T (s'\<lparr>cst_verifiedCertificateCache := c\<rparr>)) (cst_verifiedCertificateCache s')"
      using that by (auto simp: wp_def cch_findInterest_def Let_def storage_all_def split: prod.splits sum.splits)
  qed
  obtain r c where r: "tac_refresh fs now (cst_trustAnchors s) = (r, c)" by fastforce
  then have c: "anchors_all T (tac_anchors c)" "groups_in G (tac_groups c)"
    using tac_refresh_all [OF assms(1,2), of "cst_trustAnchors s"] assms(3) by (simp_all add: storage_all_def)
  then have s: "storage_all G T (s\<lparr>cst_trustAnchors := c\<rparr>)" using assms(3) by (simp add: storage_all_def)
  have found: "T k \<and> name_match (int_getName i) (crt_name k)" if "find_interest env i (tac_anchors c) = Inr (Some k)" for k
    using find_interest_Some [OF that] c(1) by (auto simp: anchors_all_def)
  show ?thesis
    unfolding findTrustedCertificate_def wp_bindS
    by (rule wp_on_trustAnchors)
      (use r s found cache [OF s] in \<open>auto simp: wp_def tac_findInterest_def bindS_def returnS_def split: prod.splits sum.splits\<close>)
qed

lemma findRevokedCertificate_wp:
  "storage_all G T s \<Longrightarrow> (\<And>r s'. storage_all G T s' \<Longrightarrow> Q r s') \<Longrightarrow> wp (findRevokedCertificate now issuer serial) Q E s"
  by (auto simp: wp_def findRevokedCertificate_def storage_all_def Let_def split: prod.splits)

lemma cacheVerifiedCertificate_wp:
  assumes "copy_closed T" "storage_all G T s" "T k"
  shows "wp (cacheVerifiedCertificate now k) (\<lambda>_. storage_all G T) (storage_all G T) s"
proof -
  have "wp (on_verified (cch_insert now k)) (\<lambda>_. storage_all G T) (storage_all G T) s'" if "storage_all G T s'" for s'
    by (rule wp_on_verified)
      (use that cache_all_insert [OF assms(1,3), of "cst_verifiedCertificateCache s'" now] in
        \<open>auto simp: wp_def storage_all_def split: prod.splits sum.splits\<close>)
  then show ?thesis
    using assms(2) unfolding cacheVerifiedCertificate_def
    by (auto intro!: wp_liftS_I findRevokedCertificate_wp)
qed

lemma cacheUnverifiedCertificate_wp:
  "storage_all G T s \<Longrightarrow> wp (cacheUnverifiedCertificate now k) (\<lambda>_. storage_all G T) (storage_all G T) s"
  unfolding cacheUnverifiedCertificate_def
  by (auto simp: wp_def on_unverified_def storage_all_def split: prod.splits sum.splits)

lemma revoked_loop_wp: "storage_all G T s \<Longrightarrow> wp (revoked_loop now issuer es) (\<lambda>_. storage_all G T) (storage_all G T) s"
proof (induction now issuer es arbitrary: s rule: revoked_loop.induct)
  case (2 now issuer u e es)
  show ?case
    unfolding revoked_loop.simps wp_bindS
  proof (rule wp_liftS_I)
    fix x
    assume x: "getIssuerName (ent_certificate e) = Inr x"
    show "wp (if \<not> name_equals x issuer then revoked_loop now issuer es
       else bindS (findRevokedCertificate now x (getX509SerialNumber (ent_certificate e))) (\<lambda>revoked.
         bindS (revoked_loop now issuer es) (\<lambda>ns. returnS (if revoked \<noteq> None then crt_name (ent_certificate e) # ns else ns))))
       (\<lambda>_. storage_all G T) (storage_all G T) s"
      using 2 by (auto intro!: findRevokedCertificate_wp)
  qed (rule 2)
qed simp

lemma cacheVerifiedCrl_wp: "storage_all G T s \<Longrightarrow> wp (cacheVerifiedCrl now crl) (\<lambda>_. storage_all G T) (storage_all G T) s"
proof -
  assume s: "storage_all G T s"
  have "cache_all T (fold cch_deleteCertificate ns c)" if "cache_all T c" for ns c
    using that by (induction ns arbitrary: c) (simp_all add: cache_all_delete)
  then have del: "storage_all G T (s'\<lparr>cst_verifiedCertificateCache := fold cch_deleteCertificate ns (cst_verifiedCertificateCache s')\<rparr>)"
    if "storage_all G T s'" for s' ns
    using that by (simp add: storage_all_def)
  obtain b crls where "crc_insert now crl (cst_verifiedCrlCache s) = (b, crls)" by fastforce
  moreover have s': "storage_all G T (s\<lparr>cst_verifiedCrlCache := crls\<rparr>)" using s by (simp add: storage_all_def)
  have "wp (bindS (revoked_loop now (crl_issuerName crl) (cch_certificatesByName (cst_verifiedCertificateCache s)))
      (\<lambda>ns. on_verified (modifyS (fold cch_deleteCertificate ns)))) (\<lambda>_. storage_all G T) (storage_all G T)
      (s\<lparr>cst_verifiedCrlCache := crls\<rparr>)"
    unfolding wp_bindS
    by (rule wp_post [OF revoked_loop_wp [OF s']]) (auto intro!: wp_on_verified del)
  ultimately show ?thesis using s' unfolding wp_snd by (cases b) (simp_all add: cacheVerifiedCrl_def)
qed

lemma groups_in_assign: "groups_in G gs \<Longrightarrow> groups_in G [(i, g)] \<Longrightarrow> groups_in G (group_assign i g gs)"
  using om_assign_subset [of "\<lambda>i. i" i g gs] by (fastforce simp: groups_in_def)

lemma groups_in_find: "groups_in G gs \<Longrightarrow> group_find i gs = Some g \<Longrightarrow> groups_in G [(j, g)]"
  by (induction gs) (auto simp: groups_in_def split: if_splits)

lemma loadAnchor_wp:
  assumes "copy_closed T" "storage_all G T s" and k: "crt_isValid now k = Inr True \<Longrightarrow> T k"
  shows "wp (loadAnchor now groupId k) (\<lambda>_. storage_all G T) (storage_all G T) s"
proof -
  let ?c = "cst_trustAnchors s"
  have add: "anchors_all T m' \<and> tg_dynamic g' = tg_dynamic g" if "static_add now k (g, m) = Inr (g', m')" "anchors_all T m" for g g' m m'
    using that anchors_all_add [OF assms(1) k] by (auto simp: static_add_def bindE_eq_Inr split: if_splits)
  define g where "g = (case group_find groupId (tac_groups ?c) of
    None \<Rightarrow> \<lparr>tg_id = groupId, tg_anchorNames = [], tg_dynamic = None\<rparr> | Some grp \<Rightarrow> grp)"
  have s: "anchors_all T (tac_anchors ?c)" "groups_in G (tac_groups ?c)" using assms(2) by (simp_all add: storage_all_def)
  have g: "groups_in G [(groupId, g)]"
    using groups_in_find [OF s(2)] by (auto simp: g_def groups_in_def split: option.splits)
  have same: "groups_in G [(groupId, g')]" if "tg_dynamic g' = tg_dynamic g" for g' using g that by (simp add: groups_in_def)
  let ?gs = "group_assign groupId g (tac_groups ?c)"
  have gs: "groups_in G ?gs" by (rule groups_in_assign [OF s(2) g])
  have "groups_in G (group_assign groupId g' ?gs) \<and> anchors_all T m'" if "static_add now k (g, tac_anchors ?c) = Inr (g', m')" for g' m'
    using add [OF that s(1)] groups_in_assign [OF gs same] by simp
  then show ?thesis
    unfolding loadAnchor_def
    by (intro wp_on_trustAnchors)
      (use assms(2) gs in \<open>auto simp: wp_def tac_insert_def Let_def storage_all_def g_def [symmetric] split: prod.splits sum.splits\<close>)
qed

lemma loadAnchors_wp:
  assumes "copy_closed T" "files_all T fs now (group_files fs G)" "(path, isDirectory) \<in> G" "storage_all G T s"
  shows "wp (loadAnchors fs now groupId path refreshPeriod isDirectory) (\<lambda>_. storage_all G T) (storage_all G T) s"
proof -
  let ?dyn = "\<lparr>dyn_isDirectory = isDirectory, dyn_path = path, dyn_refreshPeriod = refreshPeriod, dyn_expireTime = 0\<rparr>"
  let ?g = "\<lparr>tg_id = groupId, tg_anchorNames = [], tg_dynamic = Some ?dyn\<rparr>"
  have s: "anchors_all T (tac_anchors (cst_trustAnchors s))" "groups_in G (tac_groups (cst_trustAnchors s))"
    using assms(4) by (simp_all add: storage_all_def)
  obtain r g m where r: "dynamic_refresh fs now ?dyn (?g, tac_anchors (cst_trustAnchors s)) = (r, g, m)" by (metis surj_pair)
  have "groups_in G [(groupId, ?g)]" using assms(3) by (simp add: groups_in_def)
  then have g: "anchors_all T m \<and> groups_in G [(groupId, g)]"
    using group_refresh_all [OF assms(1) s(1) assms(2), of groupId ?g r g m] r by (simp add: group_refresh_def)
  show ?thesis
    unfolding loadAnchors_def
    by (intro wp_on_trustAnchors)
      (use assms(4) r g groups_in_assign [OF s(2), of groupId g] in
        \<open>auto simp: wp_def tac_insertDynamic_def Let_def storage_all_def split: sum.splits\<close>)
qed

lemma storage_all_paths: "storage_all G T s \<Longrightarrow> G \<subseteq> G' \<Longrightarrow> storage_all G' T s"
  by (auto simp: storage_all_def groups_in_def)

lemma storage_all_reset:
  "storage_all G T s \<Longrightarrow> storage_all G' T (resetAnchors s)" "storage_all G T s \<Longrightarrow> storage_all G T (resetVerifiedCertificates s)"
  "storage_all G T CertificateStorage"
  by (auto simp: storage_all_def resetAnchors_def resetVerifiedCertificates_def tac_clear_def cch_clear_def anchors_all_def
      cache_all_def CertificateStorage_def TrustAnchorContainer_def CertificateCacheV2_def groups_in_def)

section \<open>Certificates that get lost\<close>

text \<open>
  A certificate that is valid until after the year 2262 is valid but never cached: the end of its validity does
  not fit the clock's 64 bits of nanoseconds and counts as long past.
\<close>

lemma long_validity_not_cached:
  assumes "getValidityPeriod k = Inr \<lparr>vp_period = Some (notBefore, notAfter)\<rparr>" "2 ^ 63 \<le> notAfter * 1000000"
    and "- (2 ^ 63) < now + cch_nowOffset c"
  shows "cch_insert now k c = (Inr (), c)"
  using assms by (simp add: cch_insert_def modifyS_def vp_getNotAfter_def fromMillisecondsSince1970_def)

text \<open>
  The groups of trust anchors share one map by name.  When a file of a dynamic group holds a certificate that is
  also a static anchor, the reload after the file is gone removes the static anchor, and loading it again does
  nothing, since its group still has the name.
\<close>

definition one_file :: "unit files" where
  "one_file = \<lparr>fs_readCertificate = (\<lambda>_. Some new_certificate), fs_directory = (\<lambda>_. None)\<rparr>"

definition no_files :: "unit files" where
  "no_files = \<lparr>fs_readCertificate = (\<lambda>_. None), fs_directory = (\<lambda>_. None)\<rparr>"

lemma static_anchor_lost:
  "let c1 = snd (tac_insert 0 [1] new_certificate TrustAnchorContainer);
       c2 = snd (tac_insertDynamic one_file 0 [2] [] 1000 False c1);
       c3 = snd (tac_refresh no_files 2000 c2);
       c4 = snd (tac_insert 3000 [1] new_certificate c3)
   in map fst (tac_anchors c1) = [crt_name new_certificate] \<and> map fst (tac_anchors c2) = [crt_name new_certificate] \<and>
      tac_anchors c3 = [] \<and> tac_anchors c4 = []"
  by code_simp

end
