(* ===== verification/Validator_Steps.thy ===== *)
theory Validator_Steps
  imports Validator Storage_Props
begin

text \<open>
  What a validation guarantees.  The reference is the inductive notion of a trusted certificate: a trust
  anchor, or a certificate that was valid when the validator looked at it and is signed by a trusted certificate which its
  issuer name finds and which the policy lets sign it.  The proofs follow each handler with the rules for actions.
\<close>

section \<open>Trust\<close>

text \<open>The key locator of a certificate and of the packet under validation, as the policy reads them.\<close>

definition certificate_locator :: "'w certificateV2 \<Rightarrow> name \<Rightarrow> bool" where
  "certificate_locator c kl \<longleftrightarrow> hasIssuerName c = Inr True \<and> getIssuerName c = Inr kl"

definition signature_locator :: "signature option \<Rightarrow> name \<Rightarrow> bool" where
  "signature_locator s kl \<longleftrightarrow> (\<exists>k. kl_getFromSignature s = Inr k \<and> kl_type k = KEYNAME \<and> kl_keyName k = kl)"

fun original_locator :: "'w sec_env \<Rightarrow> 'w original \<Rightarrow> name \<Rightarrow> bool" where
  "original_locator sec (OriginalData (Plain d)) kl \<longleftrightarrow> signature_locator (sp_get (d_signature d)) kl"
| "original_locator sec (OriginalData (Certificate c)) kl \<longleftrightarrow> certificate_locator c kl"
| "original_locator sec (OriginalInterest i) kl \<longleftrightarrow> signature_locator (extractSignature sec i) kl"

fun original_name :: "'w original \<Rightarrow> name" where
  "original_name (OriginalData r) = data_ref_name r"
| "original_name (OriginalInterest i) = int_getName i"

fun original_verified :: "'w sec_env \<Rightarrow> 'w original \<Rightarrow> 'w certificateV2 \<Rightarrow> bool" where
  "original_verified sec (OriginalData r) k \<longleftrightarrow> verifyDataSignature sec r k = Inr True"
| "original_verified sec (OriginalInterest i) k \<longleftrightarrow> verifyInterestSignature sec i k = Inr True"

text \<open>What the hierarchical policy demands of a key locator.\<close>

definition allowed :: "name \<Rightarrow> name \<Rightarrow> bool" where
  "allowed kl n \<longleftrightarrow> name_match (getPrefix kl (-2)) n"

text \<open>
  A key locator locates a certificate whose name it is a prefix of, or whose name with one component more it is:
  the full name, with the digest of the packet.
\<close>

definition locates :: "name \<Rightarrow> name \<Rightarrow> bool" where
  "locates kl n \<longleftrightarrow> name_match kl n \<or> (\<exists>digest. name_equals kl (n @ [digest]))"

lemma locatesI: "name_match kl n \<Longrightarrow> locates kl n"
  by (simp add: locates_def)

text \<open>
  Trust goes back to the anchors \<open>A\<close>.  A certificate that is not an anchor must have been found valid when the validator
  looked at it: \<open>T\<close> are the times at which it did.
\<close>

inductive trusted :: "'w sec_env \<Rightarrow> 'w certificateV2 set \<Rightarrow> int set \<Rightarrow> 'w certificateV2 \<Rightarrow> bool" for sec A T where
  anchor: "c \<in> A \<Longrightarrow> trusted sec A T c"
| copied: "trusted sec A T c \<Longrightarrow> trusted sec A T (crt_copy c)"
| issued: "trusted sec A T k \<Longrightarrow> certificate_locator c kl \<Longrightarrow> allowed kl (crt_name c) \<Longrightarrow>
    locates kl (crt_name k) \<Longrightarrow> t \<in> T \<Longrightarrow> crt_isValid t c = Inr True \<Longrightarrow>
    verifyDataSignature sec (Certificate c) k = Inr True \<Longrightarrow> trusted sec A T c"

definition authentic :: "'w sec_env \<Rightarrow> 'w certificateV2 set \<Rightarrow> int set \<Rightarrow> 'w original \<Rightarrow> bool" where
  "authentic sec A T p \<longleftrightarrow> (\<exists>k kl. trusted sec A T k \<and> original_locator sec p kl \<and> allowed kl (original_name p) \<and>
    locates kl (crt_name k) \<and> original_verified sec p k)"

text \<open>What the proofs carry along: the anchors, the times, and the paths of the groups of anchors that are configured.\<close>

record 'w trust_base =
  tb_anchors :: "'w certificateV2 set"
  tb_times :: "int set"
  tb_paths :: "anchor_path set"

abbreviation trusts :: "'w sec_env \<Rightarrow> 'w trust_base \<Rightarrow> 'w certificateV2 \<Rightarrow> bool" where
  "trusts sec A \<equiv> trusted sec (tb_anchors A) (tb_times A)"

text \<open>An operation that looks at certificates: its clock counts, and what its files hold for the groups is trusted.\<close>

definition env_trusts :: "'w sec_env \<Rightarrow> 'w trust_base \<Rightarrow> 'w validator_env \<Rightarrow> bool" where
  "env_trusts sec A env \<longleftrightarrow> ve_now env \<in> tb_times A \<and>
    files_all (trusts sec A) (ve_files env) (ve_now env) (group_files (ve_files env) (tb_paths A))"

text \<open>What a chain still needs: a certificate for the key locator \<open>kl\<close>.\<close>

fun wants :: "'w sec_env \<Rightarrow> 'w trust_base \<Rightarrow> 'w original \<Rightarrow> 'w certificateV2 list \<Rightarrow> name \<Rightarrow> bool" where
  "wants sec A p [] kl \<longleftrightarrow> original_locator sec p kl \<and> allowed kl (original_name p)"
| "wants sec A p (c # cs) kl \<longleftrightarrow> certificate_locator c kl \<and> allowed kl (crt_name c) \<and>
    (\<exists>t \<in> tb_times A. crt_isValid t c = Inr True) \<and> (\<exists>kl'. wants sec A p cs kl' \<and> locates kl' (crt_name c))"

text \<open>A chain that verifies from a trusted certificate consists of trusted certificates.\<close>

lemma chain_loop_trusted:
  assumes "trusts sec A k" "wants sec A p chain kl" "locates kl (crt_name k)"
    and "chain_loop sec k verified chain = Inr (Inr c)"
  shows "(\<forall>x \<in> set chain. trusts sec A x) \<and> trusts sec A c \<and>
    (\<exists>kl'. original_locator sec p kl' \<and> allowed kl' (original_name p) \<and> locates kl' (crt_name c))"
  using assms
proof (induction chain arbitrary: k kl verified)
  case (Cons x chain)
  obtain t kl' where x: "certificate_locator x kl" "allowed kl (crt_name x)" "t \<in> tb_times A" "crt_isValid t x = Inr True"
    "wants sec A p chain kl'" "locates kl' (crt_name x)"
    using Cons.prems(2) by auto
  have v: "verifyDataSignature sec (Certificate x) k = Inr True"
    and rest: "chain_loop sec x (verified @ [x]) chain = Inr (Inr c)"
    using Cons.prems(4) by (auto simp: bindE_eq_Inr split: if_splits)
  have tx: "trusts sec A x" by (rule trusted.issued [OF Cons.prems(1) x(1,2) Cons.prems(3) x(3,4) v])
  show ?case using Cons.IH [OF tx x(5,6) rest] tx by simp
qed auto

lemma trusted_copy_closed: "copy_closed (trusts sec A)"
  by (simp add: copy_closed_def trusted.copied)

lemma crt_isValid_copy [simp]: "crt_isValid t (crt_copy c) = crt_isValid t c"
  by (simp add: crt_isValid_def)

lemma certificate_locator_copy [simp]: "certificate_locator (crt_copy c) kl = certificate_locator c kl"
  by (cases "crt_x509Info c") (simp_all add: certificate_locator_def hasIssuerName_def getIssuerName_def)

section \<open>The state of one validation\<close>

fun cb_state :: "validationCallback \<Rightarrow> nat" where
  "cb_state (Succeeded i) = i"
| "cb_state (Failed i _) = i"

fun policy_base :: "validationPolicy \<Rightarrow> validationPolicy" where
  "policy_base (CommandInterest options container inner) = policy_base inner"
| "policy_base policy = policy"

definition callbacks_of :: "nat \<Rightarrow> 'w validator \<Rightarrow> validationCallback list" where
  "callbacks_of i v = filter (\<lambda>c. cb_state c = i) (v_callbacks v)"

definition pending_of :: "nat \<Rightarrow> 'w validator \<Rightarrow> 'w pendingFetch list" where
  "pending_of i v = filter (\<lambda>p. pf_state p = i) (v_pending v)"

text \<open>A validation has ended with one callback, waits for one answer, or was left by an exception with neither.\<close>

definition ended :: "'w sec_env \<Rightarrow> 'w trust_base \<Rightarrow> nat \<Rightarrow> 'w validationState \<Rightarrow> validationCallback list \<Rightarrow> bool" where
  "ended sec A i s cbs \<longleftrightarrow>
    vs_outcome s = Some True \<and> cbs = [Succeeded i] \<and> authentic sec (tb_anchors A) (tb_times A) (vs_original s) \<or>
    vs_outcome s = Some False \<and> (\<exists>e. cbs = [Failed i e])"

definition awaits :: "'w sec_env \<Rightarrow> 'w trust_base \<Rightarrow> nat \<Rightarrow> 'w validationState \<Rightarrow> 'w pendingFetch \<Rightarrow> bool" where
  "awaits sec A maxDepth s p \<longleftrightarrow> vs_outcome s = None \<and>
    wants sec A (vs_original s) (vs_certificateChain s) (int_getName (rq_interest (pf_request p))) \<and>
    getDepth s < maxDepth \<and> 0 \<le> rq_nRetriesLeft (pf_request p) \<and> rq_nRetriesLeft (pf_request p) \<le> 3"

definition settled_view ::
    "'w sec_env \<Rightarrow> 'w trust_base \<Rightarrow> nat \<Rightarrow> nat \<Rightarrow> 'w validationState \<Rightarrow> validationCallback list \<Rightarrow>
     'w pendingFetch list \<Rightarrow> bool" where
  "settled_view sec A maxDepth i s cbs ps \<longleftrightarrow>
    ps = [] \<and> ended sec A i s cbs \<or> cbs = [] \<and> (\<exists>p. ps = [p] \<and> awaits sec A maxDepth s p)"

definition abandoned_view :: "'w validationState \<Rightarrow> validationCallback list \<Rightarrow> 'w pendingFetch list \<Rightarrow> bool" where
  "abandoned_view s cbs ps \<longleftrightarrow> vs_outcome s = None \<and> cbs = [] \<and> ps = []"

text \<open>A handler for validation \<open>i\<close> leaves the other validations alone.\<close>

definition frame :: "nat \<Rightarrow> 'w validator \<Rightarrow> 'w validator \<Rightarrow> bool" where
  "frame i v0 v \<longleftrightarrow> length (v_states v) = length (v_states v0) \<and>
    (\<forall>j. j \<noteq> i \<longrightarrow> v_states v ! j = v_states v0 ! j \<and> callbacks_of j v = callbacks_of j v0 \<and> pending_of j v = pending_of j v0) \<and>
    v_maxDepth v = v_maxDepth v0 \<and> v_certificateFetcher v = v_certificateFetcher v0"

definition running :: "'w sec_env \<Rightarrow> 'w trust_base \<Rightarrow> 'w validator \<Rightarrow> nat \<Rightarrow> 'w validator \<Rightarrow> bool" where
  "running sec A v0 i v \<longleftrightarrow> storage_all (tb_paths A) (trusts sec A) (v_storage v) \<and> policy_base (v_policy v) = SimpleHierarchy \<and>
    frame i v0 v \<and> i < length (v_states v)"

definition busy ::
    "'w sec_env \<Rightarrow> 'w trust_base \<Rightarrow> 'w validator \<Rightarrow> nat \<Rightarrow> 'w original \<Rightarrow> 'w certificateV2 list \<Rightarrow> 'w validator \<Rightarrow> bool" where
  "busy sec A v0 i p chain v \<longleftrightarrow> running sec A v0 i v \<and> abandoned_view (v_states v ! i) (callbacks_of i v) (pending_of i v) \<and>
    vs_original (v_states v ! i) = p \<and> vs_certificateChain (v_states v ! i) = chain"

definition settled :: "'w sec_env \<Rightarrow> 'w trust_base \<Rightarrow> 'w validator \<Rightarrow> nat \<Rightarrow> 'w validator \<Rightarrow> bool" where
  "settled sec A v0 i v \<longleftrightarrow> running sec A v0 i v \<and>
    settled_view sec A (v_maxDepth v) i (v_states v ! i) (callbacks_of i v) (pending_of i v)"

definition thrown :: "'w sec_env \<Rightarrow> 'w trust_base \<Rightarrow> 'w validator \<Rightarrow> nat \<Rightarrow> 'w validator \<Rightarrow> bool" where
  "thrown sec A v0 i v \<longleftrightarrow> (\<exists>p chain. busy sec A v0 i p chain v)"

lemma busy_thrown [intro]: "busy sec A v0 i p chain v \<Longrightarrow> thrown sec A v0 i v"
  by (auto simp: thrown_def)

subsection \<open>Elementary actions\<close>

lemma of_updates [simp]:
  "callbacks_of j (v\<lparr>v_states := ss\<rparr>) = callbacks_of j v" "callbacks_of j (v\<lparr>v_storage := st\<rparr>) = callbacks_of j v"
  "callbacks_of j (v\<lparr>v_policy := pol\<rparr>) = callbacks_of j v" "callbacks_of j (v\<lparr>v_pending := ps\<rparr>) = callbacks_of j v"
  "pending_of j (v\<lparr>v_states := ss\<rparr>) = pending_of j v" "pending_of j (v\<lparr>v_storage := st\<rparr>) = pending_of j v"
  "pending_of j (v\<lparr>v_policy := pol\<rparr>) = pending_of j v" "pending_of j (v\<lparr>v_callbacks := cbs\<rparr>) = pending_of j v"
  by (simp_all add: callbacks_of_def pending_of_def)

lemma busy_modify:
  assumes "busy sec A v0 i p chain v" "vs_original (f (v_states v ! i)) = p" "vs_outcome (f (v_states v ! i)) = None"
  shows "busy sec A v0 i p (vs_certificateChain (f (v_states v ! i))) (v\<lparr>v_states := (v_states v)[i := f (v_states v ! i)]\<rparr>)"
  using assms by (auto simp: busy_def running_def frame_def abandoned_view_def)

lemma modify_state_wp:
  assumes "busy sec A v0 i p chain v"
    and "\<And>s. vs_original s = p \<Longrightarrow> vs_certificateChain s = chain \<Longrightarrow> vs_outcome s = None \<Longrightarrow>
      vs_original (f s) = p \<and> vs_outcome (f s) = None \<and> vs_certificateChain (f s) = chain'"
    and "\<And>v'. busy sec A v0 i p chain' v' \<Longrightarrow> Q () v'"
  shows "wp (modify_state i f) Q E v"
proof -
  let ?s = "v_states v ! i"
  have "vs_original (f ?s) = p \<and> vs_outcome (f ?s) = None \<and> vs_certificateChain (f ?s) = chain'"
    using assms(1) by (intro assms(2)) (auto simp: busy_def abandoned_view_def)
  then show ?thesis using busy_modify [OF assms(1), of f] assms(3) by (simp add: modify_state_def)
qed

lemma on_storage_wp:
  assumes "busy sec A v0 i p chain v"
    and "wp m (\<lambda>x s. R x \<and> storage_all (tb_paths A) (trusts sec A) s) (storage_all (tb_paths A) (trusts sec A)) (v_storage v)"
    and "\<And>x v'. R x \<Longrightarrow> busy sec A v0 i p chain v' \<Longrightarrow> Q x v'"
  shows "wp (on_storage m) Q (thrown sec A v0 i) v"
proof -
  have b: "busy sec A v0 i p chain (v\<lparr>v_storage := s\<rparr>)" if "storage_all (tb_paths A) (trusts sec A) s" for s
    using assms(1) that by (auto simp: busy_def running_def frame_def abandoned_view_def)
  show ?thesis
    using assms(2) b busy_thrown [OF b] assms(3)
    by (auto simp: wp_def on_storage_def split: prod.splits sum.splits)
qed

lemma callback_append [simp]:
  "callbacks_of j (v\<lparr>v_callbacks := v_callbacks v @ [c]\<rparr>) = callbacks_of j v @ (if cb_state c = j then [c] else [])"
  by (simp add: callbacks_of_def)

lemma vs_fail_wp:
  assumes "busy sec A v0 i p chain v" and "\<And>v'. settled sec A v0 i v' \<Longrightarrow> Q () v'"
  shows "wp (vs_fail i e) Q (thrown sec A v0 i) v"
proof -
  let ?v = "v\<lparr>v_callbacks := v_callbacks v @ [Failed i e],
    v_states := (v_states v)[i := (v_states v ! i)\<lparr>vs_outcome := Some False\<rparr>]\<rparr>"
  have "settled sec A v0 i ?v"
    using assms(1)
    by (auto simp: busy_def settled_def running_def frame_def abandoned_view_def settled_view_def ended_def)
  moreover have "vs_outcome (v_states v ! i) = None" using assms(1) by (simp add: busy_def abandoned_view_def)
  ultimately show ?thesis
    using assms(2) by (simp add: vs_fail_def callback_def setOutcome_def get_state_def modify_state_def)
qed

lemma policy_base_insert: "policy_base (insert_record_at now level keyName t pol) = policy_base pol"
  by (induction now level keyName t pol rule: insert_record_at.induct) auto

lemma policy_base_inserts:
  "policy_base (fold (\<lambda>(level, keyName, t). insert_record_at now level keyName t) rs pol) = policy_base pol"
  by (induction rs arbitrary: pol) (auto simp: policy_base_insert)

lemma success_wp:
  assumes "busy sec A v0 i p chain v" "authentic sec (tb_anchors A) (tb_times A) p" and "\<And>v'. settled sec A v0 i v' \<Longrightarrow> Q () v'"
  shows "wp (bindS (call_success env i) (\<lambda>_. setOutcome i True)) Q (thrown sec A v0 i) v"
proof -
  let ?v = "v\<lparr>v_callbacks := v_callbacks v @ [Succeeded i],
    v_policy := fold (\<lambda>(level, keyName, t). insert_record_at (ve_now env) level keyName t)
      (vs_newRecords (v_states v ! i)) (v_policy v),
    v_states := (v_states v)[i := (v_states v ! i)\<lparr>vs_outcome := Some True\<rparr>]\<rparr>"
  have "settled sec A v0 i ?v"
    using assms(1,2)
    by (auto simp: busy_def settled_def running_def frame_def abandoned_view_def settled_view_def ended_def policy_base_inserts)
  moreover have "vs_outcome (v_states v ! i) = None" using assms(1) by (simp add: busy_def abandoned_view_def)
  ultimately show ?thesis
    using assms(3) by (simp add: call_success_def callback_def setOutcome_def get_state_def modify_state_def)
qed

lemma doFetch_wp:
  assumes "busy sec A v0 i p chain v" and "wants sec A p chain (int_getName (rq_interest rq))" "length chain < v_maxDepth v"
    and "0 \<le> rq_nRetriesLeft rq" "rq_nRetriesLeft rq \<le> 3" and "\<And>v'. settled sec A v0 i v' \<Longrightarrow> Q () v'"
  shows "wp (doFetch wrapped i rq) Q (thrown sec A v0 i) v"
proof (cases "v_certificateFetcher v")
  case FetcherOffline
  then show ?thesis using vs_fail_wp [OF assms(1), where Q = Q] assms(6) by (simp add: doFetch_def)
next
  case FetcherFromNetwork
  let ?v = "v\<lparr>v_pending := v_pending v @ [\<lparr>pf_request = rq, pf_state = i, pf_wrapped = wrapped\<rparr>]\<rparr>"
  have "pending_of j ?v = pending_of j v @ (if j = i then [\<lparr>pf_request = rq, pf_state = i, pf_wrapped = wrapped\<rparr>] else [])" for j
    by (simp add: pending_of_def)
  then have "settled sec A v0 i ?v"
    using assms(1-5)
    by (auto simp: busy_def settled_def running_def frame_def abandoned_view_def settled_view_def awaits_def getDepth_def)
  then show ?thesis using assms(6) FetcherFromNetwork by (simp add: doFetch_def)
qed

subsection \<open>The handlers\<close>

lemma busy_chain: "busy sec A v0 i p chain v \<Longrightarrow> wp (get_state i vs_certificateChain) Q E v = Q chain v"
  by (simp add: get_state_def busy_def)

lemma busy_original: "busy sec A v0 i p chain v \<Longrightarrow> wp (get_state i vs_original) Q E v = Q p v"
  by (simp add: get_state_def busy_def)

lemma verifyCertificateChain_wp:
  assumes sec: "ve_sec env = sec" and b: "busy sec A v0 i p chain v"
    and t: "trusts sec A k" "wants sec A p chain kl" "locates kl (crt_name k)"
    and Q: "\<And>v'. settled sec A v0 i v' \<Longrightarrow> Q None v'"
      "\<And>c v' kl'. busy sec A v0 i p chain v' \<Longrightarrow> \<forall>x \<in> set chain. trusts sec A x \<Longrightarrow> trusts sec A c \<Longrightarrow>
        original_locator sec p kl' \<Longrightarrow> allowed kl' (original_name p) \<Longrightarrow> locates kl' (crt_name c) \<Longrightarrow> Q (Some c) v'"
  shows "wp (verifyCertificateChain env i k) Q (thrown sec A v0 i) v"
  unfolding verifyCertificateChain_def wp_bindS busy_chain [OF b]
proof (rule wp_liftS_I)
  fix r
  assume r: "chain_loop (ve_sec env) k [] chain = Inr r"
  show "wp (case r of Inr c \<Rightarrow> returnS (Some c)
      | Inl verified \<Rightarrow> bindS (vs_fail i INVALID_SIGNATURE) (\<lambda>_.
          bindS (modify_state i (\<lambda>s. s\<lparr>vs_certificateChain := verified\<rparr>)) (\<lambda>_. returnS None)))
      Q (thrown sec A v0 i) v"
  proof (cases r)
    case (Inr c)
    then show ?thesis using chain_loop_trusted [OF t, of "[]" c] r b Q(2) by (auto simp: sec)
  next
    case (Inl verified)
    have "settled sec A v0 i (v'\<lparr>v_states := (v_states v')[i := (v_states v' ! i)\<lparr>vs_certificateChain := verified\<rparr>]\<rparr>)"
      if "settled sec A v0 i v'" "vs_outcome (v_states v' ! i) \<noteq> None" for v'
      using that by (auto simp: settled_def running_def frame_def settled_view_def ended_def awaits_def)
    moreover have "wp (vs_fail i INVALID_SIGNATURE) (\<lambda>_ v'. vs_outcome (v_states v' ! i) \<noteq> None) (\<lambda>_. True) v"
      using b by (auto simp: vs_fail_def callback_def setOutcome_def get_state_def modify_state_def busy_def running_def)
    moreover have "wp (vs_fail i INVALID_SIGNATURE) (\<lambda>_. settled sec A v0 i) (thrown sec A v0 i) v"
      by (rule vs_fail_wp [OF b])
    ultimately show ?thesis using Inl Q(1)
      by (auto simp: modify_state_def wp_def split: prod.splits sum.splits)
  qed
qed (use b in auto)

lemma cache_chain_wp:
  assumes "busy sec A v0 i p chain v" "\<forall>x \<in> set cs. trusts sec A x" "\<And>ok v'. busy sec A v0 i p chain v' \<Longrightarrow> Q ok v'"
  shows "wp (cache_chain env cs) Q (thrown sec A v0 i) v"
  using assms(1,2)
proof (induction cs arbitrary: v)
  case (Cons c cs)
  have c: "wp (cacheVerifiedCertificate (ve_now env) c) (\<lambda>x s. True \<and> storage_all (tb_paths A) (trusts sec A) s)
      (storage_all (tb_paths A) (trusts sec A)) (v_storage v)"
    using cacheVerifiedCertificate_wp [where T = "trusts sec A" and G = "tb_paths A" and s = "v_storage v" and k = c, OF trusted_copy_closed] Cons.prems
    by (simp add: busy_def running_def)
  show ?case
    unfolding cache_chain.simps wp_bindS
    by (rule on_storage_wp [OF Cons.prems(1) c]) (use assms(3) Cons in auto)
qed (simp add: assms(3))

lemma isRevoked_wp:
  assumes "busy sec A v0 i p chain v" "\<And>r v'. busy sec A v0 i p chain v' \<Longrightarrow> Q r v'"
  shows "wp (isRevoked env c) Q (thrown sec A v0 i) v"
  unfolding isRevoked_def wp_bindS
proof (rule wp_liftS_I)
  fix issuerName
  have "storage_all (tb_paths A) (trusts sec A) (v_storage v)" using assms(1) by (simp add: busy_def running_def)
  then have "wp (findRevokedCertificate (ve_now env) issuerName (getX509SerialNumber c))
      (\<lambda>x s. True \<and> storage_all (tb_paths A) (trusts sec A) s) (storage_all (tb_paths A) (trusts sec A)) (v_storage v)"
    by (rule findRevokedCertificate_wp) simp
  then show "wp (on_storage (findRevokedCertificate (ve_now env) issuerName (getX509SerialNumber c)))
      (\<lambda>x. wp (returnS (x \<noteq> None)) Q (thrown sec A v0 i)) (thrown sec A v0 i) v"
    by (rule on_storage_wp [OF assms(1)]) (simp add: assms(2))
qed (use assms(1) in auto)

lemma verifyOriginalPacket_wp:
  assumes sec: "ve_sec env = sec" and b: "busy sec A v0 i p chain v"
    and k: "trusts sec A k" "original_locator sec p kl" "allowed kl (original_name p)" "locates kl (crt_name k)"
    and Q: "\<And>v'. settled sec A v0 i v' \<Longrightarrow> Q () v'"
  shows "wp (verifyOriginalPacket env i k) Q (thrown sec A v0 i) v"
proof -
  have auth: "authentic sec (tb_anchors A) (tb_times A) p" if "original_verified sec p k" using k that by (auto simp: authentic_def)
  have fail: "wp (vs_fail i e) Q (thrown sec A v0 i) v'" if "busy sec A v0 i p chain v'" for e v'
    by (rule vs_fail_wp [OF that]) (rule Q)
  have succ: "wp (bindS (call_success env i) (\<lambda>_. setOutcome i True)) Q (thrown sec A v0 i) v'"
    if "busy sec A v0 i p chain v'" "original_verified sec p k" for v'
    by (rule success_wp [OF that(1) auth [OF that(2)]]) (rule Q)
  have th: "thrown sec A v0 i v" using b by auto
  show ?thesis
  proof (cases p)
    case (OriginalInterest interest)
    then have "wp (bindS (liftS (verifyInterestSignature (ve_sec env) interest k)) (\<lambda>ok.
        if \<not> ok then vs_fail i INVALID_SIGNATURE else bindS (call_success env i) (\<lambda>_. setOutcome i True))) Q (thrown sec A v0 i) v"
      unfolding wp_bindS
      by (intro wp_liftS_I th) (use fail [OF b] succ [OF b] sec in auto)
    then show ?thesis using OriginalInterest by (simp add: verifyOriginalPacket_def busy_original [OF b])
  next
    case (OriginalData data)
    have ok: "wp (if revoked then vs_fail i REVOKED else bindS (call_success env i) (\<lambda>_. setOutcome i True)) Q (thrown sec A v0 i) v'"
      if "busy sec A v0 i p chain v'" "verifyDataSignature (ve_sec env) data k = Inr True" for revoked v'
      using fail [OF that(1)] succ [OF that(1)] that(2) sec OriginalData by auto
    have "wp (bindS (liftS (verifyDataSignature (ve_sec env) data k)) (\<lambda>ok.
          if \<not> ok then vs_fail i INVALID_SIGNATURE
          else bindS (case data of Plain _ \<Rightarrow> returnS False | Certificate c \<Rightarrow> isRevoked env c) (\<lambda>revoked.
            if revoked then vs_fail i REVOKED else bindS (call_success env i) (\<lambda>_. setOutcome i True)))) Q (thrown sec A v0 i) v"
      unfolding wp_bindS
    proof (intro wp_liftS_I th)
      fix x assume x: "verifyDataSignature (ve_sec env) data k = Inr x"
      show "wp (if \<not> x then vs_fail i INVALID_SIGNATURE
        else bindS (case data of Plain _ \<Rightarrow> returnS False | Certificate c \<Rightarrow> isRevoked env c) (\<lambda>revoked.
          if revoked then vs_fail i REVOKED else bindS (call_success env i) (\<lambda>_. setOutcome i True))) Q (thrown sec A v0 i) v"
        using x fail [OF b] ok ok [OF b, of False]
        by (cases data) (auto intro!: isRevoked_wp [OF b] simp del: wp_bindS simp: wp_bindS [where f = "\<lambda>revoked. if revoked then _ else _"])
    qed
    then show ?thesis using OriginalData by (simp add: verifyOriginalPacket_def busy_original [OF b])
  qed
qed

end
