(* ===== verification/Validator_Props.thy ===== *)
theory Validator_Props
  imports Validator_Steps
begin

text \<open>
  The properties of the validator: what a success callback means, that every validation ends with one callback
  and after a bounded number of answers, and where the code falls short of that.
\<close>

section \<open>Policies\<close>

lemma CertificateRequest_facts [simp]:
  "int_getName (rq_interest (CertificateRequest env kl)) = kl" "rq_nRetriesLeft (CertificateRequest env kl) = 3"
  by (simp_all add: CertificateRequest_def Interest_def int_getName_def counting)

lemma kl_getFromSignature_present: "kl_canGetFromSignature s \<Longrightarrow> \<exists>k. kl_getFromSignature s = Inr k"
  by (cases s rule: kl_canGetFromSignature.cases) auto

lemma fail_with_wp:
  assumes "busy sec A v0 i p chain v" "\<And>v'. settled sec A v0 i v' \<Longrightarrow> vs_outcome (v_states v' ! i) = Some False \<Longrightarrow> Q x v'"
  shows "wp (bindS (vs_fail i e) (\<lambda>_. returnS x)) Q (thrown sec A v0 i) v"
proof -
  have "wp (vs_fail i e) (\<lambda>_ v'. vs_outcome (v_states v' ! i) = Some False) (\<lambda>_. True) v"
    using assms(1) by (auto simp: vs_fail_def callback_def setOutcome_def get_state_def modify_state_def busy_def running_def)
  moreover have "wp (vs_fail i e) (\<lambda>_. settled sec A v0 i) (thrown sec A v0 i) v"
    by (rule vs_fail_wp [OF assms(1)])
  ultimately show ?thesis using assms(2) by (auto simp: wp_def split: prod.splits sum.splits)
qed

text \<open>What the readers of key locators return: the locator, or nothing after a failure.\<close>

lemma getKeyLocatorNameFromSignature_wp:
  assumes b: "busy sec A v0 i p chain v"
    and ok: "\<And>kl v'. busy sec A v0 i p chain v' \<Longrightarrow> signature_locator s kl \<Longrightarrow> Q kl v'"
    and fail: "\<And>v'. settled sec A v0 i v' \<Longrightarrow> vs_outcome (v_states v' ! i) = Some False \<Longrightarrow> Q [] v'"
  shows "wp (getKeyLocatorNameFromSignature i s) Q (thrown sec A v0 i) v"
proof (cases "kl_canGetFromSignature s")
  case True
  then obtain k where k: "kl_getFromSignature s = Inr k" using kl_getFromSignature_present by blast
  then have "signature_locator s (kl_keyName k)" if "kl_type k = KEYNAME"
    using that by (auto simp: signature_locator_def)
  then show ?thesis
    using True k ok [OF b] fail_with_wp [OF b, where Q = Q] fail
    by (simp add: getKeyLocatorNameFromSignature_def del: wp_bindS)
next
  case False
  then show ?thesis
    using fail_with_wp [OF b, where Q = Q] fail by (simp add: getKeyLocatorNameFromSignature_def del: wp_bindS)
qed

fun ref_locator :: "'w data_ref \<Rightarrow> name \<Rightarrow> bool" where
  "ref_locator (Plain d) kl \<longleftrightarrow> signature_locator (sp_get (d_signature d)) kl"
| "ref_locator (Certificate c) kl \<longleftrightarrow> certificate_locator c kl"

lemma getKeyLocatorName_wp:
  assumes b: "busy sec A v0 i p chain v"
    and ok: "\<And>kl v'. busy sec A v0 i p chain v' \<Longrightarrow> ref_locator r kl \<Longrightarrow> Q kl v'"
    and fail: "\<And>v'. settled sec A v0 i v' \<Longrightarrow> vs_outcome (v_states v' ! i) = Some False \<Longrightarrow> Q [] v'"
  shows "wp (getKeyLocatorName i r) Q (thrown sec A v0 i) v"
proof (cases r)
  case (Plain d)
  then show ?thesis
    using getKeyLocatorNameFromSignature_wp [OF b, where Q = Q and s = "sp_get (d_signature d)"] ok fail by simp
next
  case (Certificate c)
  have th: "thrown sec A v0 i v" using b by auto
  have "wp (if \<not> has then bindS (vs_fail i INVALID_KEY_LOCATOR) (\<lambda>_. returnS []) else liftS (getIssuerName c)) Q (thrown sec A v0 i) v"
    if "hasIssuerName c = Inr has" for has
  proof (cases has)
    case True
    have "wp (liftS (getIssuerName c)) Q (thrown sec A v0 i) v"
      by (rule wp_liftS_I) (use that ok [OF b] True Certificate th in \<open>auto simp: certificate_locator_def\<close>)
    then show ?thesis using True by simp
  next
    case False
    then show ?thesis using fail_with_wp [OF b, where Q = Q] fail by (simp del: wp_bindS)
  qed
  then show ?thesis
    unfolding Certificate getKeyLocatorName.simps wp_bindS by (intro wp_liftS_I th) auto
qed

lemma getKeyLocatorName_interest_wp:
  assumes b: "busy sec A v0 i p chain v"
    and ok: "\<And>kl v'. busy sec A v0 i p chain v' \<Longrightarrow> signature_locator (extractSignature sec interest) kl \<Longrightarrow> Q kl v'"
    and fail: "\<And>v'. settled sec A v0 i v' \<Longrightarrow> vs_outcome (v_states v' ! i) = Some False \<Longrightarrow> Q [] v'"
  shows "wp (getKeyLocatorName_interest sec i interest) Q (thrown sec A v0 i) v"
  using fail_with_wp [OF b, where Q = Q] fail
    getKeyLocatorNameFromSignature_wp [OF b, where Q = Q and s = "extractSignature sec interest"] ok
  by (auto simp: getKeyLocatorName_interest_def Let_def simp del: wp_bindS split: option.splits)

text \<open>The hierarchical decision, for a state that is under way or has failed.\<close>

lemma hierarchy_decision_busy:
  assumes b: "busy sec A v0 i p chain v"
    and ok: "\<And>v'. busy sec A v0 i p chain v' \<Longrightarrow> allowed kl n \<Longrightarrow> Q (Continue (Some (CertificateRequest env kl))) v'"
    and fail: "\<And>v'. settled sec A v0 i v' \<Longrightarrow> Q PolicyFailed v'"
  shows "wp (hierarchy_decision env i kl n) Q (thrown sec A v0 i) v"
proof -
  have "\<not> isOutcomeFailed (v_states v ! i)" using b by (simp add: busy_def abandoned_view_def isOutcomeFailed_def)
  then show ?thesis
    using ok [OF b] fail_with_wp [OF b, where Q = Q] fail
    by (auto simp: hierarchy_decision_def get_state_def allowed_def simp del: wp_bindS simp: wp_bindS [where m = "getS _"])
qed

lemma hierarchy_decision_failed:
  assumes "settled sec A v0 i v" "vs_outcome (v_states v ! i) = Some False" and "\<And>v'. settled sec A v0 i v' \<Longrightarrow> Q PolicyFailed v'"
  shows "wp (hierarchy_decision env i kl n) Q E v"
  using assms by (simp add: hierarchy_decision_def get_state_def isOutcomeFailed_def)

lemma checkPolicy_data_wp:
  assumes pol: "policy_base pol = SimpleHierarchy" and b: "busy sec A v0 i p chain v"
    and ok: "\<And>kl v'. busy sec A v0 i p chain v' \<Longrightarrow> ref_locator r kl \<Longrightarrow> allowed kl (data_ref_name r) \<Longrightarrow>
      Q (Continue (Some (CertificateRequest env kl))) v'"
    and fail: "\<And>v'. settled sec A v0 i v' \<Longrightarrow> Q PolicyFailed v'"
  shows "wp (checkPolicy_data env pol i r) Q (thrown sec A v0 i) v"
  using pol
proof (induction pol)
  case SimpleHierarchy
  show ?case
    unfolding checkPolicy_data.simps wp_bindS
  proof (rule getKeyLocatorName_wp [OF b])
    fix kl v'
    assume b': "busy sec A v0 i p chain v'" and kl: "ref_locator r kl"
    show "wp (hierarchy_decision env i kl (data_ref_name r)) Q (thrown sec A v0 i) v'"
      by (rule hierarchy_decision_busy [OF b']) (use ok kl fail in auto)
  next
    fix v'
    assume "settled sec A v0 i v'" "vs_outcome (v_states v' ! i) = Some False"
    then show "wp (hierarchy_decision env i [] (data_ref_name r)) Q (thrown sec A v0 i) v'"
      by (rule hierarchy_decision_failed) (rule fail)
  qed
qed (simp_all add: assms)

lemma policy_base_update: "policy_base (update_records level f pol) = policy_base pol"
  by (induction level f pol rule: update_records.induct) auto

lemma parseCommandInterest_wp:
  assumes sec: "ve_sec env = sec" and b: "busy sec A v0 i p chain v"
    and ok: "\<And>x v'. busy sec A v0 i p chain v' \<Longrightarrow> Q (Some x) v'" and fail: "\<And>v'. settled sec A v0 i v' \<Longrightarrow> Q None v'"
  shows "wp (parseCommandInterest env i interest) Q (thrown sec A v0 i) v"
proof (cases "length (int_getName interest) < 4")
  case True
  then show ?thesis
    using fail_with_wp [OF b, where Q = Q] fail by (simp add: parseCommandInterest_def Let_def del: wp_bindS)
next
  case False
  have th: "thrown sec A v0 i v" using b by auto
  let ?R = "\<lambda>c kl. bindS (get_state i isOutcomeFailed) (\<lambda>failed.
    returnS (if failed then None else Some (kl, fromMillisecondsSince1970 (uint (toNumber c)))))"
  have "wp (getKeyLocatorName_interest sec i interest) (\<lambda>kl. wp (?R c kl) Q (thrown sec A v0 i)) (thrown sec A v0 i) v" for c
    by (rule getKeyLocatorName_interest_wp [OF b])
      (use ok fail in \<open>auto simp: get_state_def isOutcomeFailed_def busy_def abandoned_view_def\<close>)
  then have "wp (liftS (name_get (int_getName interest) (-4))) (\<lambda>c. wp (getKeyLocatorName_interest sec i interest)
      (\<lambda>kl. wp (?R c kl) Q (thrown sec A v0 i)) (thrown sec A v0 i)) (thrown sec A v0 i) v"
    by (intro wp_liftS_I th)
  then show ?thesis using False by (simp add: parseCommandInterest_def Let_def sec)
qed

lemma checkTimestamp_wp:
  assumes b: "busy sec A v0 i p chain v"
    and ok: "\<And>v'. busy sec A v0 i p chain v' \<Longrightarrow> Q True v'" and fail: "\<And>v'. settled sec A v0 i v' \<Longrightarrow> Q False v'"
  shows "wp (checkTimestamp env options level container i keyName t) Q (thrown sec A v0 i) v"
proof -
  let ?v = "\<lambda>f. v\<lparr>v_policy := update_records level f (v_policy v)\<rparr>"
  have b': "busy sec A v0 i p chain (?v f)" for f
    using b by (auto simp: busy_def running_def frame_def policy_base_update)
  have new: "wp (bindS (modify_state i (\<lambda>s. s\<lparr>vs_newRecords := vs_newRecords s @ [(level, keyName, t)]\<rparr>)) (\<lambda>_. returnS True))
    Q (thrown sec A v0 i) (?v f)" for f
    unfolding wp_bindS wp_returnS by (rule modify_state_wp [OF b', where chain' = chain]) (use ok in auto)
  have bad: "wp (bindS (vs_fail i POLICY_ERROR) (\<lambda>_. returnS False)) Q (thrown sec A v0 i) (?v f)" for f
    by (rule fail_with_wp [OF b']) (rule fail)
  show ?thesis
    unfolding checkTimestamp_def Let_def wp_bindS [where m = "modifyS _"] wp_modifyS
    by (simp only: wp_if new bad if_True if_False simp_thms split: if_splits)
qed

lemma checkPolicy_interest_wp:
  assumes sec: "ve_sec env = sec" and pol: "policy_base pol = SimpleHierarchy" and b: "busy sec A v0 i p chain v"
    and ok: "\<And>kl v'. busy sec A v0 i p chain v' \<Longrightarrow> signature_locator (extractSignature sec interest) kl \<Longrightarrow>
      allowed kl (int_getName interest) \<Longrightarrow> Q (Continue (Some (CertificateRequest env kl))) v'"
    and fail: "\<And>v'. settled sec A v0 i v' \<Longrightarrow> Q PolicyFailed v'"
  shows "wp (checkPolicy_interest env level pol i interest) Q (thrown sec A v0 i) v"
  using pol b
proof (induction pol arbitrary: level v)
  case SimpleHierarchy
  show ?case
    unfolding checkPolicy_interest.simps wp_bindS sec
  proof (rule getKeyLocatorName_interest_wp [OF SimpleHierarchy.prems(2)])
    fix kl v'
    assume b': "busy sec A v0 i p chain v'" and kl: "signature_locator (extractSignature sec interest) kl"
    show "wp (hierarchy_decision env i kl (int_getName interest)) Q (thrown sec A v0 i) v'"
      by (rule hierarchy_decision_busy [OF b']) (use ok kl fail in auto)
  next
    fix v'
    assume "settled sec A v0 i v'" "vs_outcome (v_states v' ! i) = Some False"
    then show "wp (hierarchy_decision env i [] (int_getName interest)) Q (thrown sec A v0 i) v'"
      by (rule hierarchy_decision_failed) (rule fail)
  qed
next
  case (CommandInterest options container inner)
  have "wp (checkTimestamp env options level container i keyName t)
      (\<lambda>ok. wp (if \<not> ok then returnS PolicyFailed else checkPolicy_interest env (Suc level) inner i interest) Q (thrown sec A v0 i))
      (thrown sec A v0 i) v'" if "busy sec A v0 i p chain v'" for keyName t v'
    by (rule checkTimestamp_wp [OF that]) (use CommandInterest fail in auto)
  then show ?case
    unfolding checkPolicy_interest.simps wp_bindS
    by (intro parseCommandInterest_wp [OF sec CommandInterest.prems(2)])
      (use fail in \<open>auto simp del: wp_bindS simp: wp_bindS [where m = "checkTimestamp _ _ _ _ _ _ _"] split: prod.splits\<close>)
qed simp

section \<open>Requests\<close>

lemma busy_storage: "busy sec A v0 i p chain v \<Longrightarrow> storage_all (tb_paths A) (trusts sec A) (v_storage v)"
  by (simp add: busy_def running_def)

lemma busy_depth: "busy sec A v0 i p chain v \<Longrightarrow> v_maxDepth v = v_maxDepth v0 \<and> getDepth (v_states v ! i) = length chain"
  by (simp add: busy_def running_def frame_def getDepth_def)

lemma continueFetch_wp:
  assumes "busy sec A v0 i p chain v" "\<And>v'. busy sec A v0 i p chain v' \<Longrightarrow> Q () v'"
  shows "wp (continueFetch env wrapped c) Q (thrown sec A v0 i) v"
  using assms(1)
proof (induction wrapped arbitrary: v)
  case (Suc wrapped)
  have "wp (cacheUnverifiedCertificate (ve_now env) c) (\<lambda>x s. True \<and> storage_all (tb_paths A) (trusts sec A) s)
      (storage_all (tb_paths A) (trusts sec A)) (v_storage v)"
    using cacheUnverifiedCertificate_wp [OF busy_storage [OF Suc.prems]] by simp
  then show ?case
    unfolding continueFetch.simps wp_bindS by (rule on_storage_wp [OF Suc.prems]) (rule Suc.IH)
qed (simp add: assms(2))

lemma fetch_wp:
  assumes b: "busy sec A v0 i p chain v" and w: "wants sec A p chain (int_getName (rq_interest rq))" "length chain < v_maxDepth v0"
    and r: "0 \<le> rq_nRetriesLeft rq" "rq_nRetriesLeft rq \<le> 3"
    and Q: "\<And>v'. settled sec A v0 i v' \<Longrightarrow> Q None v'"
      "\<And>c v'. busy sec A v0 i p chain v' \<Longrightarrow> name_match (int_getName (rq_interest rq)) (crt_name c) \<Longrightarrow> Q (Some c) v'"
  shows "wp (fetch env wrapped i rq) Q (thrown sec A v0 i) v"
  unfolding fetch_def wp_bindS
proof (rule on_storage_wp [OF b])
  show "wp (on_unverified (cch_findInterest (ve_sec env) (ve_now env) (rq_interest rq)))
    (\<lambda>x s. (\<forall>k. x = Some k \<longrightarrow> name_match (int_getName (rq_interest rq)) (crt_name k)) \<and> storage_all (tb_paths A) (trusts sec A) s)
    (storage_all (tb_paths A) (trusts sec A)) (v_storage v)"
    by (rule on_unverified_storage [OF cch_findInterest_wp busy_storage [OF b]])
next
  fix x :: "'a certificateV2 option" and v'
  assume x: "\<forall>k. x = Some k \<longrightarrow> name_match (int_getName (rq_interest rq)) (crt_name k)" and b': "busy sec A v0 i p chain v'"
  show "wp (case x of Some c \<Rightarrow> bindS (continueFetch env wrapped c) (\<lambda>_. returnS (Some c))
      | None \<Rightarrow> bindS (doFetch (Suc wrapped) i rq) (\<lambda>_. returnS None)) Q (thrown sec A v0 i) v'"
  proof (cases x)
    case None
    have "wp (doFetch (Suc wrapped) i rq) (\<lambda>_. Q None) (thrown sec A v0 i) v'"
      using busy_depth [OF b'] w r by (intro doFetch_wp [OF b']) (auto intro: Q(1))
    then show ?thesis using None by simp
  next
    case (Some c)
    have "wp (continueFetch env wrapped c) (\<lambda>_. Q (Some c)) (thrown sec A v0 i) v'"
      by (rule continueFetch_wp [OF b']) (use x Some Q(2) in auto)
    then show ?thesis using Some by simp
  qed
qed

lemma validateCertificate_wp:
  assumes now: "ve_now env \<in> tb_times A" and b: "busy sec A v0 i p chain v" and w: "wants sec A p chain kl0" "locates kl0 (crt_name c)"
    and Q: "\<And>v'. settled sec A v0 i v' \<Longrightarrow> Q None v'"
      "\<And>kl v'. busy sec A v0 i p (crt_copy c # chain) v' \<Longrightarrow> wants sec A p (crt_copy c # chain) kl \<Longrightarrow>
        Q (Some (CertificateRequest env kl)) v'"
  shows "wp (validateCertificate env i c) Q (thrown sec A v0 i) v"
  unfolding validateCertificate_def wp_bindS [where m = "liftS _"]
proof (rule wp_liftS_I)
  fix valid
  assume valid: "crt_isValid (ve_now env) c = Inr valid"
  let ?D = "\<lambda>decision. case decision of PolicyFailed \<Rightarrow> returnS None
    | Continue None \<Rightarrow> bindS (vs_fail i POLICY_ERROR) (\<lambda>_. returnS None)
    | Continue (Some request) \<Rightarrow> bindS (addCertificate i c) (\<lambda>_. returnS (Some request))"
  have add: "wp (addCertificate i c) (\<lambda>_. Q (Some (CertificateRequest env kl))) (thrown sec A v0 i) v'"
    if "busy sec A v0 i p chain v'" "certificate_locator c kl" "allowed kl (crt_name c)" "valid" for kl v'
    unfolding addCertificate_def
    by (rule modify_state_wp [OF that(1), where chain' = "crt_copy c # chain"]) (use that w valid now Q(2) in auto)
  have "policy_base (v_policy v) = SimpleHierarchy" using b by (simp add: busy_def running_def)
  then have "wp (checkPolicy_data env (v_policy v) i (Certificate c)) (\<lambda>d. wp (?D d) Q (thrown sec A v0 i)) (thrown sec A v0 i) v"
    if "valid"
    by (rule checkPolicy_data_wp [OF _ b]) (use add that Q(1) in \<open>auto simp: data_ref_name_def\<close>)
  then show "wp (if \<not> valid then bindS (vs_fail i EXPIRED_CERTIFICATE) (\<lambda>_. returnS None)
      else bindS (getS v_policy) (\<lambda>policy. bindS (checkPolicy_data env policy i (Certificate c)) ?D)) Q (thrown sec A v0 i) v"
    using fail_with_wp [OF b, where Q = Q and x = None and e = EXPIRED_CERTIFICATE] Q(1)
    by (cases valid) (simp_all del: wp_bindS add: wp_bindS [where m = "getS _"] wp_bindS [where m = "checkPolicy_data _ _ _ _"])
qed (use b in auto)

lemma verify_from_wp:
  assumes sec: "ve_sec env = sec" and b: "busy sec A v0 i p chain v"
    and t: "trusts sec A k" "wants sec A p chain kl" "locates kl (crt_name k)"
    and Q: "\<And>v'. settled sec A v0 i v' \<Longrightarrow> Q () v'"
  shows "wp (verify_from env i k) Q (thrown sec A v0 i) v"
  unfolding verify_from_def wp_bindS [where m = "verifyCertificateChain _ _ _"]
proof (rule verifyCertificateChain_wp [OF sec b t])
  fix c v' kl'
  assume b': "busy sec A v0 i p chain v'" and chain: "\<forall>x \<in> set chain. trusts sec A x"
    and c: "trusts sec A c" "original_locator sec p kl'" "allowed kl' (original_name p)" "locates kl' (crt_name c)"
  have "wp (cache_chain env chain) (\<lambda>ok. wp (if \<not> ok then vs_fail i REVOKED else verifyOriginalPacket env i c) Q (thrown sec A v0 i))
    (thrown sec A v0 i) v'"
  proof (rule cache_chain_wp [OF b' chain])
    fix ok v''
    assume b'': "busy sec A v0 i p chain v''"
    have "wp (vs_fail i REVOKED) Q (thrown sec A v0 i) v''" by (rule vs_fail_wp [OF b'']) (rule Q)
    moreover have "wp (verifyOriginalPacket env i c) Q (thrown sec A v0 i) v''"
      by (rule verifyOriginalPacket_wp [OF sec b'' c]) (rule Q)
    ultimately show "wp (if \<not> ok then vs_fail i REVOKED else verifyOriginalPacket env i c) Q (thrown sec A v0 i) v''"
      by simp
  qed
  then show "wp (case Some c of None \<Rightarrow> returnS ()
      | Some certificate \<Rightarrow> bindS (get_state i vs_certificateChain) (\<lambda>chain. bindS (cache_chain env chain) (\<lambda>ok.
          if \<not> ok then vs_fail i REVOKED else verifyOriginalPacket env i certificate))) Q (thrown sec A v0 i) v'"
    by (simp add: busy_chain [OF b'])
qed (simp add: Q)

lemma hasSeen_wp:
  assumes b: "busy sec A v0 i p chain v" and Q: "\<And>seen v'. busy sec A v0 i p chain v' \<Longrightarrow> Q seen v'"
  shows "wp (hasSeenCertificateName i n) Q E v"
proof -
  have "wp (modify_state i (\<lambda>s. s\<lparr>vs_seenCertificateNames := nm_assign n () (vs_seenCertificateNames s)\<rparr>)) (\<lambda>_. Q seen) E v" for seen
    by (rule modify_state_wp [OF b, where chain' = chain]) (use Q in auto)
  then show ?thesis by (simp add: hasSeenCertificateName_def get_state_def)
qed

text \<open>What a request is good for: it asks for the key locator that the chain needs.\<close>

definition request_for :: "'w sec_env \<Rightarrow> 'w trust_base \<Rightarrow> 'w original \<Rightarrow> 'w certificateV2 list \<Rightarrow> 'w certificateRequest \<Rightarrow> bool" where
  "request_for sec A p chain rq \<longleftrightarrow> wants sec A p chain (int_getName (rq_interest rq)) \<and> rq_nRetriesLeft rq = 3"

lemma requestCertificate_once_wp:
  assumes sec: "ve_sec env = sec" and fs: "env_trusts sec A env"
    and b: "busy sec A v0 i p chain v" and rq: "request_for sec A p chain rq"
    and Q: "\<And>v'. settled sec A v0 i v' \<Longrightarrow> Q None v'"
      "\<And>c rq' v'. busy sec A v0 i p (c # chain) v' \<Longrightarrow> request_for sec A p (c # chain) rq' \<Longrightarrow> length chain < v_maxDepth v0 \<Longrightarrow>
        Q (Some rq') v'"
  shows "wp (requestCertificate_once env i rq) Q (thrown sec A v0 i) v"
proof (cases "length chain \<ge> v_maxDepth v0")
  case True
  then show ?thesis
    using busy_depth [OF b] fail_with_wp [OF b, where Q = Q and x = None and e = EXCEEDED_DEPTH_LIMIT] Q(1)
    by (simp add: requestCertificate_once_def get_state_def)
next
  case False
  have now: "ve_now env \<in> tb_times A"
    and files: "files_all (trusts sec A) (ve_files env) (ve_now env) (group_files (ve_files env) (tb_paths A))"
    using fs by (simp_all add: env_trusts_def)
  have w: "wants sec A p chain (int_getName (rq_interest rq))" and r: "0 \<le> rq_nRetriesLeft rq" "rq_nRetriesLeft rq \<le> 3"
    using rq by (simp_all add: request_for_def)
  let ?F = "\<lambda>certificate. case certificate of None \<Rightarrow> returnS None | Some certificate \<Rightarrow> validateCertificate env i certificate"
  let ?T = "\<lambda>x. case x of Some k \<Rightarrow> bindS (verify_from env i k) (\<lambda>_. returnS None)
    | None \<Rightarrow> bindS (fetch env 0 i rq) ?F"
  have fetched: "wp (fetch env 0 i rq) (\<lambda>c. wp (?F c) Q (thrown sec A v0 i)) (thrown sec A v0 i) v'"
    if "busy sec A v0 i p chain v'" for v'
  proof (rule fetch_wp [OF that w _ r])
    fix c :: "'a certificateV2" and v''
    assume "busy sec A v0 i p chain v''" "name_match (int_getName (rq_interest rq)) (crt_name c)"
    then have "wp (validateCertificate env i c) Q (thrown sec A v0 i) v''"
      using False by (intro validateCertificate_wp [OF now _ w]) (auto intro!: Q intro: locatesI simp: request_for_def)
    then show "wp (?F (Some c)) Q (thrown sec A v0 i) v''" by simp
  qed (use False Q(1) in auto)
  have found: "wp (?T x) Q (thrown sec A v0 i) v'"
    if "busy sec A v0 i p chain v'" "\<forall>k. x = Some k \<longrightarrow> trusts sec A k \<and> name_match (int_getName (rq_interest rq)) (crt_name k)" for x v'
  proof (cases x)
    case None
    then show ?thesis using fetched [OF that(1)] by simp
  next
    case (Some k)
    have "wp (verify_from env i k) (\<lambda>_. Q None) (thrown sec A v0 i) v'"
      using that(2) Some by (intro verify_from_wp [OF sec that(1) _ w]) (auto intro: Q(1) locatesI)
    then show ?thesis using Some by simp
  qed
  have "wp (on_storage (findTrustedCertificate (ve_sec env) (ve_files env) (ve_now env) (rq_interest rq)))
      (\<lambda>x. wp (?T x) Q (thrown sec A v0 i)) (thrown sec A v0 i) v'" if b': "busy sec A v0 i p chain v'" for v'
  proof (rule on_storage_wp [OF b'])
    show "wp (findTrustedCertificate (ve_sec env) (ve_files env) (ve_now env) (rq_interest rq))
      (\<lambda>x s. (\<forall>k. x = Some k \<longrightarrow> trusts sec A k \<and> name_match (int_getName (rq_interest rq)) (crt_name k)) \<and>
        storage_all (tb_paths A) (trusts sec A) s) (storage_all (tb_paths A) (trusts sec A)) (v_storage v')"
      by (rule wp_post [OF findTrustedCertificate_wp [OF trusted_copy_closed files busy_storage [OF b']]]) auto
  qed (rule found)
  then have "wp (hasSeenCertificateName i (int_getName (rq_interest rq)))
    (\<lambda>seen. wp (if seen then bindS (vs_fail i LOOP_DETECTED) (\<lambda>_. returnS None)
      else bindS (on_storage (findTrustedCertificate (ve_sec env) (ve_files env) (ve_now env) (rq_interest rq))) ?T)
      Q (thrown sec A v0 i)) (thrown sec A v0 i) v"
    by (intro hasSeen_wp [OF b])
      (use fail_with_wp [where Q = Q and x = None and e = LOOP_DETECTED] Q(1) in
        \<open>auto simp del: wp_bindS simp: wp_bindS [where m = "on_storage _"]\<close>)
  then show ?thesis
    using False busy_depth [OF b]
    by (simp del: wp_bindS add: requestCertificate_once_def get_state_def wp_bindS [where m = "getS _"]
        wp_bindS [where m = "hasSeenCertificateName _ _"])
qed

lemma requestCertificate_rounds_wp:
  assumes sec: "ve_sec env = sec" and fs: "env_trusts sec A env"
    and Q: "\<And>v'. settled sec A v0 i v' \<Longrightarrow> Q () v'"
    and "busy sec A v0 i p chain v" "request_for sec A p chain rq"
  shows "wp (requestCertificate_rounds n env i rq) Q (thrown sec A v0 i) v"
  using assms(4,5)
proof (induction n arbitrary: rq chain v)
  case (Suc n)
  show ?case
    unfolding requestCertificate_rounds.simps wp_bindS
    by (rule requestCertificate_once_wp [OF sec fs Suc.prems]) (use Q Suc.IH in auto)
qed auto

lemma requestCertificate_wp:
  assumes "ve_sec env = sec" "env_trusts sec A env"
    and "busy sec A v0 i p chain v" "request_for sec A p chain rq" and Q: "\<And>v'. settled sec A v0 i v' \<Longrightarrow> Q () v'"
  shows "wp (requestCertificate env i rq) Q (thrown sec A v0 i) v"
  unfolding requestCertificate_def get_state_def wp_bindS wp_getS
  by (rule requestCertificate_rounds_wp [OF assms(1,2) _ assms(3,4)]) (rule Q)

lemma continue_with_wp:
  assumes sec: "ve_sec env = sec" and fs: "env_trusts sec A env"
    and b: "busy sec A v0 i p chain v" and w: "wants sec A p chain kl0" "locates kl0 (crt_name c)"
    and Q: "\<And>v'. settled sec A v0 i v' \<Longrightarrow> Q () v'"
  shows "wp (continue_with env i c) Q (thrown sec A v0 i) v"
  unfolding continue_with_def wp_bindS
proof (rule validateCertificate_wp [OF _ b w])
  fix kl v'
  assume "busy sec A v0 i p (crt_copy c # chain) v'" "wants sec A p (crt_copy c # chain) kl"
  then have "wp (requestCertificate env i (CertificateRequest env kl)) Q (thrown sec A v0 i) v'"
    by (intro requestCertificate_wp [OF sec fs, where p = p and chain = "crt_copy c # chain"])
      (simp_all add: request_for_def Q del: wants.simps)
  then show "wp (case Some (CertificateRequest env kl) of None \<Rightarrow> returnS () | Some request \<Rightarrow> requestCertificate env i request)
    Q (thrown sec A v0 i) v'" by simp
qed (use fs in \<open>simp_all add: Q env_trusts_def\<close>)

section \<open>Answers\<close>

lemma fetcher_onData_wp:
  assumes sec: "ve_sec env = sec" and fs: "env_trusts sec A env"
    and b: "busy sec A v0 (pf_state pf) p chain v" and w: "wants sec A p chain (int_getName (rq_interest (pf_request pf)))"
    and m: "locates (int_getName (rq_interest (pf_request pf))) (data_getName d)"
    and Q: "\<And>v'. settled sec A v0 (pf_state pf) v' \<Longrightarrow> Q () v'"
  shows "wp (fetcher_onData env pf d) Q (thrown sec A v0 (pf_state pf)) v"
proof (cases "CertificateV2_of (ve_sec env) (Plain d)")
  case (Inl e)
  have "wp (vs_fail (pf_state pf) MALFORMED_CERTIFICATE) Q (thrown sec A v0 (pf_state pf)) v"
    by (rule vs_fail_wp [OF b]) (rule Q)
  then show ?thesis using Inl by (simp add: fetcher_onData_def)
next
  case (Inr c)
  then have "crt_name c = data_getName d"
    using data_copy_values [of d] by (auto simp: Let_def bindE_eq_Inr crt_name_def data_get_def data_getName_def)
  then have "wp (continueFetch env (pf_wrapped pf) c) (\<lambda>_. wp (continue_with env (pf_state pf) c) Q (thrown sec A v0 (pf_state pf)))
      (thrown sec A v0 (pf_state pf)) v"
    using m by (intro continueFetch_wp [OF b] continue_with_wp [OF sec fs _ w]) (auto intro: Q)
  then show ?thesis using Inr by (simp add: fetcher_onData_def)
qed

lemma fetcher_retry_wp:
  assumes sec: "ve_sec env = sec" and fs: "env_trusts sec A env"
    and b: "busy sec A v0 (pf_state pf) p chain v" and w: "wants sec A p chain (int_getName (rq_interest (pf_request pf)))"
    and d: "length chain < v_maxDepth v0" "rq_nRetriesLeft (pf_request pf) \<le> 3"
    and Q: "\<And>v'. settled sec A v0 (pf_state pf) v' \<Longrightarrow> Q () v'"
  shows "wp (fetcher_retry env pf) Q (thrown sec A v0 (pf_state pf)) v"
proof -
  let ?rq = "(pf_request pf)\<lparr>rq_nRetriesLeft := rq_nRetriesLeft (pf_request pf) - 1\<rparr>"
  have "wp (vs_fail (pf_state pf) CANNOT_RETRIEVE_CERTIFICATE) Q (thrown sec A v0 (pf_state pf)) v"
    by (rule vs_fail_wp [OF b]) (rule Q)
  moreover have "wp (fetch env (pf_wrapped pf) (pf_state pf) ?rq)
    (\<lambda>c. wp (case c of None \<Rightarrow> returnS () | Some c \<Rightarrow> continue_with env (pf_state pf) c) Q (thrown sec A v0 (pf_state pf)))
    (thrown sec A v0 (pf_state pf)) v" if "0 \<le> rq_nRetriesLeft ?rq"
  proof (rule fetch_wp [OF b])
    fix c :: "'a certificateV2" and v'
    assume "busy sec A v0 (pf_state pf) p chain v'" "name_match (int_getName (rq_interest ?rq)) (crt_name c)"
    then have "wp (continue_with env (pf_state pf) c) Q (thrown sec A v0 (pf_state pf)) v'"
      using w by (intro continue_with_wp [OF sec fs]) (auto intro: Q locatesI)
    then show "wp (case Some c of None \<Rightarrow> returnS () | Some c \<Rightarrow> continue_with env (pf_state pf) c) Q (thrown sec A v0 (pf_state pf)) v'"
      by simp
  qed (use w d that Q in auto)
  ultimately show ?thesis by (simp add: fetcher_retry_def Let_def)
qed

section \<open>New validations\<close>

lemma int_copy_extract: "extractSignature sec (int_copy i) = extractSignature sec i"
  by (simp add: extractSignature_def int_copy_name)

lemma original_copy_same:
  assumes "original_copy sec r = Inr r'"
  shows "original_locator sec (OriginalData r') kl \<longleftrightarrow> ref_locator r kl" and "data_ref_name r' = data_ref_name r"
proof -
  have "original_locator sec (OriginalData r') kl = ref_locator r kl \<and> data_ref_name r' = data_ref_name r"
  proof (cases r)
    case (Plain d)
    then show ?thesis using assms data_copy_values [of d] by (auto simp: data_ref_name_def data_get_def data_getName_def)
  next
    case (Certificate c)
    then have "r' = Certificate (crt_copy c)" using assms by (auto simp: Let_def bindE_eq_Inr crt_copy_def)
    then show ?thesis using Certificate by (simp add: data_ref_name_def)
  qed
  then show "original_locator sec (OriginalData r') kl \<longleftrightarrow> ref_locator r kl" "data_ref_name r' = data_ref_name r" by simp_all
qed

text \<open>A run keeps the stores trusted and every validation in one of its three states.\<close>

definition state_settled :: "'w sec_env \<Rightarrow> 'w trust_base \<Rightarrow> nat \<Rightarrow> 'w validator \<Rightarrow> bool" where
  "state_settled sec A j v \<longleftrightarrow> settled_view sec A (v_maxDepth v) j (v_states v ! j) (callbacks_of j v) (pending_of j v)"

definition state_abandoned :: "nat \<Rightarrow> 'w validator \<Rightarrow> bool" where
  "state_abandoned j v \<longleftrightarrow> abandoned_view (v_states v ! j) (callbacks_of j v) (pending_of j v)"

definition others_ok :: "'w sec_env \<Rightarrow> 'w trust_base \<Rightarrow> nat \<Rightarrow> 'w validator \<Rightarrow> bool" where
  "others_ok sec A i v \<longleftrightarrow> (\<forall>j < length (v_states v). j \<noteq> i \<longrightarrow> state_settled sec A j v \<or> state_abandoned j v) \<and>
    (\<forall>j \<ge> length (v_states v). callbacks_of j v = [] \<and> pending_of j v = [])"

definition validator_inv :: "'w sec_env \<Rightarrow> 'w trust_base \<Rightarrow> 'w validator \<Rightarrow> bool" where
  "validator_inv sec A v \<longleftrightarrow> storage_all (tb_paths A) (trusts sec A) (v_storage v) \<and> policy_base (v_policy v) = SimpleHierarchy \<and>
    (\<forall>j < length (v_states v). state_settled sec A j v \<or> state_abandoned j v) \<and>
    (\<forall>j \<ge> length (v_states v). callbacks_of j v = [] \<and> pending_of j v = [])"

definition all_settled :: "'w sec_env \<Rightarrow> 'w trust_base \<Rightarrow> 'w validator \<Rightarrow> bool" where
  "all_settled sec A v \<longleftrightarrow> (\<forall>j < length (v_states v). state_settled sec A j v)"

lemma settled_inv:
  assumes o: "others_ok sec A i v0" and s: "settled sec A v0 i v"
  shows "validator_inv sec A v \<and> ((\<forall>j < length (v_states v0). j \<noteq> i \<longrightarrow> state_settled sec A j v0) \<longrightarrow> all_settled sec A v)"
proof -
  have f: "frame i v0 v" and i: "state_settled sec A i v" "i < length (v_states v)"
    and v: "storage_all (tb_paths A) (trusts sec A) (v_storage v)" "policy_base (v_policy v) = SimpleHierarchy"
    using s by (auto simp: settled_def running_def state_settled_def)
  have same: "state_settled sec A j v = state_settled sec A j v0" "state_abandoned j v = state_abandoned j v0"
    "callbacks_of j v = callbacks_of j v0" "pending_of j v = pending_of j v0" if "j \<noteq> i" for j
    using f that by (auto simp: frame_def state_settled_def state_abandoned_def)
  have len: "length (v_states v) = length (v_states v0)" using f by (simp add: frame_def)
  show ?thesis
    using o i v same unfolding validator_inv_def others_ok_def all_settled_def len by (metis leD)
qed

lemma thrown_inv:
  assumes o: "others_ok sec A i v0" and s: "thrown sec A v0 i v"
  shows "validator_inv sec A v"
proof -
  have f: "frame i v0 v" and i: "state_abandoned i v" "i < length (v_states v)"
    and v: "storage_all (tb_paths A) (trusts sec A) (v_storage v)" "policy_base (v_policy v) = SimpleHierarchy"
    using s by (auto simp: thrown_def busy_def running_def state_abandoned_def)
  have same: "state_settled sec A j v = state_settled sec A j v0" "state_abandoned j v = state_abandoned j v0"
    "callbacks_of j v = callbacks_of j v0" "pending_of j v = pending_of j v0" if "j \<noteq> i" for j
    using f that by (auto simp: frame_def state_settled_def state_abandoned_def)
  have len: "length (v_states v) = length (v_states v0)" using f by (simp add: frame_def)
  show ?thesis
    using o i v same unfolding validator_inv_def others_ok_def len by (metis leD)
qed

text \<open>What one operation guarantees: the invariant, and no new abandoned validation unless it throws.\<close>

definition step_ok :: "'w sec_env \<Rightarrow> 'w trust_base \<Rightarrow> 'w validator \<Rightarrow> ('w, unit) vact \<Rightarrow> bool" where
  "step_ok sec A v m \<longleftrightarrow>
    wp m (\<lambda>_ v'. validator_inv sec A v' \<and> (all_settled sec A v \<longrightarrow> all_settled sec A v')) (validator_inv sec A) v"

lemma decided_wp:
  assumes "ve_sec env = sec" "env_trusts sec A env"
    and "busy sec A v0 i p [] v" "wants sec A p [] kl" and Q: "\<And>v'. settled sec A v0 i v' \<Longrightarrow> Q () v'"
  shows "wp (decided env i (Continue (Some (CertificateRequest env kl)))) Q (thrown sec A v0 i) v"
proof -
  have "request_for sec A p [] (CertificateRequest env kl)" using assms(4) by (simp add: request_for_def)
  then have "wp (requestCertificate env i (CertificateRequest env kl)) Q (thrown sec A v0 i) v"
    by (rule requestCertificate_wp [OF assms(1-3)]) (rule Q)
  then show ?thesis by (simp add: decided_def continueValidate_def)
qed

lemma new_state_busy:
  assumes "validator_inv sec A v" and v1_def: "v1 = v\<lparr>v_states := v_states v @ [ValidationState p]\<rparr>"
  shows "busy sec A v1 (length (v_states v)) p [] v1" and "others_ok sec A (length (v_states v)) v1"
    and "all_settled sec A v \<Longrightarrow> \<forall>j < length (v_states v1). j \<noteq> length (v_states v) \<longrightarrow> state_settled sec A j v1"
proof -
  have old: "state_settled sec A j v1 = state_settled sec A j v" "state_abandoned j v1 = state_abandoned j v"
    if "j < length (v_states v)" for j
    using that by (simp_all add: v1_def state_settled_def state_abandoned_def nth_append)
  have new: "v_states v1 ! length (v_states v) = ValidationState p" by (simp add: v1_def)
  show "busy sec A v1 (length (v_states v)) p [] v1"
    using assms(1) new unfolding busy_def running_def frame_def validator_inv_def
    by (simp add: v1_def abandoned_view_def ValidationState_def)
  show "others_ok sec A (length (v_states v)) v1"
    using assms(1) old unfolding others_ok_def validator_inv_def by (auto simp: v1_def less_Suc_eq)
  show "\<forall>j < length (v_states v1). j \<noteq> length (v_states v) \<longrightarrow> state_settled sec A j v1" if "all_settled sec A v"
    using that old by (auto simp: all_settled_def v1_def less_Suc_eq)
qed

lemma new_validation_ok:
  assumes inv: "validator_inv sec A v"
    and run: "\<And>v0 i Q. busy sec A v0 i p [] v0 \<Longrightarrow> (\<And>v'. settled sec A v0 i v' \<Longrightarrow> Q () v') \<Longrightarrow> wp (m i) Q (thrown sec A v0 i) v0"
  shows "step_ok sec A v (bindS (new_state p) m)"
proof -
  let ?v1 = "v\<lparr>v_states := v_states v @ [ValidationState p]\<rparr>" and ?i = "length (v_states v)"
  note new = new_state_busy [OF inv refl, of p]
  have "wp (m ?i) (\<lambda>_ v'. validator_inv sec A v' \<and> (all_settled sec A v \<longrightarrow> all_settled sec A v')) (thrown sec A ?v1 ?i) ?v1"
    by (rule run [OF new(1)]) (use settled_inv [OF new(2)] new(3) in blast)
  then have "wp (m ?i) (\<lambda>_ v'. validator_inv sec A v' \<and> (all_settled sec A v \<longrightarrow> all_settled sec A v')) (validator_inv sec A) ?v1"
    by (rule wp_mono) (use thrown_inv [OF new(2)] in auto)
  then show ?thesis by (simp add: step_ok_def new_state_def)
qed

lemma validate_data_ok:
  assumes sec: "ve_sec env = sec" and fs: "env_trusts sec A env" and inv: "validator_inv sec A v"
  shows "step_ok sec A v (validate_data env r)"
proof (cases "original_copy sec r")
  case (Inl e)
  then show ?thesis using inv by (simp add: step_ok_def validate_data_def sec wp_liftS)
next
  case (Inr r')
  have "step_ok sec A v (bindS (new_state (OriginalData r')) (\<lambda>i. bindS (getS v_policy) (\<lambda>policy.
    bindS (checkPolicy_data env policy i r) (decided env i))))"
  proof (rule new_validation_ok [OF inv])
    fix v0 i Q
    assume b: "busy sec A v0 i (OriginalData r') [] v0" and Q: "\<And>v'. settled sec A v0 i v' \<Longrightarrow> Q () v'"
    have pol: "policy_base (v_policy v0) = SimpleHierarchy" using b by (simp add: busy_def running_def)
    have "wp (checkPolicy_data env (v_policy v0) i r) (\<lambda>d. wp (decided env i d) Q (thrown sec A v0 i)) (thrown sec A v0 i) v0"
    proof (rule checkPolicy_data_wp [OF pol b])
      fix kl v'
      assume b': "busy sec A v0 i (OriginalData r') [] v'" and kl: "ref_locator r kl" "allowed kl (data_ref_name r)"
      show "wp (decided env i (Continue (Some (CertificateRequest env kl)))) Q (thrown sec A v0 i) v'"
        by (rule decided_wp [OF sec fs b']) (use kl original_copy_same [OF Inr] Q in auto)
    qed (simp add: decided_def Q)
    then show "wp (bindS (getS v_policy) (\<lambda>policy. bindS (checkPolicy_data env policy i r) (decided env i))) Q (thrown sec A v0 i) v0"
      by simp
  qed
  then show ?thesis using Inr by (simp add: step_ok_def validate_data_def sec wp_liftS)
qed

lemma validate_interest_ok:
  assumes sec: "ve_sec env = sec" and fs: "env_trusts sec A env" and inv: "validator_inv sec A v"
  shows "step_ok sec A v (validate_interest env interest)"
  unfolding validate_interest_def
proof (rule new_validation_ok [OF inv])
  fix v0 i Q
  assume b: "busy sec A v0 i (OriginalInterest (int_copy interest)) [] v0" and Q: "\<And>v'. settled sec A v0 i v' \<Longrightarrow> Q () v'"
  have pol: "policy_base (v_policy v0) = SimpleHierarchy" using b by (simp add: busy_def running_def)
  have "wp (checkPolicy_interest env 0 (v_policy v0) i interest) (\<lambda>d. wp (decided env i d) Q (thrown sec A v0 i)) (thrown sec A v0 i) v0"
  proof (rule checkPolicy_interest_wp [OF sec pol b])
    fix kl v'
    assume b': "busy sec A v0 i (OriginalInterest (int_copy interest)) [] v'"
      and kl: "signature_locator (extractSignature sec interest) kl" "allowed kl (int_getName interest)"
    show "wp (decided env i (Continue (Some (CertificateRequest env kl)))) Q (thrown sec A v0 i) v'"
      by (rule decided_wp [OF sec fs b']) (use kl Q in \<open>auto simp: int_copy_extract int_copy_name\<close>)
  qed (simp add: decided_def Q)
  then show "wp (bindS (getS v_policy) (\<lambda>policy. bindS (checkPolicy_interest env 0 policy i interest) (decided env i)))
    Q (thrown sec A v0 i) v0" by simp
qed

section \<open>Operations\<close>

lemma answers_locates:
  assumes "answers env pf d"
  shows "locates (int_getName (rq_interest (pf_request pf))) (data_getName d)"
proof -
  let ?w = "se_wire (ve_sec env)" and ?i = "rq_interest (pf_request pf)"
  obtain d' where m: "matchesData ?w (env_default ?w) ?i d = Inr (True, d')" and wire: "wire_packet d"
    using assms by (auto simp: answers_def split: sum.splits prod.splits)
  have full: "\<exists>digest. fullName = data_getName d @ [digest]"
    if f: "data_getFullName ?w (env_default ?w) d = Inr (fullName, d'')" for fullName d''
  proof -
    obtain e d1 where e: "data_getDefaultWireEncoding d = (e, d1)" by fastforce
    have same: "d_defaultFullName d1 = d_defaultFullName d" "data_getName d1 = data_getName d"
      using e by (auto simp: data_getDefaultWireEncoding_def Let_def data_getChangeCount_def data_getName_def counting
          case_prod_unfold split: if_splits)
    show ?thesis
    proof (cases "e \<noteq> None \<and> length (d_defaultFullName d1) > 0 \<and> d_defaultWireEncodingFormat d1 = Some (env_default ?w)")
      case True
      then have "fullName = d_defaultFullName d" "length (d_defaultFullName d) > 0"
        using f e same by (simp_all add: data_getFullName_def)
      then show ?thesis using wire by (metis wire_packet_def append_butlast_last_id length_greater_0_conv less_irrefl)
    next
      case False
      then show ?thesis using f e same by (auto simp: data_getFullName_def Let_def bindE_eq_Inr split: prod.splits)
    qed
  qed
  show ?thesis
  proof (cases "length (int_getName ?i) = length (data_getName d) + 1")
    case True
    then obtain fullName d1 where f: "data_getFullName ?w (env_default ?w) d = Inr (fullName, d1)" "name_equals (int_getName ?i) fullName"
      using m by (auto simp: matchesData_def Let_def bindE_eq_Inr split: if_splits)
    then show ?thesis using full [OF f(1)] by (auto simp: locates_def)
  next
    case False
    then have "name_match (int_getName ?i) (data_getName d)"
      using m by (auto simp: matchesData_def Let_def bindE_eq_Inr split: if_splits)
    then show ?thesis by (rule locatesI)
  qed
qed

lemma take_pending_busy:
  assumes inv: "validator_inv sec A v" and k: "k < length (v_pending v)"
    and v1_def: "v1 = v\<lparr>v_pending := take k (v_pending v) @ drop (Suc k) (v_pending v)\<rparr>"
    and i_def: "i = pf_state (v_pending v ! k)"
  shows "\<exists>p chain. busy sec A v1 i p chain v1 \<and> wants sec A p chain (int_getName (rq_interest (pf_request (v_pending v ! k)))) \<and>
      length chain < v_maxDepth v \<and> rq_nRetriesLeft (pf_request (v_pending v ! k)) \<le> 3" (is ?A)
    and "others_ok sec A i v1" and "all_settled sec A v \<Longrightarrow> \<forall>j < length (v_states v1). j \<noteq> i \<longrightarrow> state_settled sec A j v1"
proof -
  let ?pf = "v_pending v ! k" and ?s = "v_states v ! i"
  have split: "v_pending v = take k (v_pending v) @ ?pf # drop (Suc k) (v_pending v)" by (rule id_take_nth_drop [OF k])
  have of_i: "pending_of i v = filter (\<lambda>p. pf_state p = i) (take k (v_pending v)) @ ?pf # filter (\<lambda>p. pf_state p = i) (drop (Suc k) (v_pending v))"
    unfolding pending_of_def by (subst split) (simp add: i_def)
  have of_i1: "pending_of i v1 = filter (\<lambda>p. pf_state p = i) (take k (v_pending v)) @ filter (\<lambda>p. pf_state p = i) (drop (Suc k) (v_pending v))"
    by (simp add: pending_of_def v1_def)
  have other: "pending_of j v1 = pending_of j v" if "j \<noteq> i" for j
    unfolding pending_of_def v1_def by (subst (3) split) (use that in \<open>simp add: i_def\<close>)
  have "pending_of i v \<noteq> []" using of_i by simp
  then have i: "i < length (v_states v)" using inv unfolding validator_inv_def by (meson not_le)
  then have "state_settled sec A i v \<or> state_abandoned i v" using inv by (simp add: validator_inv_def)
  then have cb: "callbacks_of i v = []" and aw: "awaits sec A (v_maxDepth v) ?s ?pf" and "pending_of i v = [?pf]"
    using of_i by (auto simp: state_settled_def settled_view_def state_abandoned_def abandoned_view_def append_eq_Cons_conv)
  then have none: "pending_of i v1 = []" using of_i of_i1 by (auto simp: append_eq_Cons_conv)
  have "busy sec A v1 i (vs_original ?s) (vs_certificateChain ?s) v1"
    using inv i cb none aw by (simp add: busy_def running_def frame_def validator_inv_def v1_def abandoned_view_def awaits_def)
  then show ?A using aw by (auto simp: awaits_def getDepth_def)
  have old: "state_settled sec A j v1 = state_settled sec A j v" "state_abandoned j v1 = state_abandoned j v" if "j \<noteq> i" for j
    using other [OF that] by (simp_all add: v1_def state_settled_def state_abandoned_def)
  have len: "v_states v1 = v_states v" "callbacks_of j v1 = callbacks_of j v" for j by (simp_all add: v1_def)
  show "others_ok sec A i v1"
    using inv old other i len unfolding others_ok_def validator_inv_def by (metis leD)
  show "\<forall>j < length (v_states v1). j \<noteq> i \<longrightarrow> state_settled sec A j v1" if "all_settled sec A v"
    using that old len by (simp add: all_settled_def)
qed

lemma answer_ok:
  assumes inv: "validator_inv sec A v"
    and run: "\<And>v0 pf p chain Q. pf = v_pending v ! k \<Longrightarrow> k < length (v_pending v) \<Longrightarrow> v_maxDepth v0 = v_maxDepth v \<Longrightarrow>
      busy sec A v0 (pf_state pf) p chain v0 \<Longrightarrow>
      wants sec A p chain (int_getName (rq_interest (pf_request pf))) \<Longrightarrow> length chain < v_maxDepth v \<Longrightarrow>
      rq_nRetriesLeft (pf_request pf) \<le> 3 \<Longrightarrow> (\<And>v'. settled sec A v0 (pf_state pf) v' \<Longrightarrow> Q () v') \<Longrightarrow>
      wp (m pf) Q (thrown sec A v0 (pf_state pf)) v0"
  shows "step_ok sec A v (take_pending k m)"
proof (cases "k < length (v_pending v)")
  case True
  let ?v1 = "v\<lparr>v_pending := take k (v_pending v) @ drop (Suc k) (v_pending v)\<rparr>" and ?pf = "v_pending v ! k"
  note t = take_pending_busy [OF inv True refl refl]
  obtain p chain where b: "busy sec A ?v1 (pf_state ?pf) p chain ?v1" "wants sec A p chain (int_getName (rq_interest (pf_request ?pf)))"
    "length chain < v_maxDepth v" "rq_nRetriesLeft (pf_request ?pf) \<le> 3" using t(1) by blast
  have "wp (m ?pf) (\<lambda>_ v'. validator_inv sec A v' \<and> (all_settled sec A v \<longrightarrow> all_settled sec A v'))
      (thrown sec A ?v1 (pf_state ?pf)) ?v1"
    by (rule run [OF refl True _ b]) (use settled_inv [OF t(2)] t(3) in auto)
  then have "wp (m ?pf) (\<lambda>_ v'. validator_inv sec A v' \<and> (all_settled sec A v \<longrightarrow> all_settled sec A v')) (validator_inv sec A) ?v1"
    by (rule wp_mono) (use thrown_inv [OF t(2)] in auto)
  then show ?thesis using True by (simp add: step_ok_def take_pending_def)
next
  case False
  then show ?thesis using inv by (simp add: step_ok_def take_pending_def)
qed

lemma storage_op_ok:
  assumes inv: "validator_inv sec A v" and m: "wp m (\<lambda>_. storage_all (tb_paths A) (trusts sec A)) (storage_all (tb_paths A) (trusts sec A)) (v_storage v)"
  shows "step_ok sec A v (on_storage m)"
proof -
  have "validator_inv sec A (v\<lparr>v_storage := s\<rparr>) \<and> (all_settled sec A v \<longrightarrow> all_settled sec A (v\<lparr>v_storage := s\<rparr>))"
    if "storage_all (tb_paths A) (trusts sec A) s" for s
    using inv that by (simp add: validator_inv_def all_settled_def state_settled_def state_abandoned_def)
  then show ?thesis
    using m by (auto simp: step_ok_def wp_def on_storage_def split: prod.splits sum.splits)
qed

section \<open>Trust anchors of a run\<close>

text \<open>
  The paths that are configured after an operation, and the certificates that an operation can make anchors: the one
  that it loads, and those in the files of the configured paths as the operation finds them; all of them valid by the
  operation's clock.
\<close>

fun configured :: "'w validator_op \<Rightarrow> anchor_path set \<Rightarrow> anchor_path set" where
  "configured (LoadAnchors groupId path refreshPeriod isDirectory) G = insert (path, isDirectory) G"
| "configured ResetAnchors G = {}"
| "configured op G = G"

definition op_anchors :: "anchor_path set \<Rightarrow> 'w validator_env \<Rightarrow> 'w validator_op \<Rightarrow> 'w certificateV2 set" where
  "op_anchors G env op = file_certificates (ve_files env) (ve_now env) (group_files (ve_files env) G) \<union>
    (case op of LoadAnchor _ c \<Rightarrow> if crt_isValid (ve_now env) c = Inr True then {c} else {} | _ \<Rightarrow> {})"

fun run_anchors :: "anchor_path set \<Rightarrow> ('w validator_env \<times> 'w validator_op) list \<Rightarrow> 'w certificateV2 set" where
  "run_anchors G [] = {}"
| "run_anchors G ((env, op) # ops) = op_anchors (configured op G) env op \<union> run_anchors (configured op G) ops"

text \<open>The times at which the validator looks at certificates: those of new validations and of answers.\<close>

fun looks :: "'w validator_op \<Rightarrow> bool" where
  "looks (ValidateData r) \<longleftrightarrow> True"
| "looks (ValidateInterest i) \<longleftrightarrow> True"
| "looks (AnswerData k d) \<longleftrightarrow> True"
| "looks (AnswerNack k) \<longleftrightarrow> True"
| "looks (AnswerTimeout k) \<longleftrightarrow> True"
| "looks op \<longleftrightarrow> False"

definition run_times :: "('w validator_env \<times> 'w validator_op) list \<Rightarrow> int set" where
  "run_times ops = {ve_now env | env op. (env, op) \<in> set ops \<and> looks op}"

lemma run_times_simps [simp]:
  "run_times [] = {}" "run_times ((env, op) # ops) = (if looks op then {ve_now env} else {}) \<union> run_times ops"
  by (auto simp: run_times_def)

text \<open>The invariant does not depend on paths that are added, and resetting the anchors leaves none.\<close>

lemma trust_base_views:
  "settled_view sec (A\<lparr>tb_paths := G\<rparr>) = settled_view sec A" "all_settled sec (A\<lparr>tb_paths := G\<rparr>) = all_settled sec A"
proof -
  have w: "wants sec (A\<lparr>tb_paths := G\<rparr>) p chain kl = wants sec A p chain kl" for p chain kl
    by (induction chain arbitrary: kl) auto
  show s: "settled_view sec (A\<lparr>tb_paths := G\<rparr>) = settled_view sec A"
    by (simp add: fun_eq_iff settled_view_def ended_def awaits_def w)
  show "all_settled sec (A\<lparr>tb_paths := G\<rparr>) = all_settled sec A"
    by (simp add: fun_eq_iff all_settled_def state_settled_def s)
qed

lemma validator_inv_paths:
  "validator_inv sec (A\<lparr>tb_paths := G\<rparr>) v \<longleftrightarrow> storage_all G (trusts sec A) (v_storage v) \<and> policy_base (v_policy v) = SimpleHierarchy \<and>
    (\<forall>j < length (v_states v). state_settled sec A j v \<or> state_abandoned j v) \<and>
    (\<forall>j \<ge> length (v_states v). callbacks_of j v = [] \<and> pending_of j v = [])"
  by (simp add: validator_inv_def state_settled_def trust_base_views)

lemma validator_inv_more: "validator_inv sec (A\<lparr>tb_paths := G\<rparr>) v \<Longrightarrow> G \<subseteq> G' \<Longrightarrow> validator_inv sec (A\<lparr>tb_paths := G'\<rparr>) v"
  unfolding validator_inv_paths using storage_all_paths by blast

lemma validator_step_kept:
  assumes sec: "ve_sec env = sec" and A: "op_anchors (tb_paths A) env op \<subseteq> tb_anchors A" and T: "looks op \<Longrightarrow> ve_now env \<in> tb_times A"
    and path: "configured op (tb_paths A) \<subseteq> tb_paths A" and inv: "validator_inv sec A v"
  shows "step_ok sec A v (validator_step env op)"
proof -
  have files: "files_all (trusts sec A) (ve_files env) (ve_now env) (group_files (ve_files env) (tb_paths A))"
    using A by (auto simp: files_all_def op_anchors_def intro!: trusted.anchor)
  then have fs: "env_trusts sec A env" if "looks op" using T [OF that] by (simp add: env_trusts_def)
  have st: "storage_all (tb_paths A) (trusts sec A) (v_storage v)" using inv by (simp add: validator_inv_def)
  show ?thesis
  proof (cases op)
    case (AnswerData k d)
    then have fs: "env_trusts sec A env" using fs by simp
    show ?thesis
    proof (cases "k < length (v_pending v) \<and> answers env (v_pending v ! k) d")
      case True
      have "step_ok sec A v (take_pending k (\<lambda>p. fetcher_onData env p d))"
        by (rule answer_ok [OF inv], rule fetcher_onData_wp [OF sec fs]) (use True answers_locates in auto)
      then show ?thesis using AnswerData True by (simp add: step_ok_def wp_def)
    next
      case False
      then show ?thesis using AnswerData inv by (auto simp: step_ok_def wp_def)
    qed
  next
    case (AnswerNack k)
    then have fs: "env_trusts sec A env" using fs by simp
    have "step_ok sec A v (take_pending k (fetcher_retry env))"
      by (rule answer_ok [OF inv], rule fetcher_retry_wp [OF sec fs]) auto
    then show ?thesis using AnswerNack by simp
  next
    case (AnswerTimeout k)
    then have fs: "env_trusts sec A env" using fs by simp
    have "step_ok sec A v (take_pending k (fetcher_retry env))"
      by (rule answer_ok [OF inv], rule fetcher_retry_wp [OF sec fs]) auto
    then show ?thesis using AnswerTimeout by simp
  next
    case (LoadAnchor g c)
    then have "trusts sec A c" if "crt_isValid (ve_now env) c = Inr True" using A that by (auto simp: op_anchors_def intro!: trusted.anchor)
    then show ?thesis
      unfolding LoadAnchor validator_step.simps by (intro storage_op_ok [OF inv] loadAnchor_wp trusted_copy_closed st)
  next
    case (LoadAnchors g path t d)
    then have "(path, d) \<in> tb_paths A" using path by simp
    then show ?thesis
      unfolding LoadAnchors validator_step.simps by (intro storage_op_ok [OF inv] loadAnchors_wp trusted_copy_closed st files)
  qed (use fs validate_data_ok [OF sec _ inv] validate_interest_ok [OF sec _ inv] storage_op_ok [OF inv] cacheVerifiedCrl_wp [OF st]
      storage_all_reset(1,2) [OF st] in auto)
qed

text \<open>One operation, with the paths that are configured before it and after it.\<close>

lemma validator_step_ok:
  assumes sec: "ve_sec env = sec" and A: "op_anchors (configured op G) env op \<subseteq> tb_anchors A" and T: "looks op \<Longrightarrow> ve_now env \<in> tb_times A"
    and inv: "validator_inv sec (A\<lparr>tb_paths := G\<rparr>) v"
  shows "step_ok sec (A\<lparr>tb_paths := configured op G\<rparr>) v (validator_step env op)"
proof (cases "op = ResetAnchors")
  case True
  let ?v = "v\<lparr>v_storage := resetAnchors (v_storage v)\<rparr>"
  have "storage_all G (trusts sec A) (v_storage v)" using inv unfolding validator_inv_paths by blast
  then have "storage_all {} (trusts sec A) (resetAnchors (v_storage v))" by (rule storage_all_reset(1))
  then have "validator_inv sec (A\<lparr>tb_paths := {}\<rparr>) ?v" "all_settled sec A v \<Longrightarrow> all_settled sec A ?v"
    using inv unfolding validator_inv_paths
    by (simp_all add: state_settled_def state_abandoned_def all_settled_def)
  then show ?thesis using True by (simp add: step_ok_def wp_def on_storage_def modifyS_def trust_base_views)
next
  case False
  then have "G \<subseteq> configured op G" "configured op (configured op G) = configured op G" by (cases op; auto)+
  then show ?thesis using A T validator_inv_more [OF inv] by (intro validator_step_kept [OF sec]) simp_all
qed

section \<open>Runs\<close>

lemma Validator_inv:
  assumes "policy_base pol = SimpleHierarchy"
  shows "validator_inv sec A (Validator pol fetcher) \<and> all_settled sec A (Validator pol fetcher)"
  using assms storage_all_reset(3)
  by (simp add: validator_inv_def Validator_def all_settled_def callbacks_of_def pending_of_def)

lemma validator_inv_depth: "validator_inv sec A v \<Longrightarrow> v_states v = [] \<Longrightarrow> validator_inv sec A (setMaxDepth n v)"
  by (simp add: validator_inv_def setMaxDepth_def callbacks_of_def pending_of_def)

text \<open>A run in which no operation throws.\<close>

fun quiet_run :: "('w validator_env \<times> 'w validator_op) list \<Rightarrow> 'w validator \<Rightarrow> bool" where
  "quiet_run [] v \<longleftrightarrow> True"
| "quiet_run ((env, op) # ops) v \<longleftrightarrow>
    \<not> isl (fst (validator_step env op v)) \<and> quiet_run ops (snd (validator_step env op v))"

lemma step_ok_result:
  assumes "step_ok sec A w m"
  shows "validator_inv sec A (snd (m w))" "\<not> isl (fst (m w)) \<Longrightarrow> all_settled sec A w \<Longrightarrow> all_settled sec A (snd (m w))"
  using assms by (cases "m w"; cases "fst (m w)"; simp add: step_ok_def wp_def)+

lemma validator_run_inv:
  assumes "\<forall>x \<in> set ops. ve_sec (fst x) = sec" "run_anchors G ops \<subseteq> tb_anchors A" "run_times ops \<subseteq> tb_times A"
    and "validator_inv sec (A\<lparr>tb_paths := G\<rparr>) v"
  shows "(\<exists>G'. validator_inv sec (A\<lparr>tb_paths := G'\<rparr>) (validator_run ops v)) \<and>
    (quiet_run ops v \<longrightarrow> all_settled sec A v \<longrightarrow> all_settled sec A (validator_run ops v))"
  using assms
proof (induction ops arbitrary: v G)
  case (Cons x ops)
  obtain env op where x: "x = (env, op)" by (cases x)
  let ?w = "snd (validator_step env op v)"
  have "step_ok sec (A\<lparr>tb_paths := configured op G\<rparr>) v (validator_step env op)"
    using Cons.prems(1-3) by (intro validator_step_ok [OF _ _ _ Cons.prems(4)]) (auto simp: x split: if_splits)
  note step = step_ok_result [OF this, unfolded trust_base_views]
  have "(\<exists>G'. validator_inv sec (A\<lparr>tb_paths := G'\<rparr>) (validator_run ops ?w)) \<and>
      (quiet_run ops ?w \<longrightarrow> all_settled sec A ?w \<longrightarrow> all_settled sec A (validator_run ops ?w))"
    using Cons.prems(1-3) by (intro Cons.IH [OF _ _ _ step(1)]) (auto simp: x simp del: validator_run.simps)
  then show ?case using step(2) by (simp only: x validator_run.simps quiet_run.simps) blast
qed auto

definition run_trust :: "('w validator_env \<times> 'w validator_op) list \<Rightarrow> 'w trust_base" where
  "run_trust ops = \<lparr>tb_anchors = run_anchors {} ops, tb_times = run_times ops, tb_paths = {}\<rparr>"

text \<open>What every run from a new validator keeps, and what it keeps if nothing throws.\<close>

lemma validator_run_views:
  assumes pol: "policy_base pol = SimpleHierarchy" and sec: "\<forall>x \<in> set ops. ve_sec (fst x) = sec"
    and u: "u = setMaxDepth n (Validator pol fetcher)" and v: "v = validator_run ops u"
  shows "j < length (v_states v) \<Longrightarrow> state_settled sec (run_trust ops) j v \<or> state_abandoned j v"
    and "callbacks_of j v \<noteq> [] \<Longrightarrow> j < length (v_states v)"
    and "quiet_run ops u \<Longrightarrow> j < length (v_states v) \<Longrightarrow> state_settled sec (run_trust ops) j v"
proof -
  let ?A = "run_trust ops"
  have "validator_inv sec (?A\<lparr>tb_paths := {}\<rparr>) u"
    unfolding u by (rule validator_inv_depth [OF conjunct1 [OF Validator_inv [OF pol]]]) (simp add: Validator_def)
  moreover have "all_settled sec ?A u" by (simp add: u Validator_def all_settled_def setMaxDepth_def)
  ultimately have start: "validator_inv sec (?A\<lparr>tb_paths := {}\<rparr>) u \<and> all_settled sec ?A u" by blast
  then obtain G where "validator_inv sec (?A\<lparr>tb_paths := G\<rparr>) v" "quiet_run ops u \<Longrightarrow> all_settled sec ?A v"
    using validator_run_inv [OF sec, of "{}" ?A u] by (auto simp: v run_trust_def)
  then show "j < length (v_states v) \<Longrightarrow> state_settled sec ?A j v \<or> state_abandoned j v"
    "callbacks_of j v \<noteq> [] \<Longrightarrow> j < length (v_states v)"
    "quiet_run ops u \<Longrightarrow> j < length (v_states v) \<Longrightarrow> state_settled sec ?A j v"
    unfolding validator_inv_paths all_settled_def by (auto simp: not_le [symmetric])
qed

section \<open>Examples\<close>

text \<open>A root certificate, one that it signs, and packets that the second one signs.\<close>

definition root_certificate :: "unit certificateV2" where
  "root_certificate = sample_certificate [comp ''a'', KEY_COMPONENT, comp ''1'', comp ''i'', comp ''v''] [] [] 900000 [7]"

definition signer_certificate :: "unit certificateV2" where
  "signer_certificate =
    sample_certificate [comp ''a'', KEY_COMPONENT, comp ''2'', comp ''i'', comp ''v'']
      [comp ''a'', KEY_COMPONENT, comp ''1''] [7] 900000 [8]"

definition signed_data :: "name \<Rightarrow> name \<Rightarrow> byte list \<Rightarrow> unit data_ref" where
  "signed_data n locator bits = Plain (certificate_data n (rsa_signature locator bits (0, 0)) [])"

definition env_at :: "int \<Rightarrow> unit validator_env" where
  "env_at now = \<lparr>ve_sec = sample_sec, ve_files = no_files, ve_defaultCanBePrefix = True, ve_now = now\<rparr>"

definition good_run :: "(unit validator_env \<times> unit validator_op) list" where
  "good_run = map (Pair (env_at 2000000000))
    [LoadAnchor [] root_certificate,
     ValidateData (signed_data [comp ''a'', comp ''x''] [comp ''a'', KEY_COMPONENT, comp ''2''] [8]),
     AnswerTimeout 0,
     AnswerData 0 (crt_data signer_certificate)]"

definition new_validator :: "unit validator" where
  "new_validator = setMaxDepth 5 (Validator SimpleHierarchy FetcherFromNetwork)"

lemma good_run_quiet: "quiet_run good_run new_validator" "quiet_run (take 2 good_run) new_validator"
  by code_simp+

lemma good_run_outcome:
  "Succeeded 0 \<in> set (v_callbacks (validator_run good_run new_validator))"
  "0 < length (v_states (validator_run good_run new_validator))"
  "vs_outcome (v_states (validator_run good_run new_validator) ! 0) = Some True"
  "policy_base SimpleHierarchy = SimpleHierarchy" "\<forall>x \<in> set good_run. ve_sec (fst x) = sample_sec"
  "\<forall>x \<in> set (take 2 good_run). ve_sec (fst x) = sample_sec"
  "length (v_states (validator_run (take 2 good_run) new_validator)) = 1"
  "vs_outcome (v_states (validator_run (take 2 good_run) new_validator) ! 0) = None"
  by (code_simp, code_simp, code_simp, code_simp, simp add: good_run_def env_at_def, simp add: good_run_def env_at_def,
      code_simp, code_simp)

section \<open>Properties\<close>

text \<open>
  C1. In any run of a validator with the hierarchical policy (alone or behind command-interest policies), with
  several validations, answers, timeouts, nacks and changes of the trust anchors in any order, and whatever
  exceptions are thrown: if the success callback of a validation was called, then its packet is authentic.
  That is, its signature verifies under a trusted certificate which the packet's key locator locates and whose
  identity prefix the policy accepts for the packet's name.  A certificate is trusted if it is a trust anchor, or if it
  was valid by the clock of a validation or an answer of the run and is in turn signed by a trusted certificate in this
  way.  The trust anchors are the certificates that the run loaded as such and those that an operation could read from a
  path given to \<open>loadAnchors\<close> (the file, or a file of the directory) since the anchors were last reset; each was valid
  by the clock of that operation.
\<close>

theorem validator_sound:
  assumes pol: "policy_base pol = SimpleHierarchy"
    and sec: "\<forall>x \<in> set ops. ve_sec (fst x) = sec"
    and run: "v = validator_run ops (setMaxDepth n (Validator pol fetcher))"
    and success: "Succeeded i \<in> set (v_callbacks v)"
  shows "i < length (v_states v) \<and> authentic sec (run_anchors {} ops) (run_times ops) (vs_original (v_states v ! i))"
proof -
  note views = validator_run_views [OF pol sec refl run]
  have s: "Succeeded i \<in> set (callbacks_of i v)" using success by (simp add: callbacks_of_def)
  then have i: "i < length (v_states v)" using views(2) [of i] by force
  then show ?thesis using views(1) [OF i] s
    by (auto simp: state_settled_def settled_view_def ended_def state_abandoned_def abandoned_view_def run_trust_def)
qed

theorem validator_sound_witness:
  "authentic sample_sec (run_anchors {} good_run) (run_times good_run) (vs_original (v_states (validator_run good_run new_validator) ! 0))"
  using validator_sound [OF good_run_outcome(4,5) refl good_run_outcome(1) [unfolded new_validator_def]]
  by (simp add: new_validator_def)

text \<open>
  C9. In any run of a validator with the hierarchical policy (alone or behind command-interest policies), whatever
  exceptions are thrown, callbacks are called only for validations that were started, and each validation has called
  exactly one of its callbacks, the one for its outcome, and waits for nothing, or it has called none, has no outcome and
  waits for the answer to at most one interest.  So nothing is called back twice, and nothing is called back while an
  answer is pending.  If no operation throws, a validation that has not called back waits for exactly one answer: none is
  forgotten.
\<close>

theorem validator_one_callback:
  assumes pol: "policy_base pol = SimpleHierarchy"
    and sec: "\<forall>x \<in> set ops. ve_sec (fst x) = sec"
    and run: "v = validator_run ops (setMaxDepth n (Validator pol fetcher))"
  shows "(\<forall>c \<in> set (v_callbacks v). cb_state c < length (v_states v)) \<and>
    (\<forall>i < length (v_states v).
      (vs_outcome (v_states v ! i) = Some True \<and> callbacks_of i v = [Succeeded i] \<and> pending_of i v = []) \<or>
      (\<exists>e. vs_outcome (v_states v ! i) = Some False \<and> callbacks_of i v = [Failed i e] \<and> pending_of i v = []) \<or>
      (vs_outcome (v_states v ! i) = None \<and> callbacks_of i v = [] \<and> length (pending_of i v) \<le> 1 \<and>
        (quiet_run ops (setMaxDepth n (Validator pol fetcher)) \<longrightarrow> length (pending_of i v) = 1)))"
proof -
  note views = validator_run_views [OF pol sec refl run]
  have "cb_state c < length (v_states v)" if "c \<in> set (v_callbacks v)" for c
  proof -
    have "c \<in> set (callbacks_of (cb_state c) v)" using that by (simp add: callbacks_of_def)
    then show ?thesis using views(2) [of "cb_state c"] by force
  qed
  moreover have "vs_outcome (v_states v ! i) = Some True \<and> callbacks_of i v = [Succeeded i] \<and> pending_of i v = [] \<or>
      (\<exists>e. vs_outcome (v_states v ! i) = Some False \<and> callbacks_of i v = [Failed i e] \<and> pending_of i v = []) \<or>
      vs_outcome (v_states v ! i) = None \<and> callbacks_of i v = [] \<and> length (pending_of i v) \<le> 1 \<and>
        (quiet_run ops (setMaxDepth n (Validator pol fetcher)) \<longrightarrow> length (pending_of i v) = 1)" if "i < length (v_states v)" for i
    using views(1) [OF that] views(3) [OF _ that]
    by (auto simp: state_settled_def settled_view_def ended_def awaits_def state_abandoned_def abandoned_view_def)
  ultimately show ?thesis by blast
qed

theorem validator_one_callback_witness:
  "callbacks_of 0 (validator_run good_run new_validator) = [Succeeded 0] \<and> pending_of 0 (validator_run good_run new_validator) = [] \<and>
    callbacks_of 0 (validator_run (take 2 good_run) new_validator) = [] \<and>
    length (pending_of 0 (validator_run (take 2 good_run) new_validator)) = 1"
proof -
  note all = validator_one_callback [OF good_run_outcome(4,5) refl, of 5 FetcherFromNetwork, folded new_validator_def]
  note two = validator_one_callback [OF good_run_outcome(4,6) refl, of 5 FetcherFromNetwork, folded new_validator_def]
  have "callbacks_of 0 (validator_run good_run new_validator) = [Succeeded 0] \<and> pending_of 0 (validator_run good_run new_validator) = []"
    using all good_run_outcome(2,3) by auto
  moreover have "callbacks_of 0 (validator_run (take 2 good_run) new_validator) = [] \<and>
      length (pending_of 0 (validator_run (take 2 good_run) new_validator)) = 1"
    using two good_run_outcome(7,8) good_run_quiet(2) by auto
  ultimately show ?thesis by blast
qed

end
