(* ===== verification/Validator_Ends.thy ===== *)
theory Validator_Ends
  imports Validator_Props
begin

text \<open>
  Validations end: the recursion through the fetcher is bounded by the maximum depth.
\<close>

section \<open>The depth of a validation\<close>

definition at_depth :: "nat \<Rightarrow> nat \<Rightarrow> nat \<Rightarrow> 'w validator \<Rightarrow> bool" where
  "at_depth maxDepth i depth v \<longleftrightarrow> v_maxDepth v = maxDepth \<and> i < length (v_states v) \<and> getDepth (v_states v ! i) = depth"

lemma modify_state_depth:
  "(\<And>s. vs_certificateChain (f s) = vs_certificateChain s) \<Longrightarrow> keeps (at_depth D i d) (modify_state j f)"
  unfolding modify_state_def
  by (rule keeps_modifyS, cases "i = j") (auto simp: at_depth_def getDepth_def)

lemma get_state_depth [intro]: "keeps (at_depth D i d) (get_state j f)"
  unfolding get_state_def by simp

lemma on_storage_depth [intro]: "keeps (at_depth D i d) (on_storage m)"
  by (rule keepsI) (auto simp: wp_def on_storage_def at_depth_def split: prod.splits sum.splits)

lemma callback_depth [intro]: "keeps (at_depth D i d) (callback c)"
  unfolding callback_def by (rule keeps_modifyS) (simp add: at_depth_def)

lemma setOutcome_depth [intro]: "keeps (at_depth D i d) (setOutcome j b)"
  unfolding setOutcome_def by (intro keeps_bindS get_state_depth keeps_if keeps_simple modify_state_depth) simp

lemma vs_fail_depth [intro]: "keeps (at_depth D i d) (vs_fail j e)"
  unfolding vs_fail_def by (intro keeps_bindS callback_depth setOutcome_depth)

lemma hasSeenCertificateName_depth [intro]: "keeps (at_depth D i d) (hasSeenCertificateName j n)"
  unfolding hasSeenCertificateName_def by (intro keeps_bindS get_state_depth keeps_simple modify_state_depth) simp

lemma getKeyLocatorNameFromSignature_depth [intro]: "keeps (at_depth D i d) (getKeyLocatorNameFromSignature j s)"
  unfolding getKeyLocatorNameFromSignature_def by (intro keeps_if keeps_bindS vs_fail_depth keeps_simple)

lemma getKeyLocatorName_depth [intro]: "keeps (at_depth D i d) (getKeyLocatorName j r)"
  by (cases r) (auto intro!: keeps_if keeps_bindS vs_fail_depth keeps_simple)

lemma checkPolicy_data_depth [intro]: "keeps (at_depth D i d) (checkPolicy_data env policy j r)"
  by (induction env policy j r rule: checkPolicy_data.induct)
    (auto simp: hierarchy_decision_def intro!: keeps_if keeps_bindS vs_fail_depth keeps_simple)

lemma continueFetch_depth [intro]: "keeps (at_depth D i d) (continueFetch env k c)"
  by (induction k) (auto intro!: keeps_bindS on_storage_depth)

lemma doFetch_depth [intro]: "keeps (at_depth D i d) (doFetch k j request)"
  unfolding doFetch_def
  by (intro keeps_bindS keeps_simple) (auto split: certificateFetcher.splits intro!: keeps_modifyS simp: at_depth_def)

lemma fetch_depth [intro]: "keeps (at_depth D i d) (fetch env k j request)"
  unfolding fetch_def by (intro keeps_bindS keeps_cases on_storage_depth continueFetch_depth doFetch_depth keeps_simple)

text \<open>A certificate that is accepted makes the chain one longer.\<close>

lemma validateCertificate_depth:
  assumes "at_depth D i d v"
  shows "wp (validateCertificate env i certificate) (\<lambda>r v'. r \<noteq> None \<longrightarrow> at_depth D i (Suc d) v') (\<lambda>_. True) v"
proof -
  have add: "at_depth D i (Suc d) (v\<lparr>v_states := (v_states v)[i := (v_states v ! i)\<lparr>vs_certificateChain := c # vs_certificateChain (v_states v ! i)\<rparr>]\<rparr>)"
    if "at_depth D i d v" for v and c :: "'a certificateV2"
    using that by (simp add: at_depth_def getDepth_def)
  have decided: "wp (case decision of PolicyFailed \<Rightarrow> returnS None
        | Continue None \<Rightarrow> bindS (vs_fail i POLICY_ERROR) (\<lambda>_. returnS None)
        | Continue (Some request) \<Rightarrow> bindS (addCertificate i certificate) (\<lambda>_. returnS (Some request)))
      (\<lambda>r v'. r \<noteq> None \<longrightarrow> at_depth D i (Suc d) v') (\<lambda>_. True) v" if "at_depth D i d v" for decision v
    using that add
    by (auto simp: addCertificate_def modify_state_def split: decision.splits option.splits)
  show ?thesis
  proof (cases "crt_isValid (ve_now env) certificate")
    case (Inl e)
    then show ?thesis by (simp add: validateCertificate_def wp_liftS)
  next
    case (Inr valid)
    show ?thesis
    proof (cases valid)
      case True
      then show ?thesis
        using Inr keeps_wp [OF checkPolicy_data_depth assms decided] by (simp add: validateCertificate_def wp_liftS)
    next
      case False
      then show ?thesis using Inr keeps_wp [OF vs_fail_depth assms] by (simp add: validateCertificate_def wp_liftS)
    qed
  qed
qed

lemma requestCertificate_once_depth:
  assumes v: "at_depth D i d v"
  shows "wp (requestCertificate_once env i request) (\<lambda>r v'. r \<noteq> None \<longrightarrow> d < D \<and> at_depth D i (Suc d) v') (\<lambda>_. True) v"
proof -
  let ?Q = "\<lambda>r v'. r \<noteq> None \<longrightarrow> d < D \<and> at_depth D i (Suc d) v'"
  have deep: "v_maxDepth v = D" "getDepth (v_states v ! i) = d" using v by (simp_all add: at_depth_def)
  have fetched: "wp (case c of None \<Rightarrow> returnS None | Some certificate \<Rightarrow> validateCertificate env i certificate) ?Q (\<lambda>_. True) v'"
    if "at_depth D i d v'" "d < D" for c v'
    using wp_post [OF validateCertificate_depth [OF that(1)]] that(2) by (auto split: option.splits)
  let ?found = "\<lambda>t. case t of Some t \<Rightarrow> bindS (verify_from env i t) (\<lambda>_. returnS None)
      | None \<Rightarrow> bindS (fetch env 0 i request) (\<lambda>c. case c of None \<Rightarrow> returnS None | Some certificate \<Rightarrow> validateCertificate env i certificate)"
  let ?find = "on_storage (findTrustedCertificate (ve_sec env) (ve_files env) (ve_now env) (rq_interest request))"
  have found: "wp (?found t) ?Q (\<lambda>_. True) v'" if "at_depth D i d v'" "d < D" for t v'
    using keeps_wp [OF fetch_depth that(1), of _ env 0 i request, OF fetched] that(2) by (auto split: option.splits)
  show ?thesis
  proof (cases "d \<ge> D")
    case True
    then show ?thesis using deep by (simp add: requestCertificate_once_def get_state_def)
  next
    case False
    then have "wp ?find (\<lambda>t. wp (?found t) ?Q (\<lambda>_. True)) (\<lambda>_. True) v'" if "at_depth D i d v'" for v'
      by (intro keeps_wp [OF on_storage_depth that] found) simp_all
    then have "wp (if seen then bindS (vs_fail i LOOP_DETECTED) (\<lambda>_. returnS None) else bindS ?find ?found) ?Q (\<lambda>_. True) v'"
      if "at_depth D i d v'" for seen v' using that by simp
    then show ?thesis
      using False deep keeps_wp [OF hasSeenCertificateName_depth v]
      by (simp add: requestCertificate_once_def get_state_def)
  qed
qed

text \<open>With one round more than what is left of the depth, the rounds never run out.\<close>

lemma rounds_suffice:
  "at_depth D i d v \<Longrightarrow> D - d < k \<Longrightarrow> D - d < l \<Longrightarrow>
    requestCertificate_rounds k env i request v = requestCertificate_rounds l env i request v"
proof (induction k arbitrary: l d request v)
  case (Suc k)
  obtain l' where l: "l = Suc l'" using Suc.prems(3) by (cases l) auto
  obtain r v' where r: "requestCertificate_once env i request v = (r, v')" by fastforce
  have "requestCertificate_rounds k env i request' v' = requestCertificate_rounds l' env i request' v'" if "r = Inr (Some request')" for request'
  proof (rule Suc.IH)
    show "at_depth D i (Suc d) v'" and "D - Suc d < k" "D - Suc d < l'"
      using requestCertificate_once_depth [OF Suc.prems(1), of env request] r that Suc.prems(2,3) l by (auto simp: wp_def)
  qed
  then show ?case using r l by (auto simp: bindS_def split: sum.splits option.splits)
qed simp

text \<open>
  C22. The recursion of a validation through its certificates ends.  \<open>requestCertificate\<close> makes at most one round more
  than what is left of the maximum depth: allowing any larger number of rounds gives the same result and the same
  state, whatever the stores, the policy and the fetcher answer.
\<close>

theorem requestCertificate_ends:
  assumes "i < length (v_states v)" "v_maxDepth v - getDepth (v_states v ! i) < k"
  shows "requestCertificate_rounds k env i request v = requestCertificate env i request v"
  using rounds_suffice [of "v_maxDepth v" i "getDepth (v_states v ! i)" v k "Suc (v_maxDepth v - getDepth (v_states v ! i))"] assms
  by (simp add: at_depth_def requestCertificate_def bindS_def getS_def get_state_def)

theorem requestCertificate_ends_witness:
  "let v = snd (validate_data (env_at 2000000000) (signed_data [comp ''a'', comp ''x''] [comp ''a'', KEY_COMPONENT, comp ''2''] [8]) new_validator)
   in requestCertificate_rounds 100 (env_at 2000000000) 0 (CertificateRequest (env_at 2000000000) [comp ''a'']) v =
      requestCertificate (env_at 2000000000) 0 (CertificateRequest (env_at 2000000000) [comp ''a'']) v"
proof -
  let ?v = "snd (validate_data (env_at 2000000000) (signed_data [comp ''a'', comp ''x''] [comp ''a'', KEY_COMPONENT, comp ''2''] [8]) new_validator)"
  have "0 < length (v_states ?v)" "v_maxDepth ?v - getDepth (v_states ?v ! 0) < 100" by code_simp+
  then show ?thesis unfolding Let_def by (rule requestCertificate_ends)
qed

section \<open>Where validation falls short\<close>

definition bypass_run :: "(unit validator_env \<times> unit validator_op) list" where
  "bypass_run = map (Pair (env_at 2000000000))
    [LoadAnchor [] root_certificate,
     ValidateData (signed_data [comp ''b'', comp ''x''] [comp ''a'', KEY_COMPONENT] [7])]"

text \<open>
  The hierarchical policy removes two components from the key locator name.  For a key locator of two components
  nothing is left, so the holder of the key of \<open>/a\<close> can sign for \<open>/b\<close> with the key locator \<open>/a/KEY\<close>.
\<close>

lemma hierarchy_bypassed: "v_callbacks (validator_run bypass_run new_validator) = [Succeeded 0]"
  by code_simp

definition hmac_certificate :: "unit data" where
  "hmac_certificate = certificate_data [comp ''a'', KEY_COMPONENT, comp ''2'', comp ''i'', comp ''v'']
    (HmacWithSha256Signature \<lparr>kl_type = KEYNAME, kl_keyData = None, kl_keyName = [comp ''a'', KEY_COMPONENT, comp ''1'']\<rparr> (Some [7])) [8]"

definition silent_run :: "(unit validator_env \<times> unit validator_op) list" where
  "silent_run = map (Pair (env_at 2000000000))
    [LoadAnchor [] root_certificate,
     ValidateData (signed_data [comp ''a'', comp ''x''] [comp ''a'', KEY_COMPONENT, comp ''2''] [8]),
     AnswerData 0 hmac_certificate]"

text \<open>
  A fetched certificate without a validity period makes the cache of unverified certificates throw, so the validation
  ends without a callback.
\<close>

lemma validation_silent:
  "let v = validator_run silent_run new_validator
   in v_callbacks v = [] \<and> v_pending v = [] \<and> map vs_outcome (v_states v) = [None]"
  by code_simp

text \<open>
  The record of the last timestamp of a key takes the timestamp of the command that was validated last, not the highest
  one: when two validations of commands overlap, the later command can be replayed.
\<close>

lemma record_lowers_timestamp:
  "let rs = insertNewRecord 5 [comp ''k''] 10 (insertNewRecord 4 [comp ''k''] 20 [])
   in map ltr_timestamp rs = [10]"
  by code_simp

end
