(* ===== verification/Spec2Isabelle.thy ===== *)
theory Spec2Isabelle
  imports Name_Uri Node_Props Digest_Tree Content_Cache PSync_Exchange Wire_Interest_Props Element_Reader Validator_Ends
begin

text \<open>
  A verification library for NDN-IND, a C++ client library for Named Data Networking.  File names below are
  relative to \<open>src/\<close> of the repository.

  \<^bold>\<open>The program.\<close>  An application talks to a \<open>Face\<close>, which forwards to a \<open>Node\<close>.  The node encodes
  interests, sends them over a transport, and keeps them in a pending interest table until a data packet, a
  network nack or a timeout arrives; it dispatches interests from the network to interest filters.  The bytes
  that a transport delivers are cut into TLV elements by the element reader and decoded by the wire formats
  into \<open>Name\<close>, \<open>Interest\<close> and \<open>Data\<close> objects.  On top of the Face the library has a content cache, a
  fetcher and a publisher of segmented content, the synchronisation protocols ChronoSync and PSync, and a
  validator that checks signatures along a chain of certificates which it fetches through the Face.

  \<^bold>\<open>Groundwork.\<close>  \<open>Prelude\<close> has the machine types, blobs, errors as values of a sum type and the
  shared lemmas.  \<open>Actions\<close> has handlers that update a state and may throw, with weakest preconditions for
  them; the security theories use it.  \<open>Change_Counter\<close> models \<open>util/change-counter.hpp\<close>: the 64-bit counts
  by which an object notices that a part was changed through a reference.  Its locale of tracked objects is
  interpreted for data packets and interests.  \<open>Name_Map\<close> models \<open>std::map\<close> with names as keys.

  \<^bold>\<open>TLV.\<close>  \<open>Tlv\<close> models the encoder (\<open>c/encoding/tlv/tlv-encoder.c\<close>, \<open>c/util/dynamic-uint8-array.c\<close>) and
  \<open>Tlv_Decoder\<close> the decoder (\<open>tlv-decoder.c\<close>): numbers and blobs come back as written, the two passes of nested
  writes agree, and a blob is inside the input exactly when its offset plus its length does not wrap.
  \<open>Wire_Fields\<close> is the theory of field sequences that the packet formats share; \<open>Wire_Name\<close>, \<open>Wire_Data\<close> and
  \<open>Wire_Interest\<close> model \<open>tlv-name.c\<close>, \<open>tlv-key-locator.c\<close>, \<open>tlv-signature-info.c\<close>, \<open>tlv-data.c\<close>,
  \<open>tlv-interest.c\<close>, \<open>tlv-delegation-set.c\<close> and \<open>encoding/tlv-0_3-wire-format.cpp\<close> with the conversions between
  the C++ objects and the C structures.  The round trips say what comes back and what the format loses; a parameters
  digest that does not have 32 bytes is lost on the way to the C structures, as in \<open>Name::Component::get\<close>.
  \<open>Double\<close> and \<open>Iso_Time\<close> have the times that the formats carry.  \<open>Lp_Packet\<close> models the link protocol
  packets.  \<open>Element_Reader\<close> models \<open>c/encoding/element-reader.c\<close> and \<open>tlv-structure-decoder.c\<close> and shows that
  they refine a byte-wise reference: however the bytes are cut, the elements come out whole and in order.

  \<^bold>\<open>Names and packets.\<close>  \<open>Names\<close> models \<open>name.cpp\<close>; \<open>Name_Uri\<close> shows that printing and parsing a URI are
  inverse, \<open>Name_Order\<close> that comparison decides the canonical order.  \<open>Exclude_Filter\<close> models \<open>exclude.cpp\<close>.
  \<open>Data_Packet\<close> and \<open>Interest_Packet\<close> model \<open>data.cpp\<close> and \<open>interest.cpp\<close> with the objects that they own: the
  cached encoding is never out of date after any sequence of operations, and matching a packet against an
  interest follows the selectors.

  \<^bold>\<open>The node.\<close>  \<open>Face_Tables\<close> models the tables of \<open>impl/\<close>, \<open>Node\<close> every handler of \<open>node.cpp\<close>, and
  \<open>Node_Props\<close> shows that a pending interest is called back at most once over any sequence of operations, that
  timeouts are never forgotten, which interests a data packet satisfies, and that removals which come before the entry
  they name do no harm.

  \<^bold>\<open>Content and synchronisation.\<close>  \<open>Content_Cache\<close> models \<open>util/memory-content-cache.cpp\<close>, \<open>Segments\<close> the
  in-memory storage, the PSync segment publisher, which encodes in NDN-TLV, and \<open>util/segment-fetcher.cpp\<close>, \<open>Digest_Tree\<close> the digest tree
  of ChronoSync, and \<open>Iblt\<close> the invertible Bloom lookup table with MurmurHash3.  \<open>PSync_State\<close> and \<open>PSync\<close> model
  \<open>sync/detail/psync-state.cpp\<close>, \<open>psync-producer-base.cpp\<close> and \<open>full-psync2017.cpp\<close>; \<open>PSync_Props\<close> shows that a node
  refines a set of names, and \<open>PSync_Exchange\<close> composes two nodes, the lookup table, the publisher and the fetcher:
  one exchange brings a node up to date, and one hostile sync interest stops it.

  \<^bold>\<open>Security.\<close>  \<open>Certificates\<close> models \<open>security/v2/certificate-v2.cpp\<close>, validity periods and
  \<open>verification-helpers.cpp\<close>; \<open>Certificate_Storage\<close> the certificate caches, the revocation lists and the trust
  anchors; \<open>Validator\<close> the validator with its states, policies and fetchers.  \<open>Storage_Props\<close> shows that a
  lookup in a cache is a linear search over what is not expired, and that stores only hand out what was put in.
  \<open>Validator_Steps\<close> defines trust inductively; \<open>Validator_Props\<close> shows, for runs of any number of validations
  with answers in any order, that a reported success means an authentic packet, with trust that goes back to the
  certificates that the run loaded as anchors or could read from the configured paths, and that each validation calls
  at most one callback, and is not forgotten if nothing throws; \<open>Validator_Ends\<close> bounds the recursion through fetched certificates and has runs in which the policy
  is bypassed or a validation ends without a callback.

  \<^bold>\<open>Composition.\<close>  This theory joins the components: packets that are encoded, cut into pieces by a
  stream, put together by the element reader and decoded.

  \<^bold>\<open>Bounds and fuel.\<close>  \<open>size_t\<close> and change counts are 64-bit words; the theorems that need it say that
  lengths are below 2^63 or that fewer than 2^64 changes were made, which no run reaches.  The wire formats have
  room for 100 components and the element reader for 8800 bytes, as in the source.  Loops that may run for ever
  (skipping nested TLVs, peeling a lookup table) are partial functions into options, with theorems on when they
  return.  The recursion of the validator through its fetcher is bounded by what is left of its maximum depth,
  because each round adds a certificate to the chain.  Callbacks of the application, packets sent and log output
  are results of an operation, or left out when they do not matter.

  \<^bold>\<open>Not modelled.\<close>  Transports, sockets, asio and threads are system calls; the node is modelled with the
  transport as an argument.  OpenSSL, zlib, SQLite, protobuf and X.509 parsing are other libraries; hashes,
  signatures and compression are arguments, with what is assumed of them named in the theorems.  The key chain
  with its key stores, encryption and access control are clients of those libraries.  The regular expression
  matcher and the validator configuration files, ChronoSync's message exchange, the user prefixes of PSync, control
  parameters and the Lite wrappers are left out, as are tools, examples and tests.
\<close>

section \<open>Packets over a stream\<close>

lemma data_encoding_packet:
  assumes "data_wire_ok v" "Tlv0_3_encodeData v = Some (Inr sb)" "length (sb_bytes sb) \<le> MAX_NDN_PACKET_SIZE"
  shows "packet (sb_bytes sb)"
proof -
  obtain sig fs where sig: "dv_signature v = Some sig" "signature_info sig fs" and ok: "name_wire_ok (dv_name v)" "metaInfo_wire_ok (dv_metaInfo v)"
    using assms(1) by (auto simp: data_wire_ok_def signature_wire_ok_def split: option.splits)
  then have bytes: "sb_bytes sb = tlvBytes 6 (data_value v fs)"
    using Tlv0_3_encodeData_eq [OF ok sig] assms(2) by (auto simp: data_encoding_def data_value_def Let_def)
  then have "length (data_value v fs) < 2 ^ 64"
    using assms(3) by (simp add: tlvBytes_def MAX_NDN_PACKET_SIZE_def del: length_tlvBytes)
  then show ?thesis using packet_tlvBytes bytes by simp
qed

text \<open>
  C8. From one application to another.  Data packets whose fields the format can carry (with 32 bytes in every parameters digest
  of their names), encoded in TLV to at most 8800 bytes each
  and sent over a stream that delivers their bytes in pieces of any size, are put together again by the element reader, one
  element for each packet and in order, and decoding the elements gives the values of the packets.
\<close>

theorem data_over_stream:
  assumes "\<forall>v \<in> set vs. data_wire_ok v" and "map Tlv0_3_encodeData vs = map (\<lambda>sb. Some (Inr sb)) sbs"
    and "\<forall>sb \<in> set sbs. length (sb_bytes sb) \<le> MAX_NDN_PACKET_SIZE" and "concat pieces = concat (map sb_bytes sbs)"
    and "\<forall>p \<in> set pieces. length p < 2 ^ 63" and "er_ready buffer er"
  shows "\<exists>er' els. receive_all (\<lambda>_. False) pieces (er_initialize True buffer False er) = (er', els, replicate (length pieces) ER_success) \<and>
    list_all2 (\<lambda>el v. \<exists>b b'. Tlv0_3_decodeData malformed el = Some (Inr (wire_data v, b, b'))) els vs"
proof -
  have each: "data_wire_ok v \<and> Tlv0_3_encodeData v = Some (Inr sb) \<and> length (sb_bytes sb) \<le> MAX_NDN_PACKET_SIZE"
    if "(sb, v) \<in> set (zip sbs vs)" for sb v
    using that assms(1-3) by (auto simp: list_eq_iff_nth_eq in_set_zip)
  have len: "length sbs = length vs" using arg_cong [OF assms(2), of length] by simp
  have decode: "\<exists>b b'. Tlv0_3_decodeData malformed (sb_bytes sb) = Some (Inr (wire_data v, b, b'))" if "(sb, v) \<in> set (zip sbs vs)" for sb v
  proof -
    have "\<forall>sb'. Tlv0_3_encodeData v = Some (Inr sb') \<longrightarrow> length (sb_bytes sb') < 2 ^ 63"
      using each [OF that] by (auto simp: MAX_NDN_PACKET_SIZE_def)
    then show ?thesis using data_wire [of v] each [OF that] by fastforce
  qed
  have "packet p \<and> length p \<le> MAX_NDN_PACKET_SIZE" if p: "p \<in> set (map sb_bytes sbs)" for p
  proof -
    obtain sb where sb: "sb \<in> set sbs" "p = sb_bytes sb" using p by auto
    then obtain v where "(sb, v) \<in> set (zip sbs vs)" using len by (metis in_set_impl_in_set_zip1)
    then show ?thesis using each data_encoding_packet sb(2) by blast
  qed
  then obtain er' where "receive_all (\<lambda>_. False) pieces (er_initialize True buffer False er) = (er', map sb_bytes sbs, replicate (length pieces) ER_success)"
    using receive_packets [OF assms(6,4) _ assms(5), of "\<lambda>_. False"] by blast
  moreover have "list_all2 (\<lambda>el v. \<exists>b b'. Tlv0_3_decodeData malformed el = Some (Inr (wire_data v, b, b'))) (map sb_bytes sbs) vs"
    using decode len by (auto simp: list_all2_iff zip_map1)
  ultimately show ?thesis by blast
qed

theorem data_over_stream_witness:
  "\<exists>bytes er' el v b b'. receive_all (\<lambda>_. False) [take 3 bytes, drop 3 bytes] (er_initialize True \<lparr>da_array = [], da_realloc = True\<rparr> False sample_reader) =
      (er', [el], [ER_success, ER_success]) \<and> Tlv0_3_decodeData (\<lambda>_. 0) el = Some (Inr (v, b, b')) \<and> dv_content v = Some [1, 2]"
proof -
  let ?sb = "data_encoding packet_values [(27, nonNegativeIntegerBytes 0)]"
  let ?pieces = "[take 3 (sb_bytes ?sb), drop 3 (sb_bytes ?sb)]"
  have ready: "er_ready \<lparr>da_array = [], da_realloc = True\<rparr> sample_reader" by (simp add: er_ready_def sample_reader_def)
  have ok: "\<forall>v \<in> set [packet_values]. data_wire_ok v" "map Tlv0_3_encodeData [packet_values] = map (\<lambda>sb. Some (Inr sb)) [?sb]"
    "\<forall>sb \<in> set [?sb]. length (sb_bytes sb) \<le> MAX_NDN_PACKET_SIZE" "concat ?pieces = concat (map sb_bytes [?sb])" "\<forall>p \<in> set ?pieces. length p < 2 ^ 63"
    using packet_values_ok less_imp_diff_less [OF less_trans [OF packet_values_ok(3)], of "2 ^ 63" 3] by (simp_all add: MAX_NDN_PACKET_SIZE_def min_less_iff_disj)
  have "dv_content (wire_data packet_values) = Some [1, 2]" by (simp add: packet_values_def wire_data_def)
  then show ?thesis using data_over_stream [OF ok ready, of "\<lambda>_. 0"] by (fastforce simp: list_all2_Cons2)
qed

end
